(* ===== verification/Kernel_Prelude.thy ===== *)
theory Kernel_Prelude
  imports Main "HOL-Library.Word" "HOL-Library.Monad_Syntax"
begin

section \<open>Shared notions: byte buffers, checked accesses, searches over fixed tables\<close>

text \<open>
  Types and helper lemmas every component uses.  A C array of characters is the list of its
  bytes; a pointer into it is the suffix of the array from that position on; a pointer that may
  be \<open>NULL\<close> is an \<open>option\<close>.  A computation of type \<open>'a option\<close> is \<open>None\<close> when the C code
  would read or write outside the object it points to (undefined behaviour), so a theorem that
  some operation returns \<open>Some\<close> is a memory-safety statement.

  The collection \<open>cbuf_simps\<close> holds the equations that replace the byte-level loops of
  kernel/string.c by their closed forms on terminated strings.
\<close>

named_theorems cbuf_simps \<open>closed forms of the C string loops\<close>

type_synonym byte = "8 word"
type_synonym cbuf = "byte list"
type_synonym cptr = "byte list option"

declare Option.bind_cong [fundef_cong]

subsection \<open>Bytes and string literals\<close>

definition bytes_of :: "string \<Rightarrow> byte list" where
  "bytes_of s = map of_char s"

text \<open>A C string literal is an array that ends with its terminator.\<close>

definition lit :: "string \<Rightarrow> cbuf" where
  "lit s = bytes_of s @ [0]"

text \<open>An automatic array of \<open>n\<close> bytes.  The code never reads such an array before it has
  written it, so its first content is irrelevant and taken to be zero.\<close>

definition fresh :: "nat \<Rightarrow> cbuf" where
  "fresh n = replicate n 0"

lemma length_fresh [simp]: "length (fresh n) = n"
  by (simp add: fresh_def)

subsection \<open>The string held by a buffer\<close>

definition cstr :: "cbuf \<Rightarrow> byte list" where
  "cstr b = takeWhile (\<lambda>c. c \<noteq> 0) b"

definition terminated :: "cbuf \<Rightarrow> bool" where
  "terminated b \<longleftrightarrow> 0 \<in> set b"

lemma cstr_Nil [simp]: "cstr [] = []"
  by (simp add: cstr_def)

lemma cstr_Cons [simp]: "cstr (c # b) = (if c = 0 then [] else c # cstr b)"
  by (simp add: cstr_def)

lemma terminated_Nil [simp]: "\<not> terminated []"
  by (simp add: terminated_def)

lemma terminated_Cons [simp]: "terminated (c # b) \<longleftrightarrow> c = 0 \<or> terminated b"
  by (auto simp: terminated_def)

lemma zero_notin_cstr [simp]: "0 \<notin> set (cstr b)"
  by (induction b) auto

lemma length_cstr_le: "length (cstr b) \<le> length b"
  by (simp add: cstr_def length_takeWhile_le)

lemma terminated_iff_length: "terminated b \<longleftrightarrow> length (cstr b) < length b"
  by (induction b) (auto simp: length_cstr_le)

lemma terminated_split: "terminated b \<Longrightarrow> b = cstr b @ 0 # drop (Suc (length (cstr b))) b"
  by (induction b) auto

lemma cstr_append_zero [simp]: "0 \<notin> set xs \<Longrightarrow> cstr (xs @ 0 # ys) = xs"
  by (induction xs) auto

lemma cstr_app: "0 \<notin> set xs \<Longrightarrow> cstr (xs @ ys) = xs @ cstr ys"
  by (induction xs) auto

lemma terminated_append_zero [simp]: "terminated (xs @ 0 # ys)"
  by (simp add: terminated_def)

lemma cstr_eq_Nil_iff: "terminated b \<Longrightarrow> cstr b = [] \<longleftrightarrow> hd b = 0"
  by (cases b) auto

lemma cstr_drop: "n \<le> length (cstr b) \<Longrightarrow> cstr (drop n b) = drop n (cstr b)"
proof (induction b arbitrary: n)
  case Nil then show ?case by simp
next
  case (Cons c b) then show ?case by (cases n) (auto split: if_splits)
qed

lemma terminated_drop: "terminated b \<Longrightarrow> n \<le> length (cstr b) \<Longrightarrow> terminated (drop n b)"
proof (induction b arbitrary: n)
  case Nil then show ?case by simp
next
  case (Cons c b) then show ?case by (cases n) (auto split: if_splits)
qed

lemma zero_notin_bytes_of: "0 \<notin> set (bytes_of s) \<Longrightarrow> cstr (lit s) = bytes_of s"
  by (simp add: lit_def)

lemma terminated_lit [simp]: "terminated (lit s)"
  by (simp add: lit_def terminated_def)

subsection \<open>Checked accesses\<close>

definition rd :: "'a list \<Rightarrow> nat \<Rightarrow> 'a option" where
  "rd xs i = (if i < length xs then Some (xs ! i) else None)"

definition wr :: "'a list \<Rightarrow> nat \<Rightarrow> 'a \<Rightarrow> 'a list option" where
  "wr xs i x = (if i < length xs then Some (xs[i := x]) else None)"

lemma rd_in [simp]: "i < length xs \<Longrightarrow> rd xs i = Some (xs ! i)"
  by (simp add: rd_def)

lemma wr_in [simp]: "i < length xs \<Longrightarrow> wr xs i x = Some (xs[i := x])"
  by (simp add: wr_def)

lemma wr_length: "wr xs i x = Some ys \<Longrightarrow> length ys = length xs"
  by (auto simp: wr_def split: if_splits)

text \<open>Writing the string \<open>xs\<close> and its terminator at the start of an array, the common closed
  form of the copying loops.\<close>

definition put_str :: "cbuf \<Rightarrow> byte list \<Rightarrow> cbuf option" where
  "put_str dest xs =
     (if length xs < length dest then Some (xs @ 0 # drop (Suc (length xs)) dest) else None)"

lemma put_str_fits: "length xs < length dest \<Longrightarrow>
    put_str dest xs = Some (xs @ 0 # drop (Suc (length xs)) dest)"
  by (simp add: put_str_def)

lemma put_str_length: "put_str dest xs = Some d \<Longrightarrow> length d = length dest"
  by (auto simp: put_str_def split: if_splits)

lemma put_str_cstr: "put_str dest xs = Some d \<Longrightarrow> 0 \<notin> set xs \<Longrightarrow> cstr d = xs"
  by (auto simp: put_str_def split: if_splits)

lemma put_str_terminated: "put_str dest xs = Some d \<Longrightarrow> terminated d"
  by (auto simp: put_str_def split: if_splits)

lemma put_str_None_iff: "put_str dest xs = None \<longleftrightarrow> length dest \<le> length xs"
  by (auto simp: put_str_def)

lemma put_str_put_str:
  "put_str dest xs = Some d \<Longrightarrow> length xs \<le> length ys \<Longrightarrow> put_str d ys = put_str dest ys"
  by (auto simp: put_str_def drop_Cons' split: if_splits)

subsection \<open>Searching a table\<close>

text \<open>The first index whose entry satisfies a predicate: what the linear searches of the kernel
  (over users, over filesystem nodes, over the command table) compute.\<close>

fun first_index :: "('a \<Rightarrow> bool) \<Rightarrow> 'a list \<Rightarrow> nat option" where
  "first_index P [] = None"
| "first_index P (x # xs) = (if P x then Some 0 else map_option Suc (first_index P xs))"

lemma first_index_Some:
  "first_index P xs = Some i \<longleftrightarrow> i < length xs \<and> P (xs ! i) \<and> (\<forall>j < i. \<not> P (xs ! j))"
proof (induction xs arbitrary: i)
  case Nil then show ?case by simp
next
  case (Cons x xs)
  show ?case
  proof (cases i)
    case 0
    then show ?thesis by auto
  next
    case (Suc k)
    then show ?thesis using Cons.IH [of k] by (auto simp: less_Suc_eq_0_disj)
  qed
qed

lemma first_index_None: "first_index P xs = None \<longleftrightarrow> (\<forall>x \<in> set xs. \<not> P x)"
  by (induction xs) auto

lemma first_index_unique:
  "i < length xs \<Longrightarrow> P (xs ! i) \<Longrightarrow> (\<And>j. j < length xs \<Longrightarrow> P (xs ! j) \<Longrightarrow> j = i) \<Longrightarrow>
     first_index P xs = Some i"
  unfolding first_index_Some by (metis less_trans nat_neq_iff)

text \<open>The C convention for the result of a search: the index, or \<open>-1\<close>.\<close>

definition index_or_minus1 :: "nat option \<Rightarrow> int" where
  "index_or_minus1 r = (case r of None \<Rightarrow> -1 | Some i \<Rightarrow> int i)"

lemma index_or_minus1_simps [simp]:
  "index_or_minus1 None = -1" "index_or_minus1 (Some i) = int i"
  by (simp_all add: index_or_minus1_def)

subsection \<open>Options\<close>

lemma bind_Some_iff: "Option.bind m f = Some y \<longleftrightarrow> (\<exists>x. m = Some x \<and> f x = Some y)"
  by (cases m) auto

end
