(* ===== verification/C_Strings.thy ===== *)
theory C_Strings
  imports Kernel_Prelude
begin

section \<open>The contract of a C string library\<close>

text \<open>
  kernel/string.c and src/string.c are two string libraries that their clients use in the same way:
  measure, copy, append, compare.  The locale \<open>c_strings\<close> states what a client relies on, for terminated
  strings; both libraries are interpretations of it, and a second locale compares two libraries.
\<close>

locale c_strings =
  fixes len :: "cbuf \<Rightarrow> nat option"
    and copy :: "cbuf \<Rightarrow> cbuf \<Rightarrow> cbuf option"
    and append :: "cbuf \<Rightarrow> cbuf \<Rightarrow> cbuf option"
    and compare :: "cbuf \<Rightarrow> cbuf \<Rightarrow> int option"
  assumes len_law: "terminated s \<Longrightarrow> len s = Some (length (cstr s))"
    and copy_law: "terminated s \<Longrightarrow> copy d s = put_str d (cstr s)"
    and append_law: "terminated d \<Longrightarrow> terminated s \<Longrightarrow> append d s = put_str d (cstr d @ cstr s)"
    and compare_law: "terminated a \<Longrightarrow> terminated b \<Longrightarrow> \<exists>r. compare a b = Some r \<and> (r = 0 \<longleftrightarrow> cstr a = cstr b)"
begin

lemma compare_zero: "terminated a \<Longrightarrow> terminated b \<Longrightarrow> compare a b = Some 0 \<longleftrightarrow> cstr a = cstr b"
  using compare_law by fastforce

lemma compareE:
  assumes "terminated a" "terminated b"
  obtains r where "compare a b = Some r" "r = 0 \<longleftrightarrow> cstr a = cstr b"
  using compare_law [OF assms] by blast

text \<open>A copy that fits compares equal to its source and has its length.\<close>

lemma copy_fits:
  assumes "terminated s" "length (cstr s) < length d"
  obtains d' where "copy d s = Some d'" "length d' = length d" "terminated d'" "compare d' s = Some 0" "len d' = len s"
proof -
  obtain d' where d: "put_str d (cstr s) = Some d'" using put_str_fits [OF assms(2)] by blast
  then have "terminated d'" "cstr d' = cstr s" by (simp_all add: put_str_terminated put_str_cstr)
  then show ?thesis
    using that [of d'] copy_law [OF assms(1), of d] d put_str_length [OF d]
    by (simp add: compare_zero len_law assms(1))
qed

text \<open>Appending to what has been written joins the strings: undefined exactly when the array is too
  short for both.\<close>

lemma put_append:
  assumes "0 \<notin> set xs" "terminated b"
  shows "do { d' \<leftarrow> put_str d xs; append d' b } = put_str d (xs @ cstr b)"
proof (cases "put_str d xs")
  case None
  then have "put_str d (xs @ cstr b) = None" by (simp add: put_str_None_iff)
  then show ?thesis using None by simp
next
  case (Some d')
  have "append d' b = put_str d' (xs @ cstr b)"
    using append_law [OF put_str_terminated [OF Some] assms(2)] put_str_cstr [OF Some assms(1)] by simp
  then show ?thesis using put_str_put_str [OF Some, of "xs @ cstr b"] Some by simp
qed

lemma copy_append:
  assumes "terminated a" "terminated b"
  shows "do { d' \<leftarrow> copy d a; append d' b } = put_str d (cstr a @ cstr b)"
  using put_append [OF _ assms(2), of "cstr a" d] copy_law [OF assms(1), of d] by simp

end

locale c_strings_pair =
  one: c_strings len copy append compare + two: c_strings len' copy' append' compare'
  for len copy append compare len' copy' append' compare'
begin

lemma agree:
  assumes "terminated s" "terminated t"
  shows "len s = len' s" "copy d s = copy' d s" "append s t = append' s t"
    "compare s t = Some 0 \<longleftrightarrow> compare' s t = Some 0" "compare s t \<noteq> None" "compare' s t \<noteq> None"
  using assms one.compare_law [OF assms] two.compare_law [OF assms]
  by (auto simp: one.len_law two.len_law one.copy_law two.copy_law one.append_law two.append_law
      one.compare_zero two.compare_zero)

end

end
