(* ===== verification/Kernel_String.thy ===== *)
theory Kernel_String
  imports C_Strings
begin

section \<open>kernel/string.c: C strings\<close>

text \<open>
  Every function of kernel/string.c, as a recursion over the bytes its loop visits, with the
  reads and writes checked against the arrays (\<open>None\<close> = an access outside an array).  The
  second half proves, for each loop, its closed form in terms of \<open>cstr\<close> (the string a buffer
  holds) and \<open>put_str\<close>; the other components use only the closed forms (\<open>cbuf_simps\<close>).
\<close>

subsection \<open>The functions\<close>

fun str_len_loop :: "cbuf \<Rightarrow> nat option" where
  "str_len_loop [] = None"
| "str_len_loop (c # s) = (if c \<noteq> 0 then map_option Suc (str_len_loop s) else Some 0)"

definition str_len :: "cptr \<Rightarrow> nat option" where
  "str_len str = (case str of None \<Rightarrow> Some 0 | Some s \<Rightarrow> str_len_loop s)"

text \<open>\<open>while (src && *src) *dest++ = *src++; *dest = 0;\<close> on the rest of both arrays; the result
  is the rest of the destination array after the call.\<close>

fun str_copy_loop :: "cbuf \<Rightarrow> cbuf \<Rightarrow> cbuf option" where
  "str_copy_loop dest [] = None"
| "str_copy_loop dest (c # src) =
     (if c \<noteq> 0
      then (case dest of [] \<Rightarrow> None
            | _ # dest' \<Rightarrow> map_option (\<lambda>r. c # r) (str_copy_loop dest' src))
      else wr dest 0 0)"

definition str_copy :: "cbuf \<Rightarrow> cptr \<Rightarrow> cbuf option" where
  "str_copy dest src = (case src of None \<Rightarrow> wr dest 0 0 | Some s \<Rightarrow> str_copy_loop dest s)"

text \<open>\<open>max_len\<close> counts what is left of it: the guard \<open>i + 1 < max_len\<close> at index \<open>i\<close> is
  \<open>1 < max_len - i\<close>.\<close>

fun str_copy_n_loop :: "cbuf \<Rightarrow> cbuf \<Rightarrow> nat \<Rightarrow> cbuf option" where
  "str_copy_n_loop dest [] left = None"
| "str_copy_n_loop dest (c # src) left =
     (if c \<noteq> 0 \<and> 1 < left
      then (case dest of [] \<Rightarrow> None
            | _ # dest' \<Rightarrow> map_option (\<lambda>r. c # r) (str_copy_n_loop dest' src (left - 1)))
      else wr dest 0 0)"

definition str_copy_n :: "cbuf \<Rightarrow> cptr \<Rightarrow> nat \<Rightarrow> cbuf option" where
  "str_copy_n dest src max_len =
     (if max_len = 0 then Some dest
      else (case src of None \<Rightarrow> wr dest 0 0 | Some s \<Rightarrow> str_copy_n_loop dest s max_len))"

fun str_concat_loop :: "cbuf \<Rightarrow> nat \<Rightarrow> cbuf \<Rightarrow> cbuf option" where
  "str_concat_loop dest i [] = None"
| "str_concat_loop dest i (c # src) =
     (if c \<noteq> 0 then do { dest' \<leftarrow> wr dest i c; str_concat_loop dest' (Suc i) src }
      else wr dest i 0)"

definition str_concat :: "cbuf \<Rightarrow> cptr \<Rightarrow> cbuf option" where
  "str_concat dest src = do {
     i \<leftarrow> str_len (Some dest);
     (case src of None \<Rightarrow> wr dest i 0 | Some s \<Rightarrow> str_concat_loop dest i s) }"

fun str_compare :: "cbuf \<Rightarrow> cbuf \<Rightarrow> int option" where
  "str_compare (a # as) (b # bs) =
     (if a \<noteq> 0 \<and> a = b then str_compare as bs else Some (uint a - uint b))"
| "str_compare as bs = None"

fun str_compare_n :: "cbuf \<Rightarrow> cbuf \<Rightarrow> nat \<Rightarrow> int option" where
  "str_compare_n as bs 0 = Some 0"
| "str_compare_n (a # as) (b # bs) (Suc n) =
     (if a \<noteq> b \<or> a = 0 \<or> b = 0 then Some (uint a - uint b) else str_compare_n as bs n)"
| "str_compare_n as bs (Suc n) = None"

definition is_blank :: "byte \<Rightarrow> bool" where
  "is_blank c \<longleftrightarrow> c = 0x20 \<or> c = 0x09 \<or> c = 0x0A"

fun trim_start :: "cbuf \<Rightarrow> nat option" where
  "trim_start [] = None"
| "trim_start (c # s) = (if is_blank c then map_option Suc (trim_start s) else Some 0)"

fun trim_end :: "cbuf \<Rightarrow> nat \<Rightarrow> nat \<Rightarrow> nat option" where
  "trim_end s start 0 = Some 0"
| "trim_end s start (Suc e) =
     (if Suc e > start then do {
        c \<leftarrow> rd s e;
        (if is_blank c then trim_end s start e else Some (Suc e)) }
      else Some (Suc e))"

text \<open>\<open>while (start < end) str[out++] = str[start++]; str[out] = 0;\<close> with \<open>n = end - start\<close>
  bytes to go.\<close>

fun trim_shift :: "cbuf \<Rightarrow> nat \<Rightarrow> nat \<Rightarrow> nat \<Rightarrow> cbuf option" where
  "trim_shift s out start 0 = wr s out 0"
| "trim_shift s out start (Suc n) = do {
     c \<leftarrow> rd s start;
     s' \<leftarrow> wr s out c;
     trim_shift s' (Suc out) (Suc start) n }"

definition str_trim :: "cbuf \<Rightarrow> cbuf option" where
  "str_trim s = do {
     end0 \<leftarrow> str_len (Some s);
     start \<leftarrow> trim_start s;
     end1 \<leftarrow> trim_end s start end0;
     trim_shift s 0 start (end1 - start) }"

fun str_starts_with :: "cbuf \<Rightarrow> cbuf \<Rightarrow> bool option" where
  "str_starts_with s [] = None"
| "str_starts_with s (p # prefix) =
     (if p \<noteq> 0 then (case s of [] \<Rightarrow> None
        | c # s' \<Rightarrow> if c \<noteq> p then Some False else str_starts_with s' prefix)
      else Some True)"

fun last_index_loop :: "cbuf \<Rightarrow> byte \<Rightarrow> int \<Rightarrow> int \<Rightarrow> int option" where
  "last_index_loop [] c i latest = None"
| "last_index_loop (x # s) c i latest =
     (if x \<noteq> 0 then last_index_loop s c (i + 1) (if x = c then i else latest)
      else Some latest)"

definition str_last_index_of :: "cbuf \<Rightarrow> byte \<Rightarrow> int option" where
  "str_last_index_of s c = last_index_loop s c 0 (-1)"

abbreviation slash :: byte where
  "slash \<equiv> 0x2F"

definition path_get_filename :: "cbuf \<Rightarrow> cbuf option" where
  "path_get_filename path = do {
     idx \<leftarrow> str_last_index_of path slash;
     Some (if idx < 0 then path else drop (nat idx + 1) path) }"

text \<open>The loop of \<open>path_get_dirname\<close>: bytes \<open>i .. idx - 1\<close>, at most up to index 126, with a
  terminator after each.\<close>

function dirname_loop :: "cbuf \<Rightarrow> cbuf \<Rightarrow> nat \<Rightarrow> nat \<Rightarrow> cbuf option" where
  "dirname_loop dirname path i idx =
     (if i < idx \<and> i < 127 then do {
        c \<leftarrow> rd path i;
        d1 \<leftarrow> wr dirname i c;
        d2 \<leftarrow> wr d1 (i + 1) 0;
        dirname_loop d2 path (i + 1) idx }
      else Some dirname)"
  by pat_completeness auto
termination
  by (relation "measure (\<lambda>(d, p, i, idx). idx - i)") auto

declare dirname_loop.simps [simp del]

text \<open>The static buffer of \<open>path_get_dirname\<close> is an argument: the array before the call in, the
  array after it out.  \<open>path_get_dirname_eq\<close> shows that the string it holds afterwards
  does not depend on what it held before.\<close>

definition path_get_dirname :: "cbuf \<Rightarrow> cbuf \<Rightarrow> cbuf option" where
  "path_get_dirname dirname path = do {
     idx \<leftarrow> str_last_index_of path slash;
     (if idx \<le> 0 then str_copy dirname (Some (lit ''/''))
      else dirname_loop dirname path 0 (nat idx)) }"

subsection \<open>Closed forms\<close>

lemma str_len_loop_eq: "str_len_loop s = (if terminated s then Some (length (cstr s)) else None)"
  by (induction s) auto

lemma str_len_Some [cbuf_simps]: "terminated s \<Longrightarrow> str_len (Some s) = Some (length (cstr s))"
  by (simp add: str_len_def str_len_loop_eq)

lemma str_copy_loop_eq:
  "str_copy_loop dest src = (if terminated src then put_str dest (cstr src) else None)"
  by (induction dest src rule: str_copy_loop.induct)
    (auto simp: put_str_def wr_def drop_Cons' neq_Nil_conv split: list.splits option.splits)

lemma str_copy_eq [cbuf_simps]:
  "terminated src \<Longrightarrow> str_copy dest (Some src) = put_str dest (cstr src)"
  by (simp add: str_copy_def str_copy_loop_eq)

lemma str_copy_n_loop_eq:
  "terminated src \<Longrightarrow> 0 < n \<Longrightarrow>
     str_copy_n_loop dest src n = put_str dest (take (n - 1) (cstr src))"
proof (induction dest src n rule: str_copy_n_loop.induct)
  case (2 dest c src left)
  show ?case
  proof (cases "c \<noteq> 0 \<and> 1 < left")
    case True
    then obtain m where m: "left = Suc (Suc m)"
      by (auto dest!: less_imp_Suc_add)
    with 2 True show ?thesis
      by (cases dest) (auto simp: put_str_def)
  next
    case False
    with 2 show ?thesis
      by (cases dest) (auto simp: put_str_def wr_def)
  qed
qed simp

lemma str_copy_n_eq [cbuf_simps]:
  "terminated src \<Longrightarrow> 0 < n \<Longrightarrow>
     str_copy_n dest (Some src) n = put_str dest (take (n - 1) (cstr src))"
  by (simp add: str_copy_n_def str_copy_n_loop_eq)

lemma list_update_app:
  "i = length xs \<Longrightarrow> ys \<noteq> [] \<Longrightarrow> (xs @ ys)[i := c] = (xs @ [c]) @ tl ys"
  by (cases ys) (auto simp: list_update_append)

lemma str_concat_loop_eq:
  "terminated src \<Longrightarrow> i \<le> length dest \<Longrightarrow>
     str_concat_loop dest i src = put_str dest (take i dest @ cstr src)"
proof (induction dest i src rule: str_concat_loop.induct)
  case (2 dest i c src)
  show ?case
  proof (cases "i < length dest")
    case True
    then have tk: "take (Suc i) (dest[i := c]) = take i dest @ [c]"
      by (simp add: take_Suc_conv_app_nth)
    have upd0: "dest[i := 0] = take i dest @ 0 # drop (Suc i) dest"
      using True by (rule upd_conv_take_nth_drop)
    show ?thesis
    proof (cases "c = 0")
      case True
      then show ?thesis using \<open>i < length dest\<close> upd0 by (simp add: put_str_def)
    next
      case False
      with 2 \<open>i < length dest\<close> have
        "str_concat_loop dest i (c # src) = put_str (dest[i := c]) (take i dest @ c # cstr src)"
        by (simp add: tk)
      also have "\<dots> = put_str dest (take i dest @ c # cstr src)"
        using True by (simp add: put_str_def)
      finally show ?thesis using False by simp
    qed
  next
    case False
    with 2 show ?thesis by (auto simp: put_str_def wr_def)
  qed
qed simp

lemma str_concat_eq [cbuf_simps]:
  assumes "terminated dest" "terminated src"
  shows "str_concat dest (Some src) = put_str dest (cstr dest @ cstr src)"
proof -
  from assms(1) have tk: "take (length (cstr dest)) dest = cstr dest"
    by (metis append_eq_conv_conj terminated_split)
  show ?thesis
    using assms tk
    by (simp add: str_concat_def str_len_Some str_concat_loop_eq length_cstr_le)
qed

lemma byte_uint_eq: "uint a = uint b \<longleftrightarrow> a = b" "uint a = 0 \<longleftrightarrow> a = 0" for a b :: byte
  by (simp_all add: word_uint_eq_iff)

lemma str_compare_terminated:
  "terminated a \<Longrightarrow> terminated b \<Longrightarrow> \<exists>r. str_compare a b = Some r \<and> (r = 0 \<longleftrightarrow> cstr a = cstr b)"
  by (induction a b rule: str_compare.induct) (auto simp: byte_uint_eq)

text \<open>The library gives the contract of \<open>C_Strings\<close>.\<close>

interpretation kstr: c_strings "\<lambda>s. str_len (Some s)" "\<lambda>d s. str_copy d (Some s)"
    "\<lambda>d s. str_concat d (Some s)" str_compare
  by unfold_locales (simp_all add: str_len_Some str_copy_eq str_concat_eq str_compare_terminated)

lemmas str_compareE = kstr.compareE

declare kstr.compare_zero [cbuf_simps]

lemmas str_compare_zero_iff = kstr.compare_zero

lemma str_compare_n_terminated:
  "terminated a \<Longrightarrow> terminated b \<Longrightarrow>
     \<exists>r. str_compare_n a b n = Some r \<and> (r = 0 \<longleftrightarrow> take n (cstr a) = take n (cstr b))"
  by (induction a b n rule: str_compare_n.induct) (auto simp: byte_uint_eq)

lemma str_starts_with_eq [cbuf_simps]:
  "terminated s \<Longrightarrow> terminated p \<Longrightarrow>
     str_starts_with s p = Some (take (length (cstr p)) (cstr s) = cstr p)"
  by (induction s p rule: str_starts_with.induct) (auto split: list.splits)

subsection \<open>Trimming\<close>

definition trim_spec :: "byte list \<Rightarrow> byte list" where
  "trim_spec xs = rev (dropWhile is_blank (rev (dropWhile is_blank xs)))"

lemma not_is_blank_0 [simp]: "\<not> is_blank 0"
  by (simp add: is_blank_def)

lemma trim_start_eq:
  "terminated s \<Longrightarrow> trim_start s = Some (length (takeWhile is_blank (cstr s)))"
  by (induction s) auto

text \<open>Backward scan: the end moves down to just behind the last non-blank byte, but never below
  \<open>start\<close>.\<close>

lemma trim_end_eq:
  "start \<le> e \<Longrightarrow> e \<le> length s \<Longrightarrow>
     \<exists>e'. trim_end s start e = Some e' \<and> start \<le> e' \<and> e' \<le> e \<and>
       take (e' - start) (drop start s) =
         rev (dropWhile is_blank (rev (take (e - start) (drop start s))))"
proof (induction e)
  case 0 then show ?case by simp
next
  case (Suc e)
  show ?case
  proof (cases "start \<le> e")
    case False
    with Suc.prems show ?thesis by auto
  next
    case True
    have split: "take (Suc e - start) (drop start s) = take (e - start) (drop start s) @ [s ! e]"
      using True Suc.prems by (simp add: Suc_diff_le take_Suc_conv_app_nth)
    show ?thesis
    proof (cases "is_blank (s ! e)")
      case True
      with Suc \<open>start \<le> e\<close> split show ?thesis by auto
    next
      case False
      with Suc.prems \<open>start \<le> e\<close> split show ?thesis by auto
    qed
  qed
qed

text \<open>The forward move within one buffer: since \<open>out \<le> start\<close>, no byte is overwritten before it
  has been moved.\<close>

lemma trim_shift_eq:
  "out \<le> start \<Longrightarrow> start + n < length s \<Longrightarrow>
     trim_shift s out start n =
       Some (take out s @ take n (drop start s) @ 0 # drop (Suc (out + n)) s)"
proof (induction n arbitrary: s out start)
  case 0
  then show ?case by (simp add: upd_conv_take_nth_drop)
next
  case (Suc n)
  let ?s = "s[out := s ! start]"
  have "trim_shift s out start (Suc n) = trim_shift ?s (Suc out) (Suc start) n"
    using Suc.prems by simp
  also have "\<dots> = Some (take (Suc out) ?s @ take n (drop (Suc start) ?s) @
                      0 # drop (Suc (Suc out + n)) ?s)"
    using Suc.prems by (intro Suc.IH) auto
  also have "take (Suc out) ?s = take out s @ [s ! start]"
    using Suc.prems by (simp add: take_Suc_conv_app_nth)
  also have "drop (Suc start) ?s = drop (Suc start) s"
    using Suc.prems by (simp add: drop_update_cancel)
  also have "drop (Suc (Suc out + n)) ?s = drop (Suc (out + Suc n)) s"
    by (simp add: drop_update_cancel)
  finally show ?case
    using Suc.prems by (simp add: Cons_nth_drop_Suc [symmetric])
qed

lemma str_trim_eq:
  assumes "terminated s"
  shows "\<exists>s'. str_trim s = Some s' \<and> terminated s' \<and> length s' = length s \<and>
           cstr s' = trim_spec (cstr s)"
proof -
  let ?st = "length (takeWhile is_blank (cstr s))"
  let ?n = "length (cstr s)"
  have le: "?st \<le> ?n" by (rule length_takeWhile_le)
  have n: "?n < length s" using assms by (simp add: terminated_iff_length)
  have body: "take (?n - ?st) (drop ?st s) = dropWhile is_blank (cstr s)"
  proof -
    have "take ?n s = cstr s"
      using terminated_split [OF assms] by (metis append_eq_conv_conj)
    then have "take (?n - ?st) (drop ?st s) = drop ?st (cstr s)"
      by (metis drop_take)
    then show ?thesis by (simp add: dropWhile_eq_drop)
  qed
  obtain e where e: "trim_end s ?st ?n = Some e" "?st \<le> e" "e \<le> ?n"
    "take (e - ?st) (drop ?st s) = trim_spec (cstr s)"
    using trim_end_eq [OF le, of s] n body by (auto simp: trim_spec_def)
  have shift: "trim_shift s 0 ?st (e - ?st) =
      Some (trim_spec (cstr s) @ 0 # drop (Suc (e - ?st)) s)"
    using e n by (subst trim_shift_eq) auto
  have zero: "0 \<notin> set (trim_spec (cstr s))"
    by (auto simp: trim_spec_def dest!: set_dropWhileD)
  have len: "length (trim_spec (cstr s)) = e - ?st"
    using e n by (metis (no_types, lifting) diff_le_mono length_drop length_take less_imp_le
        min.absorb2 order_trans)
  show ?thesis
    using shift zero len e n
    by (simp add: str_trim_def str_len_Some trim_start_eq assms)
qed

subsection \<open>Paths\<close>

lemma last_index_loop_noslash:
  "0 \<notin> set xs \<Longrightarrow> c \<notin> set xs \<Longrightarrow>
     last_index_loop (xs @ s) c i l = last_index_loop s c (i + int (length xs)) l"
  by (induction xs arbitrary: i) (auto simp: algebra_simps)

lemma last_index_loop_skip:
  "0 \<notin> set xs \<Longrightarrow> \<exists>l'. last_index_loop (xs @ s) c i l = last_index_loop s c (i + int (length xs)) l'"
proof (induction xs arbitrary: i l)
  case Nil then show ?case by auto
next
  case (Cons x xs)
  then obtain l' where "last_index_loop (xs @ s) c (i + 1) (if x = c then i else l) =
      last_index_loop s c (i + 1 + int (length xs)) l'"
    by fastforce
  with Cons.prems show ?case by (auto simp: algebra_simps)
qed

text \<open>The last slash of a terminated buffer splits its string into what is before and after it.\<close>

lemma str_last_index_of_split:
  assumes "terminated b" "cstr b = pre @ c # post" "c \<notin> set post" "c \<noteq> 0"
  shows "str_last_index_of b c = Some (int (length pre))"
proof -
  obtain ys where b: "b = cstr b @ 0 # ys"
    using terminated_split [OF assms(1)] by metis
  have nz: "0 \<notin> set pre" "0 \<notin> set post"
    using zero_notin_cstr [of b] assms(2) by auto
  obtain l' where l': "last_index_loop (pre @ c # post @ 0 # ys) c 0 (-1) =
      last_index_loop (c # post @ 0 # ys) c (0 + int (length pre)) l'"
    using last_index_loop_skip [OF nz(1)] by blast
  have "b = pre @ c # post @ 0 # ys"
    using b assms(2) by simp
  with l' show ?thesis
    using assms(3,4) nz(2) by (simp add: str_last_index_of_def last_index_loop_noslash)
qed

lemma str_last_index_of_none:
  assumes "terminated b" "c \<notin> set (cstr b)" "c \<noteq> 0"
  shows "str_last_index_of b c = Some (-1)"
proof -
  obtain ys where b: "b = cstr b @ 0 # ys"
    using terminated_split [OF assms(1)] by metis
  have "last_index_loop (cstr b @ 0 # ys) c 0 (-1) = Some (-1)"
    using assms by (simp add: last_index_loop_noslash)
  with b show ?thesis by (simp add: str_last_index_of_def)
qed

lemma path_get_filename_split:
  assumes "terminated b" "cstr b = pre @ slash # post" "slash \<notin> set post"
  shows "\<exists>f. path_get_filename b = Some f \<and> terminated f \<and> cstr f = post"
proof -
  have idx: "str_last_index_of b slash = Some (int (length pre))"
    using assms by (rule str_last_index_of_split) simp
  have le: "Suc (length pre) \<le> length (cstr b)"
    using assms(2) by simp
  have "cstr (drop (Suc (length pre)) b) = post"
    using le assms(2) by (simp add: cstr_drop)
  moreover have "terminated (drop (Suc (length pre)) b)"
    using assms(1) le by (rule terminated_drop)
  ultimately show ?thesis
    using idx by (simp add: path_get_filename_def)
qed

text \<open>The copying loop of \<open>path_get_dirname\<close>, once \<open>i\<close> bytes are copied.\<close>

lemma dirname_loop_eq:
  "i \<le> idx \<Longrightarrow> idx \<le> 127 \<Longrightarrow> idx \<le> length path \<Longrightarrow> length d = 128 \<Longrightarrow> take i d = take i path \<Longrightarrow>
   0 < idx \<Longrightarrow> (0 < i \<longrightarrow> d ! i = 0) \<Longrightarrow>
     \<exists>d'. dirname_loop d path i idx = Some d' \<and> length d' = 128 \<and>
          take (Suc idx) d' = take idx path @ [0]"
proof (induction d path i idx rule: dirname_loop.induct)
  case (1 d path i idx)
  show ?case
  proof (cases "i < idx")
    case False
    with "1.prems" have i: "i = idx" by simp
    with "1.prems" have "take (Suc idx) d = take idx path @ [0]"
      by (simp add: take_Suc_conv_app_nth)
    with "1.prems" i show ?thesis by (simp add: dirname_loop.simps [of d path idx idx])
  next
    case True
    let ?d = "d[i := path ! i, Suc i := 0]"
    have tk: "take (Suc i) ?d = take (Suc i) path"
      using True "1.prems" by (simp add: take_Suc_conv_app_nth)
    have "\<exists>d'. dirname_loop ?d path (i + 1) idx = Some d' \<and> length d' = 128 \<and>
        take (Suc idx) d' = take idx path @ [0]"
      using True "1.prems" tk by (intro "1.IH") (auto simp del: take_Suc)
    with True "1.prems" show ?thesis
      by (simp add: dirname_loop.simps [of d path i idx])
  qed
qed

lemma path_get_dirname_split:
  assumes b: "terminated b" "cstr b = pre @ slash # post" "slash \<notin> set post"
    and short: "length pre \<le> 127" and d: "length d = 128"
  shows "\<exists>d'. path_get_dirname d b = Some d' \<and> length d' = 128 \<and> terminated d' \<and>
           cstr d' = (if pre = [] then [slash] else pre)"
proof -
  have idx: "str_last_index_of b slash = Some (int (length pre))"
    using b by (rule str_last_index_of_split) simp
  show ?thesis
  proof (cases "pre = []")
    case True
    have lit1: "cstr (lit ''/'') = [slash]"
      by (simp add: lit_def bytes_of_def)
    obtain d' where d': "put_str d [slash] = Some d'"
      using d by (simp add: put_str_def)
    moreover have "cstr d' = [slash]" using put_str_cstr [OF d'] by simp
    ultimately show ?thesis
      using True idx d put_str_length [OF d'] put_str_terminated [OF d']
      by (simp add: path_get_dirname_def str_copy_eq lit1)
  next
    case False
    have le: "length pre \<le> length b"
      using b length_cstr_le [of b] by simp
    have tk: "take (length pre) b = pre"
      using terminated_split [OF b(1)] b(2) by (metis append_eq_conv_conj append.assoc)
    obtain d' where d': "dirname_loop d b 0 (length pre) = Some d'" "length d' = 128"
      "take (Suc (length pre)) d' = pre @ [0]"
      using dirname_loop_eq [of 0 "length pre" b d] False short le d tk by auto
    have eq: "d' = pre @ 0 # drop (Suc (length pre)) d'"
      using d'(3) by (metis append_Cons append_Nil append_assoc append_take_drop_id)
    have "0 \<notin> set pre" using zero_notin_cstr [of b] b(2) by auto
    then have "cstr d' = pre" "terminated d'"
      by (subst eq, simp)+
    with d' False idx show ?thesis
      by (simp add: path_get_dirname_def)
  qed
qed

text \<open>What the static buffer held before the call does not matter.\<close>

lemma path_get_dirname_independent:
  assumes "terminated b" "length (cstr b) \<le> 127" "slash \<in> set (cstr b)"
    and "length d1 = 128" "length d2 = 128"
  shows "map_option cstr (path_get_dirname d1 b) = map_option cstr (path_get_dirname d2 b)"
proof -
  obtain pre post where "cstr b = pre @ slash # post" "slash \<notin> set post"
    using split_list_last [OF assms(3)] by blast
  with assms path_get_dirname_split [of b pre post d1] path_get_dirname_split [of b pre post d2]
  show ?thesis by auto
qed

end
