(* ===== verification/Slot_Table.thy ===== *)
theory Slot_Table
  imports Kernel_Prelude
begin

section \<open>Fixed tables of named slots\<close>

text \<open>
  The user table (kernel/users.c) and the node table (kernel/filesystem.c) are both static arrays
  of slots with a flag that says whether the slot is in use and a C string that names it, searched
  from the front by comparing strings.  This theory states what such a table is (lookup,
  distinct names, the effect of overwriting one slot) and, as the locale \<open>slot_table\<close>, the contract
  of the search function; kernel/users.c and kernel/filesystem.c provide it by interpretation.
\<close>

definition names_ok :: "('s \<Rightarrow> bool) \<Rightarrow> ('s \<Rightarrow> cbuf) \<Rightarrow> 's list \<Rightarrow> bool" where
  "names_ok live key xs \<longleftrightarrow> (\<forall>x \<in> set xs. live x \<longrightarrow> terminated (key x))"

definition names_distinct :: "('s \<Rightarrow> bool) \<Rightarrow> ('s \<Rightarrow> cbuf) \<Rightarrow> 's list \<Rightarrow> bool" where
  "names_distinct live key xs \<longleftrightarrow>
     (\<forall>i < length xs. \<forall>j < length xs. live (xs ! i) \<longrightarrow> live (xs ! j) \<longrightarrow>
        cstr (key (xs ! i)) = cstr (key (xs ! j)) \<longrightarrow> i = j)"

definition slot_lookup :: "('s \<Rightarrow> bool) \<Rightarrow> ('s \<Rightarrow> cbuf) \<Rightarrow> 's list \<Rightarrow> byte list \<Rightarrow> nat option" where
  "slot_lookup live key xs nm = first_index (\<lambda>x. live x \<and> cstr (key x) = nm) xs"

lemma slot_lookup_SomeD:
  "slot_lookup live key xs nm = Some i \<Longrightarrow> i < length xs \<and> live (xs ! i) \<and> cstr (key (xs ! i)) = nm"
  by (simp add: slot_lookup_def first_index_Some)

lemma slot_lookup_None_iff:
  "slot_lookup live key xs nm = None \<longleftrightarrow>
     (\<forall>i < length xs. live (xs ! i) \<longrightarrow> cstr (key (xs ! i)) \<noteq> nm)"
  by (simp add: slot_lookup_def first_index_None all_set_conv_all_nth)

lemma slot_lookup_Some_iff:
  assumes "names_distinct live key xs"
  shows "slot_lookup live key xs nm = Some i \<longleftrightarrow>
     i < length xs \<and> live (xs ! i) \<and> cstr (key (xs ! i)) = nm"
proof
  assume "slot_lookup live key xs nm = Some i"
  then show "i < length xs \<and> live (xs ! i) \<and> cstr (key (xs ! i)) = nm"
    by (rule slot_lookup_SomeD)
next
  assume i: "i < length xs \<and> live (xs ! i) \<and> cstr (key (xs ! i)) = nm"
  then show "slot_lookup live key xs nm = Some i"
    unfolding slot_lookup_def
    by (intro first_index_unique) (use assms in \<open>auto simp: names_distinct_def\<close>)
qed

lemma names_ok_update:
  "names_ok live key xs \<Longrightarrow> (live x \<Longrightarrow> terminated (key x)) \<Longrightarrow> names_ok live key (xs[i := x])"
  by (auto simp: names_ok_def dest!: set_update_subset_insert [THEN subsetD])

lemma names_distinct_update:
  assumes "names_distinct live key xs"
    and "live x \<Longrightarrow> slot_lookup live key xs (cstr (key x)) \<in> {None, Some i}"
  shows "names_distinct live key (xs[i := x])"
  unfolding names_distinct_def
proof (intro allI impI)
  fix j k
  assume j: "j < length (xs[i := x])" and k: "k < length (xs[i := x])"
    and lj: "live (xs[i := x] ! j)" and lk: "live (xs[i := x] ! k)"
    and eq: "cstr (key (xs[i := x] ! j)) = cstr (key (xs[i := x] ! k))"
  have clash: "l = i"
    if "live x" "l < length xs" "live (xs ! l)" "cstr (key (xs ! l)) = cstr (key x)" for l
  proof -
    have "slot_lookup live key xs (cstr (key x)) = Some l"
      using that by (simp add: slot_lookup_Some_iff [OF assms(1)])
    with assms(2) [OF \<open>live x\<close>] show ?thesis by simp
  qed
  consider "j = i" "k = i" | "j = i" "k \<noteq> i" | "j \<noteq> i" "k = i" | "j \<noteq> i" "k \<noteq> i"
    by blast
  then show "j = k"
  proof cases
    case 2
    then show ?thesis using clash [of k] j k lj lk eq by simp
  next
    case 3
    then show ?thesis using clash [of j] j k lj lk eq by simp
  next
    case 4
    then show ?thesis using assms(1) j k lj lk eq by (simp add: names_distinct_def)
  qed simp
qed

lemma slot_lookup_update:
  assumes "names_distinct live key xs" "i < length xs"
    and "live x \<Longrightarrow> slot_lookup live key xs (cstr (key x)) \<in> {None, Some i}"
  shows "slot_lookup live key (xs[i := x]) nm =
     (if live x \<and> cstr (key x) = nm then Some i
      else if slot_lookup live key xs nm = Some i then None
      else slot_lookup live key xs nm)"
proof -
  have d: "names_distinct live key (xs[i := x])"
    using assms(1,3) by (rule names_distinct_update)
  note new = slot_lookup_Some_iff [OF d] and old = slot_lookup_Some_iff [OF assms(1)]
  show ?thesis
  proof (cases "live x \<and> cstr (key x) = nm")
    case True
    then show ?thesis using assms(2) by (simp add: new)
  next
    case no: False
    show ?thesis
    proof (cases "slot_lookup live key xs nm")
      case None
      then have "slot_lookup live key (xs[i := x]) nm = None"
        using no assms(2) unfolding slot_lookup_None_iff by (auto simp: nth_list_update)
      with None no show ?thesis by auto
    next
      case (Some k)
      show ?thesis
      proof (cases "k = i")
        case True
        then have "\<forall>j < length xs. live (xs ! j) \<longrightarrow> cstr (key (xs ! j)) = nm \<longrightarrow> j = i"
          using Some assms(1) old by (metis option.inject)
        then show ?thesis
          using Some True no assms(2)
          by (auto simp: slot_lookup_None_iff nth_list_update split: if_splits)
      next
        case False
        then have "slot_lookup live key (xs[i := x]) nm = Some k"
          using Some old [of nm k] by (simp add: new)
        with Some False no show ?thesis by auto
      qed
    qed
  qed
qed

subsection \<open>The contract of the search function\<close>

text \<open>\<open>find xs nm\<close> is the C search: the index of the first slot in use whose name is the string in
  \<open>nm\<close>, or \<open>-1\<close>, provided all names are terminated.\<close>

locale slot_table =
  fixes live :: "'s \<Rightarrow> bool"
    and key :: "'s \<Rightarrow> cbuf"
    and find :: "'s list \<Rightarrow> cbuf \<Rightarrow> int option"
  assumes find_spec: "names_ok live key xs \<Longrightarrow> terminated nm \<Longrightarrow>
     find xs nm = Some (index_or_minus1 (slot_lookup live key xs (cstr nm)))"
begin

lemma find_absent:
  assumes "names_ok live key xs" "terminated nm"
  shows "find xs nm = Some (-1) \<longleftrightarrow> slot_lookup live key xs (cstr nm) = None"
  by (simp add: find_spec [OF assms] index_or_minus1_def split: option.splits)

lemma find_present:
  assumes "names_ok live key xs" "terminated nm" "names_distinct live key xs"
    and "i < length xs" "live (xs ! i)" "cstr (key (xs ! i)) = cstr nm"
  shows "find xs nm = Some (int i)"
proof -
  have "slot_lookup live key xs (cstr nm) = Some i"
    using assms(4-6) by (simp add: slot_lookup_Some_iff [OF assms(3)])
  then show ?thesis by (simp add: find_spec [OF assms(1,2)])
qed

text \<open>After a slot has been filled under a name the table did not hold, that name is found at that
  slot; after a slot has been emptied, its name is no longer found.\<close>

lemma find_after_fill:
  assumes "names_ok live key xs" "names_distinct live key xs" "i < length xs"
    and "live x" "terminated (key x)" "find xs (key x) = Some (-1)"
  shows "find (xs[i := x]) (key x) = Some (int i)"
    and "names_distinct live key (xs[i := x])"
proof -
  have none: "slot_lookup live key xs (cstr (key x)) = None"
    using assms(6) find_absent [OF assms(1,5)] by simp
  show d: "names_distinct live key (xs[i := x])"
    by (rule names_distinct_update [OF assms(2)]) (simp add: none)
  show "find (xs[i := x]) (key x) = Some (int i)"
    by (rule find_present [OF names_ok_update [OF assms(1)] assms(5) d]) (use assms in auto)
qed

lemma find_after_clear:
  assumes "names_ok live key xs" "names_distinct live key xs" "terminated nm"
    and "find xs nm = Some (int i)" "\<not> live x"
  shows "find (xs[i := x]) nm = Some (-1)"
    and "names_distinct live key (xs[i := x])"
proof -
  have look: "slot_lookup live key xs (cstr nm) = Some i"
    using assms(4) find_spec [OF assms(1,3)]
    by (auto simp: index_or_minus1_def split: option.splits)
  then have i: "i < length xs" by (blast dest: slot_lookup_SomeD)
  show "names_distinct live key (xs[i := x])"
    by (rule names_distinct_update [OF assms(2)]) (simp add: assms(5))
  have "slot_lookup live key (xs[i := x]) (cstr nm) = None"
    using slot_lookup_update [OF assms(2) i, of x "cstr nm"] assms(5) look by simp
  then show "find (xs[i := x]) nm = Some (-1)"
    using find_absent [OF names_ok_update [OF assms(1)] assms(3)] assms(5) by blast
qed

end

end
