(* ===== verification/Kernel_Users.thy ===== *)
theory Kernel_Users
  imports Kernel_String Slot_Table
begin

section \<open>kernel/users.c: the user table\<close>

text \<open>
  The static array of 16 users and the index of the current one.  \<open>active\<close> and \<open>admin\<close> are C
  \<open>int\<close>s tested against 0; the functions return the C return codes.  The second half states
  the contract of a table searched by name (locale \<open>slot_table\<close>, also used by the filesystem's
  node table) and the invariant of the user table.
\<close>

definition USER_MAX_NAME :: nat where "USER_MAX_NAME = 24"
definition USER_MAX_COUNT :: nat where "USER_MAX_COUNT = 16"

record user =
  u_name :: cbuf
  u_active :: int
  u_admin :: int

record users_state =
  users :: "user list"
  current_user :: nat

fun find_user_loop :: "user list \<Rightarrow> int \<Rightarrow> cbuf \<Rightarrow> int option" where
  "find_user_loop [] i name = Some (-1)"
| "find_user_loop (u # us) i name =
     (if u_active u \<noteq> 0 then do {
        r \<leftarrow> str_compare (u_name u) name;
        (if r = 0 then Some i else find_user_loop us (i + 1) name) }
      else find_user_loop us (i + 1) name)"

definition find_user :: "user list \<Rightarrow> cbuf \<Rightarrow> int option" where
  "find_user us name = find_user_loop us 0 name"

text \<open>\<open>users[i].name[0] = 0\<close>\<close>

definition clear_user :: "user \<Rightarrow> user option" where
  "clear_user u = do {
     nm \<leftarrow> wr (u_name u) 0 0;
     Some (u\<lparr>u_active := 0, u_admin := 0, u_name := nm\<rparr>) }"

fun clear_users :: "user list \<Rightarrow> user list option" where
  "clear_users [] = Some []"
| "clear_users (u # us) = do {
     u' \<leftarrow> clear_user u;
     us' \<leftarrow> clear_users us;
     Some (u' # us') }"

definition set_user :: "user \<Rightarrow> int \<Rightarrow> int \<Rightarrow> cbuf \<Rightarrow> user option" where
  "set_user u act adm name = do {
     nm \<leftarrow> str_copy (u_name u) (Some name);
     Some (u\<lparr>u_active := act, u_admin := adm, u_name := nm\<rparr>) }"

definition users_init :: "users_state \<Rightarrow> users_state option" where
  "users_init s = do {
     us0 \<leftarrow> clear_users (users s);
     u0 \<leftarrow> rd us0 0;
     root \<leftarrow> set_user u0 1 1 (lit ''root'');
     us1 \<leftarrow> wr us0 0 root;
     u1 \<leftarrow> rd us1 1;
     guest \<leftarrow> set_user u1 1 0 (lit ''guest'');
     us2 \<leftarrow> wr us1 1 guest;
     Some (s\<lparr>users := us2, current_user := 0\<rparr>) }"

text \<open>The search for the first inactive slot in \<open>users_add\<close>.\<close>

fun users_add_loop :: "user list \<Rightarrow> cbuf \<Rightarrow> int \<Rightarrow> (int \<times> user list) option" where
  "users_add_loop [] name admin = Some (3, [])"
| "users_add_loop (u # us) name admin =
     (if u_active u = 0 then do {
        u' \<leftarrow> set_user u 1 (if admin \<noteq> 0 then 1 else 0) name;
        Some (0, u' # us) }
      else do {
        (rc, us') \<leftarrow> users_add_loop us name admin;
        Some (rc, u # us') })"

definition users_add :: "cptr \<Rightarrow> int \<Rightarrow> users_state \<Rightarrow> (int \<times> users_state) option" where
  "users_add name admin s =
     (case name of
        None \<Rightarrow> Some (1, s)
      | Some nm \<Rightarrow> do {
          c0 \<leftarrow> rd nm 0;
          (if c0 = 0 then Some (1, s)
           else do {
             n \<leftarrow> str_len (Some nm);
             (if USER_MAX_NAME \<le> n then Some (1, s)
              else do {
                idx \<leftarrow> find_user (users s) nm;
                (if 0 \<le> idx then Some (2, s)
                 else do {
                   (rc, us) \<leftarrow> users_add_loop (users s) nm admin;
                   Some (rc, s\<lparr>users := us\<rparr>) }) }) }) })"

definition users_remove :: "cbuf \<Rightarrow> users_state \<Rightarrow> (int \<times> users_state) option" where
  "users_remove name s = do {
     idx \<leftarrow> find_user (users s) name;
     (if idx < 0 \<or> idx = 0 then Some (1, s)
      else if idx = int (current_user s) then Some (2, s)
      else do {
        u \<leftarrow> rd (users s) (nat idx);
        u' \<leftarrow> clear_user u;
        Some (0, s\<lparr>users := (users s)[nat idx := u']\<rparr>) }) }"

definition users_login :: "cbuf \<Rightarrow> users_state \<Rightarrow> (int \<times> users_state) option" where
  "users_login name s = do {
     idx \<leftarrow> find_user (users s) name;
     (if idx < 0 then Some (1, s) else Some (0, s\<lparr>current_user := nat idx\<rparr>)) }"

definition users_logout :: "users_state \<Rightarrow> int \<times> users_state" where
  "users_logout s = (0, s\<lparr>current_user := 1\<rparr>)"

definition users_current_name :: "users_state \<Rightarrow> cbuf option" where
  "users_current_name s = map_option u_name (rd (users s) (current_user s))"

definition users_current_is_admin :: "users_state \<Rightarrow> int option" where
  "users_current_is_admin s = map_option u_admin (rd (users s) (current_user s))"

fun users_count_loop :: "user list \<Rightarrow> int \<Rightarrow> int" where
  "users_count_loop [] count = count"
| "users_count_loop (u # us) count =
     users_count_loop us (if u_active u \<noteq> 0 then count + 1 else count)"

definition users_count :: "users_state \<Rightarrow> int" where
  "users_count s = users_count_loop (users s) 0"

fun users_get_loop :: "user list \<Rightarrow> int \<Rightarrow> int \<Rightarrow> user option" where
  "users_get_loop [] seen index = None"
| "users_get_loop (u # us) seen index =
     (if u_active u \<noteq> 0
      then (if seen = index then Some u else users_get_loop us (seen + 1) index)
      else users_get_loop us seen index)"

text \<open>\<open>None\<close> is the return value 0 (nothing written to \<open>*out\<close>), \<open>Some u\<close> is the return value 1
  with \<open>*out = u\<close>.\<close>

definition users_get :: "int \<Rightarrow> users_state \<Rightarrow> user option" where
  "users_get index s = users_get_loop (users s) 0 index"

definition users_exists :: "cbuf \<Rightarrow> users_state \<Rightarrow> bool option" where
  "users_exists name s = map_option (\<lambda>idx. 0 \<le> idx) (find_user (users s) name)"

subsection \<open>The table behind the array\<close>

definition u_live :: "user \<Rightarrow> bool" where
  "u_live u \<longleftrightarrow> u_active u \<noteq> 0"

lemma find_user_loop_eq:
  "names_ok u_live u_name us \<Longrightarrow> terminated name \<Longrightarrow>
     find_user_loop us i name =
       Some (case slot_lookup u_live u_name us (cstr name) of None \<Rightarrow> -1 | Some k \<Rightarrow> i + int k)"
proof (induction us arbitrary: i)
  case Nil
  then show ?case by (simp add: slot_lookup_def)
next
  case (Cons u us)
  have ok: "names_ok u_live u_name us"
    using Cons.prems(1) by (simp add: names_ok_def)
  note IH = Cons.IH [OF ok Cons.prems(2)]
  show ?case
  proof (cases "u_live u")
    case True
    then have "terminated (u_name u)" using Cons.prems(1) by (simp add: names_ok_def)
    then obtain r where "str_compare (u_name u) name = Some r"
      "r = 0 \<longleftrightarrow> cstr (u_name u) = cstr name"
      using Cons.prems(2) by (rule str_compareE)
    with True IH show ?thesis
      by (auto simp: u_live_def slot_lookup_def split: option.splits)
  next
    case False
    with IH show ?thesis
      by (auto simp: u_live_def slot_lookup_def split: option.splits)
  qed
qed

interpretation users_tab: slot_table u_live u_name find_user
  by unfold_locales
    (simp add: find_user_def find_user_loop_eq index_or_minus1_def split: option.splits)

text \<open>What a client sees: which names are users, and which of them are administrators.\<close>

definition users_view :: "users_state \<Rightarrow> byte list \<Rightarrow> bool option" where
  "users_view s nm =
     map_option (\<lambda>i. u_admin (users s ! i) \<noteq> 0) (slot_lookup u_live u_name (users s) nm)"

definition user_ok :: "user \<Rightarrow> bool" where
  "user_ok u \<longleftrightarrow> length (u_name u) = USER_MAX_NAME \<and> terminated (u_name u) \<and>
     u_active u \<in> {0, 1} \<and> u_admin u \<in> {0, 1}"

definition root_ok :: "user \<Rightarrow> bool" where
  "root_ok u \<longleftrightarrow> u_live u \<and> u_admin u = 1 \<and> cstr (u_name u) = bytes_of ''root''"

definition users_wf :: "users_state \<Rightarrow> bool" where
  "users_wf s \<longleftrightarrow> length (users s) = USER_MAX_COUNT \<and> (\<forall>u \<in> set (users s). user_ok u) \<and>
     names_distinct u_live u_name (users s) \<and> root_ok (users s ! 0) \<and>
     current_user s < USER_MAX_COUNT"

lemma users_wf_names_ok: "users_wf s \<Longrightarrow> names_ok u_live u_name (users s)"
  by (simp add: users_wf_def names_ok_def user_ok_def)

lemma users_wf_slot: "users_wf s \<Longrightarrow> i < USER_MAX_COUNT \<Longrightarrow> user_ok (users s ! i)"
  by (simp add: users_wf_def)

lemmas users_find = users_tab.find_spec [OF users_wf_names_ok]

subsection \<open>The operations on the table\<close>

lemma clear_user_eq:
  "user_ok u \<Longrightarrow> clear_user u = Some (u\<lparr>u_active := 0, u_admin := 0, u_name := (u_name u)[0 := 0]\<rparr>)"
  by (simp add: clear_user_def user_ok_def USER_MAX_NAME_def)

lemma user_ok_cleared:
  "user_ok u \<Longrightarrow> user_ok (u\<lparr>u_active := 0, u_admin := 0, u_name := (u_name u)[0 := 0]\<rparr>)"
  by (cases "u_name u") (auto simp: user_ok_def)

lemma set_user_eq:
  assumes "length (u_name u) = USER_MAX_NAME" "terminated nm" "length (cstr nm) < USER_MAX_NAME"
    and "a \<in> {0, 1}" "b \<in> {0, 1}"
  shows "\<exists>u'. set_user u a b nm = Some u' \<and> user_ok u' \<and> cstr (u_name u') = cstr nm \<and>
           u_active u' = a \<and> u_admin u' = b"
proof -
  obtain d where d: "put_str (u_name u) (cstr nm) = Some d"
    using assms(1,3) by (simp add: put_str_def)
  with assms show ?thesis
    by (simp add: set_user_def str_copy_eq user_ok_def put_str_length [OF d]
        put_str_terminated [OF d] put_str_cstr [OF d])
qed

lemma users_add_loop_eq:
  assumes "\<forall>u \<in> set us. user_ok u" "terminated nm" "length (cstr nm) < USER_MAX_NAME"
  shows "case first_index (\<lambda>u. \<not> u_live u) us of
      None \<Rightarrow> users_add_loop us nm admin = Some (3, us)
    | Some i \<Rightarrow> \<exists>u'. users_add_loop us nm admin = Some (0, us[i := u']) \<and> user_ok u' \<and>
        u_live u' \<and> cstr (u_name u') = cstr nm \<and> u_admin u' = (if admin \<noteq> 0 then 1 else 0)"
  using assms(1)
proof (induction us)
  case Nil then show ?case by simp
next
  case (Cons u us)
  show ?case
  proof (cases "u_live u")
    case True
    with Cons show ?thesis by (auto simp: u_live_def split: option.splits)
  next
    case False
    define b :: int where "b = (if admin \<noteq> 0 then 1 else 0)"
    have len: "length (u_name u) = USER_MAX_NAME"
      using Cons.prems by (simp add: user_ok_def)
    have one: "(1::int) \<in> {0, 1}" and b: "b \<in> {0, 1}"
      by (simp_all add: b_def)
    obtain u' where "set_user u 1 b nm = Some u'" "user_ok u'" "cstr (u_name u') = cstr nm"
      "u_active u' = 1" "u_admin u' = b"
      using set_user_eq [OF len assms(2,3) one b] by blast
    with False show ?thesis by (simp add: u_live_def b_def)
  qed
qed

text \<open>\<open>users_add\<close>, branch by branch.\<close>

lemma users_add_invalid:
  "terminated nm \<Longrightarrow> cstr nm = [] \<or> USER_MAX_NAME \<le> length (cstr nm) \<Longrightarrow>
     users_add (Some nm) admin s = Some (1, s)"
  by (cases nm) (auto simp: users_add_def str_len_Some)

lemma users_add_valid:
  assumes "terminated nm" "cstr nm \<noteq> []" "length (cstr nm) < USER_MAX_NAME" "users_wf s"
  shows "users_add (Some nm) admin s =
     (if users_view s (cstr nm) \<noteq> None then Some (2, s)
      else map_option (\<lambda>(rc, us). (rc, s\<lparr>users := us\<rparr>)) (users_add_loop (users s) nm admin))"
proof -
  have nm: "rd nm 0 = Some (hd nm)" "hd nm \<noteq> 0"
    using assms(1,2) by (cases nm; auto)+
  show ?thesis
    using assms(3) users_find [OF assms(4,1)]
    by (auto simp: users_add_def nm str_len_Some assms(1) users_view_def map_option_case
        split: option.splits prod.splits)
qed

lemma users_wf_update:
  assumes "users_wf s" "0 < i" "i < USER_MAX_COUNT" "user_ok u"
    and "u_live u \<Longrightarrow> slot_lookup u_live u_name (users s) (cstr (u_name u)) \<in> {None, Some i}"
  shows "users_wf (s\<lparr>users := (users s)[i := u]\<rparr>)"
  using assms names_distinct_update [of u_live u_name "users s" u i]
  by (auto simp: users_wf_def dest!: set_update_subset_insert [THEN subsetD])

text \<open>Filling an inactive slot adds one entry to the view, emptying an active one removes its entry.\<close>

lemma users_view_fill:
  assumes "users_wf s" "i < USER_MAX_COUNT" "\<not> u_live (users s ! i)" "u_live u"
    and "users_view s (cstr (u_name u)) = None"
  shows "users_view (s\<lparr>users := (users s)[i := u]\<rparr>) =
           (users_view s)(cstr (u_name u) \<mapsto> u_admin u \<noteq> 0)"
proof
  fix nm
  have d: "names_distinct u_live u_name (users s)" and i: "i < length (users s)"
    using assms(1,2) by (simp_all add: users_wf_def)
  have none: "slot_lookup u_live u_name (users s) (cstr (u_name u)) = None"
    using assms(5) by (simp add: users_view_def)
  have noti: "slot_lookup u_live u_name (users s) nm \<noteq> Some i"
    using assms(3) slot_lookup_SomeD by metis
  show "users_view (s\<lparr>users := (users s)[i := u]\<rparr>) nm =
      ((users_view s)(cstr (u_name u) \<mapsto> u_admin u \<noteq> 0)) nm"
    using slot_lookup_update [OF d i, of u nm] none noti assms(4) i
    by (cases "slot_lookup u_live u_name (users s) nm") (auto simp: users_view_def)
qed

lemma users_view_clear:
  assumes "users_wf s" "slot_lookup u_live u_name (users s) nm = Some i" "\<not> u_live u"
  shows "users_view (s\<lparr>users := (users s)[i := u]\<rparr>) = (users_view s)(nm := None)"
proof
  fix k
  have d: "names_distinct u_live u_name (users s)"
    using assms(1) by (simp add: users_wf_def)
  have i: "i < length (users s)" "cstr (u_name (users s ! i)) = nm"
    using slot_lookup_SomeD [OF assms(2)] by auto
  have "slot_lookup u_live u_name (users s) k = Some i \<longleftrightarrow> k = nm"
    using assms(2) i slot_lookup_SomeD by metis
  then show "users_view (s\<lparr>users := (users s)[i := u]\<rparr>) k = ((users_view s)(nm := None)) k"
    using slot_lookup_update [OF d i(1), of u k] assms(3)
    by (cases "slot_lookup u_live u_name (users s) k") (auto simp: users_view_def)
qed

text \<open>The outcome of \<open>users_add\<close> on a valid new name: the first inactive slot is filled, or the
  table is full.\<close>

text \<open>The name in a slot, if the slot is active.\<close>

definition seat :: "users_state \<Rightarrow> nat \<Rightarrow> byte list option" where
  "seat s i = (if u_live (users s ! i) then Some (cstr (u_name (users s ! i))) else None)"

lemma seat_update: "i < length (users s) \<Longrightarrow> seat (s\<lparr>users := (users s)[i := u]\<rparr>) =
    (seat s)(i := if u_live u then Some (cstr (u_name u)) else None)"
  by (auto simp: seat_def fun_eq_iff nth_list_update)

lemma seat_current: "seat (s\<lparr>current_user := i\<rparr>) = seat s"
  by (simp add: seat_def fun_eq_iff)

lemma users_add_new:
  assumes "terminated nm" "cstr nm \<noteq> []" "length (cstr nm) < USER_MAX_NAME" "users_wf s"
    and "users_view s (cstr nm) = None"
  shows "case first_index (\<lambda>u. \<not> u_live u) (users s) of
      None \<Rightarrow> users_add (Some nm) admin s = Some (3, s)
    | Some i \<Rightarrow> \<exists>s'. users_add (Some nm) admin s = Some (0, s') \<and> users_wf s' \<and>
        users_view s' = (users_view s)(cstr nm \<mapsto> admin \<noteq> 0) \<and>
        current_user s' = current_user s \<and> seat s' = (seat s)(i \<mapsto> cstr nm)"
proof -
  have ok: "\<forall>u \<in> set (users s). user_ok u" using assms(4) by (simp add: users_wf_def)
  note loop = users_add_loop_eq [OF ok assms(1,3), of admin]
  note add = users_add_valid [OF assms(1-4), of admin]
  show ?thesis
  proof (cases "first_index (\<lambda>u. \<not> u_live u) (users s)")
    case None
    with loop add assms(5) show ?thesis by simp
  next
    case (Some i)
    then have i: "i < USER_MAX_COUNT" "\<not> u_live (users s ! i)"
      using assms(4) by (auto simp: first_index_Some users_wf_def)
    then have "0 < i"
      using assms(4) by (cases i) (auto simp: users_wf_def root_ok_def)
    from loop Some obtain u where u: "users_add_loop (users s) nm admin = Some (0, (users s)[i := u])"
      "user_ok u" "u_live u" "cstr (u_name u) = cstr nm" "u_admin u = (if admin \<noteq> 0 then 1 else 0)"
      by auto
    have none: "slot_lookup u_live u_name (users s) (cstr (u_name u)) = None"
      using assms(5) u(4) by (simp add: users_view_def)
    have "users_wf (s\<lparr>users := (users s)[i := u]\<rparr>)"
      using users_wf_update [OF assms(4) \<open>0 < i\<close> i(1) u(2)] none by simp
    moreover have "users_view (s\<lparr>users := (users s)[i := u]\<rparr>) =
        (users_view s)(cstr nm \<mapsto> admin \<noteq> 0)"
      using users_view_fill [OF assms(4) i u(3)] assms(5) u(4,5) by simp
    moreover have "seat (s\<lparr>users := (users s)[i := u]\<rparr>) = (seat s)(i \<mapsto> cstr nm)"
      using i(1) u(3,4) assms(4) by (simp add: seat_update users_wf_def)
    ultimately show ?thesis
      using Some add u(1) assms(5) by simp
  qed
qed

lemma users_remove_cases:
  assumes "terminated nm" "users_wf s"
  shows "case slot_lookup u_live u_name (users s) (cstr nm) of
      None \<Rightarrow> users_remove nm s = Some (1, s)
    | Some i \<Rightarrow>
        if i = 0 then users_remove nm s = Some (1, s)
        else if i = current_user s then users_remove nm s = Some (2, s)
        else \<exists>s'. users_remove nm s = Some (0, s') \<and> users_wf s' \<and>
               users_view s' = (users_view s)(cstr nm := None) \<and> current_user s' = current_user s \<and>
               seat s' = (seat s)(i := None)"
proof (cases "slot_lookup u_live u_name (users s) (cstr nm)")
  case None
  then show ?thesis using users_find [OF assms(2,1)] by (simp add: users_remove_def)
next
  case (Some i)
  have f: "find_user (users s) nm = Some (int i)"
    using users_find [OF assms(2,1)] Some by simp
  have i: "i < USER_MAX_COUNT"
    using slot_lookup_SomeD [OF Some] assms(2) by (simp add: users_wf_def)
  have rd: "rd (users s) i = Some (users s ! i)"
    using i assms(2) by (simp add: users_wf_def)
  show ?thesis
  proof (cases "i = 0 \<or> i = current_user s")
    case True
    then show ?thesis using Some f by (auto simp: users_remove_def)
  next
    case False
    let ?u = "(users s ! i)\<lparr>u_active := 0, u_admin := 0, u_name := (u_name (users s ! i))[0 := 0]\<rparr>"
    have ok: "user_ok (users s ! i)" using assms(2) i by (rule users_wf_slot)
    have "users_wf (s\<lparr>users := (users s)[i := ?u]\<rparr>)"
      using users_wf_update [OF assms(2) _ i user_ok_cleared [OF ok]] False
      by (simp add: u_live_def)
    moreover have "users_view (s\<lparr>users := (users s)[i := ?u]\<rparr>) = (users_view s)(cstr nm := None)"
      by (rule users_view_clear [OF assms(2) Some]) (simp add: u_live_def)
    moreover have "seat (s\<lparr>users := (users s)[i := ?u]\<rparr>) = (seat s)(i := None)"
      using i assms(2) by (simp add: seat_update users_wf_def u_live_def)
    ultimately show ?thesis
      using Some f False rd clear_user_eq [OF ok] by (simp add: users_remove_def)
  qed
qed

lemma users_login_cases:
  assumes "terminated nm" "users_wf s"
  shows "case slot_lookup u_live u_name (users s) (cstr nm) of
      None \<Rightarrow> users_login nm s = Some (1, s)
    | Some i \<Rightarrow> users_login nm s = Some (0, s\<lparr>current_user := i\<rparr>) \<and> users_wf (s\<lparr>current_user := i\<rparr>)"
  using users_find [OF assms(2,1)] assms(2)
  by (auto simp: users_login_def users_wf_def split: option.splits dest: slot_lookup_SomeD)

lemma users_logout_wf: "users_wf s \<Longrightarrow> users_wf (snd (users_logout s))"
  by (simp add: users_logout_def users_wf_def USER_MAX_COUNT_def)

subsection \<open>Initialisation\<close>

text \<open>The static array before \<open>users_init\<close>: 16 slots with 24-byte names, otherwise arbitrary.\<close>

definition users_raw :: "users_state \<Rightarrow> bool" where
  "users_raw s \<longleftrightarrow> length (users s) = USER_MAX_COUNT \<and>
     (\<forall>u \<in> set (users s). length (u_name u) = USER_MAX_NAME)"

definition cleared :: "user \<Rightarrow> user" where
  "cleared u = u\<lparr>u_active := 0, u_admin := 0, u_name := (u_name u)[0 := 0]\<rparr>"

lemma clear_users_eq:
  "\<forall>u \<in> set us. length (u_name u) = USER_MAX_NAME \<Longrightarrow> clear_users us = Some (map cleared us)"
  by (induction us) (auto simp: clear_user_def cleared_def USER_MAX_NAME_def)

lemma cleared_props [simp]:
  "u_active (cleared u) = 0" "u_admin (cleared u) = 0" "length (u_name (cleared u)) = length (u_name u)"
  by (simp_all add: cleared_def)

lemma user_ok_cleared_raw: "length (u_name u) = USER_MAX_NAME \<Longrightarrow> user_ok (cleared u)"
  by (cases "u_name u") (auto simp: user_ok_def cleared_def USER_MAX_NAME_def)

lemma bytes_of_literals:
  "cstr (lit ''root'') = bytes_of ''root''" "cstr (lit ''guest'') = bytes_of ''guest''"
  "length (bytes_of ''root'') = 4" "length (bytes_of ''guest'') = 5"
  "bytes_of ''root'' \<noteq> bytes_of ''guest''"
  by (simp_all add: lit_def bytes_of_def)

lemma users_init_eq:
  assumes "users_raw s"
  shows "\<exists>root guest rest. users_init s = Some (s\<lparr>users := root # guest # rest, current_user := 0\<rparr>) \<and>
     user_ok root \<and> user_ok guest \<and> (\<forall>u \<in> set rest. user_ok u \<and> \<not> u_live u) \<and>
     length rest = 14 \<and>
     u_active root = 1 \<and> u_admin root = 1 \<and> cstr (u_name root) = bytes_of ''root'' \<and>
     u_active guest = 1 \<and> u_admin guest = 0 \<and> cstr (u_name guest) = bytes_of ''guest''"
proof -
  obtain a b rest where us: "users s = a # b # rest" "length rest = 14"
    using assms by (auto simp: users_raw_def USER_MAX_COUNT_def numeral_eq_Suc length_Suc_conv)
  have len: "length (u_name (cleared a)) = USER_MAX_NAME" "length (u_name (cleared b)) = USER_MAX_NAME"
    using assms us by (simp_all add: users_raw_def)
  have clr: "clear_users (users s) = Some (cleared a # cleared b # map cleared rest)"
    using clear_users_eq [of "users s"] assms us(1) unfolding users_raw_def by auto
  have one: "(1::int) \<in> {0, 1}" and zero: "(0::int) \<in> {0, 1}" by simp_all
  have short: "length (cstr (lit ''root'')) < USER_MAX_NAME" "length (cstr (lit ''guest'')) < USER_MAX_NAME"
    by (simp_all add: bytes_of_literals USER_MAX_NAME_def)
  obtain root where root: "set_user (cleared a) 1 1 (lit ''root'') = Some root" "user_ok root"
    "cstr (u_name root) = bytes_of ''root''" "u_active root = 1" "u_admin root = 1"
    using set_user_eq [OF len(1) terminated_lit short(1) one one] bytes_of_literals(1) by auto
  obtain guest where guest: "set_user (cleared b) 1 0 (lit ''guest'') = Some guest" "user_ok guest"
    "cstr (u_name guest) = bytes_of ''guest''" "u_active guest = 1" "u_admin guest = 0"
    using set_user_eq [OF len(2) terminated_lit short(2) one zero] bytes_of_literals(2) by auto
  have "\<forall>u \<in> set (map cleared rest). user_ok u \<and> \<not> u_live u"
    using assms us by (auto simp: users_raw_def u_live_def user_ok_cleared_raw)
  with us clr root guest show ?thesis
    by (intro exI [of _ root] exI [of _ guest] exI [of _ "map cleared rest"])
      (simp add: users_init_def)
qed

lemma users_init_wf:
  assumes "users_raw s"
  shows "\<exists>s'. users_init s = Some s' \<and> users_wf s' \<and> current_user s' = 0 \<and>
     users_view s' = [bytes_of ''root'' \<mapsto> True, bytes_of ''guest'' \<mapsto> False]"
proof -
  obtain root guest rest where i: "users_init s = Some (s\<lparr>users := root # guest # rest, current_user := 0\<rparr>)"
    and ok: "user_ok root" "user_ok guest" "\<forall>u \<in> set rest. user_ok u \<and> \<not> u_live u" "length rest = 14"
    and r: "u_active root = 1" "u_admin root = 1" "cstr (u_name root) = bytes_of ''root''"
    and g: "u_active guest = 1" "u_admin guest = 0" "cstr (u_name guest) = bytes_of ''guest''"
    using users_init_eq [OF assms] by blast
  have live: "u_live root" "u_live guest" using r g by (simp_all add: u_live_def)
  have rest: "slot_lookup u_live u_name rest nm = None" for nm
    using ok(3) by (simp add: slot_lookup_def first_index_None)
  have d: "names_distinct u_live u_name (root # guest # rest)"
    unfolding names_distinct_def
    using ok(3) r(3) g(3) bytes_of_literals(5)
    by (simp add: nth_Cons' all_set_conv_all_nth)
  have "users_view (s\<lparr>users := root # guest # rest, current_user := 0\<rparr>) =
      [bytes_of ''root'' \<mapsto> True, bytes_of ''guest'' \<mapsto> False]"
    using rest live r g bytes_of_literals(5)
    by (auto simp: users_view_def slot_lookup_def fun_eq_iff)
  moreover have "users_wf (s\<lparr>users := root # guest # rest, current_user := 0\<rparr>)"
    using ok d live r by (auto simp: users_wf_def root_ok_def USER_MAX_COUNT_def)
  ultimately show ?thesis using i by simp
qed

subsection \<open>Runs\<close>

text \<open>Any sequence of the operations, whatever their return codes.\<close>

inductive user_step :: "users_state \<Rightarrow> users_state \<Rightarrow> bool" where
  step_add: "terminated nm \<Longrightarrow> users_add (Some nm) admin s = Some (rc, s') \<Longrightarrow> user_step s s'"
| step_remove: "terminated nm \<Longrightarrow> users_remove nm s = Some (rc, s') \<Longrightarrow> user_step s s'"
| step_login: "terminated nm \<Longrightarrow> users_login nm s = Some (rc, s') \<Longrightarrow> user_step s s'"
| step_logout: "users_logout s = (rc, s') \<Longrightarrow> user_step s s'"

inductive users_reachable :: "users_state \<Rightarrow> bool" where
  reach_init: "users_raw s0 \<Longrightarrow> users_init s0 = Some s \<Longrightarrow> users_reachable s"
| reach_step: "users_reachable s \<Longrightarrow> user_step s s' \<Longrightarrow> users_reachable s'"

lemma users_add_wf:
  assumes "terminated nm" "users_wf s" "users_add (Some nm) admin s = Some (rc, s')"
  shows "users_wf s'"
proof (cases "cstr nm = [] \<or> USER_MAX_NAME \<le> length (cstr nm)")
  case True
  then show ?thesis using assms users_add_invalid [OF assms(1) True, of admin s] by simp
next
  case False
  then have nm: "cstr nm \<noteq> []" "length (cstr nm) < USER_MAX_NAME" by auto
  show ?thesis
  proof (cases "users_view s (cstr nm)")
    case None
    then show ?thesis
      using assms users_add_new [OF assms(1) nm assms(2) None, of admin]
      by (auto split: option.splits)
  next
    case (Some a)
    then show ?thesis using assms users_add_valid [OF assms(1) nm assms(2), of admin] by simp
  qed
qed

lemma user_step_wf: "user_step s s' \<Longrightarrow> users_wf s \<Longrightarrow> users_wf s'"
proof (induction rule: user_step.induct)
  case (step_add nm admin s rc s')
  then show ?case by (blast intro: users_add_wf)
next
  case (step_remove nm s rc s')
  then show ?case using users_remove_cases [of nm s] by (auto split: option.splits if_splits)
next
  case (step_login nm s rc s')
  then show ?case using users_login_cases [of nm s] by (auto split: option.splits)
next
  case (step_logout s rc s')
  then show ?case using users_logout_wf [of s] by simp
qed

lemma users_reachable_wf: "users_reachable s \<Longrightarrow> users_wf s"
proof (induction rule: users_reachable.induct)
  case (reach_init s0 s)
  then show ?case using users_init_wf [of s0] by auto
next
  case (reach_step s s')
  then show ?case by (blast intro: user_step_wf)
qed

lemma users_wf_root:
  assumes "users_wf s"
  shows "users_view s (bytes_of ''root'') = Some True"
proof -
  have "slot_lookup u_live u_name (users s) (bytes_of ''root'') = Some 0"
    using assms slot_lookup_Some_iff [of u_live u_name "users s" "bytes_of ''root''" 0]
    by (simp add: users_wf_def root_ok_def USER_MAX_COUNT_def)
  then show ?thesis using assms by (simp add: users_view_def users_wf_def root_ok_def)
qed

text \<open>A concrete array to start from.\<close>

definition users_zero :: users_state where
  "users_zero = \<lparr>users = replicate 16 \<lparr>u_name = fresh 24, u_active = 0, u_admin = 0\<rparr>, current_user = 0\<rparr>"

lemma users_raw_zero: "users_raw users_zero"
  by (simp add: users_raw_def users_zero_def USER_MAX_COUNT_def USER_MAX_NAME_def)

definition users_booted :: users_state where
  "users_booted = the (users_init users_zero)"

lemma users_booted_init:
  "users_init users_zero = Some users_booted" "users_wf users_booted"
  "current_user users_booted = 0" "users_reachable users_booted"
  "users_view users_booted = [bytes_of ''root'' \<mapsto> True, bytes_of ''guest'' \<mapsto> False]"
proof -
  show i: "users_init users_zero = Some users_booted"
    using users_init_wf [OF users_raw_zero] by (auto simp: users_booted_def)
  show "users_wf users_booted" "current_user users_booted = 0"
    "users_view users_booted = [bytes_of ''root'' \<mapsto> True, bytes_of ''guest'' \<mapsto> False]"
    using i users_init_wf [OF users_raw_zero] by auto
  show "users_reachable users_booted"
    using i users_raw_zero by (rule reach_init [rotated])
qed

lemma users_get_loop_eq:
  "users_get_loop us seen (seen + int k) =
     (if k < length (filter u_live us) then Some (filter u_live us ! k) else None)"
proof (induction us arbitrary: seen k)
  case Nil then show ?case by simp
next
  case (Cons u us)
  have live: "(u_active u \<noteq> 0) = u_live u" by (simp add: u_live_def)
  show ?case
  proof (cases k)
    case 0
    then show ?thesis using Cons.IH [of seen 0] live by simp
  next
    case (Suc j)
    then show ?thesis
      using Cons.IH [of "seen + 1" j] Cons.IH [of seen k] live by (simp add: algebra_simps)
  qed
qed

lemma users_count_loop_eq: "users_count_loop us n = n + int (length (filter u_live us))"
  by (induction us arbitrary: n) (auto simp: u_live_def)

subsection \<open>Properties\<close>

text \<open>C21: In every state the user table can reach from \<open>users_init\<close> by adding, removing, logging in
  and out, the table is well formed (16 slots, terminated names that are distinct among the active
  users, flags 0 or 1), the current index is a slot of the table, and \<open>root\<close> is an active
  administrator.\<close>

theorem users_reachable_invariant:
  assumes "users_reachable s"
  shows "users_wf s \<and> current_user s < USER_MAX_COUNT \<and> users_view s (bytes_of ''root'') = Some True"
proof -
  have "users_wf s" using assms by (rule users_reachable_wf)
  then show ?thesis using users_wf_root [of s] by (simp add: users_wf_def)
qed

theorem users_reachable_invariant_witness:
  "users_reachable users_booted \<and> users_view users_booted (bytes_of ''root'') = Some True"
  using users_reachable_invariant [OF users_booted_init(4)] users_booted_init(4) by blast

text \<open>The abstract state of the accounts is the map of names to administrator flags with the name that is
  logged in, if the current slot is active.\<close>

definition logged_in :: "users_state \<Rightarrow> byte list option" where
  "logged_in s = seat s (current_user s)"

lemma users_view_current: "users_view (s\<lparr>current_user := i\<rparr>) = users_view s"
  by (simp add: users_view_def fun_eq_iff)

lemma users_wf_slots:
  assumes "users_wf s"
  shows "slot_lookup u_live u_name (users s) nm = Some (current_user s) \<longleftrightarrow> logged_in s = Some nm"
    and "slot_lookup u_live u_name (users s) nm = Some 0 \<longleftrightarrow> nm = bytes_of ''root''"
  using assms slot_lookup_Some_iff [of u_live u_name "users s" nm]
  by (auto simp: users_wf_def logged_in_def seat_def root_ok_def USER_MAX_COUNT_def)

text \<open>The slot the next new user gets.\<close>

definition first_free :: "users_state \<Rightarrow> nat option" where
  "first_free s = first_index (\<lambda>u. \<not> u_live u) (users s)"

lemma users_add_refines:
  assumes "users_wf s" "terminated nm"
  shows "\<exists>rc s'. users_add (Some nm) admin s = Some (rc, s') \<and>
     rc = (if cstr nm = [] \<or> 24 \<le> length (cstr nm) then 1
           else if users_view s (cstr nm) \<noteq> None then 2
           else if \<forall>u \<in> set (users s). u_active u \<noteq> 0 then 3 else 0) \<and>
     users_view s' = (if rc = 0 then (users_view s)(cstr nm \<mapsto> admin \<noteq> 0) else users_view s) \<and>
     logged_in s' = (if rc = 0 \<and> first_free s = Some (current_user s) then Some (cstr nm) else logged_in s) \<and>
     (if rc = 0 then users_wf s' \<and> current_user s' = current_user s else s' = s)"
proof (cases "cstr nm = [] \<or> USER_MAX_NAME \<le> length (cstr nm)")
  case True
  then show ?thesis
    using users_add_invalid [OF assms(2) True, of admin s] by (auto simp: USER_MAX_NAME_def)
next
  case False
  then have nm: "cstr nm \<noteq> []" "length (cstr nm) < USER_MAX_NAME" by auto
  show ?thesis
  proof (cases "users_view s (cstr nm)")
    case (Some a)
    then show ?thesis
      using nm users_add_valid [OF assms(2) nm assms(1), of admin] by (simp add: USER_MAX_NAME_def)
  next
    case None
    have full: "first_index (\<lambda>u. \<not> u_live u) (users s) = None \<longleftrightarrow>
        (\<forall>u \<in> set (users s). u_active u \<noteq> 0)"
      by (simp add: first_index_None u_live_def)
    show ?thesis
      using nm None full users_add_new [OF assms(2) nm assms(1) None, of admin]
      by (auto simp: USER_MAX_NAME_def logged_in_def first_free_def split: option.splits)
  qed
qed

lemma users_remove_refines:
  assumes "users_wf s" "terminated nm"
  shows "\<exists>rc s'. users_remove nm s = Some (rc, s') \<and>
     rc = (if users_view s (cstr nm) = None \<or> cstr nm = bytes_of ''root'' then 1
           else if logged_in s = Some (cstr nm) then 2 else 0) \<and>
     users_view s' = (if rc = 0 then (users_view s)(cstr nm := None) else users_view s) \<and>
     logged_in s' = logged_in s \<and>
     (if rc = 0 then users_wf s' \<and> current_user s' = current_user s else s' = s)"
proof (cases "slot_lookup u_live u_name (users s) (cstr nm)")
  case None
  then show ?thesis using users_remove_cases [OF assms(2,1)] by (simp add: users_view_def)
next
  case (Some i)
  then have "users_view s (cstr nm) \<noteq> None" "i = 0 \<longleftrightarrow> cstr nm = bytes_of ''root''"
    "i = current_user s \<longleftrightarrow> logged_in s = Some (cstr nm)"
    using users_wf_slots [OF assms(1), of "cstr nm"] by (auto simp: users_view_def)
  moreover have "cstr nm = bytes_of ''root'' \<or> logged_in s = Some (cstr nm) \<or> i \<noteq> current_user s" using calculation(3) by blast
  ultimately show ?thesis using Some users_remove_cases [OF assms(2,1)] by (auto simp: logged_in_def split: if_splits)
qed

lemma users_login_refines:
  assumes "users_wf s" "terminated nm"
  shows "\<exists>rc s'. users_login nm s = Some (rc, s') \<and> rc = (if users_view s (cstr nm) = None then 1 else 0) \<and>
     users_wf s' \<and> users_view s' = users_view s \<and>
     logged_in s' = (if rc = 0 then Some (cstr nm) else logged_in s)"
proof (cases "slot_lookup u_live u_name (users s) (cstr nm)")
  case None
  then show ?thesis using users_login_cases [OF assms(2,1)] assms(1) by (simp add: users_view_def)
next
  case (Some i)
  then have "users_login nm s = Some (0, s\<lparr>current_user := i\<rparr>)" "users_wf (s\<lparr>current_user := i\<rparr>)"
    using users_login_cases [OF assms(2,1)] by simp_all
  then show ?thesis using Some slot_lookup_SomeD [OF Some] users_view_current [of i s]
    by (simp add: users_view_def logged_in_def seat_def)
qed

text \<open>C22: The user table refines a map from names to administrator flags and the name that is logged in.
  \<open>users_add\<close> adds exactly the new name: code 1 exactly on an empty or too long name, code 2 exactly on a
  name already in the map, code 3 exactly when no slot is inactive; who is logged in stays, except that
  the new user gets the first inactive slot and so becomes current if that is the current slot.
  \<open>users_remove\<close> deletes exactly the named user, refuses an unknown name and \<open>root\<close> (code 1) and the user
  who is logged in (code 2), and changes nothing about who is logged in.  \<open>users_login\<close> logs in exactly the
  users of the map.  \<open>users_logout\<close> returns 0, changes no account and logs in whoever is in slot 1, nobody
  if that slot is inactive.  A call that returns another code than 0 changes nothing.\<close>

theorem users_refine_accounts:
  assumes "users_wf s" "terminated nm"
  shows "(\<exists>rc s'. users_add (Some nm) admin s = Some (rc, s') \<and>
       rc = (if cstr nm = [] \<or> 24 \<le> length (cstr nm) then 1
             else if users_view s (cstr nm) \<noteq> None then 2
             else if \<forall>u \<in> set (users s). u_active u \<noteq> 0 then 3 else 0) \<and>
       users_view s' = (if rc = 0 then (users_view s)(cstr nm \<mapsto> admin \<noteq> 0) else users_view s) \<and>
       logged_in s' = (if rc = 0 \<and> first_free s = Some (current_user s) then Some (cstr nm) else logged_in s) \<and>
       (if rc = 0 then users_wf s' \<and> current_user s' = current_user s else s' = s)) \<and>
    (\<exists>rc s'. users_remove nm s = Some (rc, s') \<and>
       rc = (if users_view s (cstr nm) = None \<or> cstr nm = bytes_of ''root'' then 1
             else if logged_in s = Some (cstr nm) then 2 else 0) \<and>
       users_view s' = (if rc = 0 then (users_view s)(cstr nm := None) else users_view s) \<and>
       logged_in s' = logged_in s \<and>
       (if rc = 0 then users_wf s' \<and> current_user s' = current_user s else s' = s)) \<and>
    (\<exists>rc s'. users_login nm s = Some (rc, s') \<and> rc = (if users_view s (cstr nm) = None then 1 else 0) \<and>
       users_wf s' \<and> users_view s' = users_view s \<and>
       logged_in s' = (if rc = 0 then Some (cstr nm) else logged_in s)) \<and>
    (\<exists>s'. users_logout s = (0, s') \<and> users_wf s' \<and> users_view s' = users_view s \<and> logged_in s' = seat s 1)"
proof -
  have "\<exists>s'. users_logout s = (0, s') \<and> users_wf s' \<and> users_view s' = users_view s \<and> logged_in s' = seat s 1"
    using users_logout_wf [OF assms(1)] by (simp add: users_logout_def users_view_current logged_in_def seat_current)
  then show ?thesis
    using users_add_refines [OF assms, of admin] users_remove_refines [OF assms] users_login_refines [OF assms]
    by blast
qed

theorem users_refine_accounts_witness:
  "\<exists>s s'. users_add (Some (lit ''bob'')) 1 users_booted = Some (0, s) \<and>
      users_view s = [bytes_of ''root'' \<mapsto> True, bytes_of ''guest'' \<mapsto> False, bytes_of ''bob'' \<mapsto> True] \<and>
      users_login (lit ''bob'') users_booted = Some (1, s')"
proof -
  have "users_view users_booted (bytes_of ''bob'') = None"
    "cstr (lit ''bob'') = bytes_of ''bob''" "\<not> (\<forall>u \<in> set (users users_booted). u_active u \<noteq> 0)"
    "bytes_of ''bob'' \<noteq> []" "length (bytes_of ''bob'') < 24"
    by code_simp+
  then show ?thesis
    using users_refine_accounts [OF users_booted_init(2) terminated_lit [of "''bob''"], of 1] users_booted_init(5)
    by auto
qed

text \<open>\<open>users_count\<close> and \<open>users_get\<close> enumerate exactly the active users, in slot order: index
  \<open>k\<close> below the count is the \<open>k\<close>-th active user and every index from the count on is refused.\<close>

theorem users_get_enumerates:
  "users_count s = int (length (filter u_live (users s))) \<and>
   users_get (int k) s =
     (if int k < users_count s then Some (filter u_live (users s) ! k) else None)"
  using users_get_loop_eq [of "users s" 0 k]
  by (simp add: users_get_def users_count_def users_count_loop_eq)

text \<open>Whether the user in the current slot is an administrator, from the map.\<close>

lemma current_admin:
  assumes "users_wf s" "logged_in s = Some nm" "users_view s nm = Some a"
  shows "users_current_is_admin s = Some (if a then 1 else 0)"
proof -
  have "slot_lookup u_live u_name (users s) nm = Some (current_user s)" using users_wf_slots(1) assms by blast
  then have "a \<longleftrightarrow> u_admin (users s ! current_user s) \<noteq> 0" using assms(3) by (simp add: users_view_def)
  moreover have "user_ok (users s ! current_user s)" using users_wf_slot assms(1) by (simp add: users_wf_def)
  ultimately show ?thesis using assms(1) by (auto simp: users_current_is_admin_def user_ok_def users_wf_def)
qed

text \<open>C37: Logging out does not always return to the unprivileged \<open>guest\<close>: \<open>users_logout\<close> selects
  slot 1 without looking at it.  In every well-formed table where \<open>guest\<close> has its slot 1 and is not
  logged in, \<open>guest\<close> can be removed; the user added next, with any free name and any flag, gets the
  slot; and from then on logging out logs this user in, with administrator rights if the flag was set.\<close>

theorem logout_can_become_admin:
  assumes "users_wf s" "seat s 1 = Some (bytes_of ''guest'')" "current_user s \<noteq> 1"
    and "terminated nm" "cstr nm \<noteq> []" "length (cstr nm) < USER_MAX_NAME" "users_view s (cstr nm) = None"
  shows "\<exists>s1 s2. users_remove (lit ''guest'') s = Some (0, s1) \<and> users_add (Some nm) admin s1 = Some (0, s2) \<and>
     users_wf s2 \<and> logged_in (snd (users_logout s2)) = Some (cstr nm) \<and>
     users_current_is_admin (snd (users_logout s2)) = Some (if admin \<noteq> 0 then 1 else 0)"
proof -
  have g: "cstr (lit ''guest'') = bytes_of ''guest''" using bytes_of_literals by auto
  have "slot_lookup u_live u_name (users s) (bytes_of ''guest'') = Some 1"
    using assms(1,2) slot_lookup_Some_iff [of u_live u_name "users s"]
    by (auto simp: users_wf_def seat_def USER_MAX_COUNT_def split: if_splits)
  then obtain s1 where s1: "users_remove (lit ''guest'') s = Some (0, s1)" "users_wf s1"
    "users_view s1 = (users_view s)(bytes_of ''guest'' := None)" "seat s1 = (seat s)(1 := None)"
    using users_remove_cases [OF terminated_lit assms(1), of "''guest''"] assms(3) by (auto simp: g)
  have free: "users_view s1 (cstr nm) = None" using s1(3) assms(7) by simp
  have "first_index (\<lambda>u. \<not> u_live u) (users s1) = Some 1"
    using s1(2) fun_cong [OF s1(4), of 1]
    by (auto simp: first_index_Some users_wf_def root_ok_def seat_def USER_MAX_COUNT_def split: if_splits)
  then obtain s2 where s2: "users_add (Some nm) admin s1 = Some (0, s2)" "users_wf s2"
    "users_view s2 = (users_view s1)(cstr nm \<mapsto> admin \<noteq> 0)" "seat s2 = (seat s1)(1 \<mapsto> cstr nm)"
    using users_add_new [OF assms(4-6) s1(2) free, of admin] by auto
  have l: "logged_in (snd (users_logout s2)) = Some (cstr nm)"
    by (simp add: users_logout_def logged_in_def seat_current s2(4))
  moreover have "users_view (snd (users_logout s2)) (cstr nm) = Some (admin \<noteq> 0)"
    using s2(3) by (simp add: users_logout_def users_view_current)
  ultimately show ?thesis
    using s1(1) s2(1,2) current_admin [OF users_logout_wf [OF s2(2)] l] by auto
qed

theorem logout_can_become_admin_witness:
  "\<exists>s1 s2. users_remove (lit ''guest'') users_booted = Some (0, s1) \<and> users_add (Some (lit ''bob'')) 1 s1 = Some (0, s2) \<and>
     users_current_is_admin (snd (users_logout s2)) = Some 1"
proof -
  have "seat users_booted 1 = Some (bytes_of ''guest'')" "current_user users_booted \<noteq> 1"
    "cstr (lit ''bob'') \<noteq> []" "length (cstr (lit ''bob'')) < USER_MAX_NAME" "users_view users_booted (cstr (lit ''bob'')) = None"
    by code_simp+
  from logout_can_become_admin [OF users_booted_init(2) this(1,2) terminated_lit this(3-5), of 1]
  show ?thesis by auto
qed

end
