(* ===== verification/Kernel_Memory.thy ===== *)
theory Kernel_Memory
  imports Kernel_Prelude
begin

unbundle bit_operations_syntax

section \<open>kernel/memory.c: the bump allocator and the byte loops\<close>

text \<open>
  The kernel heap is a static array of 128 KiB and the number of its bytes in use; a pointer
  into it is its offset.  \<open>size_t\<close> is 32 bits wide on the target (\<open>-m32\<close>), so the sizes are
  \<open>32 word\<close> and the additions of \<open>kmalloc\<close> wrap around.  \<open>kmemset\<close>, \<open>kmemcpy\<close> and \<open>kmemcmp\<close>
  are the loops over arrays, \<open>None\<close> when an access leaves an array.
\<close>

definition HEAP_SIZE :: "32 word" where
  "HEAP_SIZE = 128 * 1024"

record heap_state =
  heap_used :: "32 word"

definition memory_init :: "heap_state \<Rightarrow> heap_state" where
  "memory_init h = h\<lparr>heap_used := 0\<rparr>"

definition kmalloc :: "32 word \<Rightarrow> heap_state \<Rightarrow> 32 word option \<times> heap_state" where
  "kmalloc req h =
     (if req = 0 then (None, h)
      else
        let n = (req + 7) AND NOT 7 in
        if HEAP_SIZE < heap_used h + n then (None, h)
        else (Some (heap_used h), h\<lparr>heap_used := heap_used h + n\<rparr>))"

definition kfree :: "32 word option \<Rightarrow> heap_state \<Rightarrow> heap_state" where
  "kfree ptr h = h"

definition kmem_get_allocated :: "heap_state \<Rightarrow> 32 word" where
  "kmem_get_allocated h = heap_used h"

definition kmem_get_free :: "heap_state \<Rightarrow> 32 word" where
  "kmem_get_free h = HEAP_SIZE - heap_used h"

fun kmemset_loop :: "cbuf \<Rightarrow> byte \<Rightarrow> nat \<Rightarrow> cbuf option" where
  "kmemset_loop p v 0 = Some p"
| "kmemset_loop p v (Suc n) =
     (case p of [] \<Rightarrow> None | _ # p' \<Rightarrow> map_option (\<lambda>r. v # r) (kmemset_loop p' v n))"

definition kmemset :: "cbuf \<Rightarrow> int \<Rightarrow> nat \<Rightarrow> cbuf option" where
  "kmemset ptr v n = kmemset_loop ptr (word_of_int v) n"

fun kmemcpy :: "cbuf \<Rightarrow> cbuf \<Rightarrow> nat \<Rightarrow> cbuf option" where
  "kmemcpy d s 0 = Some d"
| "kmemcpy (_ # d) (c # s) (Suc n) = map_option (\<lambda>r. c # r) (kmemcpy d s n)"
| "kmemcpy d s (Suc n) = None"

fun kmemcmp :: "cbuf \<Rightarrow> cbuf \<Rightarrow> nat \<Rightarrow> int option" where
  "kmemcmp a b 0 = Some 0"
| "kmemcmp (x # a) (y # b) (Suc n) =
     (if x \<noteq> y then Some (uint x - uint y) else kmemcmp a b n)"
| "kmemcmp a b (Suc n) = None"

subsection \<open>The byte loops\<close>

lemma kmemset_eq [cbuf_simps]:
  "n \<le> length p \<Longrightarrow> kmemset p v n = Some (replicate n (word_of_int v) @ drop n p)"
proof -
  have "n \<le> length p \<Longrightarrow> kmemset_loop p c n = Some (replicate n c @ drop n p)" for c
    by (induction p c n rule: kmemset_loop.induct) (auto split: list.splits)
  then show "n \<le> length p \<Longrightarrow> ?thesis" by (simp add: kmemset_def)
qed

lemma kmemcpy_eq [cbuf_simps]:
  "n \<le> length d \<Longrightarrow> n \<le> length s \<Longrightarrow> kmemcpy d s n = Some (take n s @ drop n d)"
  by (induction d s n rule: kmemcpy.induct) auto

lemma kmemcpy_None: "kmemcpy d s n = None \<longleftrightarrow> length d < n \<or> length s < n"
  by (induction d s n rule: kmemcpy.induct) auto

lemma kmemcmp_zero: "n \<le> length a \<Longrightarrow> n \<le> length b \<Longrightarrow>
    \<exists>r. kmemcmp a b n = Some r \<and> (r = 0 \<longleftrightarrow> take n a = take n b)"
  by (induction a b n rule: kmemcmp.induct) (auto simp: word_uint_eq_iff [symmetric])

subsection \<open>The allocator\<close>

text \<open>The rounding of \<open>kmalloc\<close>: up to the next multiple of 8, when the addition does not wrap.\<close>

lemma unat_align8: "unat ((w::32 word) AND - 8) = unat w div 8 * 8"
proof -
  have m: "- 8 = NOT (mask 3 :: 32 word)"
    by (simp add: mask_eq_exp_minus_1)
  have "w AND NOT (mask 3) = push_bit 3 (drop_bit 3 w)"
    by (rule bit_word_eqI) (auto simp: bit_simps)
  moreover have "unat (push_bit 3 (drop_bit 3 w)) = unat w div 8 * 8"
  proof -
    have "unat w div 8 * 8 < 2 ^ 32"
      using unsigned_less [of w, where ?'a = nat] by simp
    then show ?thesis
      by (simp add: push_bit_eq_mult unat_word_ariths unat_drop_bit_eq drop_bit_eq_div)
  qed
  ultimately show ?thesis by (simp only: m)
qed

definition round8 :: "nat \<Rightarrow> nat" where
  "round8 n = (n + 7) div 8 * 8"

lemma round8_bounds: "n \<le> round8 n" "round8 n \<le> n + 7" "8 dvd round8 n"
  by (auto simp: round8_def)

definition heap_ok :: "heap_state \<Rightarrow> bool" where
  "heap_ok h \<longleftrightarrow> unat (heap_used h) \<le> 131072 \<and> 8 dvd unat (heap_used h)"

lemma heap_ok_init: "heap_ok (memory_init h)"
  by (simp add: heap_ok_def memory_init_def)

text \<open>The largest request for which neither addition of \<open>kmalloc\<close> wraps, whatever is in use.\<close>

definition kmalloc_limit :: nat where
  "kmalloc_limit = 2 ^ 32 - 131072 - 8"

lemma kmalloc_cases:
  assumes "heap_ok h" "unat req \<le> kmalloc_limit"
  shows "kmalloc req h =
     (if req = 0 \<or> 131072 < unat (heap_used h) + round8 (unat req) then (None, h)
      else (Some (heap_used h),
            h\<lparr>heap_used := of_nat (unat (heap_used h) + round8 (unat req))\<rparr>))"
proof -
  have "unat (req + 7) = unat req + 7"
    using assms(2) by (simp add: unat_word_ariths kmalloc_limit_def)
  then have r: "unat ((req + 7) AND - 8) = round8 (unat req)"
    by (simp add: unat_align8 round8_def)
  have sum: "unat (heap_used h + ((req + 7) AND - 8)) =
      unat (heap_used h) + round8 (unat req)"
    using assms round8_bounds(2) [of "unat req"]
    by (simp add: unat_word_ariths r heap_ok_def kmalloc_limit_def)
  then have w: "heap_used h + ((req + 7) AND - 8) =
      of_nat (unat (heap_used h) + round8 (unat req))"
    by (simp flip: sum)
  have "HEAP_SIZE < heap_used h + ((req + 7) AND - 8) \<longleftrightarrow>
      131072 < unat (heap_used h) + round8 (unat req)"
    by (simp add: word_less_nat_alt sum HEAP_SIZE_def)
  then show ?thesis
    by (simp add: kmalloc_def Let_def w)
qed

lemma kmalloc_Some:
  assumes "heap_ok h" "unat req \<le> kmalloc_limit" "kmalloc req h = (Some p, h')"
  shows "p = heap_used h" "heap_ok h'" "8 dvd unat p"
    "unat (heap_used h') = unat p + round8 (unat req)"
    "unat p + unat req \<le> unat (heap_used h')" "0 < unat req"
proof -
  have eq: "p = heap_used h"
    "h' = h\<lparr>heap_used := of_nat (unat (heap_used h) + round8 (unat req))\<rparr>"
    and small: "unat (heap_used h) + round8 (unat req) \<le> 131072"
    and pos: "req \<noteq> 0"
    using assms(3) kmalloc_cases [OF assms(1,2)] by (auto split: if_splits)
  have used: "unat (heap_used h') = unat p + round8 (unat req)"
    using eq small by (simp add: unat_of_nat del: of_nat_add)
  show "p = heap_used h" by (rule eq)
  show "8 dvd unat p" using eq assms(1) by (simp add: heap_ok_def)
  show "unat (heap_used h') = unat p + round8 (unat req)" by (rule used)
  show "heap_ok h'"
    using used small eq assms(1) round8_bounds(3) by (simp add: heap_ok_def)
  show "unat p + unat req \<le> unat (heap_used h')"
    using used round8_bounds(1) by simp
  show "0 < unat req" using pos by (simp add: unat_gt_0)
qed

lemma kmalloc_None:
  assumes "heap_ok h" "unat req \<le> kmalloc_limit" "kmalloc req h = (None, h')"
  shows "h' = h" "unat req = 0 \<or> 131072 < unat (heap_used h) + round8 (unat req)"
  using assms(3) kmalloc_cases [OF assms(1,2)] by (auto split: if_splits simp: unat_eq_0)

text \<open>A request above the limit that is granted reserves nothing: one of the additions has wrapped.\<close>

lemma kmalloc_beyond:
  assumes "heap_ok h" "kmalloc_limit < unat req" "kmalloc req h = (Some p, h')"
  shows "unat (heap_used h') \<le> unat (heap_used h)"
proof -
  define r where "r = (req + 7) AND - 8"
  have g: "\<not> HEAP_SIZE < heap_used h + r" "h' = h\<lparr>heap_used := heap_used h + r\<rparr>"
    using assms(3) by (auto simp: kmalloc_def Let_def r_def split: if_splits)
  have "unat r = unat (req + 7) div 8 * 8" by (simp add: r_def unat_align8)
  moreover have "unat (req + 7) = unat req + 7 \<or> unat (req + 7) < 8"
    using unsigned_less [of req, where ?'a = nat] by (auto simp: unat_word_ariths mod_if)
  ultimately have r: "unat r = 0 \<or> unat req \<le> unat r" by auto
  have "unat (heap_used h + r) = (if unat (heap_used h) + unat r < 2 ^ 32 then unat (heap_used h) + unat r
      else unat (heap_used h) + unat r - 2 ^ 32)"
    using unsigned_less [of "heap_used h", where ?'a = nat] unsigned_less [of r, where ?'a = nat]
    by (simp add: unat_word_ariths mod_if)
  moreover have "unat (heap_used h + r) \<le> 131072" using g(1) by (simp add: word_less_nat_alt HEAP_SIZE_def)
  ultimately show ?thesis
    using r assms(1,2) g(2) unsigned_less [of r, where ?'a = nat]
    by (auto simp: heap_ok_def kmalloc_limit_def split: if_splits)
qed

text \<open>A run of requests and the blocks it hands out.\<close>

fun kmalloc_run :: "32 word list \<Rightarrow> heap_state \<Rightarrow> (nat \<times> nat) list \<times> heap_state" where
  "kmalloc_run [] h = ([], h)"
| "kmalloc_run (n # ns) h =
     (let (p, h1) = kmalloc n h; (bs, h2) = kmalloc_run ns h1
      in (case p of None \<Rightarrow> (bs, h2) | Some a \<Rightarrow> ((unat a, unat n) # bs, h2)))"

lemma kmalloc_step_ok:
  "heap_ok h \<Longrightarrow> unat n \<le> kmalloc_limit \<Longrightarrow> kmalloc n h = (p, h1) \<Longrightarrow>
     heap_ok h1 \<and> unat (heap_used h) \<le> unat (heap_used h1)"
  using kmalloc_None(1) [of h n h1] kmalloc_Some(1,2,4) [of h n _ h1] by (cases p) auto

text \<open>What a run from \<open>lo\<close> to \<open>hi\<close> bytes in use hands out: aligned blocks inside that range, each
  behind the one before it.\<close>

definition blocks_ok :: "nat \<Rightarrow> nat \<Rightarrow> (nat \<times> nat) list \<Rightarrow> bool" where
  "blocks_ok lo hi bs \<longleftrightarrow>
     (\<forall>b \<in> set bs. lo \<le> fst b \<and> fst b + snd b \<le> hi \<and> 8 dvd fst b \<and> 0 < snd b) \<and>
     sorted_wrt (\<lambda>b c. fst b + snd b \<le> fst c) bs"

lemma blocks_ok_mono: "blocks_ok lo hi bs \<Longrightarrow> lo' \<le> lo \<Longrightarrow> blocks_ok lo' hi bs"
  by (auto simp: blocks_ok_def)

lemma blocks_ok_Cons:
  "blocks_ok mid hi bs \<Longrightarrow> lo \<le> a \<Longrightarrow> a + n \<le> mid \<Longrightarrow> mid \<le> hi \<Longrightarrow> 8 dvd a \<Longrightarrow> 0 < n \<Longrightarrow>
     blocks_ok lo hi ((a, n) # bs)"
  by (fastforce simp: blocks_ok_def)

lemma kmalloc_run_blocks:
  "heap_ok h \<Longrightarrow> \<forall>n \<in> set ns. unat n \<le> kmalloc_limit \<Longrightarrow> kmalloc_run ns h = (bs, h') \<Longrightarrow>
     heap_ok h' \<and> unat (heap_used h) \<le> unat (heap_used h') \<and>
     blocks_ok (unat (heap_used h)) (unat (heap_used h')) bs"
proof (induction ns arbitrary: h bs)
  case Nil then show ?case by (auto simp: blocks_ok_def)
next
  case (Cons n ns)
  obtain p h1 where k: "kmalloc n h = (p, h1)" by (cases "kmalloc n h")
  obtain bs1 h2 where run: "kmalloc_run ns h1 = (bs1, h2)" by (cases "kmalloc_run ns h1")
  have h2: "h2 = h'" and bs: "bs = (case p of None \<Rightarrow> bs1 | Some a \<Rightarrow> (unat a, unat n) # bs1)"
    using Cons.prems(3) k run by (auto split: option.splits)
  have n: "unat n \<le> kmalloc_limit" using Cons.prems(2) by simp
  have step: "heap_ok h1" "unat (heap_used h) \<le> unat (heap_used h1)"
    using kmalloc_step_ok [OF Cons.prems(1) n k] by auto
  have IH: "heap_ok h'" "unat (heap_used h1) \<le> unat (heap_used h')"
    "blocks_ok (unat (heap_used h1)) (unat (heap_used h')) bs1"
    using Cons.IH [OF step(1), of bs1] run Cons.prems(2) h2 by auto
  show ?case
  proof (cases p)
    case None
    with IH bs step show ?thesis by (auto intro: blocks_ok_mono)
  next
    case (Some a)
    note ks = kmalloc_Some [OF Cons.prems(1) n k [unfolded Some]]
    have "blocks_ok (unat (heap_used h)) (unat (heap_used h')) ((unat a, unat n) # bs1)"
      using IH ks by (intro blocks_ok_Cons) auto
    with IH bs step Some show ?thesis by auto
  qed
qed

subsection \<open>Properties\<close>

text \<open>C29: As long as every request is at most \<open>kmalloc_limit\<close> (4 GiB less 128 KiB and 8 bytes), the blocks
  that a run of \<open>kmalloc\<close> calls hands out lie inside the 128 KiB heap, are 8-byte aligned and non-empty,
  and each begins at or behind the end of every earlier one, so no two overlap.  A larger request is
  not always refused: one that is granted reserves no byte, and may even give back bytes in use.\<close>

theorem kmalloc_blocks_disjoint:
  assumes "\<forall>n \<in> set reqs. unat n \<le> kmalloc_limit" "kmalloc_run reqs (memory_init h) = (bs, h')"
  shows "(\<forall>(a, n) \<in> set bs. a + n \<le> unat HEAP_SIZE \<and> 8 dvd a \<and> 0 < n) \<and>
     (\<forall>i j. i < j \<longrightarrow> j < length bs \<longrightarrow> fst (bs ! i) + snd (bs ! i) \<le> fst (bs ! j)) \<and>
     (\<forall>n p h2. kmalloc_limit < unat n \<longrightarrow> kmalloc n h' = (Some p, h2) \<longrightarrow> unat (heap_used h2) \<le> unat (heap_used h'))"
proof -
  have h': "heap_ok h'"
    and bs: "blocks_ok (unat (heap_used (memory_init h))) (unat (heap_used h')) bs"
    using kmalloc_run_blocks [OF heap_ok_init assms] by auto
  have le: "unat (heap_used h') \<le> unat HEAP_SIZE"
    using h' by (simp add: heap_ok_def HEAP_SIZE_def)
  have "\<forall>b \<in> set bs. fst b + snd b \<le> unat HEAP_SIZE \<and> 8 dvd fst b \<and> 0 < snd b"
    using bs le unfolding blocks_ok_def by (meson order_trans)
  moreover have "\<forall>i j. i < j \<longrightarrow> j < length bs \<longrightarrow> fst (bs ! i) + snd (bs ! i) \<le> fst (bs ! j)"
    using bs by (simp add: blocks_ok_def sorted_wrt_iff_nth_less)
  moreover have "\<forall>n p h2. kmalloc_limit < unat n \<longrightarrow> kmalloc n h' = (Some p, h2) \<longrightarrow> unat (heap_used h2) \<le> unat (heap_used h')"
    using kmalloc_beyond [OF h'] by blast
  ultimately show ?thesis by (simp add: case_prod_beta)
qed

lemma kmalloc_blocks_disjoint_witness:
  "length (fst (kmalloc_run [24, 100] (memory_init \<lparr>heap_used = 0\<rparr>))) = 2 \<and>
   fst (fst (kmalloc_run [24, 100] (memory_init \<lparr>heap_used = 0\<rparr>)) ! 0) +
     snd (fst (kmalloc_run [24, 100] (memory_init \<lparr>heap_used = 0\<rparr>)) ! 0) \<le>
   fst (fst (kmalloc_run [24, 100] (memory_init \<lparr>heap_used = 0\<rparr>)) ! 1)"
proof -
  let ?run = "kmalloc_run [24, 100] (memory_init \<lparr>heap_used = 0\<rparr>)"
  have lim: "\<forall>n \<in> set [24, 100 :: 32 word]. unat n \<le> kmalloc_limit"
    by (simp add: kmalloc_limit_def)
  have two: "length (fst ?run) = 2" by code_simp
  from kmalloc_blocks_disjoint [OF lim prod.collapse [symmetric], of "\<lparr>heap_used = 0\<rparr>"]
  have "\<forall>i j. i < j \<longrightarrow> j < length (fst ?run) \<longrightarrow> fst (fst ?run ! i) + snd (fst ?run ! i) \<le> fst (fst ?run ! j)"
    by blast
  then show ?thesis using two by simp
qed

text \<open>For larger requests the size computation wraps: a request of 4 GiB - 1 is granted an
  address although no byte is reserved for it, and a request of 4 GiB - 8 lowers the number of
  bytes in use, so that later blocks overlap earlier ones.\<close>

theorem kmalloc_wraps:
  "kmalloc 0xFFFFFFFF \<lparr>heap_used = 64\<rparr> = (Some 64, \<lparr>heap_used = 64\<rparr>) \<and>
   kmalloc 0xFFFFFFF8 \<lparr>heap_used = 64\<rparr> = (Some 64, \<lparr>heap_used = 56\<rparr>)"
  by (simp add: kmalloc_def HEAP_SIZE_def)

end
