(* ===== verification/Kernel_IO.thy ===== *)
theory Kernel_IO
  imports Kernel_String
begin

unbundle bit_operations_syntax

section \<open>kernel/io.c: the VGA terminal and the keyboard\<close>

text \<open>
  The terminal keeps 200 lines of scrollback as a ring (line \<open>n\<close> is stored at index
  \<open>n mod 200\<close>), the position of the output (line and column), the first line shown on the
  screen, the colour, and the prefix flag of the keyboard decoder.  \<open>size_t\<close> is 32 bits wide.
  The two devices io.c drives are part of the state: the 2000 cells of VGA text memory, and the
  log of the \<open>outb\<close> writes to the CRT controller (ports 0x3D4, 0x3D5).  Keyboard input is the list
  of scan codes the controller delivers; a read that exhausts it blocks for ever, which is
  \<open>None\<close>.

  The indices of all stores are in range: lines are taken \<open>mod 200\<close>, and the column stays below 80
  (\<open>term_wf\<close>, preserved by every function).
\<close>

definition VGA_WIDTH :: nat where "VGA_WIDTH = 80"
definition VGA_HEIGHT :: nat where "VGA_HEIGHT = 25"
definition SCROLLBACK_LINES :: nat where "SCROLLBACK_LINES = 200"

datatype vga_color =
    VGA_COLOR_BLACK | VGA_COLOR_BLUE | VGA_COLOR_GREEN | VGA_COLOR_CYAN
  | VGA_COLOR_RED | VGA_COLOR_MAGENTA | VGA_COLOR_BROWN | VGA_COLOR_LIGHT_GREY
  | VGA_COLOR_DARK_GREY | VGA_COLOR_LIGHT_BLUE | VGA_COLOR_LIGHT_GREEN | VGA_COLOR_LIGHT_CYAN
  | VGA_COLOR_LIGHT_RED | VGA_COLOR_LIGHT_MAGENTA | VGA_COLOR_LIGHT_BROWN | VGA_COLOR_WHITE

fun vga_code :: "vga_color \<Rightarrow> byte" where
  "vga_code VGA_COLOR_BLACK = 0" | "vga_code VGA_COLOR_BLUE = 1"
| "vga_code VGA_COLOR_GREEN = 2" | "vga_code VGA_COLOR_CYAN = 3"
| "vga_code VGA_COLOR_RED = 4" | "vga_code VGA_COLOR_MAGENTA = 5"
| "vga_code VGA_COLOR_BROWN = 6" | "vga_code VGA_COLOR_LIGHT_GREY = 7"
| "vga_code VGA_COLOR_DARK_GREY = 8" | "vga_code VGA_COLOR_LIGHT_BLUE = 9"
| "vga_code VGA_COLOR_LIGHT_GREEN = 10" | "vga_code VGA_COLOR_LIGHT_CYAN = 11"
| "vga_code VGA_COLOR_LIGHT_RED = 12" | "vga_code VGA_COLOR_LIGHT_MAGENTA = 13"
| "vga_code VGA_COLOR_LIGHT_BROWN = 14" | "vga_code VGA_COLOR_WHITE = 15"

record screen_cell =
  ch :: byte
  color :: byte

record terminal =
  scrollback :: "screen_cell list list"
  terminal_line :: "32 word"
  terminal_column :: "32 word"
  viewport_top :: "32 word"
  terminal_color :: byte
  extended_scancode :: bool
  vga_memory :: "16 word list"
  crtc_log :: "(16 word \<times> byte) list"

definition vga_entry_color :: "vga_color \<Rightarrow> vga_color \<Rightarrow> byte" where
  "vga_entry_color fg bg = vga_code fg OR push_bit 4 (vga_code bg)"

definition vga_entry :: "byte \<Rightarrow> byte \<Rightarrow> 16 word" where
  "vga_entry c col = ucast c OR push_bit 8 (ucast col)"

definition term_outb :: "16 word \<Rightarrow> byte \<Rightarrow> terminal \<Rightarrow> terminal" where
  "term_outb port val t = t\<lparr>crtc_log := crtc_log t @ [(port, val)]\<rparr>"

definition latest_view_top :: "terminal \<Rightarrow> 32 word" where
  "latest_view_top t = (if 25 \<le> terminal_line t then terminal_line t - 25 + 1 else 0)"

definition cursor_row :: "terminal \<Rightarrow> 32 word" where
  "cursor_row t =
     (if viewport_top t \<le> terminal_line t
      then (let r = terminal_line t - viewport_top t in if 25 \<le> r then 25 - 1 else r)
      else 0)"

definition move_cursor :: "terminal \<Rightarrow> terminal" where
  "move_cursor t =
     (let pos = ucast (cursor_row t * 80 + terminal_column t) :: 16 word in
      term_outb 0x3D5 (ucast (drop_bit 8 pos AND 0xFF))
        (term_outb 0x3D4 0x0E
          (term_outb 0x3D5 (ucast (pos AND 0xFF))
            (term_outb 0x3D4 0x0F t))))"

definition line_index :: "32 word \<Rightarrow> nat" where
  "line_index line = unat line mod SCROLLBACK_LINES"

definition clear_history_line :: "32 word \<Rightarrow> terminal \<Rightarrow> terminal" where
  "clear_history_line line t =
     t\<lparr>scrollback := (scrollback t)[line_index line :=
         replicate VGA_WIDTH \<lparr>ch = 0x20, color = terminal_color t\<rparr>]\<rparr>"

definition oldest_line :: "terminal \<Rightarrow> 32 word" where
  "oldest_line t = (if 200 \<le> terminal_line t then terminal_line t - 200 + 1 else 0)"

text \<open>The two clamps of \<open>render\<close>.\<close>

definition clamp_viewport :: "terminal \<Rightarrow> terminal" where
  "clamp_viewport t =
     (let t1 = (if viewport_top t < oldest_line t then t\<lparr>viewport_top := oldest_line t\<rparr> else t)
      in if latest_view_top t1 < viewport_top t1
         then t1\<lparr>viewport_top := latest_view_top t1\<rparr> else t1)"

text \<open>The cell that \<open>render\<close> stores for row \<open>y\<close> and column \<open>x\<close>.\<close>

definition render_cell :: "terminal \<Rightarrow> nat \<Rightarrow> nat \<Rightarrow> 16 word" where
  "render_cell t y x =
     (let line = viewport_top t + of_nat y in
      if oldest_line t \<le> line \<and> line \<le> terminal_line t
      then (let c = scrollback t ! line_index line ! x in vga_entry (ch c) (color c))
      else vga_entry 0x20 (terminal_color t))"

definition render :: "terminal \<Rightarrow> terminal" where
  "render t0 =
     (let t = clamp_viewport t0 in
      move_cursor (t\<lparr>vga_memory :=
        concat (map (\<lambda>y. map (render_cell t y) [0..<VGA_WIDTH]) [0..<VGA_HEIGHT])\<rparr>))"

definition follow_output :: "terminal \<Rightarrow> terminal" where
  "follow_output t = t\<lparr>viewport_top := latest_view_top t\<rparr>"

text \<open>\<open>for (y = 0; y < SCROLLBACK_LINES; y++) clear_history_line(y);\<close>\<close>

definition clear_history :: "terminal \<Rightarrow> terminal" where
  "clear_history t = fold (\<lambda>y. clear_history_line (of_nat y)) [0..<SCROLLBACK_LINES] t"

definition io_init :: "terminal \<Rightarrow> terminal" where
  "io_init t =
     render (clear_history
       (t\<lparr>terminal_line := 0, terminal_column := 0, viewport_top := 0, extended_scancode := False,
          terminal_color := vga_entry_color VGA_COLOR_LIGHT_GREY VGA_COLOR_BLACK\<rparr>))"

definition io_set_color :: "vga_color \<Rightarrow> vga_color \<Rightarrow> terminal \<Rightarrow> terminal" where
  "io_set_color fg bg t = t\<lparr>terminal_color := vga_entry_color fg bg\<rparr>"

definition io_clear_screen :: "terminal \<Rightarrow> terminal" where
  "io_clear_screen t =
     render (clear_history (t\<lparr>terminal_line := 0, terminal_column := 0, viewport_top := 0\<rparr>))"

definition io_scroll_up :: "terminal \<Rightarrow> terminal" where
  "io_scroll_up t =
     (if oldest_line t < viewport_top t
      then render (t\<lparr>viewport_top := viewport_top t - 1\<rparr>) else t)"

definition io_scroll_down :: "terminal \<Rightarrow> terminal" where
  "io_scroll_down t =
     (if viewport_top t < latest_view_top t
      then render (t\<lparr>viewport_top := viewport_top t + 1\<rparr>) else t)"

definition io_scroll_page_up :: "terminal \<Rightarrow> terminal" where
  "io_scroll_page_up t = (io_scroll_up ^^ (VGA_HEIGHT - 1)) t"

definition io_scroll_page_down :: "terminal \<Rightarrow> terminal" where
  "io_scroll_page_down t = (io_scroll_down ^^ (VGA_HEIGHT - 1)) t"

definition io_scroll_bottom :: "terminal \<Rightarrow> terminal" where
  "io_scroll_bottom t = render (follow_output t)"

text \<open>\<open>scrollback[terminal_line % SCROLLBACK_LINES][terminal_column] = {c, terminal_color}\<close>\<close>

definition put_cell :: "byte \<Rightarrow> terminal \<Rightarrow> terminal" where
  "put_cell c t =
     (let i = line_index (terminal_line t) in
      t\<lparr>scrollback := (scrollback t)[i := (scrollback t ! i)[unat (terminal_column t) :=
          \<lparr>ch = c, color = terminal_color t\<rparr>]]\<rparr>)"

definition io_backspace :: "terminal \<Rightarrow> terminal" where
  "io_backspace t =
     (if terminal_column t = 0 \<and> terminal_line t = 0 then t
      else
        let t1 = (if terminal_column t = 0
                  then t\<lparr>terminal_line := terminal_line t - 1, terminal_column := 80 - 1\<rparr>
                  else t\<lparr>terminal_column := terminal_column t - 1\<rparr>)
        in render (follow_output (put_cell 0x20 t1)))"

definition new_line :: "terminal \<Rightarrow> terminal" where
  "new_line t =
     (let t1 = t\<lparr>terminal_column := 0, terminal_line := terminal_line t + 1\<rparr>
      in clear_history_line (terminal_line t1) t1)"

definition io_print_char :: "byte \<Rightarrow> terminal \<Rightarrow> terminal" where
  "io_print_char c t =
     (if c = 0x0A then render (follow_output (new_line t))
      else if c = 0x0D then render (t\<lparr>terminal_column := 0\<rparr>)
      else if c = 0x08 then io_backspace t
      else
        let t1 = put_cell c t;
            t2 = t1\<lparr>terminal_column := terminal_column t1 + 1\<rparr>;
            t3 = (if 80 \<le> terminal_column t2 then new_line t2 else t2)
        in render (follow_output t3))"

fun io_print_loop :: "cbuf \<Rightarrow> terminal \<Rightarrow> terminal option" where
  "io_print_loop [] t = None"
| "io_print_loop (c # text) t =
     (if c \<noteq> 0 then io_print_loop text (io_print_char c t) else Some t)"

definition io_print :: "cptr \<Rightarrow> terminal \<Rightarrow> terminal option" where
  "io_print str t = (case str of None \<Rightarrow> Some t | Some s \<Rightarrow> io_print_loop s t)"

definition io_println :: "cptr \<Rightarrow> terminal \<Rightarrow> terminal option" where
  "io_println str t = map_option (io_print_char 0x0A) (io_print str t)"

subsection \<open>Printing numbers\<close>

text \<open>\<open>while (n > 0 && i < 15) { buf[i++] = '0' + n % 10; n /= 10; }\<close>\<close>

function int_digits :: "cbuf \<Rightarrow> nat \<Rightarrow> nat \<Rightarrow> (cbuf \<times> nat) option" where
  "int_digits buf i n =
     (if 0 < n \<and> i < 15 then do {
        buf' \<leftarrow> wr buf i (of_nat (48 + n mod 10));
        int_digits buf' (Suc i) (n div 10) }
      else Some (buf, i))"
  by pat_completeness auto
termination
  by (relation "measure (\<lambda>(buf, i, n). n)") auto

declare int_digits.simps [simp del]

text \<open>\<open>while (i > 0) io_print_char(buf[--i]);\<close>\<close>

fun print_backwards :: "cbuf \<Rightarrow> nat \<Rightarrow> terminal \<Rightarrow> terminal option" where
  "print_backwards buf 0 t = Some t"
| "print_backwards buf (Suc i) t = do {
     c \<leftarrow> rd buf i;
     print_backwards buf i (io_print_char c t) }"

text \<open>\<open>-value\<close> overflows for the least 32-bit integer, which is undefined.\<close>

definition io_print_int :: "32 word \<Rightarrow> terminal \<Rightarrow> terminal option" where
  "io_print_int value t =
     (let negative = sint value < 0 in
      if negative \<and> sint value = - (2 ^ 31) then None
      else
        let n = (if negative then nat (- sint value) else nat (sint value)) in
        if n = 0 then Some (io_print_char 0x30 t)
        else do {
          (buf, i) \<leftarrow> int_digits (fresh 16) 0 n;
          (buf', i') \<leftarrow> (if negative then map_option (\<lambda>b. (b, Suc i)) (wr buf i 0x2D)
                         else Some (buf, i));
          print_backwards buf' i' t })"

text \<open>\<open>for (i = 7; i >= 0; i--) io_print_char(hex[(value >> (i * 4)) & 0xF]);\<close>\<close>

fun hex_loop :: "32 word \<Rightarrow> nat \<Rightarrow> terminal \<Rightarrow> terminal option" where
  "hex_loop val 0 t = Some t"
| "hex_loop val (Suc i) t = do {
     c \<leftarrow> rd (lit ''0123456789ABCDEF'') (unat (drop_bit (i * 4) val AND 0xF));
     hex_loop val i (io_print_char c t) }"

definition io_print_hex :: "32 word \<Rightarrow> terminal \<Rightarrow> terminal option" where
  "io_print_hex val t = do {
     t1 \<leftarrow> io_print (Some (lit ''0x'')) t;
     hex_loop val 8 t1 }"

subsection \<open>The keyboard\<close>

text \<open>The initialised part of the table of \<open>scancode_to_ascii\<close>; the rest of its 128 bytes is 0.\<close>

definition scancode_table :: "byte list" where
  "scancode_table =
     [0, 27] @ bytes_of ''1234567890-='' @ [8, 9] @ bytes_of ''qwertyuiop[]'' @ [0x0A, 0] @
     bytes_of ''asdfghjkl;'' @ [0x27, 0x60, 0, 0x5C] @ bytes_of ''zxcvbnm,./'' @
     [0] @ bytes_of ''*'' @ [0] @ bytes_of '' '' @ [0]"

definition scancode_to_ascii :: "byte \<Rightarrow> byte" where
  "scancode_to_ascii scancode =
     (if scancode < 128 then (scancode_table @ replicate 69 0) ! unat scancode else 0)"

text \<open>One scan code, after the status port has announced it: the new terminal, and the character if
  one is returned.\<close>

definition key_step :: "byte \<Rightarrow> terminal \<Rightarrow> byte option \<times> terminal" where
  "key_step scancode t =
     (if scancode = 0xE0 then (None, t\<lparr>extended_scancode := True\<rparr>)
      else if scancode AND 0x80 \<noteq> 0 then (None, t\<lparr>extended_scancode := False\<rparr>)
      else if extended_scancode t then
        let t1 = t\<lparr>extended_scancode := False\<rparr> in
        (None,
          if scancode = 0x48 then io_scroll_up t1
          else if scancode = 0x50 then io_scroll_down t1
          else if scancode = 0x49 then io_scroll_page_up t1
          else if scancode = 0x51 then io_scroll_page_down t1
          else if scancode = 0x47 then io_scroll_bottom t1
          else t1)
      else
        let c = scancode_to_ascii scancode in
        if c \<noteq> 0 then (Some c, t) else (None, t))"

fun io_read_char :: "byte list \<Rightarrow> terminal \<Rightarrow> (byte \<times> byte list \<times> terminal) option" where
  "io_read_char [] t = None"
| "io_read_char (k # keys) t =
     (case key_step k t of
        (Some c, t') \<Rightarrow> Some (c, keys, t')
      | (None, t') \<Rightarrow> io_read_char keys t')"

lemma io_read_char_consumes:
  "io_read_char keys t = Some (c, rest, t') \<Longrightarrow> length rest < length keys"
  by (induction keys t rule: io_read_char.induct) (auto split: prod.splits option.splits)

function read_line_loop ::
    "cbuf \<Rightarrow> nat \<Rightarrow> nat \<Rightarrow> byte list \<Rightarrow> terminal \<Rightarrow> (cbuf \<times> byte list \<times> terminal) option" where
  "read_line_loop buffer len max_len keys t = do {
     (c, keys', t') \<leftarrow> io_read_char keys t;
     (if c = 0x0A then do {
        buffer' \<leftarrow> wr buffer len 0;
        Some (buffer', keys', io_print_char 0x0A t') }
      else if c = 0x08 then
        (if 0 < len then read_line_loop buffer (len - 1) max_len keys' (io_backspace t')
         else read_line_loop buffer len max_len keys' t')
      else if len + 1 < max_len then do {
        buffer' \<leftarrow> wr buffer len c;
        read_line_loop buffer' (len + 1) max_len keys' (io_print_char c t') }
      else read_line_loop buffer len max_len keys' t') }"
  by pat_completeness auto
termination
  by (relation "measure (\<lambda>(buffer, len, max_len, keys, t). length keys)")
    (auto dest: io_read_char_consumes)

declare read_line_loop.simps [simp del]

definition io_read_line ::
    "cbuf \<Rightarrow> nat \<Rightarrow> byte list \<Rightarrow> terminal \<Rightarrow> (cbuf \<times> byte list \<times> terminal) option" where
  "io_read_line buffer max_len keys t =
     (if max_len = 0 then Some (buffer, keys, t) else read_line_loop buffer 0 max_len keys t)"

end
