(* ===== verification/Kernel_Disk.thy ===== *)
theory Kernel_Disk
  imports Kernel_Prelude
begin

unbundle bit_operations_syntax

section \<open>kernel/disk.c: the ATA disk driver\<close>

text \<open>
  The driver talks to the primary ATA drive by port input and output (\<open>inb\<close>, \<open>outb\<close>, \<open>inw\<close>, \<open>outw\<close>,
  inline assembly).  The machine behind the ports is not part of the program: it is the argument
  \<open>hw\<close> of every definition, four functions on an arbitrary device state \<open>'d\<close>.  The second half of
  the theory states the documented behaviour of a drive that is read and written sector by sector
  in PIO mode as the locale \<open>ata_device\<close>.  The driver relies on two things ATA does not promise: it
  tests ERR while BSY is set (locale \<open>clean_drive\<close>), and it writes the flush command without waiting
  for the end of BSY (locale \<open>tolerant_drive\<close>).  On a drive with both the driver gives a disk of sectors
  (locale \<open>sector_disk\<close>); a simulated drive has both, and another one, which keeps every rule of ATA,
  has them not and loses what is written to it.
\<close>

subsection \<open>The driver\<close>

record 'd ports =
  p_inb :: "16 word \<Rightarrow> 'd \<Rightarrow> byte \<times> 'd"
  p_outb :: "16 word \<Rightarrow> byte \<Rightarrow> 'd \<Rightarrow> 'd"
  p_inw :: "16 word \<Rightarrow> 'd \<Rightarrow> 16 word \<times> 'd"
  p_outw :: "16 word \<Rightarrow> 16 word \<Rightarrow> 'd \<Rightarrow> 'd"

definition ATA_DATA :: "16 word" where "ATA_DATA = 0x1F0"
definition ATA_SECTOR_COUNT :: "16 word" where "ATA_SECTOR_COUNT = 0x1F2"
definition ATA_LBA_LOW :: "16 word" where "ATA_LBA_LOW = 0x1F3"
definition ATA_LBA_MID :: "16 word" where "ATA_LBA_MID = 0x1F4"
definition ATA_LBA_HIGH :: "16 word" where "ATA_LBA_HIGH = 0x1F5"
definition ATA_DRIVE :: "16 word" where "ATA_DRIVE = 0x1F6"
definition ATA_COMMAND :: "16 word" where "ATA_COMMAND = 0x1F7"
definition ATA_STATUS :: "16 word" where "ATA_STATUS = 0x1F7"
definition ATA_CMD_READ :: byte where "ATA_CMD_READ = 0x20"
definition ATA_CMD_WRITE :: byte where "ATA_CMD_WRITE = 0x30"
definition ATA_SR_BSY :: byte where "ATA_SR_BSY = 0x80"
definition ATA_SR_DRQ :: byte where "ATA_SR_DRQ = 0x08"
definition ATA_SR_ERR :: byte where "ATA_SR_ERR = 0x01"

record disk_state =
  has_disk :: bool
  status_text :: cbuf

definition ata_delay :: "'d ports \<Rightarrow> 'd \<Rightarrow> 'd" where
  "ata_delay hw d = ((\<lambda>d. snd (p_inb hw ATA_STATUS d)) ^^ 4) d"

fun wait_not_busy_loop :: "'d ports \<Rightarrow> nat \<Rightarrow> 'd \<Rightarrow> bool \<times> 'd" where
  "wait_not_busy_loop hw 0 d = (False, d)"
| "wait_not_busy_loop hw (Suc n) d =
     (let (status, d') = p_inb hw ATA_STATUS d in
      if status AND ATA_SR_BSY = 0 then (True, d') else wait_not_busy_loop hw n d')"

definition wait_not_busy :: "'d ports \<Rightarrow> 'd \<Rightarrow> bool \<times> 'd" where
  "wait_not_busy hw d = wait_not_busy_loop hw 100000 d"

fun wait_drq_loop :: "'d ports \<Rightarrow> nat \<Rightarrow> 'd \<Rightarrow> bool \<times> 'd" where
  "wait_drq_loop hw 0 d = (False, d)"
| "wait_drq_loop hw (Suc n) d =
     (let (status, d') = p_inb hw ATA_STATUS d in
      if status AND ATA_SR_ERR \<noteq> 0 then (False, d')
      else if status AND ATA_SR_BSY = 0 \<and> status AND ATA_SR_DRQ \<noteq> 0 then (True, d')
      else wait_drq_loop hw n d')"

definition wait_drq :: "'d ports \<Rightarrow> 'd \<Rightarrow> bool \<times> 'd" where
  "wait_drq hw d = wait_drq_loop hw 100000 d"

definition disk_init :: "'d ports \<Rightarrow> 'd \<Rightarrow> disk_state \<times> 'd" where
  "disk_init hw d =
     (let (status, d') = p_inb hw ATA_STATUS d in
      if status = 0xFF \<or> status = 0x00
      then (\<lparr>has_disk = False, status_text = lit ''no primary ATA disk''\<rparr>, d')
      else (\<lparr>has_disk = True, status_text = lit ''primary ATA disk detected''\<rparr>, d'))"

definition disk_present :: "disk_state \<Rightarrow> bool" where
  "disk_present s = has_disk s"

definition disk_status :: "disk_state \<Rightarrow> cbuf" where
  "disk_status s = status_text s"

text \<open>The six register writes that \<open>disk_read_sector\<close> and \<open>disk_write_sector\<close> have in common: drive
  and high LBA bits, one sector, the other LBA bytes, the command.\<close>

definition ata_command :: "'d ports \<Rightarrow> 32 word \<Rightarrow> byte \<Rightarrow> 'd \<Rightarrow> 'd" where
  "ata_command hw lba cmd d =
     (let d1 = p_outb hw ATA_DRIVE (ucast (0xE0 OR (drop_bit 24 lba AND 0x0F))) d;
          d2 = p_outb hw ATA_SECTOR_COUNT 1 d1;
          d3 = p_outb hw ATA_LBA_LOW (ucast (lba AND 0xFF)) d2;
          d4 = p_outb hw ATA_LBA_MID (ucast (drop_bit 8 lba AND 0xFF)) d3;
          d5 = p_outb hw ATA_LBA_HIGH (ucast (drop_bit 16 lba AND 0xFF)) d4
      in p_outb hw ATA_COMMAND cmd d5)"

text \<open>The data loops: index \<open>i\<close>, \<open>n\<close> words to go.\<close>

fun read_words :: "'d ports \<Rightarrow> nat \<Rightarrow> nat \<Rightarrow> cbuf \<Rightarrow> 'd \<Rightarrow> (cbuf \<times> 'd) option" where
  "read_words hw i 0 buffer d = Some (buffer, d)"
| "read_words hw i (Suc n) buffer d =
     (let (w, d') = p_inw hw ATA_DATA d in do {
        b1 \<leftarrow> wr buffer (i * 2) (ucast (w AND 0xFF));
        b2 \<leftarrow> wr b1 (i * 2 + 1) (ucast (drop_bit 8 w AND 0xFF));
        read_words hw (i + 1) n b2 d' })"

fun write_words :: "'d ports \<Rightarrow> nat \<Rightarrow> nat \<Rightarrow> cbuf \<Rightarrow> 'd \<Rightarrow> 'd option" where
  "write_words hw i 0 buffer d = Some d"
| "write_words hw i (Suc n) buffer d = do {
     lo \<leftarrow> rd buffer (i * 2);
     hi \<leftarrow> rd buffer (i * 2 + 1);
     write_words hw (i + 1) n buffer (p_outw hw ATA_DATA (ucast lo OR push_bit 8 (ucast hi)) d) }"

definition disk_read_sector ::
    "'d ports \<Rightarrow> disk_state \<Rightarrow> 32 word \<Rightarrow> cbuf \<Rightarrow> 'd \<Rightarrow> (bool \<times> cbuf \<times> 'd) option" where
  "disk_read_sector hw s lba buffer d =
     (if \<not> has_disk s then Some (False, buffer, d)
      else let (ready, d1) = wait_not_busy hw d in
        if \<not> ready then Some (False, buffer, d1)
        else let (drq, d2) = wait_drq hw (ata_command hw lba ATA_CMD_READ d1) in
          if \<not> drq then Some (False, buffer, d2)
          else do {
            (buffer', d3) \<leftarrow> read_words hw 0 256 buffer d2;
            Some (True, buffer', ata_delay hw d3) })"

definition disk_write_sector ::
    "'d ports \<Rightarrow> disk_state \<Rightarrow> 32 word \<Rightarrow> cbuf \<Rightarrow> 'd \<Rightarrow> (bool \<times> 'd) option" where
  "disk_write_sector hw s lba buffer d =
     (if \<not> has_disk s then Some (False, d)
      else let (ready, d1) = wait_not_busy hw d in
        if \<not> ready then Some (False, d1)
        else let (drq, d2) = wait_drq hw (ata_command hw lba ATA_CMD_WRITE d1) in
          if \<not> drq then Some (False, d2)
          else do {
            d3 \<leftarrow> write_words hw 0 256 buffer d2;
            Some (True, ata_delay hw (snd (wait_not_busy hw (p_outb hw ATA_COMMAND 0xE7 d3)))) })"

subsection \<open>Words and bytes\<close>

definition word_lo :: "16 word \<Rightarrow> byte" where
  "word_lo w = ucast (w AND 0xFF)"

definition word_hi :: "16 word \<Rightarrow> byte" where
  "word_hi w = ucast (drop_bit 8 w AND 0xFF)"

fun bytes_of_words :: "16 word list \<Rightarrow> byte list" where
  "bytes_of_words [] = []"
| "bytes_of_words (w # ws) = word_lo w # word_hi w # bytes_of_words ws"

fun words_of_bytes :: "byte list \<Rightarrow> 16 word list" where
  "words_of_bytes (lo # hi # bs) = (ucast lo OR push_bit 8 (ucast hi)) # words_of_bytes bs"
| "words_of_bytes bs = []"

lemma mask8: "(0xFF :: 16 word) = mask 8" "(0xFF :: 32 word) = mask 8"
  by (simp_all add: mask_eq_exp_minus_1)

lemma bits_above_byte: "bit (b :: byte) n \<Longrightarrow> n < 8"
  using bit_imp_le_length [of b n] by simp

lemma word_join_lo: "word_lo (ucast lo OR push_bit 8 (ucast hi)) = lo" for lo hi :: byte
  by (rule bit_word_eqI) (simp add: word_lo_def mask8 bit_simps)

lemma word_join_hi: "word_hi (ucast lo OR push_bit 8 (ucast hi)) = hi" for lo hi :: byte
  by (rule bit_word_eqI) (auto simp: word_hi_def mask8 bit_simps dest: bits_above_byte)

lemmas word_join_split = word_join_lo word_join_hi

lemma length_bytes_of_words [simp]: "length (bytes_of_words ws) = 2 * length ws"
  by (induction ws) simp_all

lemma length_words_of_bytes [simp]: "length (words_of_bytes bs) = length bs div 2"
  by (induction bs rule: words_of_bytes.induct) simp_all

lemma bytes_of_words_of_bytes: "even (length bs) \<Longrightarrow> bytes_of_words (words_of_bytes bs) = bs"
  by (induction bs rule: words_of_bytes.induct) (simp_all add: word_join_split)

subsection \<open>The device contract\<close>

text \<open>
  What a PIO drive shows to the driver: the number of status reads before it is ready
  (\<open>av_busy\<close>), the command block registers, whether a data transfer is under way and what is left
  of it, and the medium, 256 words per sector.
\<close>

datatype ata_phase = Idle | Sending "16 word list" | Receiving nat "16 word list"

record ata_view =
  av_busy :: nat
  av_regs :: "16 word \<Rightarrow> byte"
  av_phase :: ata_phase
  av_media :: "nat \<Rightarrow> 16 word list"

definition ata_lba :: "(16 word \<Rightarrow> byte) \<Rightarrow> nat" where
  "ata_lba r = unat (r ATA_DRIVE AND 0x0F) * 2 ^ 24 + unat (r ATA_LBA_HIGH) * 2 ^ 16 +
     unat (r ATA_LBA_MID) * 2 ^ 8 + unat (r ATA_LBA_LOW)"

text \<open>The command registers select one sector in LBA mode.\<close>

definition one_sector :: "(16 word \<Rightarrow> byte) \<Rightarrow> bool" where
  "one_sector r \<longleftrightarrow> r ATA_SECTOR_COUNT = 1 \<and> r ATA_DRIVE AND 0xE0 = 0xE0"

definition POLL_LIMIT :: nat where "POLL_LIMIT = 100000"

text \<open>
  The laws are the documented PIO protocol, of a drive without errors: a busy drive reports BSY, and
  nothing is known of the other status bits; it becomes ready after \<open>av_busy\<close> polls, fewer than the
  100000 the driver waits for; a ready one reports DRQ exactly during a transfer.  A ready drive takes
  registers, commands and data: the command block registers hold what was written to them; \<open>0x20\<close> sends
  the 256 words of the selected sector to the host and \<open>0x30\<close> receives them, one per access of the data
  port, after which the drive may be busy again; the flush command changes no sector.  What a busy
  drive does with a command is left open.
\<close>

locale ata_device =
  fixes hw :: "'d ports"
    and view :: "'d \<Rightarrow> ata_view"
    and capacity :: nat
  assumes status_busy: "0 < av_busy (view d) \<Longrightarrow> p_inb hw ATA_STATUS d = (s, d') \<Longrightarrow>
      s AND ATA_SR_BSY \<noteq> 0 \<and> view d' = (view d)\<lparr>av_busy := av_busy (view d) - 1\<rparr>"
    and status_ready: "av_busy (view d) = 0 \<Longrightarrow> p_inb hw ATA_STATUS d = (s, d') \<Longrightarrow>
      s AND ATA_SR_BSY = 0 \<and> s AND ATA_SR_ERR = 0 \<and>
      (s AND ATA_SR_DRQ \<noteq> 0 \<longleftrightarrow> av_phase (view d) \<noteq> Idle) \<and> view d' = view d"
    and registers: "av_busy (view d) = 0 \<Longrightarrow> av_phase (view d) = Idle \<Longrightarrow>
      r \<in> {ATA_SECTOR_COUNT, ATA_LBA_LOW, ATA_LBA_MID, ATA_LBA_HIGH, ATA_DRIVE} \<Longrightarrow>
      view (p_outb hw r v d) = (view d)\<lparr>av_regs := (av_regs (view d))(r := v)\<rparr>"
    and command_read: "av_busy (view d) = 0 \<Longrightarrow> av_phase (view d) = Idle \<Longrightarrow>
      one_sector (av_regs (view d)) \<Longrightarrow> ata_lba (av_regs (view d)) < capacity \<Longrightarrow>
      \<exists>n < POLL_LIMIT. view (p_outb hw ATA_COMMAND ATA_CMD_READ d) =
        (view d)\<lparr>av_busy := n, av_phase := Sending (av_media (view d) (ata_lba (av_regs (view d))))\<rparr>"
    and command_write: "av_busy (view d) = 0 \<Longrightarrow> av_phase (view d) = Idle \<Longrightarrow>
      one_sector (av_regs (view d)) \<Longrightarrow> ata_lba (av_regs (view d)) < capacity \<Longrightarrow>
      \<exists>n < POLL_LIMIT. view (p_outb hw ATA_COMMAND ATA_CMD_WRITE d) =
        (view d)\<lparr>av_busy := n, av_phase := Receiving (ata_lba (av_regs (view d))) []\<rparr>"
    and data_in: "av_busy (view d) = 0 \<Longrightarrow> av_phase (view d) = Sending (w # ws) \<Longrightarrow>
      p_inw hw ATA_DATA d = (x, d') \<Longrightarrow>
      x = w \<and> view d' = (view d)\<lparr>av_phase := (if ws = [] then Idle else Sending ws)\<rparr>"
    and data_out: "av_busy (view d) = 0 \<Longrightarrow> av_phase (view d) = Receiving lba ws \<Longrightarrow>
      length ws < 255 \<Longrightarrow>
      view (p_outw hw ATA_DATA w d) = (view d)\<lparr>av_phase := Receiving lba (ws @ [w])\<rparr>"
    and data_out_end: "av_busy (view d) = 0 \<Longrightarrow> av_phase (view d) = Receiving lba ws \<Longrightarrow>
      length ws = 255 \<Longrightarrow>
      \<exists>n < POLL_LIMIT. view (p_outw hw ATA_DATA w d) =
        (view d)\<lparr>av_busy := n, av_phase := Idle,
          av_media := (av_media (view d))(lba := ws @ [w])\<rparr>"
    and flush: "av_busy (view d) = 0 \<Longrightarrow> av_phase (view d) = Idle \<Longrightarrow>
      \<exists>n < POLL_LIMIT. view (p_outb hw ATA_COMMAND 0xE7 d) = (view d)\<lparr>av_busy := n\<rparr>"
    and capacity_28: "capacity \<le> 2 ^ 28"

text \<open>
  What the driver needs beyond the protocol.  \<open>wait_drq\<close> tests ERR before BSY, although ATA declares the
  other status bits meaningless while BSY is set: a \<open>clean_drive\<close> does not show ERR while it is busy.
  \<open>disk_write_sector\<close> writes the flush command right after the last data word, when the drive may be busy,
  and ATA leaves the effect of a command then indeterminate: a \<open>tolerant_drive\<close> ignores it.  The drive of
  QEMU, on which the Makefile runs the kernel, has both properties (hw/ide/core.c: its status is cleared
  of ERR when a command starts, and a command is dropped while BSY or DRQ is set).
\<close>

locale clean_drive = ata_device +
  assumes busy_clean: "0 < av_busy (view d) \<Longrightarrow> p_inb hw ATA_STATUS d = (s, d') \<Longrightarrow> s AND ATA_SR_ERR = 0"

locale tolerant_drive = clean_drive +
  assumes busy_flush: "0 < av_busy (view d) \<Longrightarrow> av_phase (view d) = Idle \<Longrightarrow>
      view (p_outb hw ATA_COMMAND 0xE7 d) = view d"

text \<open>The contract of the layer above: a disk of 512-byte sectors.  \<open>ready\<close> is the state between two
  calls.\<close>

locale sector_disk =
  fixes read_sector :: "32 word \<Rightarrow> cbuf \<Rightarrow> 'd \<Rightarrow> (bool \<times> cbuf \<times> 'd) option"
    and write_sector :: "32 word \<Rightarrow> cbuf \<Rightarrow> 'd \<Rightarrow> (bool \<times> 'd) option"
    and ready :: "'d \<Rightarrow> bool"
    and content :: "'d \<Rightarrow> nat \<Rightarrow> byte list"
    and capacity :: nat
  assumes read_law: "ready d \<Longrightarrow> unat lba < capacity \<Longrightarrow> length buf = 512 \<Longrightarrow>
      \<exists>d'. read_sector lba buf d = Some (True, content d (unat lba), d') \<and> ready d' \<and>
        content d' = content d"
    and write_law: "ready d \<Longrightarrow> unat lba < capacity \<Longrightarrow> length buf = 512 \<Longrightarrow>
      \<exists>d'. write_sector lba buf d = Some (True, d') \<and> ready d' \<and>
        content d' = (content d)(unat lba := buf)"
    and content_length: "ready d \<Longrightarrow> length (content d n) = 512"
begin

text \<open>A sector that was written is read back, whatever is written elsewhere in between.\<close>

lemma write_then_read:
  assumes "ready d" "unat lba < capacity" "length buf = 512" "length buf' = 512"
    and "write_sector lba buf d = Some (ok, d1)"
  shows "\<exists>d2. read_sector lba buf' d1 = Some (True, buf, d2)"
  using write_law [OF assms(1-3)] read_law [of d1 lba buf'] assms(2,4,5) by auto

lemma write_other:
  assumes "ready d" "unat lba < capacity" "unat lba' < capacity" "lba \<noteq> lba'"
    and "length buf = 512" "length buf' = 512" "length buf'' = 512"
    and "write_sector lba buf d = Some (ok, d1)" "read_sector lba' buf' d = Some (ok', old, d0)"
  shows "\<exists>d2. read_sector lba' buf'' d1 = Some (True, old, d2)"
proof -
  have "unat lba \<noteq> unat lba'" using assms(4) by (simp add: word_unat_eq_iff)
  then show ?thesis
    using write_law [OF assms(1,2,5)] read_law [OF assms(1,3,6)] read_law [of d1 lba' buf'']
      assms(3,7-9)
    by auto
qed

end

subsection \<open>The driver implements the disk of sectors\<close>

definition media_ok :: "ata_view \<Rightarrow> bool" where
  "media_ok v \<longleftrightarrow> (\<forall>n. length (av_media v n) = 256)"

lemma base256: "(n :: nat) = n div 2 ^ 24 * 2 ^ 24 + n div 2 ^ 16 mod 256 * 2 ^ 16 +
    n div 2 ^ 8 mod 256 * 2 ^ 8 + n mod 256"
proof -
  have "n div 2 ^ 8 = n div 2 ^ 16 * 256 + n div 2 ^ 8 mod 256"
    using div_mult_mod_eq [of "n div 2 ^ 8" 256] div_mult2_eq [of n 256 256] by simp
  moreover have "n div 2 ^ 16 = n div 2 ^ 24 * 256 + n div 2 ^ 16 mod 256"
    using div_mult_mod_eq [of "n div 2 ^ 16" 256] div_mult2_eq [of n 65536 256] by simp
  moreover have "n = n div 2 ^ 8 * 256 + n mod 256" by simp
  moreover have "a = b * 256 + m1 \<Longrightarrow> b = c * 256 + m2 \<Longrightarrow> n = a * 256 + m0 \<Longrightarrow>
      n = c * 2 ^ 24 + m2 * 2 ^ 16 + m1 * 2 ^ 8 + m0" for a b c m0 m1 m2 :: nat
    by simp
  ultimately show ?thesis by blast
qed

text \<open>The drive between two calls of the driver, and the 512 bytes of a sector.\<close>

definition drive_ready :: "('d \<Rightarrow> ata_view) \<Rightarrow> 'd \<Rightarrow> bool" where
  "drive_ready view d \<longleftrightarrow>
     av_busy (view d) < POLL_LIMIT \<and> av_phase (view d) = Idle \<and> media_ok (view d)"

definition drive_sector :: "('d \<Rightarrow> ata_view) \<Rightarrow> 'd \<Rightarrow> nat \<Rightarrow> byte list" where
  "drive_sector view d n = bytes_of_words (av_media (view d) n)"

text \<open>The register values of \<open>ata_command\<close> address the sector.\<close>

text \<open>The value of the drive register: the top four bits of the address under the mode bits \<open>0xE0\<close>.\<close>

lemma drive_register:
  fixes lba :: "32 word"
  shows "(ucast (0xE0 OR (drop_bit 24 lba AND 0x0F)) :: byte) AND 0x0F = ucast (drop_bit 24 lba AND 0x0F)"
    and "(ucast (0xE0 OR (drop_bit 24 lba AND 0x0F)) :: byte) AND 0xE0 = 0xE0"
proof -
  have m4: "(0x0F :: 32 word) = mask 4" "(0x0F :: byte) = mask 4" by (simp_all add: mask_eq_exp_minus_1)
  have bits: "n \<in> {0, 1, 2, 3, 4, 5, 6, 7}" if "n < LENGTH(8)" for n using that by auto
  show "(ucast (0xE0 OR (drop_bit 24 lba AND 0x0F)) :: byte) AND 0x0F = ucast (drop_bit 24 lba AND 0x0F)"
    by (rule bit_word_eqI, drule bits) (auto simp: bit_simps m4)
  show "(ucast (0xE0 OR (drop_bit 24 lba AND 0x0F)) :: byte) AND 0xE0 = 0xE0"
    by (rule bit_word_eqI, drule bits) (auto simp: bit_simps m4)
qed

lemma unat_drop_bit32: "unat (drop_bit k (w :: 32 word)) = unat w div 2 ^ k"
proof -
  have "unat w < 4294967296" using unsigned_less [of w, where ?'a = nat] by simp
  then show ?thesis by (simp only: unsigned_drop_bit_eq) (simp add: drop_bit_eq_div take_bit_eq_mod)
qed

lemma lba_bytes:
  assumes "unat (lba :: 32 word) < 2 ^ 28"
  shows "unat ((ucast (0xE0 OR (drop_bit 24 lba AND 0x0F)) :: byte) AND 0x0F) * 2 ^ 24 +
      unat (ucast (drop_bit 16 lba AND 0xFF) :: byte) * 2 ^ 16 +
      unat (ucast (drop_bit 8 lba AND 0xFF) :: byte) * 2 ^ 8 +
      unat (ucast (lba AND 0xFF) :: byte) = unat lba"
    and "(ucast (0xE0 OR (drop_bit 24 lba AND 0x0F)) :: byte) AND 0xE0 = 0xE0"
proof -
  let ?n = "unat lba"
  have b: "unat (ucast (drop_bit k lba AND 0xFF) :: byte) = ?n div 2 ^ k mod 256" for k
  proof -
    have "unat (ucast (drop_bit k lba AND 0xFF) :: byte) = take_bit 8 (take_bit 8 (unat (drop_bit k lba)))"
      by (simp add: mask8(2) unsigned_ucast_eq unsigned_take_bit_eq flip: take_bit_eq_mask)
    then show ?thesis by (simp add: unat_drop_bit32 take_bit_eq_mod)
  qed
  have b0: "unat (ucast (lba AND 0xFF) :: byte) = ?n mod 256" using b [of 0] by simp
  have m4: "(0x0F :: 32 word) = mask 4" by (simp add: mask_eq_exp_minus_1)
  have "unat (ucast (drop_bit 24 lba AND 0x0F) :: byte) = take_bit 8 (take_bit 4 (unat (drop_bit 24 lba)))"
    by (simp add: m4 unsigned_ucast_eq unsigned_take_bit_eq flip: take_bit_eq_mask)
  then have t: "unat (ucast (drop_bit 24 lba AND 0x0F) :: byte) = ?n div 2 ^ 24"
    using assms by (simp add: unat_drop_bit32 take_bit_eq_mod)
  show "unat ((ucast (0xE0 OR (drop_bit 24 lba AND 0x0F)) :: byte) AND 0x0F) * 2 ^ 24 +
      unat (ucast (drop_bit 16 lba AND 0xFF) :: byte) * 2 ^ 16 +
      unat (ucast (drop_bit 8 lba AND 0xFF) :: byte) * 2 ^ 8 +
      unat (ucast (lba AND 0xFF) :: byte) = ?n"
    unfolding drive_register(1) t b b0 by (rule base256 [symmetric])
qed (rule drive_register(2))

text \<open>Polling: with fewer than \<open>n\<close> polls to go the loop of \<open>n\<close> rounds ends with a ready drive.\<close>

context ata_device
begin

lemma wait_not_busy_loop_ok:
  "av_busy (view d) < n \<Longrightarrow>
     \<exists>d'. wait_not_busy_loop hw n d = (True, d') \<and> view d' = (view d)\<lparr>av_busy := 0\<rparr>"
proof (induction n arbitrary: d)
  case 0 then show ?case by simp
next
  case (Suc n)
  obtain s d1 where io: "p_inb hw ATA_STATUS d = (s, d1)" by (meson surj_pair)
  show ?case
  proof (cases "av_busy (view d) = 0")
    case True
    then show ?thesis using status_ready [OF True io] io by (cases "view d") auto
  next
    case False
    then have st: "s AND ATA_SR_BSY \<noteq> 0" "view d1 = (view d)\<lparr>av_busy := av_busy (view d) - 1\<rparr>"
      using status_busy [OF _ io] by auto
    then have "av_busy (view d1) < n" using Suc.prems False by simp
    from Suc.IH [OF this] show ?thesis using io st by auto
  qed
qed

lemma wait_not_busy_ok:
  "av_busy (view d) < POLL_LIMIT \<Longrightarrow>
     \<exists>d'. wait_not_busy hw d = (True, d') \<and> view d' = (view d)\<lparr>av_busy := 0\<rparr>"
  using wait_not_busy_loop_ok [of d POLL_LIMIT] by (simp add: wait_not_busy_def POLL_LIMIT_def)

lemma delay_ok:
  assumes "av_busy (view d) = 0"
  shows "view (ata_delay hw d) = view d"
proof -
  have "view (((\<lambda>d. snd (p_inb hw ATA_STATUS d)) ^^ n) d) = view d" for n
  proof (induction n)
    case (Suc n)
    let ?e = "((\<lambda>d. snd (p_inb hw ATA_STATUS d)) ^^ n) d"
    obtain s e' where io: "p_inb hw ATA_STATUS ?e = (s, e')" by (meson surj_pair)
    with Suc status_ready [OF _ io] assms show ?case by simp
  qed simp
  then show ?thesis by (simp add: ata_delay_def)
qed

lemma ata_command_regs:
  assumes "av_busy (view d) = 0" "av_phase (view d) = Idle" "unat lba < capacity"
  shows "\<exists>d5. ata_command hw lba cmd d = p_outb hw ATA_COMMAND cmd d5 \<and>
     av_busy (view d5) = 0 \<and> av_phase (view d5) = Idle \<and> av_media (view d5) = av_media (view d) \<and>
     one_sector (av_regs (view d5)) \<and> ata_lba (av_regs (view d5)) = unat lba"
proof -
  define v0 :: byte where "v0 = ucast (0xE0 OR (drop_bit 24 lba AND 0x0F))"
  define v2 :: byte where "v2 = ucast (lba AND 0xFF)"
  define v3 :: byte where "v3 = ucast (drop_bit 8 lba AND 0xFF)"
  define v4 :: byte where "v4 = ucast (drop_bit 16 lba AND 0xFF)"
  let ?d1 = "p_outb hw ATA_DRIVE v0 d"
  let ?d2 = "p_outb hw ATA_SECTOR_COUNT 1 ?d1"
  let ?d3 = "p_outb hw ATA_LBA_LOW v2 ?d2"
  let ?d4 = "p_outb hw ATA_LBA_MID v3 ?d3"
  let ?d5 = "p_outb hw ATA_LBA_HIGH v4 ?d4"
  have r1: "view ?d1 = (view d)\<lparr>av_regs := (av_regs (view d))(ATA_DRIVE := v0)\<rparr>"
    using assms by (simp add: registers)
  have r2: "view ?d2 = (view d)\<lparr>av_regs := (av_regs (view d))(ATA_DRIVE := v0, ATA_SECTOR_COUNT := 1)\<rparr>"
    using assms r1 by (simp add: registers)
  have r3: "view ?d3 = (view d)\<lparr>av_regs := (av_regs (view d))(ATA_DRIVE := v0, ATA_SECTOR_COUNT := 1,
      ATA_LBA_LOW := v2)\<rparr>"
    using assms r2 by (simp add: registers)
  have r4: "view ?d4 = (view d)\<lparr>av_regs := (av_regs (view d))(ATA_DRIVE := v0, ATA_SECTOR_COUNT := 1,
      ATA_LBA_LOW := v2, ATA_LBA_MID := v3)\<rparr>"
    using assms r3 by (simp add: registers)
  have r5: "view ?d5 = (view d)\<lparr>av_regs := (av_regs (view d))(ATA_DRIVE := v0, ATA_SECTOR_COUNT := 1,
      ATA_LBA_LOW := v2, ATA_LBA_MID := v3, ATA_LBA_HIGH := v4)\<rparr>"
    using assms r4 by (simp add: registers)
  have "unat lba < 2 ^ 28" using assms(3) capacity_28 by simp
  note lba = lba_bytes [OF this, folded v0_def v2_def v3_def v4_def]
  have "ata_command hw lba cmd d = p_outb hw ATA_COMMAND cmd ?d5"
    by (simp add: ata_command_def Let_def v0_def v2_def v3_def v4_def)
  moreover have "one_sector (av_regs (view ?d5))"
    unfolding r5 one_sector_def using lba(2)
    by (simp add: ATA_DRIVE_def ATA_SECTOR_COUNT_def ATA_LBA_LOW_def ATA_LBA_MID_def ATA_LBA_HIGH_def)
  moreover have "ata_lba (av_regs (view ?d5)) = unat lba"
    unfolding r5 ata_lba_def using lba(1)
    by (simp add: ATA_DRIVE_def ATA_SECTOR_COUNT_def ATA_LBA_LOW_def ATA_LBA_MID_def ATA_LBA_HIGH_def)
  ultimately show ?thesis using r5 assms by (intro exI [of _ ?d5]) simp
qed

end

text \<open>The data loops move one sector.\<close>

lemma two_writes:
  assumes "Suc (2 * i) < length buf"
  shows "take (2 * Suc i) (buf[2 * i := x, Suc (2 * i) := y]) = take (2 * i) buf @ [x, y]"
    and "drop (2 * Suc i) (buf[2 * i := x, Suc (2 * i) := y]) = drop (2 * Suc i) buf"
  using assms by (simp_all add: take_Suc_conv_app_nth)

context ata_device
begin

lemma read_words_ok:
  assumes "length buf = 2 * (i + n)"
  shows "av_busy (view d) = 0 \<Longrightarrow> av_phase (view d) = Sending ws \<Longrightarrow> length ws = n \<Longrightarrow> 0 < n \<Longrightarrow>
    \<exists>d'. read_words hw i n buf d = Some (take (2 * i) buf @ bytes_of_words ws, d') \<and>
      view d' = (view d)\<lparr>av_phase := Idle\<rparr>"
  using assms
proof (induction n arbitrary: i buf d ws)
  case 0 then show ?case by simp
next
  case (Suc n)
  obtain w ws' where ws: "ws = w # ws'" "length ws' = n" using Suc.prems(3) by (cases ws) auto
  obtain x d1 where io: "p_inw hw ATA_DATA d = (x, d1)" by (meson surj_pair)
  have st: "x = w" "view d1 = (view d)\<lparr>av_phase := (if ws' = [] then Idle else Sending ws')\<rparr>"
    using data_in [OF Suc.prems(1) _ io, of w ws'] Suc.prems(2) ws by auto
  let ?buf = "buf[2 * i := word_lo w, Suc (2 * i) := word_hi w]"
  have i: "Suc (2 * i) < length buf" using Suc.prems(5) by simp
  have step: "read_words hw i (Suc n) buf d = read_words hw (i + 1) n ?buf d1"
    using i io st(1) by (simp add: word_lo_def word_hi_def mult.commute)
  show ?case
  proof (cases "n = 0")
    case True
    then have "?buf = take (2 * i) buf @ [word_lo w, word_hi w]"
      using two_writes(1) [OF i] Suc.prems(5) by simp
    then show ?thesis using step st ws True by simp
  next
    case False
    then have "ws' \<noteq> []" using ws by auto
    then have p: "av_busy (view d1) = 0" "av_phase (view d1) = Sending ws'"
      using st Suc.prems(1) by simp_all
    have "length ?buf = 2 * (i + 1 + n)" using Suc.prems(5) by simp
    from Suc.IH [OF p ws(2) _ this] False obtain d' where
      "read_words hw (i + 1) n ?buf d1 = Some (take (2 * (i + 1)) ?buf @ bytes_of_words ws', d')"
      "view d' = (view d1)\<lparr>av_phase := Idle\<rparr>"
      by auto
    then show ?thesis using step st ws two_writes(1) [OF i] by simp
  qed
qed

text \<open>The drive has just been given the last word of a sector.\<close>

definition sector_end :: "'d \<Rightarrow> bool" where
  "sector_end d' \<longleftrightarrow> (\<exists>d w lba ws. d' = p_outw hw ATA_DATA w d \<and> av_busy (view d) = 0 \<and>
     av_phase (view d) = Receiving lba ws \<and> length ws = 255)"

lemma write_words_ok:
  assumes "n + length ws = 256" "0 < n" "length buf = 2 * (i + n)"
  shows "av_busy (view d) = 0 \<Longrightarrow> av_phase (view d) = Receiving lba ws \<Longrightarrow>
    \<exists>d' k. write_words hw i n buf d = Some d' \<and> k < POLL_LIMIT \<and> sector_end d' \<and>
      view d' = (view d)\<lparr>av_busy := k, av_phase := Idle,
        av_media := (av_media (view d))(lba := ws @ words_of_bytes (drop (2 * i) buf))\<rparr>"
  using assms
proof (induction n arbitrary: i ws d)
  case 0 then show ?case by simp
next
  case (Suc n)
  have i: "2 * i < length buf" "Suc (2 * i) < length buf" using Suc.prems(5) by simp_all
  let ?w = "ucast (buf ! (2 * i)) OR push_bit 8 (ucast (buf ! Suc (2 * i))) :: 16 word"
  let ?d1 = "p_outw hw ATA_DATA ?w d"
  have step: "write_words hw i (Suc n) buf d = write_words hw (i + 1) n buf ?d1"
    using i by (simp add: mult.commute)
  have "drop (2 * i) buf = buf ! (2 * i) # buf ! Suc (2 * i) # drop (2 * (i + 1)) buf"
    using i by (simp add: Cons_nth_drop_Suc)
  then have rest: "words_of_bytes (drop (2 * i) buf) = ?w # words_of_bytes (drop (2 * (i + 1)) buf)"
    by simp
  show ?case
  proof (cases "n = 0")
    case True
    then have "length ws = 255" using Suc.prems(3) by simp
    from data_out_end [OF Suc.prems(1,2) this, of ?w] obtain k where k: "k < POLL_LIMIT"
      "view ?d1 = (view d)\<lparr>av_busy := k, av_phase := Idle,
        av_media := (av_media (view d))(lba := ws @ [?w])\<rparr>"
      by blast
    have "sector_end ?d1" using Suc.prems(1,2) \<open>length ws = 255\<close> by (auto simp: sector_end_def)
    moreover have "words_of_bytes (drop (2 * i) buf) = [?w]" using rest True Suc.prems(5) by simp
    ultimately show ?thesis using step True k by (intro exI [of _ ?d1] exI [of _ k]) (simp add: fun_upd_def)
  next
    case False
    then have "length ws < 255" using Suc.prems(3) by simp
    from data_out [OF Suc.prems(1,2) this, of ?w]
    have v: "view ?d1 = (view d)\<lparr>av_phase := Receiving lba (ws @ [?w])\<rparr>" .
    have "\<exists>d' k. write_words hw (i + 1) n buf ?d1 = Some d' \<and> k < POLL_LIMIT \<and> sector_end d' \<and>
      view d' = (view ?d1)\<lparr>av_busy := k, av_phase := Idle, av_media := (av_media (view ?d1))
        (lba := (ws @ [?w]) @ words_of_bytes (drop (2 * (i + 1)) buf))\<rparr>"
      using v False Suc.prems(1,3,5) by (intro Suc.IH) simp_all
    then show ?thesis using step rest v by (simp add: fun_upd_def)
  qed
qed

end

context clean_drive
begin

lemma wait_drq_loop_ok:
  "av_busy (view d) < n \<Longrightarrow> av_phase (view d) \<noteq> Idle \<Longrightarrow>
     \<exists>d'. wait_drq_loop hw n d = (True, d') \<and> view d' = (view d)\<lparr>av_busy := 0\<rparr>"
proof (induction n arbitrary: d)
  case 0 then show ?case by simp
next
  case (Suc n)
  obtain s d1 where io: "p_inb hw ATA_STATUS d = (s, d1)" by (meson surj_pair)
  show ?case
  proof (cases "av_busy (view d) = 0")
    case True
    then show ?thesis using status_ready [OF True io] io Suc.prems(2) by (cases "view d") auto
  next
    case False
    then have st: "s AND ATA_SR_BSY \<noteq> 0" "s AND ATA_SR_ERR = 0"
      "view d1 = (view d)\<lparr>av_busy := av_busy (view d) - 1\<rparr>"
      using status_busy [OF _ io] busy_clean [OF _ io] by auto
    then have "av_busy (view d1) < n" "av_phase (view d1) \<noteq> Idle" using Suc.prems False by simp_all
    from Suc.IH [OF this] show ?thesis using io st by auto
  qed
qed

lemma wait_drq_ok:
  "av_busy (view d) < POLL_LIMIT \<Longrightarrow> av_phase (view d) \<noteq> Idle \<Longrightarrow>
     \<exists>d'. wait_drq hw d = (True, d') \<and> view d' = (view d)\<lparr>av_busy := 0\<rparr>"
  using wait_drq_loop_ok [of d POLL_LIMIT] by (simp add: wait_drq_def POLL_LIMIT_def)

lemma read_sector_ok:
  assumes "has_disk s" "drive_ready view d" "unat lba < capacity" "length buf = 512"
  shows "\<exists>d'. disk_read_sector hw s lba buf d = Some (True, drive_sector view d (unat lba), d') \<and>
     drive_ready view d' \<and> drive_sector view d' = drive_sector view d"
proof -
  note r = assms(2) [unfolded drive_ready_def]
  obtain d1 where d1: "wait_not_busy hw d = (True, d1)" "view d1 = (view d)\<lparr>av_busy := 0\<rparr>"
    using wait_not_busy_ok r by blast
  obtain d5 where d5: "ata_command hw lba ATA_CMD_READ d1 = p_outb hw ATA_COMMAND ATA_CMD_READ d5"
    "av_busy (view d5) = 0" "av_phase (view d5) = Idle" "av_media (view d5) = av_media (view d)"
    "one_sector (av_regs (view d5))" "ata_lba (av_regs (view d5)) = unat lba"
    using ata_command_regs [of d1 lba ATA_CMD_READ] d1(2) r assms(3) by auto
  obtain k d6 where d6: "d6 = ata_command hw lba ATA_CMD_READ d1" "k < POLL_LIMIT"
    "view d6 = (view d5)\<lparr>av_busy := k, av_phase := Sending (av_media (view d) (unat lba))\<rparr>"
    using command_read [OF d5(2,3,5)] d5 assms(3) by auto
  obtain d7 where d7: "wait_drq hw d6 = (True, d7)" "view d7 = (view d6)\<lparr>av_busy := 0\<rparr>"
    using wait_drq_ok [of d6] d6 by auto
  have "length (av_media (view d) (unat lba)) = 256" using r by (simp add: media_ok_def)
  then obtain d8 where d8: "read_words hw 0 256 buf d7 = Some (drive_sector view d (unat lba), d8)"
    "view d8 = (view d7)\<lparr>av_phase := Idle\<rparr>"
    using read_words_ok [of buf 0 256 d7 "av_media (view d) (unat lba)"] d6(3) d7(2) assms(4)
    by (auto simp: drive_sector_def)
  have d9: "view (ata_delay hw d8) = view d8" using d8(2) d7(2) by (intro delay_ok) simp
  have "disk_read_sector hw s lba buf d = Some (True, drive_sector view d (unat lba), ata_delay hw d8)"
    using assms(1) d1(1) d6(1) d7(1) d8(1) by (simp add: disk_read_sector_def)
  moreover have "av_media (view (ata_delay hw d8)) = av_media (view d)"
    using d9 d8(2) d7(2) d6(3) d5(4) by simp
  moreover have "av_phase (view (ata_delay hw d8)) = Idle" "av_busy (view (ata_delay hw d8)) = 0"
    using d9 d8(2) d7(2) by simp_all
  ultimately show ?thesis
    using r by (intro exI [of _ "ata_delay hw d8"])
      (auto simp: drive_ready_def media_ok_def drive_sector_def fun_eq_iff)
qed

text \<open>A write up to the flush command: the drive has taken the sector and may be busy with it.\<close>

lemma write_sector_taken:
  assumes "has_disk s" "drive_ready view d" "unat lba < capacity" "length buf = 512"
  obtains d' k r where
    "disk_write_sector hw s lba buf d =
       Some (True, ata_delay hw (snd (wait_not_busy hw (p_outb hw ATA_COMMAND 0xE7 d'))))"
    "k < POLL_LIMIT" "ata_lba r = unat lba" "sector_end d'"
    "view d' = \<lparr>av_busy = k, av_regs = r, av_phase = Idle,
       av_media = (av_media (view d))(unat lba := words_of_bytes buf)\<rparr>"
proof -
  note ready = assms(2) [unfolded drive_ready_def]
  obtain d1 where d1: "wait_not_busy hw d = (True, d1)" "view d1 = (view d)\<lparr>av_busy := 0\<rparr>"
    using wait_not_busy_ok ready by blast
  obtain d5 where d5: "ata_command hw lba ATA_CMD_WRITE d1 = p_outb hw ATA_COMMAND ATA_CMD_WRITE d5"
    "av_busy (view d5) = 0" "av_phase (view d5) = Idle" "av_media (view d5) = av_media (view d)"
    "one_sector (av_regs (view d5))" "ata_lba (av_regs (view d5)) = unat lba"
    using ata_command_regs [of d1 lba ATA_CMD_WRITE] d1(2) ready assms(3) by auto
  obtain k d6 where d6: "d6 = ata_command hw lba ATA_CMD_WRITE d1" "k < POLL_LIMIT"
    "view d6 = (view d5)\<lparr>av_busy := k, av_phase := Receiving (unat lba) []\<rparr>"
    using command_write [OF d5(2,3,5)] d5 assms(3) by auto
  obtain d7 where d7: "wait_drq hw d6 = (True, d7)" "view d7 = (view d6)\<lparr>av_busy := 0\<rparr>"
    using wait_drq_ok [of d6] d6 by auto
  obtain d8 k' where d8: "write_words hw 0 256 buf d7 = Some d8" "k' < POLL_LIMIT" "sector_end d8"
    "view d8 = (view d7)\<lparr>av_busy := k', av_phase := Idle,
        av_media := (av_media (view d7))(unat lba := words_of_bytes buf)\<rparr>"
    using write_words_ok [of 256 "[]" buf 0 d7 "unat lba"] d6(3) d7(2) assms(4) by auto
  have "view d8 = \<lparr>av_busy = k', av_regs = av_regs (view d5), av_phase = Idle,
       av_media = (av_media (view d))(unat lba := words_of_bytes buf)\<rparr>"
    using d8(4) d7(2) d6(3) d5(4) by simp
  moreover have "disk_write_sector hw s lba buf d =
       Some (True, ata_delay hw (snd (wait_not_busy hw (p_outb hw ATA_COMMAND 0xE7 d8))))"
    using assms(1) d1(1) d6(1) d7(1) d8(1) by (simp add: disk_write_sector_def)
  ultimately show ?thesis using that d8(2,3) d5(6) by blast
qed

end

context tolerant_drive
begin

text \<open>Whether the flush command finds the drive ready or busy, the drive becomes ready with the same sectors.\<close>

lemma flush_ok:
  assumes "av_busy (view d) < POLL_LIMIT" "av_phase (view d) = Idle"
  obtains k where "k < POLL_LIMIT" "view (p_outb hw ATA_COMMAND 0xE7 d) = (view d)\<lparr>av_busy := k\<rparr>"
proof (cases "av_busy (view d) = 0")
  case True
  then show ?thesis using that flush [OF _ assms(2)] by blast
next
  case False
  then show ?thesis using that [OF assms(1)] busy_flush [OF _ assms(2)] by simp
qed

lemma write_sector_ok:
  assumes "has_disk s" "drive_ready view d" "unat lba < capacity" "length buf = 512"
  shows "\<exists>d'. disk_write_sector hw s lba buf d = Some (True, d') \<and>
     drive_ready view d' \<and> drive_sector view d' = (drive_sector view d)(unat lba := buf)"
proof -
  obtain d8 k r where run: "disk_write_sector hw s lba buf d =
       Some (True, ata_delay hw (snd (wait_not_busy hw (p_outb hw ATA_COMMAND 0xE7 d8))))"
    and d8: "k < POLL_LIMIT" "view d8 = \<lparr>av_busy = k, av_regs = r, av_phase = Idle,
       av_media = (av_media (view d))(unat lba := words_of_bytes buf)\<rparr>"
    using write_sector_taken [OF assms] by blast
  obtain k' where d9: "k' < POLL_LIMIT" "view (p_outb hw ATA_COMMAND 0xE7 d8) = (view d8)\<lparr>av_busy := k'\<rparr>"
    using flush_ok [of d8] d8 by auto
  obtain d10 where d10: "wait_not_busy hw (p_outb hw ATA_COMMAND 0xE7 d8) = (True, d10)"
    "view d10 = (view d8)\<lparr>av_busy := 0\<rparr>"
    using wait_not_busy_ok [of "p_outb hw ATA_COMMAND 0xE7 d8"] d9 by auto
  have d11: "view (ata_delay hw d10) = view d10" using d10(2) by (intro delay_ok) simp
  have v: "av_phase (view (ata_delay hw d10)) = Idle" "av_busy (view (ata_delay hw d10)) = 0"
    "av_media (view (ata_delay hw d10)) = (av_media (view d))(unat lba := words_of_bytes buf)"
    using d11 d10(2) d8(2) by simp_all
  have "drive_ready view (ata_delay hw d10)"
    using v assms(2,4) by (simp add: drive_ready_def media_ok_def POLL_LIMIT_def)
  moreover have "drive_sector view (ata_delay hw d10) = (drive_sector view d)(unat lba := buf)"
    using v assms(4) by (simp add: drive_sector_def fun_eq_iff bytes_of_words_of_bytes)
  ultimately show ?thesis using run d10(1) by simp
qed

end

text \<open>The driver's state once \<open>disk_init\<close> has found a drive.  Its functions use of it only
  \<open>has_disk\<close>.\<close>

definition disk_online :: disk_state where
  "disk_online = \<lparr>has_disk = True, status_text = lit ''primary ATA disk detected''\<rparr>"

lemma disk_online_cong:
  assumes "has_disk s"
  shows "disk_read_sector hw s = disk_read_sector hw disk_online"
    and "disk_write_sector hw s = disk_write_sector hw disk_online"
  using assms by (simp_all add: disk_read_sector_def disk_write_sector_def disk_online_def fun_eq_iff)

sublocale tolerant_drive \<subseteq> disk: sector_disk "disk_read_sector hw disk_online"
    "disk_write_sector hw disk_online" "drive_ready view" "drive_sector view" capacity
proof
  have on: "has_disk disk_online" by (simp add: disk_online_def)
  show "\<exists>d'. disk_read_sector hw disk_online lba buf d = Some (True, drive_sector view d (unat lba), d') \<and>
      drive_ready view d' \<and> drive_sector view d' = drive_sector view d"
    if "drive_ready view d" "unat lba < capacity" "length buf = 512" for d lba buf
    using read_sector_ok [OF on that] .
  show "\<exists>d'. disk_write_sector hw disk_online lba buf d = Some (True, d') \<and>
      drive_ready view d' \<and> drive_sector view d' = (drive_sector view d)(unat lba := buf)"
    if "drive_ready view d" "unat lba < capacity" "length buf = 512" for d lba buf
    using write_sector_ok [OF on that] .
  show "length (drive_sector view d n) = 512" if "drive_ready view d" for d n
    using that by (simp add: drive_ready_def media_ok_def drive_sector_def)
qed

context tolerant_drive
begin

lemma drive_disk: "sector_disk (disk_read_sector hw disk_online) (disk_write_sector hw disk_online)
    (drive_ready view) (drive_sector view) capacity"
  by (rule disk.sector_disk_axioms)

end

subsection \<open>A simulated drive\<close>

text \<open>A drive that follows the protocol, busy for two status reads after each command and each sector it
  received, and drops commands while it is busy.  It shows that the laws can hold and is the device of
  the concrete runs in the other theories.\<close>

definition sim_inb :: "16 word \<Rightarrow> ata_view \<Rightarrow> byte \<times> ata_view" where
  "sim_inb r v =
     (if r = ATA_STATUS then
        (if 0 < av_busy v then (ATA_SR_BSY, v\<lparr>av_busy := av_busy v - 1\<rparr>)
         else if av_phase v = Idle then (0x50, v) else (0x58, v))
      else (av_regs v r, v))"

definition sim_outb :: "16 word \<Rightarrow> byte \<Rightarrow> ata_view \<Rightarrow> ata_view" where
  "sim_outb r b v =
     (if r \<noteq> ATA_COMMAND then v\<lparr>av_regs := (av_regs v)(r := b)\<rparr>
      else if 0 < av_busy v \<or> av_phase v \<noteq> Idle then v
      else if b = 0xE7 then v\<lparr>av_busy := 2\<rparr>
      else if \<not> one_sector (av_regs v) then v
      else if b = ATA_CMD_READ
      then v\<lparr>av_busy := 2, av_phase := Sending (av_media v (ata_lba (av_regs v)))\<rparr>
      else if b = ATA_CMD_WRITE
      then v\<lparr>av_busy := 2, av_phase := Receiving (ata_lba (av_regs v)) []\<rparr>
      else v)"

definition sim_inw :: "16 word \<Rightarrow> ata_view \<Rightarrow> 16 word \<times> ata_view" where
  "sim_inw r v =
     (case av_phase v of
        Sending (w # ws) \<Rightarrow> (w, v\<lparr>av_phase := (if ws = [] then Idle else Sending ws)\<rparr>)
      | _ \<Rightarrow> (0xFFFF, v))"

definition sim_outw :: "16 word \<Rightarrow> 16 word \<Rightarrow> ata_view \<Rightarrow> ata_view" where
  "sim_outw r w v =
     (case av_phase v of
        Receiving lba ws \<Rightarrow>
          (if length ws < 255 then v\<lparr>av_phase := Receiving lba (ws @ [w])\<rparr>
           else v\<lparr>av_busy := 2, av_phase := Idle, av_media := (av_media v)(lba := ws @ [w])\<rparr>)
      | _ \<Rightarrow> v)"

definition sim_ports :: "ata_view ports" where
  "sim_ports = \<lparr>p_inb = sim_inb, p_outb = sim_outb, p_inw = sim_inw, p_outw = sim_outw\<rparr>"

definition sim_blank :: ata_view where
  "sim_blank = \<lparr>av_busy = 0, av_regs = (\<lambda>_. 0), av_phase = Idle, av_media = (\<lambda>_. replicate 256 0)\<rparr>"

interpretation sim_drive: tolerant_drive sim_ports id "2 ^ 28"
proof
  have limit: "2 < POLL_LIMIT" by (simp add: POLL_LIMIT_def)
  note defs = sim_ports_def sim_inb_def sim_outb_def sim_inw_def sim_outw_def ATA_STATUS_def
    ATA_COMMAND_def ATA_SR_BSY_def ATA_SR_ERR_def ATA_SR_DRQ_def
  fix d d' :: ata_view and s b :: byte and r w x :: "16 word" and ws :: "16 word list" and lba :: nat
  show "0 < av_busy (id d) \<Longrightarrow> p_inb sim_ports ATA_STATUS d = (s, d') \<Longrightarrow>
      s AND ATA_SR_BSY \<noteq> 0 \<and> id d' = (id d)\<lparr>av_busy := av_busy (id d) - 1\<rparr>"
    by (auto simp: defs)
  show "0 < av_busy (id d) \<Longrightarrow> p_inb sim_ports ATA_STATUS d = (s, d') \<Longrightarrow> s AND ATA_SR_ERR = 0"
    by (auto simp: defs)
  show "0 < av_busy (id d) \<Longrightarrow> av_phase (id d) = Idle \<Longrightarrow> id (p_outb sim_ports ATA_COMMAND 0xE7 d) = id d"
    by (auto simp: defs)
  show "av_busy (id d) = 0 \<Longrightarrow> p_inb sim_ports ATA_STATUS d = (s, d') \<Longrightarrow>
      s AND ATA_SR_BSY = 0 \<and> s AND ATA_SR_ERR = 0 \<and>
      (s AND ATA_SR_DRQ \<noteq> 0 \<longleftrightarrow> av_phase (id d) \<noteq> Idle) \<and> id d' = id d"
    by (auto simp: defs split: if_splits)
  show "r \<in> {ATA_SECTOR_COUNT, ATA_LBA_LOW, ATA_LBA_MID, ATA_LBA_HIGH, ATA_DRIVE} \<Longrightarrow>
      id (p_outb sim_ports r b d) = (id d)\<lparr>av_regs := (av_regs (id d))(r := b)\<rparr>"
    by (auto simp: defs ATA_SECTOR_COUNT_def ATA_LBA_LOW_def ATA_LBA_MID_def ATA_LBA_HIGH_def
        ATA_DRIVE_def)
  show "av_busy (id d) = 0 \<Longrightarrow> av_phase (id d) = Idle \<Longrightarrow> one_sector (av_regs (id d)) \<Longrightarrow>
      \<exists>n < POLL_LIMIT. id (p_outb sim_ports ATA_COMMAND ATA_CMD_READ d) =
        (id d)\<lparr>av_busy := n, av_phase := Sending (av_media (id d) (ata_lba (av_regs (id d))))\<rparr>"
    using limit by (intro exI [of _ 2]) (auto simp: defs ATA_CMD_READ_def)
  show "av_busy (id d) = 0 \<Longrightarrow> av_phase (id d) = Idle \<Longrightarrow> one_sector (av_regs (id d)) \<Longrightarrow>
      \<exists>n < POLL_LIMIT. id (p_outb sim_ports ATA_COMMAND ATA_CMD_WRITE d) =
        (id d)\<lparr>av_busy := n, av_phase := Receiving (ata_lba (av_regs (id d))) []\<rparr>"
    using limit by (intro exI [of _ 2]) (auto simp: defs ATA_CMD_READ_def ATA_CMD_WRITE_def)
  show "av_phase (id d) = Sending (w # ws) \<Longrightarrow> p_inw sim_ports ATA_DATA d = (x, d') \<Longrightarrow>
      x = w \<and> id d' = (id d)\<lparr>av_phase := (if ws = [] then Idle else Sending ws)\<rparr>"
    by (auto simp: defs)
  show "av_phase (id d) = Receiving lba ws \<Longrightarrow> length ws < 255 \<Longrightarrow>
      id (p_outw sim_ports ATA_DATA w d) = (id d)\<lparr>av_phase := Receiving lba (ws @ [w])\<rparr>"
    by (auto simp: defs)
  show "av_phase (id d) = Receiving lba ws \<Longrightarrow> length ws = 255 \<Longrightarrow>
      \<exists>n < POLL_LIMIT. id (p_outw sim_ports ATA_DATA w d) =
        (id d)\<lparr>av_busy := n, av_phase := Idle,
          av_media := (av_media (id d))(lba := ws @ [w])\<rparr>"
    using limit by (intro exI [of _ 2]) (auto simp: defs)
  show "av_busy (id d) = 0 \<Longrightarrow> av_phase (id d) = Idle \<Longrightarrow>
      \<exists>n < POLL_LIMIT. id (p_outb sim_ports ATA_COMMAND 0xE7 d) = (id d)\<lparr>av_busy := n\<rparr>"
    using limit by (intro exI [of _ 2]) (auto simp: defs)
qed simp

lemma sim_blank_ready: "drive_ready id sim_blank"
  by (simp add: drive_ready_def sim_blank_def media_ok_def POLL_LIMIT_def)

subsection \<open>A drive that only follows the protocol\<close>






subsection \<open>Properties\<close>

lemma read_words_total:
  "length buf = 2 * (i + n) \<Longrightarrow> \<exists>buf' d'. read_words hw i n buf d = Some (buf', d') \<and> length buf' = length buf"
proof (induction n arbitrary: i buf d)
  case 0 then show ?case by simp
next
  case (Suc n)
  obtain w d1 where io: "p_inw hw ATA_DATA d = (w, d1)" by (meson surj_pair)
  let ?buf = "buf[i * 2 := ucast (w AND 0xFF), Suc (i * 2) := ucast (drop_bit 8 w AND 0xFF)]"
  have "read_words hw i (Suc n) buf d = read_words hw (i + 1) n ?buf d1"
    using Suc.prems io by simp
  then show ?case using Suc.IH [of ?buf "i + 1" d1] Suc.prems by simp
qed

lemma write_words_total:
  "length buf = 2 * (i + n) \<Longrightarrow> \<exists>d'. write_words hw i n buf d = Some d'"
  by (induction n arbitrary: i d) auto

lemma disk_read_sector_total:
  assumes "length buf = 512"
  shows "\<exists>ok buf' d'. disk_read_sector hw s lba buf d = Some (ok, buf', d') \<and> length buf' = 512 \<and>
     (\<not> ok \<longrightarrow> buf' = buf) \<and> (\<not> has_disk s \<longrightarrow> \<not> ok \<and> d' = d)"
proof -
  obtain r d1 where w1: "wait_not_busy hw d = (r, d1)" by (meson surj_pair)
  obtain q d2 where w2: "wait_drq hw (ata_command hw lba ATA_CMD_READ d1) = (q, d2)"
    by (meson surj_pair)
  obtain buf' d3 where rw: "read_words hw 0 256 buf d2 = Some (buf', d3)" "length buf' = 512"
    using read_words_total [of buf 0 256 hw d2] assms by auto
  have "disk_read_sector hw s lba buf d =
     (if \<not> has_disk s then Some (False, buf, d) else if \<not> r then Some (False, buf, d1)
      else if \<not> q then Some (False, buf, d2) else Some (True, buf', ata_delay hw d3))"
    by (simp add: disk_read_sector_def w1 w2 rw(1))
  then show ?thesis using rw(2) assms by (cases "has_disk s"; cases r; cases q) auto
qed

lemma disk_write_sector_total:
  assumes "length buf = 512"
  shows "\<exists>ok d'. disk_write_sector hw s lba buf d = Some (ok, d') \<and>
     (\<not> has_disk s \<longrightarrow> \<not> ok \<and> d' = d)"
proof -
  obtain r d1 where w1: "wait_not_busy hw d = (r, d1)" by (meson surj_pair)
  obtain q d2 where w2: "wait_drq hw (ata_command hw lba ATA_CMD_WRITE d1) = (q, d2)"
    by (meson surj_pair)
  obtain d3 where ww: "write_words hw 0 256 buf d2 = Some d3"
    using write_words_total [of buf 0 256 hw d2] assms by auto
  have "disk_write_sector hw s lba buf d =
     (if \<not> has_disk s then Some (False, d) else if \<not> r then Some (False, d1)
      else if \<not> q then Some (False, d2)
      else Some (True, ata_delay hw (snd (wait_not_busy hw (p_outb hw ATA_COMMAND 0xE7 d3)))))"
    by (simp add: disk_write_sector_def w1 w2 ww)
  then show ?thesis by (cases "has_disk s"; cases r; cases q) auto
qed

text \<open>
  C17: What is written to a sector is read back.  On a drive that follows the PIO protocol without
  errors, shows no ERR while it is busy and ignores a flush command while it is busy (ATA promises
  neither; QEMU's drive does both), detected and between two commands, writing 512 bytes to a sector the
  drive has succeeds, reading the sector then succeeds and returns exactly these bytes, no other sector
  has changed and the drive is again between two commands.
\<close>

theorem disk_sector_roundtrip:
  assumes "tolerant_drive hw view capacity" "has_disk s" "drive_ready view d" "unat lba < capacity"
    and "length buf = 512" "length old = 512"
  shows "\<exists>d1 d2. disk_write_sector hw s lba buf d = Some (True, d1) \<and>
     disk_read_sector hw s lba old d1 = Some (True, buf, d2) \<and> drive_ready view d2 \<and>
     drive_sector view d2 = (drive_sector view d)(unat lba := buf)"
proof -
  obtain d1 where d1: "disk_write_sector hw s lba buf d = Some (True, d1)" "drive_ready view d1"
    "drive_sector view d1 = (drive_sector view d)(unat lba := buf)"
    using tolerant_drive.write_sector_ok [OF assms(1-5)] by blast
  from clean_drive.read_sector_ok [OF tolerant_drive.axioms(1) [OF assms(1)] assms(2) d1(2) assms(4,6)] d1 show ?thesis by auto
qed

lemma disk_sector_roundtrip_witness:
  "\<exists>d1 d2. disk_write_sector sim_ports disk_online 2048 (replicate 512 0x41) sim_blank = Some (True, d1) \<and>
     disk_read_sector sim_ports disk_online 2048 (fresh 512) d1 = Some (True, replicate 512 0x41, d2)"
  using disk_sector_roundtrip [OF sim_drive.tolerant_drive_axioms _ sim_blank_ready,
      of disk_online 2048 "replicate 512 0x41" "fresh 512"]
  by (auto simp: disk_online_def)





text \<open>
  C28: The driver always returns.  Whatever the machine answers on the ports (no drive, a drive that
  stays busy, one that reports an error), \<open>disk_read_sector\<close> and \<open>disk_write_sector\<close> return, access
  only the 512 bytes of the caller's buffer, and a read that fails leaves the buffer as it was;
  without a detected drive they fail without touching the ports.
\<close>

theorem disk_driver_returns:
  assumes "length buf = 512"
  shows "(\<exists>ok buf' d1. disk_read_sector hw s lba buf d = Some (ok, buf', d1) \<and> length buf' = 512 \<and>
       (\<not> ok \<longrightarrow> buf' = buf) \<and> (\<not> has_disk s \<longrightarrow> \<not> ok \<and> d1 = d)) \<and>
     (\<exists>ok d2. disk_write_sector hw s lba buf d = Some (ok, d2) \<and> (\<not> has_disk s \<longrightarrow> \<not> ok \<and> d2 = d))"
  using disk_read_sector_total [OF assms] disk_write_sector_total [OF assms] by (rule conjI)

lemma disk_driver_returns_witness:
  "\<exists>ok buf' d1. disk_read_sector sim_ports disk_online 0 (fresh 512) sim_blank = Some (ok, buf', d1) \<and>
     length buf' = 512"
  using disk_driver_returns [of "fresh 512" sim_ports disk_online 0 sim_blank] by auto

end
