(* ===== verification/Fs_Path.thy ===== *)
theory Fs_Path
  imports Kernel_String
begin

section \<open>Path resolution (kernel/filesystem.c, \<open>fs_resolve_path\<close>)\<close>

text \<open>
  \<open>fs_resolve_path\<close> makes a path absolute and normal: it builds \<open>raw\<close> from the current directory
  and the input, cuts it at slashes into components (at most 31 bytes each, a longer one is cut
  into pieces), interprets \<open>.\<close> and \<open>..\<close>, keeps at most 16 components and joins them again.  The
  first half is the code, with its arrays \<open>raw[128]\<close>, \<open>part[32]\<close>, \<open>components[16][32]\<close> and
  \<open>result[128]\<close>; the second half proves that it computes \<open>resolve_comps\<close>, a specification
  over lists of components, and is undefined exactly when \<open>raw\<close> or \<open>result\<close> overflows.
\<close>

definition FS_MAX_NAME :: nat where "FS_MAX_NAME = 32"
definition FS_MAX_PATH :: nat where "FS_MAX_PATH = 128"

subsection \<open>The code\<close>

text \<open>The first part of the function: the content of \<open>raw\<close>.\<close>

definition resolve_raw :: "cbuf \<Rightarrow> cptr \<Rightarrow> cbuf option" where
  "resolve_raw current_dir inp = do {
     input \<leftarrow> (case inp of
                 None \<Rightarrow> Some current_dir
               | Some s \<Rightarrow> do { c \<leftarrow> rd s 0; Some (if c = 0 then current_dir else s) });
     c0 \<leftarrow> rd input 0;
     (if c0 = slash then str_copy_n (fresh FS_MAX_PATH) (Some input) FS_MAX_PATH
      else do {
        raw1 \<leftarrow> str_copy_n (fresh FS_MAX_PATH) (Some current_dir) FS_MAX_PATH;
        r \<leftarrow> str_compare raw1 (lit ''/'');
        raw2 \<leftarrow> (if r \<noteq> 0 then str_concat raw1 (Some (lit ''/'')) else Some raw1);
        str_concat raw2 (Some input) }) }"

fun skip_slashes :: "cbuf \<Rightarrow> cbuf option" where
  "skip_slashes [] = None"
| "skip_slashes (c # raw) = (if c = slash then skip_slashes raw else Some (c # raw))"

fun scan_part :: "cbuf \<Rightarrow> cbuf \<Rightarrow> nat \<Rightarrow> (cbuf \<times> cbuf \<times> nat) option" where
  "scan_part [] part len = None"
| "scan_part (c # raw) part len =
     (if c \<noteq> 0 \<and> c \<noteq> slash \<and> len + 1 < FS_MAX_NAME then do {
        part' \<leftarrow> wr part len c;
        scan_part raw part' (len + 1) }
      else Some (c # raw, part, len))"

lemma skip_slashes_SomeD:
  "skip_slashes raw = Some raw' \<Longrightarrow> length raw' \<le> length raw \<and> raw' \<noteq> [] \<and> hd raw' \<noteq> slash"
  by (induction raw) (auto split: if_splits)

lemma scan_part_length: "scan_part raw part len = Some (raw', part', len') \<Longrightarrow> length raw' \<le> length raw"
  by (induction raw part len rule: scan_part.induct) (fastforce simp: bind_Some_iff split: if_splits)+

lemma scan_part_progress:
  "skip_slashes raw = Some raw1 \<Longrightarrow> rd raw1 0 = Some c \<Longrightarrow> c \<noteq> 0 \<Longrightarrow>
     scan_part raw1 part 0 = Some (raw2, part', len) \<Longrightarrow> length raw2 < length raw"
  by (cases raw1)
    (auto simp: FS_MAX_NAME_def rd_def bind_Some_iff less_Suc_eq_le
      dest!: skip_slashes_SomeD scan_part_length)

text \<open>The main loop: the rest of \<open>raw\<close>, the array \<open>components\<close> and \<open>depth\<close>.\<close>

function resolve_loop :: "cbuf \<Rightarrow> cbuf list \<Rightarrow> nat \<Rightarrow> (cbuf list \<times> nat) option" where
  "resolve_loop raw components depth = do {
     c0 \<leftarrow> rd raw 0;
     (if c0 = 0 then Some (components, depth)
      else do {
        raw1 \<leftarrow> skip_slashes raw;
        c1 \<leftarrow> rd raw1 0;
        (if c1 = 0 then Some (components, depth)
         else do {
           (raw2, part0, len) \<leftarrow> scan_part raw1 (fresh FS_MAX_NAME) 0;
           part \<leftarrow> wr part0 len 0;
           dot \<leftarrow> str_compare part (lit ''.'');
           (if dot = 0 then resolve_loop raw2 components depth
            else do {
              dotdot \<leftarrow> str_compare part (lit ''..'');
              (if dotdot = 0
               then resolve_loop raw2 components (if 0 < depth then depth - 1 else depth)
               else if depth < 16 then do {
                 slot \<leftarrow> rd components depth;
                 slot' \<leftarrow> str_copy slot (Some part);
                 components' \<leftarrow> wr components depth slot';
                 resolve_loop raw2 components' (depth + 1) }
               else resolve_loop raw2 components depth) }) }) }) }"
  by pat_completeness auto
termination
  by (relation "measure (\<lambda>(raw, components, depth). length raw)")
    (auto dest: scan_part_progress)

declare resolve_loop.simps [simp del]

text \<open>\<open>for (c = 0; c < depth; c++) { if (c > 0) strcat(result, "/"); strcat(result, components[c]); }\<close>
  with \<open>n = depth - c\<close> rounds to go.\<close>

fun join_loop :: "cbuf list \<Rightarrow> nat \<Rightarrow> nat \<Rightarrow> cbuf \<Rightarrow> cbuf option" where
  "join_loop components c 0 result = Some result"
| "join_loop components c (Suc n) result = do {
     result1 \<leftarrow> (if 0 < c then str_concat result (Some (lit ''/'')) else Some result);
     comp \<leftarrow> rd components c;
     result2 \<leftarrow> str_concat result1 (Some comp);
     join_loop components (Suc c) n result2 }"

definition fs_resolve_path :: "cbuf \<Rightarrow> cptr \<Rightarrow> cbuf \<Rightarrow> nat \<Rightarrow> cbuf option" where
  "fs_resolve_path current_dir input out out_size = do {
     raw \<leftarrow> resolve_raw current_dir input;
     (components, depth) \<leftarrow> resolve_loop raw (replicate 16 (fresh FS_MAX_NAME)) 0;
     result0 \<leftarrow> str_copy (fresh FS_MAX_PATH) (Some (lit ''/''));
     result \<leftarrow> join_loop components 0 depth result0;
     str_copy_n out (Some result) out_size }"

subsection \<open>The specification: lists of components\<close>

text \<open>Cutting at slashes, in pieces of at most 31 bytes.\<close>

function split_parts :: "byte list \<Rightarrow> byte list list" where
  "split_parts xs =
     (let ys = dropWhile (\<lambda>c. c = slash) xs in
      if ys = [] then []
      else (let p = take 31 (takeWhile (\<lambda>c. c \<noteq> slash) ys) in p # split_parts (drop (length p) ys)))"
  by pat_completeness auto
termination
proof (relation "measure length", simp_all add: Let_def, goal_cases)
  case (1 xs)
  let ?ys = "dropWhile (\<lambda>c. c = slash) xs"
  have "?ys \<noteq> [] \<Longrightarrow> takeWhile (\<lambda>c. c \<noteq> slash) ?ys \<noteq> []"
    using hd_dropWhile [of "\<lambda>c. c = slash" xs] by (cases ?ys) auto
  moreover have "length ?ys \<le> length xs" by (rule length_dropWhile_le)
  moreover have "?ys \<noteq> []" using 1 by (auto simp: dropWhile_eq_Nil_conv)
  ultimately show ?case by (cases ?ys) auto
qed

declare split_parts.simps [simp del]

definition comp_step :: "byte list list \<Rightarrow> byte list \<Rightarrow> byte list list" where
  "comp_step cs p =
     (if p = bytes_of ''.'' then cs
      else if p = bytes_of ''..'' then butlast cs
      else if length cs < 16 then cs @ [p] else cs)"

definition normal_comps :: "byte list \<Rightarrow> byte list list" where
  "normal_comps raw = foldl comp_step [] (split_parts raw)"

text \<open>The path with the given components.\<close>

definition path_of :: "byte list list \<Rightarrow> byte list" where
  "path_of cs = (if cs = [] then [slash] else concat (map (\<lambda>c. slash # c) cs))"

text \<open>The string \<open>raw\<close> before it is cut, \<open>None\<close> when it does not fit 127 bytes.\<close>

definition raw_spec :: "byte list \<Rightarrow> byte list \<Rightarrow> byte list option" where
  "raw_spec cwd inp =
     (let input = (if inp = [] then cwd else inp) in
      if input \<noteq> [] \<and> hd input = slash then Some (take 127 input)
      else
        let raw1 = take 127 cwd;
            full = (if raw1 = [slash] then raw1 @ input else raw1 @ [slash] @ input)
        in if length full < 128 then Some full else None)"

definition resolve_comps :: "byte list \<Rightarrow> byte list \<Rightarrow> byte list list option" where
  "resolve_comps cwd inp =
     (case raw_spec cwd inp of
        None \<Rightarrow> None
      | Some raw \<Rightarrow>
          let cs = normal_comps raw in if length (path_of cs) < 128 then Some cs else None)"

definition arg_str :: "cptr \<Rightarrow> byte list" where
  "arg_str inp = (case inp of None \<Rightarrow> [] | Some s \<Rightarrow> cstr s)"

definition arg_ok :: "cptr \<Rightarrow> bool" where
  "arg_ok inp \<longleftrightarrow> (case inp of None \<Rightarrow> True | Some s \<Rightarrow> terminated s)"

lemma arg_simps [simp]:
  "arg_str (Some s) = cstr s" "arg_ok (Some s) = terminated s" "arg_str None = []" "arg_ok None"
  by (simp_all add: arg_str_def arg_ok_def)

lemma resolve_comps_cong: "arg_str inp = arg_str inp' \<Longrightarrow>
    resolve_comps cwd (arg_str inp) = resolve_comps cwd (arg_str inp')"
  by simp

subsection \<open>The code computes the specification\<close>

lemma lit_path_literals [simp]:
  "cstr (lit ''/'') = [slash]" "cstr (lit ''.'') = bytes_of ''.''" "cstr (lit ''..'') = bytes_of ''..''"
  by (simp_all add: lit_def bytes_of_def)

lemma terminated_hd: "terminated b \<Longrightarrow> \<exists>c. rd b 0 = Some c \<and> (c = 0 \<longleftrightarrow> cstr b = []) \<and>
    (cstr b \<noteq> [] \<longrightarrow> hd (cstr b) = c)"
  by (cases b) auto

lemma put_str_bounded:
  assumes "length d = 128" "0 \<notin> set xs"
  shows "case (if length xs < 128 then Some xs else None) of
      None \<Rightarrow> put_str d xs = None
    | Some r \<Rightarrow> \<exists>raw. put_str d xs = Some raw \<and> terminated raw \<and> cstr raw = r"
proof (cases "length xs < 128")
  case True
  with assms show ?thesis by (simp add: put_str_fits)
next
  case False
  with assms show ?thesis by (simp add: put_str_None_iff)
qed

text \<open>A slash and a string are appended as one string.\<close>

lemma concat_slash:
  assumes "terminated d" "terminated b"
  shows "do { e \<leftarrow> str_concat d (Some (lit ''/'')); str_concat e (Some b) } = put_str d (cstr d @ slash # cstr b)"
  using kstr.put_append [of "cstr d @ [slash]" b d] assms by (simp add: str_concat_eq)

lemma resolve_input:
  assumes "terminated cwd" "arg_ok inp"
  obtains input c0 where "(case inp of None \<Rightarrow> Some cwd
      | Some s \<Rightarrow> do { c \<leftarrow> rd s 0; Some (if c = 0 then cwd else s) }) = Some input" "terminated input"
    "cstr input = (if arg_str inp = [] then cstr cwd else arg_str inp)" "rd input 0 = Some c0"
    "c0 = 0 \<longleftrightarrow> cstr input = []" "cstr input \<noteq> [] \<longrightarrow> hd (cstr input) = c0"
proof -
  obtain input where "(case inp of None \<Rightarrow> Some cwd
      | Some s \<Rightarrow> do { c \<leftarrow> rd s 0; Some (if c = 0 then cwd else s) }) = Some input" "terminated input"
    "cstr input = (if arg_str inp = [] then cstr cwd else arg_str inp)"
  proof (cases inp)
    case None
    with assms that show ?thesis by simp
  next
    case (Some s)
    with assms terminated_hd [of s] that show ?thesis by (auto split: if_splits)
  qed
  then show ?thesis using that terminated_hd by blast
qed

lemma copy_path:
  assumes "terminated b"
  obtains d where "str_copy_n (fresh FS_MAX_PATH) (Some b) FS_MAX_PATH = Some d" "terminated d"
    "cstr d = take 127 (cstr b)" "length d = 128"
proof -
  have "0 \<notin> set (take 127 (cstr b))"
    using set_take_subset [of 127 "cstr b"] zero_notin_cstr [of b] by blast
  then have "\<exists>d. str_copy_n (fresh FS_MAX_PATH) (Some b) FS_MAX_PATH = Some d \<and> terminated d \<and>
      cstr d = take 127 (cstr b) \<and> length d = 128"
    using assms by (simp add: str_copy_n_eq FS_MAX_PATH_def put_str_def)
  then show ?thesis using that by blast
qed

lemma resolve_raw_eq:
  assumes "terminated cwd" "arg_ok inp"
  shows "case raw_spec (cstr cwd) (arg_str inp) of
      None \<Rightarrow> resolve_raw cwd inp = None
    | Some r \<Rightarrow> \<exists>raw. resolve_raw cwd inp = Some raw \<and> terminated raw \<and> cstr raw = r"
proof -
  obtain input c0 where inp: "(case inp of None \<Rightarrow> Some cwd
      | Some s \<Rightarrow> do { c \<leftarrow> rd s 0; Some (if c = 0 then cwd else s) }) = Some input"
    and t: "terminated input" and str: "cstr input = (if arg_str inp = [] then cstr cwd else arg_str inp)"
    and c0: "rd input 0 = Some c0" "c0 = 0 \<longleftrightarrow> cstr input = []" "cstr input \<noteq> [] \<longrightarrow> hd (cstr input) = c0"
    using resolve_input [OF assms] .
  show ?thesis
  proof (cases "c0 = slash")
    case True
    then have "raw_spec (cstr cwd) (arg_str inp) = Some (take 127 (cstr input))"
      using c0 str by (auto simp: raw_spec_def)
    moreover have "resolve_raw cwd inp = str_copy_n (fresh FS_MAX_PATH) (Some input) FS_MAX_PATH"
      unfolding resolve_raw_def inp using c0(1) True by simp
    ultimately show ?thesis using copy_path [OF t] by force
  next
    case False
    obtain d where d: "str_copy_n (fresh FS_MAX_PATH) (Some cwd) FS_MAX_PATH = Some d"
      "terminated d" "cstr d = take 127 (cstr cwd)" "length d = 128"
      using copy_path [OF assms(1)] .
    let ?full = "if cstr d = [slash] then cstr d @ cstr input else cstr d @ slash # cstr input"
    have spec: "raw_spec (cstr cwd) (arg_str inp) = (if length ?full < 128 then Some ?full else None)"
      unfolding d(3) using False c0 str by (auto simp: raw_spec_def Let_def)
    obtain r where r: "str_compare d (lit ''/'') = Some r" "r = 0 \<longleftrightarrow> cstr d = [slash]"
      using str_compareE [OF d(2) terminated_lit [of "''/''"]] by auto
    have "resolve_raw cwd inp = do {
        raw2 \<leftarrow> (if r \<noteq> 0 then str_concat d (Some (lit ''/'')) else Some d);
        str_concat raw2 (Some input) }"
      using inp c0(1) False d(1) r(1) by (simp add: resolve_raw_def)
    then have run: "resolve_raw cwd inp = put_str d ?full"
      using r(2) concat_slash [OF d(2) t] d(2) t by (simp add: str_concat_eq)
    show ?thesis unfolding spec run by (rule put_str_bounded [OF d(4)]) simp
  qed
qed

lemma skip_slashes_eq:
  "terminated raw \<Longrightarrow> \<exists>raw'. skip_slashes raw = Some raw' \<and> terminated raw' \<and>
     cstr raw' = dropWhile (\<lambda>c. c = slash) (cstr raw)"
  by (induction raw) auto

lemma scan_part_eq:
  "terminated raw \<Longrightarrow> len < FS_MAX_NAME \<Longrightarrow> length part = FS_MAX_NAME \<Longrightarrow>
     (let p = take (31 - len) (takeWhile (\<lambda>c. c \<noteq> slash) (cstr raw)) in
      \<exists>raw' part'. scan_part raw part len = Some (raw', part', len + length p) \<and>
        terminated raw' \<and> cstr raw' = drop (length p) (cstr raw) \<and>
        length part' = FS_MAX_NAME \<and> take (len + length p) part' = take len part @ p \<and>
        len + length p < FS_MAX_NAME)"
proof (induction raw part len rule: scan_part.induct)
  case (2 c raw part len)
  show ?case
  proof (cases "c \<noteq> 0 \<and> c \<noteq> slash \<and> len + 1 < FS_MAX_NAME")
    case True
    let ?p = "take (31 - Suc len) (takeWhile (\<lambda>c. c \<noteq> slash) (cstr raw))"
    have "take (31 - len) (takeWhile (\<lambda>c. c \<noteq> slash) (cstr (c # raw))) = c # ?p"
      using True by (cases "31 - len") (auto simp: FS_MAX_NAME_def diff_Suc)
    moreover have "take (Suc len) (part[len := c]) = take len part @ [c]"
      using True 2 by (simp add: take_Suc_conv_app_nth)
    ultimately show ?thesis
      using 2 True by (fastforce simp: Let_def)
  next
    case False
    then have "take (31 - len) (takeWhile (\<lambda>c. c \<noteq> slash) (cstr (c # raw))) = []"
      by (auto simp: FS_MAX_NAME_def)
    with False 2 show ?thesis by (auto simp: Let_def)
  qed
qed simp

text \<open>One round of the main loop on the specification's side.\<close>

lemma split_parts_Nil: "dropWhile (\<lambda>c. c = slash) xs = [] \<Longrightarrow> split_parts xs = []"
  by (simp add: split_parts.simps [of xs] Let_def)

lemma split_parts_step:
  "dropWhile (\<lambda>c. c = slash) xs = ys \<Longrightarrow> ys \<noteq> [] \<Longrightarrow> p = take 31 (takeWhile (\<lambda>c. c \<noteq> slash) ys) \<Longrightarrow>
     split_parts xs = p # split_parts (drop (length p) ys)"
  by (simp add: split_parts.simps [of xs] Let_def)

text \<open>What the array \<open>components\<close> and \<open>depth\<close> stand for.\<close>

definition comps_rep :: "cbuf list \<Rightarrow> nat \<Rightarrow> byte list list \<Rightarrow> bool" where
  "comps_rep components depth cs \<longleftrightarrow>
     length components = 16 \<and> depth \<le> 16 \<and> (\<forall>b \<in> set components. length b = FS_MAX_NAME) \<and>
     (\<forall>b \<in> set (take depth components). terminated b) \<and> map cstr (take depth components) = cs"

lemma comps_rep_pop:
  assumes "comps_rep components depth cs"
  shows "comps_rep components (if 0 < depth then depth - 1 else depth) (butlast cs)"
proof (cases "0 < depth")
  case True
  then have "set (take (depth - 1) components) \<subseteq> set (take depth components)"
    by (intro set_take_subset_set_take) simp
  then show ?thesis
    using True assms by (auto simp: comps_rep_def butlast_take map_butlast [symmetric])
next
  case False
  with assms show ?thesis by (auto simp: comps_rep_def)
qed

lemma comps_rep_push:
  assumes "comps_rep components depth cs" "depth < 16" "length b = FS_MAX_NAME" "terminated b"
  shows "comps_rep (components[depth := b]) (depth + 1) (cs @ [cstr b])"
proof -
  have "take (Suc depth) (components[depth := b]) = take depth components @ [b]"
    using assms by (simp add: comps_rep_def take_Suc_conv_app_nth)
  then show ?thesis
    using assms by (auto simp: comps_rep_def dest!: set_update_subset_insert [THEN subsetD])
qed

text \<open>What the loop reads in one round: nothing, or one component.\<close>

lemma next_part:
  assumes "terminated raw"
  obtains "split_parts (cstr raw) = []" "\<And>components depth. resolve_loop raw components depth = Some (components, depth)"
  | c0 raw1 c1 raw2 part0 n part where "rd raw 0 = Some c0" "c0 \<noteq> 0" "skip_slashes raw = Some raw1"
    "rd raw1 0 = Some c1" "c1 \<noteq> 0" "scan_part raw1 (fresh FS_MAX_NAME) 0 = Some (raw2, part0, n)"
    "wr part0 n 0 = Some part" "terminated raw2" "terminated part" "length (cstr part) < FS_MAX_NAME"
    "split_parts (cstr raw) = cstr part # split_parts (cstr raw2)"
proof -
  obtain c0 where c0: "rd raw 0 = Some c0" "c0 = 0 \<longleftrightarrow> cstr raw = []"
    using terminated_hd [OF assms] by blast
  obtain raw1 where raw1: "skip_slashes raw = Some raw1" "terminated raw1"
    "cstr raw1 = dropWhile (\<lambda>c. c = slash) (cstr raw)"
    using skip_slashes_eq [OF assms] by blast
  obtain c1 where c1: "rd raw1 0 = Some c1" "c1 = 0 \<longleftrightarrow> cstr raw1 = []"
    using terminated_hd [OF raw1(2)] by blast
  show ?thesis
  proof (cases "c0 = 0 \<or> c1 = 0")
    case True
    then have "split_parts (cstr raw) = []"
      using c0(2) c1(2) raw1(3) by (intro split_parts_Nil) auto
    moreover have "resolve_loop raw components depth = Some (components, depth)" for components depth
      using True c0 c1 raw1 by (auto simp: resolve_loop.simps [of raw])
    ultimately show ?thesis by (rule that(1))
  next
    case False
    define p where "p = take 31 (takeWhile (\<lambda>c. c \<noteq> slash) (cstr raw1))"
    obtain raw2 part0 where scan: "scan_part raw1 (fresh FS_MAX_NAME) 0 = Some (raw2, part0, length p)"
      "terminated raw2" "cstr raw2 = drop (length p) (cstr raw1)" "length part0 = FS_MAX_NAME"
      "take (length p) part0 = p" "length p < FS_MAX_NAME"
      using scan_part_eq [OF raw1(2), of 0 "fresh FS_MAX_NAME"]
      by (auto simp: p_def Let_def FS_MAX_NAME_def)
    have "part0[length p := 0] = p @ 0 # drop (Suc (length p)) part0"
      using scan(4-6) by (simp add: upd_conv_take_nth_drop)
    moreover have "0 \<notin> set p"
      using zero_notin_cstr [of raw1] by (auto simp: p_def dest!: in_set_takeD set_takeWhileD)
    ultimately have part: "terminated (part0[length p := 0])" "cstr (part0[length p := 0]) = p" by auto
    have "split_parts (cstr raw) = p # split_parts (cstr raw2)"
      using split_parts_step [OF raw1(3) [symmetric] _ p_def] False c1(2) scan(3) by simp
    then show ?thesis
      using that(2) [OF c0(1) _ raw1(1) c1(1) _ scan(1) _ scan(2) part(1)] False part(2) scan(4,6) by simp
  qed
qed

text \<open>What it does with the component, whatever comes next.\<close>

lemma store_part:
  assumes rep: "comps_rep components depth cs" and part: "terminated part" "length (cstr part) < FS_MAX_NAME"
  shows "\<exists>components' depth'. comps_rep components' depth' (comp_step cs (cstr part)) \<and>
    do { dot \<leftarrow> str_compare part (lit ''.'');
        (if dot = 0 then K components depth
         else do {
           dotdot \<leftarrow> str_compare part (lit ''..'');
           (if dotdot = 0 then K components (if 0 < depth then depth - 1 else depth)
            else if depth < 16 then do {
              slot \<leftarrow> rd components depth;
              slot' \<leftarrow> str_copy slot (Some part);
              components' \<leftarrow> wr components depth slot';
              K components' (depth + 1) }
            else K components depth) }) } = K components' depth'"
proof -
  obtain dot where dot: "str_compare part (lit ''.'') = Some dot" "dot = 0 \<longleftrightarrow> cstr part = bytes_of ''.''"
    using str_compareE [OF part(1) terminated_lit [of "''.''"]] by auto
  obtain dotdot where dd: "str_compare part (lit ''..'') = Some dotdot" "dotdot = 0 \<longleftrightarrow> cstr part = bytes_of ''..''"
    using str_compareE [OF part(1) terminated_lit [of "''..''"]] by auto
  have len: "length cs = depth" using rep by (auto simp: comps_rep_def)
  consider "dot = 0" | "dot \<noteq> 0" "dotdot = 0" | "dot \<noteq> 0" "dotdot \<noteq> 0" "\<not> depth < 16"
    | "dot \<noteq> 0" "dotdot \<noteq> 0" "depth < 16" by blast
  then show ?thesis
  proof cases
    case 1
    then show ?thesis using rep dot dd by (intro exI [of _ components] exI [of _ depth]) (simp add: comp_step_def)
  next
    case 2
    then show ?thesis
      using comps_rep_pop [OF rep] dot dd
      by (intro exI [of _ components] exI [of _ "if 0 < depth then depth - 1 else depth"]) (simp add: comp_step_def)
  next
    case 3
    then show ?thesis
      using rep dot dd len by (intro exI [of _ components] exI [of _ depth]) (simp add: comp_step_def)
  next
    case 4
    have slot: "rd components depth = Some (components ! depth)" "length (components ! depth) = FS_MAX_NAME"
      using 4(3) rep by (simp_all add: comps_rep_def)
    obtain s where s: "put_str (components ! depth) (cstr part) = Some s"
      using part(2) slot(2) by (simp add: put_str_def)
    have c: "length s = FS_MAX_NAME" "terminated s" "cstr s = cstr part"
      using put_str_length [OF s] put_str_terminated [OF s] put_str_cstr [OF s] slot(2) by simp_all
    have "wr components depth s = Some (components[depth := s])" using 4(3) rep by (simp add: comps_rep_def)
    moreover have "str_copy (components ! depth) (Some part) = Some s" using s part(1) by (simp add: str_copy_eq)
    ultimately show ?thesis
      using comps_rep_push [OF rep 4(3) c(1,2)] c(3) 4 dot dd len slot(1)
      by (intro exI [of _ "components[depth := s]"] exI [of _ "depth + 1"]) (simp add: comp_step_def)
  qed
qed

lemma resolve_loop_eq:
  "terminated raw \<Longrightarrow> comps_rep components depth cs \<Longrightarrow>
     \<exists>components' depth'. resolve_loop raw components depth = Some (components', depth') \<and>
       comps_rep components' depth' (foldl comp_step cs (split_parts (cstr raw)))"
proof (induction "length raw" arbitrary: raw components depth cs rule: less_induct)
  case less
  from less.prems(1) show ?case
  proof (cases rule: next_part)
    case 1
    then show ?thesis using less.prems(2) by simp
  next
    case (2 c0 raw1 c1 raw2 part0 n part)
    have "\<exists>components' depth'. comps_rep components' depth' (comp_step cs (cstr part)) \<and>
        resolve_loop raw components depth = resolve_loop raw2 components' depth'"
      using store_part [OF less.prems(2) 2(9,10), of "resolve_loop raw2"] 2(1-7)
      by (simp add: resolve_loop.simps [of raw])
    then obtain components' depth' where st: "comps_rep components' depth' (comp_step cs (cstr part))"
      "resolve_loop raw components depth = resolve_loop raw2 components' depth'"
      by blast
    have "length raw2 < length raw"
      using scan_part_progress 2(1-6) by metis
    then show ?thesis using less.hyps [OF _ 2(8) st(1)] st(2) 2(11) by simp
  qed
qed

text \<open>Joining: the string in \<open>result\<close> after \<open>c\<close> rounds is the path of the first \<open>c\<close>
  components.\<close>

lemma path_of_Nil [simp]: "path_of [] = [slash]"
  by (simp add: path_of_def)

lemma path_of_snoc: "path_of (cs @ [c]) = (if cs = [] then [] else path_of cs) @ slash # c"
  by (simp add: path_of_def)

lemma path_of_not_Nil [simp]: "path_of cs \<noteq> []"
  by (cases cs) (simp_all add: path_of_def)

lemma hd_path_of [simp]: "hd (path_of cs) = slash"
  by (cases cs) (simp_all add: path_of_def)

lemma path_of_mono: "length (path_of (take k cs)) \<le> length (path_of cs)"
proof (cases "take k cs = []")
  case True
  then show ?thesis by (cases "path_of cs") (auto simp del: take_eq_Nil)
next
  case False
  then have "cs \<noteq> []" by auto
  with False have "path_of cs = path_of (take k cs) @ concat (map (\<lambda>c. slash # c) (drop k cs))"
    by (simp add: path_of_def flip: concat_append map_append)
  then show ?thesis by simp
qed

lemma zero_notin_path_of [simp]: "0 \<notin> set (path_of cs) \<longleftrightarrow> (\<forall>c \<in> set cs. 0 \<notin> set c)"
  by (auto simp: path_of_def)

text \<open>One component is joined to the path of those before it.\<close>

lemma join_step:
  assumes "comps_rep components depth cs" "terminated result" "cstr result = path_of (take c cs)" "c < depth"
  shows "join_loop components c (Suc n) result = do {
     result2 \<leftarrow> put_str result (path_of (take (Suc c) cs)); join_loop components (Suc c) n result2 }"
proof -
  let ?b = "components ! c"
  have c: "c < length components" "c < length cs" using assms(1,4) by (auto simp: comps_rep_def)
  have "?b \<in> set (take depth components)"
    using c assms(4) by (metis in_set_conv_nth length_take min_less_iff_conj nth_take)
  then have b: "terminated ?b" "cstr ?b = cs ! c" using assms(1,4) c by (auto simp: comps_rep_def)
  have snoc: "take (Suc c) cs = take c cs @ [cs ! c]" using c(2) by (rule take_Suc_conv_app_nth)
  show ?thesis
  proof (cases "c = 0")
    case True
    then show ?thesis using assms(2,3) c b snoc by (simp add: str_concat_eq path_of_def)
  next
    case False
    then have "path_of (take (Suc c) cs) = cstr result @ slash # cstr ?b"
      using c assms(3) b(2) by (auto simp: snoc path_of_snoc)
    then show ?thesis using concat_slash [OF assms(2) b(1)] False c by (simp flip: bind_assoc)
  qed
qed

lemma join_loop_eq:
  assumes "comps_rep components depth cs" "terminated result" "length result = 128"
    and "cstr result = path_of (take c cs)" "c + n = depth"
  shows "if length (path_of cs) < 128
     then \<exists>res. join_loop components c n result = Some res \<and> terminated res \<and> cstr res = path_of cs
     else join_loop components c n result = None"
  using assms(2-)
proof (induction n arbitrary: c result)
  case 0
  then have "take c cs = cs" using assms(1) by (auto simp: comps_rep_def)
  moreover have "length (cstr result) < 128" using 0 by (simp add: terminated_iff_length)
  ultimately show ?case using 0 by simp
next
  case (Suc n)
  let ?next = "path_of (take (Suc c) cs)"
  have nz: "0 \<notin> set ?next" using assms(1) by (auto simp: comps_rep_def dest!: in_set_takeD)
  have "c < depth" using Suc.prems(4) by simp
  note step = join_step [OF assms(1) Suc.prems(1,3) this]
  show ?case
  proof (cases "put_str result ?next")
    case None
    then have "128 \<le> length (path_of cs)"
      using Suc.prems(2) path_of_mono [of "Suc c" cs] by (simp add: put_str_None_iff)
    then show ?thesis using step None by simp
  next
    case (Some e)
    then have "terminated e" "cstr e = ?next" "length e = 128"
      using put_str_terminated [OF Some] put_str_cstr [OF Some nz] put_str_length [OF Some]
        Suc.prems(2) by simp_all
    then show ?thesis
      using Suc.IH [of e "Suc c"] Suc.prems(4) step Some by simp
  qed
qed

text \<open>The whole function.\<close>

lemma fs_resolve_path_eq:
  assumes "terminated cwd" "arg_ok inp" "0 < n"
  shows "fs_resolve_path cwd inp out n =
     (case resolve_comps (cstr cwd) (arg_str inp) of
        None \<Rightarrow> None
      | Some cs \<Rightarrow> put_str out (take (n - 1) (path_of cs)))"
proof (cases "raw_spec (cstr cwd) (arg_str inp)")
  case None
  then show ?thesis
    using resolve_raw_eq [OF assms(1,2)] by (simp add: fs_resolve_path_def resolve_comps_def)
next
  case (Some r)
  then obtain raw where raw: "resolve_raw cwd inp = Some raw" "terminated raw" "cstr raw = r"
    using resolve_raw_eq [OF assms(1,2)] by auto
  have rep0: "comps_rep (replicate 16 (fresh FS_MAX_NAME)) 0 []"
    by (simp add: comps_rep_def)
  obtain components depth where loop:
    "resolve_loop raw (replicate 16 (fresh FS_MAX_NAME)) 0 = Some (components, depth)"
    and rep: "comps_rep components depth (normal_comps r)"
    using resolve_loop_eq [OF raw(2) rep0] raw(3) by (auto simp: normal_comps_def)
  obtain res0 where res0: "str_copy (fresh FS_MAX_PATH) (Some (lit ''/'')) = Some res0"
    "terminated res0" "length res0 = 128" "cstr res0 = path_of (take 0 (normal_comps r))"
    by (simp add: str_copy_eq put_str_def FS_MAX_PATH_def)
  have code: "fs_resolve_path cwd inp out n = do {
      result \<leftarrow> join_loop components 0 depth res0; str_copy_n out (Some result) n }"
    by (simp add: fs_resolve_path_def raw(1) loop res0(1))
  show ?thesis
    using join_loop_eq [OF rep res0(2-4), of depth] assms(3) Some
    by (auto simp: code resolve_comps_def Let_def str_copy_n_eq split: if_splits)
qed

subsection \<open>Normal paths\<close>

text \<open>What a component list looks like, and that resolving the path of such a list gives the list
  back.\<close>

definition comp_ok :: "byte list \<Rightarrow> bool" where
  "comp_ok c \<longleftrightarrow> c \<noteq> [] \<and> length c < FS_MAX_NAME \<and> slash \<notin> set c \<and> 0 \<notin> set c \<and>
     c \<noteq> bytes_of ''.'' \<and> c \<noteq> bytes_of ''..''"

definition comps_ok :: "byte list list \<Rightarrow> bool" where
  "comps_ok cs \<longleftrightarrow> length cs \<le> 16 \<and> (\<forall>c \<in> set cs. comp_ok c)"

text \<open>The components of a node's path: a move can give a node more than 16 of them, which the array
  \<open>components[16]\<close> of the resolver cannot hold.\<close>

definition parts_ok :: "byte list list \<Rightarrow> bool" where
  "parts_ok cs \<longleftrightarrow> (\<forall>c \<in> set cs. comp_ok c)"

lemma comps_ok_parts: "comps_ok cs \<Longrightarrow> parts_ok cs"
  by (simp add: comps_ok_def parts_ok_def)

lemma parts_ok_Nil [simp]: "parts_ok []"
  by (simp add: parts_ok_def)

lemma parts_ok_append [simp]: "parts_ok (cs @ ds) \<longleftrightarrow> parts_ok cs \<and> parts_ok ds"
  by (auto simp: parts_ok_def)

lemma split_parts_ok:
  "0 \<notin> set xs \<Longrightarrow> p \<in> set (split_parts xs) \<Longrightarrow>
     p \<noteq> [] \<and> length p < FS_MAX_NAME \<and> slash \<notin> set p \<and> 0 \<notin> set p"
proof (induction xs rule: split_parts.induct)
  case (1 xs)
  let ?ys = "dropWhile (\<lambda>c. c = slash) xs"
  let ?p = "take 31 (takeWhile (\<lambda>c. c \<noteq> slash) ?ys)"
  have ne: "?ys \<noteq> []"
    using "1.prems"(2) split_parts_Nil [of xs] by (metis empty_iff list.set(1))
  then have hd: "hd ?ys \<noteq> slash" using hd_dropWhile by blast
  have sub: "set ?ys \<subseteq> set xs" by (auto dest: set_dropWhileD)
  have p: "?p \<noteq> []" "length ?p < FS_MAX_NAME" "slash \<notin> set ?p" "0 \<notin> set ?p"
  proof -
    show "?p \<noteq> []" using ne hd by (cases ?ys) auto
    show "length ?p < FS_MAX_NAME" by (simp add: FS_MAX_NAME_def)
    show "slash \<notin> set ?p" by (auto dest!: in_set_takeD set_takeWhileD)
    show "0 \<notin> set ?p" using "1.prems"(1) sub by (auto dest!: in_set_takeD set_takeWhileD)
  qed
  have "0 \<notin> set (drop (length ?p) ?ys)"
    using "1.prems"(1) sub by (auto dest!: in_set_dropD)
  then have "q \<in> set (split_parts (drop (length ?p) ?ys)) \<Longrightarrow>
      q \<noteq> [] \<and> length q < FS_MAX_NAME \<and> slash \<notin> set q \<and> 0 \<notin> set q" if "q = p" for q
    using "1.IH" [OF refl ne refl] that by blast
  moreover have "split_parts xs = ?p # split_parts (drop (length ?p) ?ys)"
    by (rule split_parts_step [OF refl ne refl])
  ultimately show ?case using "1.prems"(2) p by auto
qed

lemma comp_step_ok:
  "comps_ok cs \<Longrightarrow> p \<noteq> [] \<and> length p < FS_MAX_NAME \<and> slash \<notin> set p \<and> 0 \<notin> set p \<Longrightarrow>
     comps_ok (comp_step cs p)"
  by (auto simp: comps_ok_def comp_step_def comp_ok_def dest: in_set_butlastD)

lemma normal_comps_ok:
  assumes "0 \<notin> set raw"
  shows "comps_ok (normal_comps raw)"
proof -
  have "comps_ok (foldl comp_step cs ps)"
    if "comps_ok cs" "\<forall>p \<in> set ps. p \<noteq> [] \<and> length p < FS_MAX_NAME \<and> slash \<notin> set p \<and> 0 \<notin> set p"
    for cs ps
    using that by (induction ps arbitrary: cs) (auto intro: comp_step_ok)
  moreover have "comps_ok []" by (simp add: comps_ok_def)
  ultimately show ?thesis
    using split_parts_ok [OF assms] unfolding normal_comps_def by blast
qed

lemma raw_spec_zero:
  assumes "0 \<notin> set cwd" "0 \<notin> set inp" "raw_spec cwd inp = Some raw"
  shows "0 \<notin> set raw"
proof -
  define input where "input = (if inp = [] then cwd else inp)"
  have nz: "0 \<notin> set input" "0 \<notin> set (take 127 input)" "0 \<notin> set (take 127 cwd)"
    using assms(1,2) by (auto simp: input_def dest: in_set_takeD)
  have "raw \<in> {take 127 input, take 127 cwd @ input, take 127 cwd @ [slash] @ input}"
    using assms(3) unfolding raw_spec_def Let_def input_def [symmetric] by (simp split: if_splits)
  with nz show ?thesis by auto
qed

lemma resolve_comps_ok:
  assumes "0 \<notin> set cwd" "0 \<notin> set inp" "resolve_comps cwd inp = Some cs"
  shows "comps_ok cs \<and> length (path_of cs) < 128"
proof -
  obtain raw where raw: "raw_spec cwd inp = Some raw"
    using assms(3) by (cases "raw_spec cwd inp") (simp_all add: resolve_comps_def)
  then have "cs = normal_comps raw" "length (path_of cs) < 128"
    using assms(3) by (simp_all add: resolve_comps_def Let_def split: if_splits)
  then show ?thesis
    using normal_comps_ok [OF raw_spec_zero [OF assms(1,2) raw]] by simp
qed

lemma split_parts_concat:
  assumes "parts_ok cs"
  shows "split_parts (concat (map (\<lambda>c. slash # c) cs)) = cs"
  using assms unfolding parts_ok_def
proof (induction cs)
  case Nil then show ?case by (simp add: split_parts_Nil)
next
  case (Cons c cs)
  let ?r = "concat (map (\<lambda>c. slash # c) cs)"
  have c: "c \<noteq> []" "length c < 32" "slash \<notin> set c"
    using Cons.prems by (auto simp: comp_ok_def FS_MAX_NAME_def)
  then have ys: "dropWhile (\<lambda>c. c = slash) (slash # c @ ?r) = c @ ?r"
    by (cases c) auto
  have "takeWhile (\<lambda>c. c \<noteq> slash) ?r = []" by (cases cs) auto
  moreover have "\<And>x. x \<in> set c \<Longrightarrow> x \<noteq> slash" using c(3) by auto
  ultimately have "takeWhile (\<lambda>c. c \<noteq> slash) (c @ ?r) = c"
    by (simp add: takeWhile_append2)
  then have "c = take 31 (takeWhile (\<lambda>c. c \<noteq> slash) (c @ ?r))"
    using c(2) by simp
  then show ?case
    using split_parts_step [OF ys _ _] c(1) Cons by simp
qed

lemma split_parts_path_of: "parts_ok cs \<Longrightarrow> split_parts (path_of cs) = cs"
  using split_parts_concat [of cs] by (cases cs) (simp_all add: path_of_def split_parts_Nil)

lemma comp_steps_append:
  "length cs + length ps \<le> 16 \<Longrightarrow> \<forall>p \<in> set ps. comp_ok p \<Longrightarrow> foldl comp_step cs ps = cs @ ps"
  by (induction ps arbitrary: cs) (auto simp: comp_step_def comp_ok_def)

lemma normal_comps_path_of: "comps_ok cs \<Longrightarrow> normal_comps (path_of cs) = cs"
  using split_parts_path_of [OF comps_ok_parts] comp_steps_append [of "[]" cs]
  by (simp add: normal_comps_def comps_ok_def)

text \<open>So a normal path resolves to itself, in any directory, and \<open>path_of\<close> is injective.\<close>

lemma resolve_comps_path_of:
  "comps_ok cs \<Longrightarrow> length (path_of cs) < 128 \<Longrightarrow> resolve_comps cwd (path_of cs) = Some cs"
  by (simp add: resolve_comps_def raw_spec_def normal_comps_path_of)

lemma path_of_inject: "parts_ok cs \<Longrightarrow> parts_ok ds \<Longrightarrow> path_of cs = path_of ds \<longleftrightarrow> cs = ds"
  by (metis split_parts_path_of)

text \<open>The parent of a normal path and its last component, as the string functions compute them.\<close>

lemma parts_ok_snoc: "parts_ok (cs @ [c]) \<Longrightarrow> parts_ok cs \<and> comp_ok c"
  by (simp add: parts_ok_def)

lemma path_of_zero: "parts_ok cs \<Longrightarrow> 0 \<notin> set (path_of cs)"
  by (auto simp: parts_ok_def comp_ok_def path_of_def)

lemma dirname_path_of:
  assumes "terminated b" "cstr b = path_of (cs @ [c])" "comp_ok c" "length (path_of cs) \<le> 127"
    "length d = 128"
  shows "\<exists>d'. path_get_dirname d b = Some d' \<and> length d' = 128 \<and> terminated d' \<and> cstr d' = path_of cs"
proof -
  let ?pre = "if cs = [] then [] else path_of cs"
  have "cstr b = ?pre @ slash # c" "slash \<notin> set c" "length ?pre \<le> 127"
    using assms by (auto simp: path_of_snoc comp_ok_def)
  from path_get_dirname_split [OF assms(1) this(1,2,3) assms(5)]
  show ?thesis by auto
qed

lemma filename_path_of:
  assumes "terminated b" "cstr b = path_of (cs @ [c])" "comp_ok c"
  shows "\<exists>f. path_get_filename b = Some f \<and> terminated f \<and> cstr f = c"
  using assms by (intro path_get_filename_split) (auto simp: path_of_snoc comp_ok_def)

subsection \<open>Properties\<close>

text \<open>
  C10: \<open>fs_resolve_path\<close> computes the component specification.  For a terminated current
  directory and an input that is \<open>NULL\<close> or terminated, the call leaves in \<open>out\<close> the path of the
  components of the input relative to the current directory, cut to \<open>out_size - 1\<close> bytes; it
  accesses memory outside its arrays exactly when the specification says that \<open>raw\<close> or \<open>result\<close>
  overflows, or when \<open>out\<close> is too small.
\<close>

theorem resolve_path_spec:
  assumes "terminated cwd" "arg_ok inp" "0 < n"
  shows "fs_resolve_path cwd inp out n =
     (case resolve_comps (cstr cwd) (arg_str inp) of
        None \<Rightarrow> None
      | Some cs \<Rightarrow> put_str out (take (n - 1) (path_of cs)))"
  using assms by (rule fs_resolve_path_eq)

lemma resolve_path_spec_witness:
  "resolve_comps (cstr (lit ''/home'')) (arg_str (Some (lit ''../etc/./passwd''))) =
     Some [bytes_of ''etc'', bytes_of ''passwd''] \<and>
   map_option cstr (fs_resolve_path (lit ''/home'') (Some (lit ''../etc/./passwd'')) (fresh 128) 128) =
     Some (bytes_of ''/etc/passwd'')"
proof -
  have spec: "resolve_comps (cstr (lit ''/home'')) (arg_str (Some (lit ''../etc/./passwd''))) =
      Some [bytes_of ''etc'', bytes_of ''passwd'']"
    by code_simp
  have "put_str (fresh 128) (take 127 (path_of [bytes_of ''etc'', bytes_of ''passwd''])) =
      put_str (fresh 128) (bytes_of ''/etc/passwd'')"
    by code_simp
  moreover have "map_option cstr (put_str (fresh 128) (bytes_of ''/etc/passwd'')) =
      Some (bytes_of ''/etc/passwd'')"
    by code_simp
  ultimately show ?thesis
    using spec resolve_path_spec [of "lit ''/home''" "Some (lit ''../etc/./passwd'')" 128 "fresh 128"]
    by simp
qed

text \<open>
  Resolved paths are normal and resolving is idempotent.  When \<open>fs_resolve_path\<close> returns with a
  full-size output buffer, the path in it is \<open>/\<close> or a sequence of at most 16 components, each
  non-empty, at most 31 bytes, without slash and different from \<open>.\<close> and \<open>..\<close>; and resolving that
  path again, in whatever directory, returns the same path.
\<close>

theorem resolved_path_normal:
  assumes "terminated cwd" "arg_ok inp" "length out = 128"
    and "fs_resolve_path cwd inp out 128 = Some r"
  shows "\<exists>cs. comps_ok cs \<and> cstr r = path_of cs \<and> length (cstr r) < 128 \<and>
     (\<forall>cwd'. terminated cwd' \<longrightarrow> map_option cstr (fs_resolve_path cwd' (Some r) out 128) = Some (cstr r))"
proof -
  obtain cs where cs: "resolve_comps (cstr cwd) (arg_str inp) = Some cs"
    and r: "put_str out (take 127 (path_of cs)) = Some r"
    using assms fs_resolve_path_eq [OF assms(1,2), of 128 out] by (auto split: option.splits)
  have "0 \<notin> set (arg_str inp)" by (cases inp) auto
  then have ok: "comps_ok cs" "length (path_of cs) < 128"
    using resolve_comps_ok [OF _ _ cs] by auto
  have nz: "0 \<notin> set (path_of cs)" using path_of_zero [OF comps_ok_parts [OF ok(1)]] .
  have rs: "terminated r" "cstr r = path_of cs"
    using put_str_terminated [OF r] put_str_cstr [OF r] ok(2) nz by (auto dest: in_set_takeD)
  have "map_option cstr (fs_resolve_path cwd' (Some r) out 128) = Some (cstr r)"
    if "terminated cwd'" for cwd'
    using fs_resolve_path_eq [of cwd' "Some r" 128 out] that rs resolve_comps_path_of [OF ok] r by simp
  with ok rs show ?thesis by auto
qed

lemma resolved_path_normal_witness:
  "\<exists>r cs. fs_resolve_path (lit ''/'') (Some (lit ''//a/../b'')) (fresh 128) 128 = Some r \<and>
     comps_ok cs \<and> cstr r = path_of cs"
proof -
  have "fs_resolve_path (lit ''/'') (Some (lit ''//a/../b'')) (fresh 128) 128 \<noteq> None"
    by code_simp
  then obtain r where r: "fs_resolve_path (lit ''/'') (Some (lit ''//a/../b'')) (fresh 128) 128 = Some r"
    by blast
  show ?thesis
    using resolved_path_normal [OF terminated_lit _ length_fresh r] r by auto
qed

text \<open>
  A relative path that does not fit overruns the stack.  In a directory with a long name, an
  input whose concatenation with it exceeds 127 bytes makes \<open>fs_resolve_path\<close> write beyond
  \<open>raw[128]\<close>: unlike every other copy in the function, this concatenation is not bounded.
\<close>

theorem resolve_path_overflow:
  assumes "terminated cwd" "terminated inp" "cstr cwd \<noteq> [slash]" "length (cstr cwd) < 128"
    and "cstr inp \<noteq> []" "hd (cstr inp) \<noteq> slash" "127 \<le> length (cstr cwd) + length (cstr inp)"
  shows "fs_resolve_path cwd (Some inp) out (Suc n) = None"
proof -
  have "raw_spec (cstr cwd) (cstr inp) = None"
    using assms(3-) by (simp add: raw_spec_def Let_def)
  then show ?thesis
    using fs_resolve_path_eq [OF assms(1), of "Some inp" "Suc n" out] assms(2)
    by (simp add: resolve_comps_def)
qed

lemma resolve_path_overflow_witness:
  "fs_resolve_path (slash # replicate 100 0x61 @ [0]) (Some (replicate 26 0x62 @ [0])) (fresh 128) 128 = None"
proof -
  have "cstr (slash # replicate 100 0x61 @ [0]) = slash # replicate 100 0x61"
    and "cstr (replicate 26 0x62 @ [0]) = replicate 26 0x62"
    by code_simp+
  then show ?thesis
    using resolve_path_overflow [of "slash # replicate 100 0x61 @ [0]" "replicate 26 0x62 @ [0]"
        "fresh 128" 127]
    by simp
qed

end
