(* ===== verification/Kernel_State.thy ===== *)
theory Kernel_State
  imports Kernel_Users Kernel_Memory Kernel_IO Kernel_Disk Fs_Path
begin

section \<open>The state of the kernel\<close>

text \<open>
  The static variables of the kernel's modules in one record: the terminal of kernel/io.c with the
  scan codes the keyboard will still deliver, the user
  table of kernel/users.c, the disk driver's variables and the device behind the ports
  (kernel/disk.c), the heap of kernel/memory.c and the variables of kernel/filesystem.c.  A node of
  the filesystem is a record with the fields of \<open>fs_node_t\<close>; the enumeration \<open>type\<close>, the signed
  \<open>parent\<close>, \<open>size\<close> and \<open>used\<close> are kept as the 32-bit words of the structure, because
  \<open>fs_disk_load\<close> fills them with whatever bytes the disk holds.
\<close>

definition FS_MAX_FILES :: nat where "FS_MAX_FILES = 128"
definition FS_MAX_FILE_SIZE :: nat where "FS_MAX_FILE_SIZE = 4096"

definition FS_FILE :: "32 word" where "FS_FILE = 0"
definition FS_DIR :: "32 word" where "FS_DIR = 1"

record fs_node =
  nd_name :: cbuf
  nd_path :: cbuf
  nd_type :: "32 word"
  nd_parent :: "32 word"
  nd_size :: "32 word"
  nd_data :: cbuf
  nd_used :: "32 word"

record 'd kernel =
  k_term :: terminal
  k_keys :: "byte list"
  k_users :: users_state
  k_heap :: heap_state
  k_disk :: disk_state
  k_dev :: 'd
  nodes :: "fs_node list"
  current_dir :: cbuf
  persistence_enabled :: bool
  fs_booting :: bool

text \<open>\<open>io_print\<close>, \<open>io_println\<close> and \<open>io_print_int\<close> on the whole state.\<close>

definition kprint :: "cptr \<Rightarrow> 'd kernel \<Rightarrow> 'd kernel option" where
  "kprint s k = map_option (\<lambda>t. k\<lparr>k_term := t\<rparr>) (io_print s (k_term k))"

definition kprintln :: "cptr \<Rightarrow> 'd kernel \<Rightarrow> 'd kernel option" where
  "kprintln s k = map_option (\<lambda>t. k\<lparr>k_term := t\<rparr>) (io_println s (k_term k))"

definition kprint_int :: "32 word \<Rightarrow> 'd kernel \<Rightarrow> 'd kernel option" where
  "kprint_int v k = map_option (\<lambda>t. k\<lparr>k_term := t\<rparr>) (io_print_int v (k_term k))"

text \<open>A message line, and a function that prints it and returns \<open>r\<close>.\<close>

definition say :: "string \<Rightarrow> int \<Rightarrow> 'd kernel \<Rightarrow> (int \<times> 'd kernel) option" where
  "say msg r k = map_option (\<lambda>k'. (r, k')) (kprintln (Some (lit msg)) k)"

end
