(* ===== verification/Kernel_Fs.thy ===== *)
theory Kernel_Fs
  imports Kernel_State
begin

section \<open>kernel/filesystem.c: the filesystem\<close>

text \<open>
  The functions of kernel/filesystem.c on the state \<open>'d kernel\<close>, in the order in which they call each
  other.  A result \<open>Some (r, k)\<close> is the returned integer and the state after the call, \<open>None\<close> an
  access outside an array or a recursion that does not end.  The ports \<open>hw\<close> are an argument of the
  functions that reach the disk.  The proofs about them are in \<open>Fs_Tree\<close>, \<open>Fs_Ops\<close> and \<open>Fs_Disk\<close>.
\<close>

subsection \<open>The node table\<close>

fun find_node_loop :: "fs_node list \<Rightarrow> int \<Rightarrow> cbuf \<Rightarrow> int option" where
  "find_node_loop [] i path = Some (-1)"
| "find_node_loop (n # ns) i path =
     (if nd_used n \<noteq> 0 then do {
        r \<leftarrow> str_compare (nd_path n) path;
        (if r = 0 then Some i else find_node_loop ns (i + 1) path) }
      else find_node_loop ns (i + 1) path)"

definition find_node :: "fs_node list \<Rightarrow> cbuf \<Rightarrow> int option" where
  "find_node ns path = find_node_loop ns 0 path"

fun allocate_loop :: "fs_node list \<Rightarrow> int \<Rightarrow> int" where
  "allocate_loop [] i = -1"
| "allocate_loop (n # ns) i = (if nd_used n = 0 then i else allocate_loop ns (i + 1))"

definition allocate_node :: "fs_node list \<Rightarrow> int" where
  "allocate_node ns = allocate_loop (tl ns) 1"

text \<open>The static buffer behind \<open>path_get_dirname\<close> is copied at once and never read again, so its
  old content is taken to be zero (\<open>path_get_dirname_independent\<close>).\<close>

definition find_parent :: "fs_node list \<Rightarrow> cbuf \<Rightarrow> int option" where
  "find_parent ns path = do {
     d \<leftarrow> path_get_dirname (fresh 128) path;
     dirname \<leftarrow> str_copy_n (fresh FS_MAX_PATH) (Some d) FS_MAX_PATH;
     parent \<leftarrow> find_node ns dirname;
     (if 0 \<le> parent then do {
        n \<leftarrow> rd ns (nat parent);
        Some (if nd_type n = FS_DIR then parent else -1) }
      else Some (-1)) }"

text \<open>The loop of \<open>rebuild_child_paths\<close> from index \<open>i\<close> on; the function itself starts it at 0.  On a
  directory that is its own ancestor the recursion of the code does not end, so neither does
  this one.\<close>

partial_function (option) rebuild_from ::
    "nat \<Rightarrow> nat \<Rightarrow> fs_node list \<Rightarrow> fs_node list option" where
  "rebuild_from i parent ns =
     (if i < FS_MAX_FILES then do {
        n \<leftarrow> rd ns i;
        (if nd_used n \<noteq> 0 \<and> nd_parent n = of_nat parent then do {
           p \<leftarrow> rd ns parent;
           next0 \<leftarrow> str_copy (fresh FS_MAX_PATH) (Some (nd_path p));
           r \<leftarrow> str_compare next0 (lit ''/'');
           next1 \<leftarrow> (if r \<noteq> 0 then str_concat next0 (Some (lit ''/'')) else Some next0);
           next2 \<leftarrow> str_concat next1 (Some (nd_name n));
           path \<leftarrow> str_copy_n (nd_path n) (Some next2) FS_MAX_PATH;
           ns2 \<leftarrow> (if nd_type n = FS_DIR
                   then rebuild_from 0 i (ns[i := n\<lparr>nd_path := path\<rparr>])
                   else Some (ns[i := n\<lparr>nd_path := path\<rparr>]));
           rebuild_from (i + 1) parent ns2 }
         else rebuild_from (i + 1) parent ns) }
      else Some ns)"

definition rebuild_child_paths :: "nat \<Rightarrow> fs_node list \<Rightarrow> fs_node list option" where
  "rebuild_child_paths parent ns = rebuild_from 0 parent ns"

subsection \<open>The disk image\<close>

definition write_u32 :: "cbuf \<Rightarrow> nat \<Rightarrow> 32 word \<Rightarrow> cbuf option" where
  "write_u32 buf off v = do {
     b0 \<leftarrow> wr buf off (ucast (v AND 0xFF));
     b1 \<leftarrow> wr b0 (off + 1) (ucast (drop_bit 8 v AND 0xFF));
     b2 \<leftarrow> wr b1 (off + 2) (ucast (drop_bit 16 v AND 0xFF));
     wr b2 (off + 3) (ucast (drop_bit 24 v AND 0xFF)) }"

definition read_u32 :: "cbuf \<Rightarrow> nat \<Rightarrow> 32 word option" where
  "read_u32 buf off = do {
     c0 \<leftarrow> rd buf off;
     c1 \<leftarrow> rd buf (off + 1);
     c2 \<leftarrow> rd buf (off + 2);
     c3 \<leftarrow> rd buf (off + 3);
     Some (ucast c0 OR push_bit 8 (ucast c1) OR push_bit 16 (ucast c2) OR push_bit 24 (ucast c3)) }"

text \<open>The bytes of the structure \<open>fs_node_t\<close> in memory (i386, little endian, no padding since every
  field is aligned): what the cast of \<open>nodes\<close> to a byte pointer shows.\<close>

definition u32_bytes :: "32 word \<Rightarrow> byte list" where
  "u32_bytes v = [ucast v, ucast (drop_bit 8 v), ucast (drop_bit 16 v), ucast (drop_bit 24 v)]"

definition u32_of_bytes :: "byte list \<Rightarrow> 32 word" where
  "u32_of_bytes bs = ucast (bs ! 0) OR push_bit 8 (ucast (bs ! 1)) OR push_bit 16 (ucast (bs ! 2)) OR
     push_bit 24 (ucast (bs ! 3))"

definition node_bytes :: "fs_node \<Rightarrow> byte list" where
  "node_bytes n = nd_name n @ nd_path n @ u32_bytes (nd_type n) @ u32_bytes (nd_parent n) @
     u32_bytes (nd_size n) @ nd_data n @ u32_bytes (nd_used n)"

definition node_of_bytes :: "byte list \<Rightarrow> fs_node" where
  "node_of_bytes bs =
     \<lparr>nd_name = take 32 bs, nd_path = take 128 (drop 32 bs),
      nd_type = u32_of_bytes (drop 160 bs), nd_parent = u32_of_bytes (drop 164 bs),
      nd_size = u32_of_bytes (drop 168 bs), nd_data = take 4096 (drop 172 bs),
      nd_used = u32_of_bytes (drop 4268 bs)\<rparr>"

definition NODE_BYTES :: nat where "NODE_BYTES = 4272"

definition raw_of_nodes :: "fs_node list \<Rightarrow> byte list" where
  "raw_of_nodes ns = concat (map node_bytes ns)"

fun nodes_of_raw :: "nat \<Rightarrow> byte list \<Rightarrow> fs_node list" where
  "nodes_of_raw 0 raw = []"
| "nodes_of_raw (Suc n) raw =
     node_of_bytes (take NODE_BYTES raw) # nodes_of_raw n (drop NODE_BYTES raw)"

definition FS_DISK_MAGIC :: "byte list" where "FS_DISK_MAGIC = bytes_of ''PLDOSFS1''"
definition FS_DISK_VERSION :: "32 word" where "FS_DISK_VERSION = 1"
definition FS_DISK_START_LBA :: "32 word" where "FS_DISK_START_LBA = 2048"
definition FS_DISK_BYTES :: "32 word" where "FS_DISK_BYTES = of_nat (FS_MAX_FILES * NODE_BYTES)"
definition FS_DISK_DATA_SECTORS :: "32 word" where
  "FS_DISK_DATA_SECTORS = (FS_DISK_BYTES + 511) div 512"

subsection \<open>Saving and loading\<close>

text \<open>The loop over the data sectors, from sector \<open>s\<close> with \<open>n\<close> sectors to go; \<open>write_sector\<close> is
  \<open>disk_write_sector\<close> of the driver.\<close>

fun save_loop ::
    "(32 word \<Rightarrow> cbuf \<Rightarrow> 'd \<Rightarrow> (bool \<times> 'd) option) \<Rightarrow> byte list \<Rightarrow> 32 word \<Rightarrow> nat \<Rightarrow> 'd \<Rightarrow>
     (bool \<times> 'd) option" where
  "save_loop write_sector raw s 0 d = Some (True, d)"
| "save_loop write_sector raw s (Suc n) d = do {
     sector \<leftarrow> kmemset (fresh 512) 0 512;
     let offset = s * 512;
     let remaining = FS_DISK_BYTES - offset;
     let chunk = (if remaining < 512 then remaining else 512);
     sector' \<leftarrow> kmemcpy sector (drop (unat offset) raw) (unat chunk);
     (ok, d') \<leftarrow> write_sector (FS_DISK_START_LBA + 1 + s) sector' d;
     (if \<not> ok then Some (False, d') else save_loop write_sector raw (s + 1) n d') }"

definition disk_header :: "cbuf option" where
  "disk_header = do {
     s0 \<leftarrow> kmemset (fresh 512) 0 512;
     s1 \<leftarrow> kmemcpy s0 FS_DISK_MAGIC 8;
     s2 \<leftarrow> write_u32 s1 8 FS_DISK_VERSION;
     s3 \<leftarrow> write_u32 s2 12 FS_DISK_BYTES;
     s4 \<leftarrow> write_u32 s3 16 (of_nat FS_MAX_FILES);
     write_u32 s4 20 (of_nat FS_MAX_FILE_SIZE) }"

definition fs_disk_save :: "'d ports \<Rightarrow> 'd kernel \<Rightarrow> (int \<times> 'd kernel) option" where
  "fs_disk_save hw k =
     (if \<not> disk_present (k_disk k) then Some (1, k)
      else do {
        header \<leftarrow> disk_header;
        (ok, d1) \<leftarrow> disk_write_sector hw (k_disk k) FS_DISK_START_LBA header (k_dev k);
        (if \<not> ok then Some (1, k\<lparr>k_dev := d1\<rparr>)
         else do {
           (ok2, d2) \<leftarrow> save_loop (disk_write_sector hw (k_disk k)) (raw_of_nodes (nodes k)) 0
                          (unat FS_DISK_DATA_SECTORS) d1;
           (if \<not> ok2 then Some (1, k\<lparr>k_dev := d2\<rparr>)
            else Some (0, k\<lparr>k_dev := d2, persistence_enabled := True\<rparr>)) }) })"

text \<open>\<open>persist_if_enabled\<close> ignores the result of the save.\<close>

definition persist_if_enabled :: "'d ports \<Rightarrow> 'd kernel \<Rightarrow> 'd kernel option" where
  "persist_if_enabled hw k =
     (if \<not> fs_booting k \<and> persistence_enabled k then map_option snd (fs_disk_save hw k) else Some k)"

text \<open>The check of the magic bytes and of the four header words.\<close>

definition header_matches :: "cbuf \<Rightarrow> bool option" where
  "header_matches sector = do {
     version \<leftarrow> read_u32 sector 8;
     bytes \<leftarrow> read_u32 sector 12;
     files \<leftarrow> read_u32 sector 16;
     fsize \<leftarrow> read_u32 sector 20;
     Some (take 8 sector = FS_DISK_MAGIC \<and> version = FS_DISK_VERSION \<and> bytes = FS_DISK_BYTES \<and>
       files = of_nat FS_MAX_FILES \<and> fsize = of_nat FS_MAX_FILE_SIZE) }"

text \<open>The loop copies the sectors into the bytes of \<open>nodes\<close>; when a read fails, the bytes copied so
  far stay.\<close>

fun load_loop ::
    "(32 word \<Rightarrow> cbuf \<Rightarrow> 'd \<Rightarrow> (bool \<times> cbuf \<times> 'd) option) \<Rightarrow> byte list \<Rightarrow> cbuf \<Rightarrow> 32 word \<Rightarrow> nat \<Rightarrow> 'd \<Rightarrow>
     (bool \<times> byte list \<times> 'd) option" where
  "load_loop read_sector raw sector s 0 d = Some (True, raw, d)"
| "load_loop read_sector raw sector s (Suc n) d = do {
     (ok, sector', d') \<leftarrow> read_sector (FS_DISK_START_LBA + 1 + s) sector d;
     (if \<not> ok then Some (False, raw, d')
      else do {
        let offset = s * 512;
        let remaining = FS_DISK_BYTES - offset;
        let chunk = (if remaining < 512 then remaining else 512);
        tail \<leftarrow> kmemcpy (drop (unat offset) raw) sector' (unat chunk);
        load_loop read_sector (take (unat offset) raw @ tail) sector' (s + 1) n d' }) }"

definition fs_disk_load :: "'d ports \<Rightarrow> 'd kernel \<Rightarrow> (int \<times> 'd kernel) option" where
  "fs_disk_load hw k =
     (if \<not> disk_present (k_disk k) then Some (1, k)
      else do {
        (ok, sector, d1) \<leftarrow> disk_read_sector hw (k_disk k) FS_DISK_START_LBA (fresh 512) (k_dev k);
        (if \<not> ok then Some (1, k\<lparr>k_dev := d1\<rparr>)
         else do {
           good \<leftarrow> header_matches sector;
           (if \<not> good then Some (1, k\<lparr>k_dev := d1\<rparr>)
            else do {
              (ok2, raw, d2) \<leftarrow> load_loop (disk_read_sector hw (k_disk k)) (raw_of_nodes (nodes k)) sector 0
                                  (unat FS_DISK_DATA_SECTORS) d1;
              let k2 = k\<lparr>k_dev := d2, nodes := nodes_of_raw FS_MAX_FILES raw\<rparr>;
              (if \<not> ok2 then Some (1, k2)
               else do {
                 cwd \<leftarrow> str_copy (current_dir k2) (Some (lit ''/''));
                 Some (0, k2\<lparr>current_dir := cwd, persistence_enabled := True\<rparr>) }) }) }) })"

subsection \<open>The operations\<close>

text \<open>\<open>char resolved[FS_MAX_PATH]; fs_resolve_path(path, resolved, sizeof(resolved));\<close>\<close>

definition resolve :: "cptr \<Rightarrow> 'd kernel \<Rightarrow> cbuf option" where
  "resolve path k = fs_resolve_path (current_dir k) path (fresh FS_MAX_PATH) FS_MAX_PATH"

definition fs_get_current_dir :: "'d kernel \<Rightarrow> cbuf" where
  "fs_get_current_dir k = current_dir k"

text \<open>\<open>idx < 0 || nodes[idx].type != t\<close> is the negation of this.\<close>

definition found_type :: "int \<Rightarrow> 32 word \<Rightarrow> 'd kernel \<Rightarrow> bool option" where
  "found_type idx t k =
     (if idx < 0 then Some False
      else do { n \<leftarrow> rd (nodes k) (nat idx); Some (nd_type n = t) })"

definition fs_change_dir :: "cptr \<Rightarrow> 'd kernel \<Rightarrow> (int \<times> 'd kernel) option" where
  "fs_change_dir path k = do {
     resolved \<leftarrow> resolve path k;
     idx \<leftarrow> find_node (nodes k) resolved;
     ok \<leftarrow> found_type idx FS_DIR k;
     (if \<not> ok then say ''Directory not found'' 1 k
      else do {
        cwd \<leftarrow> str_copy (current_dir k) (Some resolved);
        Some (0, k\<lparr>current_dir := cwd\<rparr>) }) }"

text \<open>\<open>fs_create_file\<close> and \<open>fs_create_dir\<close> are the same code but for the type of the new node and the
  first message.\<close>

definition create_node ::
    "32 word \<Rightarrow> string \<Rightarrow> 'd ports \<Rightarrow> cptr \<Rightarrow> 'd kernel \<Rightarrow> (int \<times> 'd kernel) option" where
  "create_node t exists_msg hw path k = do {
     resolved \<leftarrow> resolve path k;
     found \<leftarrow> find_node (nodes k) resolved;
     (if 0 \<le> found then say exists_msg 1 k
      else do {
        parent \<leftarrow> find_parent (nodes k) resolved;
        (if parent < 0 then say ''Parent directory not found'' 1 k
         else
           let idx = allocate_node (nodes k) in
           if idx < 0 then say ''Filesystem full'' 1 k
           else do {
             n \<leftarrow> rd (nodes k) (nat idx);
             filename \<leftarrow> path_get_filename resolved;
             nm \<leftarrow> str_copy_n (nd_name n) (Some filename) FS_MAX_NAME;
             pth \<leftarrow> str_copy_n (nd_path n) (Some resolved) FS_MAX_PATH;
             let n' = n\<lparr>nd_used := 1, nd_type := t, nd_parent := word_of_int parent, nd_size := 0,
                        nd_name := nm, nd_path := pth\<rparr>;
             k' \<leftarrow> persist_if_enabled hw (k\<lparr>nodes := (nodes k)[nat idx := n']\<rparr>);
             Some (0, k') }) }) }"

definition fs_create_file :: "'d ports \<Rightarrow> cptr \<Rightarrow> 'd kernel \<Rightarrow> (int \<times> 'd kernel) option" where
  "fs_create_file = create_node FS_FILE ''File already exists''"

definition fs_create_dir :: "'d ports \<Rightarrow> cptr \<Rightarrow> 'd kernel \<Rightarrow> (int \<times> 'd kernel) option" where
  "fs_create_dir = create_node FS_DIR ''Directory already exists''"

definition has_child :: "int \<Rightarrow> fs_node list \<Rightarrow> bool" where
  "has_child idx ns \<longleftrightarrow> (\<exists>n \<in> set ns. nd_used n \<noteq> 0 \<and> nd_parent n = word_of_int idx)"

definition fs_delete :: "'d ports \<Rightarrow> cptr \<Rightarrow> 'd kernel \<Rightarrow> (int \<times> 'd kernel) option" where
  "fs_delete hw path k = do {
     resolved \<leftarrow> resolve path k;
     idx \<leftarrow> find_node (nodes k) resolved;
     (if idx \<le> 0 then say ''Cannot delete that path'' 1 k
      else do {
        n \<leftarrow> rd (nodes k) (nat idx);
        (if nd_type n = FS_DIR \<and> has_child idx (nodes k) then say ''Directory is not empty'' 1 k
         else do {
           k' \<leftarrow> persist_if_enabled hw (k\<lparr>nodes := (nodes k)[nat idx := n\<lparr>nd_used := 0\<rparr>]\<rparr>);
           Some (0, k') }) }) }"

definition fs_move :: "'d ports \<Rightarrow> cptr \<Rightarrow> cptr \<Rightarrow> 'd kernel \<Rightarrow> (int \<times> 'd kernel) option" where
  "fs_move hw src dest k = do {
     from_path \<leftarrow> resolve src k;
     to_path \<leftarrow> resolve dest k;
     idx \<leftarrow> find_node (nodes k) from_path;
     (if idx \<le> 0 then say ''Source not found'' 1 k
      else do {
        other \<leftarrow> find_node (nodes k) to_path;
        (if 0 \<le> other then say ''Destination already exists'' 1 k
         else do {
           parent \<leftarrow> find_parent (nodes k) to_path;
           (if parent < 0 then say ''Destination parent not found'' 1 k
            else do {
              n \<leftarrow> rd (nodes k) (nat idx);
              filename \<leftarrow> path_get_filename to_path;
              nm \<leftarrow> str_copy_n (nd_name n) (Some filename) FS_MAX_NAME;
              pth \<leftarrow> str_copy_n (nd_path n) (Some to_path) FS_MAX_PATH;
              let ns = (nodes k)[nat idx :=
                n\<lparr>nd_parent := word_of_int parent, nd_name := nm, nd_path := pth\<rparr>];
              ns' \<leftarrow> (if nd_type n = FS_DIR then rebuild_child_paths (nat idx) ns else Some ns);
              k' \<leftarrow> persist_if_enabled hw (k\<lparr>nodes := ns'\<rparr>);
              Some (0, k') }) }) }) }"

definition fs_write_file ::
    "'d ports \<Rightarrow> cptr \<Rightarrow> cbuf \<Rightarrow> 32 word \<Rightarrow> 'd kernel \<Rightarrow> (int \<times> 'd kernel) option" where
  "fs_write_file hw path data sz k = do {
     resolved \<leftarrow> resolve path k;
     idx \<leftarrow> find_node (nodes k) resolved;
     ok \<leftarrow> found_type idx FS_FILE k;
     (if \<not> ok then say ''File not found'' 1 k
      else if of_nat FS_MAX_FILE_SIZE < sz then say ''File too large'' 1 k
      else do {
        n \<leftarrow> rd (nodes k) (nat idx);
        content \<leftarrow> kmemcpy (nd_data n) data (unat sz);
        k' \<leftarrow> persist_if_enabled hw
                (k\<lparr>nodes := (nodes k)[nat idx := n\<lparr>nd_data := content, nd_size := sz\<rparr>]\<rparr>);
        Some (0, k') }) }"

definition fs_append_file ::
    "'d ports \<Rightarrow> cptr \<Rightarrow> cbuf \<Rightarrow> 32 word \<Rightarrow> 'd kernel \<Rightarrow> (int \<times> 'd kernel) option" where
  "fs_append_file hw path data sz k = do {
     resolved \<leftarrow> resolve path k;
     idx \<leftarrow> find_node (nodes k) resolved;
     ok \<leftarrow> found_type idx FS_FILE k;
     (if \<not> ok then say ''File not found'' 1 k
      else do {
        n \<leftarrow> rd (nodes k) (nat idx);
        (if of_nat FS_MAX_FILE_SIZE < nd_size n + sz then say ''File too large'' 1 k
         else do {
           tail \<leftarrow> kmemcpy (drop (unat (nd_size n)) (nd_data n)) data (unat sz);
           let content = take (unat (nd_size n)) (nd_data n) @ tail;
           k' \<leftarrow> persist_if_enabled hw (k\<lparr>nodes := (nodes k)[nat idx :=
                   n\<lparr>nd_data := content, nd_size := nd_size n + sz\<rparr>]\<rparr>);
           Some (0, k') }) }) }"

text \<open>\<open>fs_write_file\<close> gets a pointer into the node table here; the create before it and the copy touch
  other nodes, so the bytes are those of the source node after the create.\<close>

definition fs_copy :: "'d ports \<Rightarrow> cptr \<Rightarrow> cptr \<Rightarrow> 'd kernel \<Rightarrow> (int \<times> 'd kernel) option" where
  "fs_copy hw src dest k = do {
     from_path \<leftarrow> resolve src k;
     src_idx \<leftarrow> find_node (nodes k) from_path;
     ok \<leftarrow> found_type src_idx FS_FILE k;
     (if \<not> ok then say ''Source file not found'' 1 k
      else do {
        (r, k1) \<leftarrow> fs_create_file hw dest k;
        (if r \<noteq> 0 then Some (1, k1)
         else do {
           n \<leftarrow> rd (nodes k1) (nat src_idx);
           fs_write_file hw dest (nd_data n) (nd_size n) k1 }) }) }"

definition fs_read_file ::
    "cptr \<Rightarrow> cbuf \<Rightarrow> 32 word \<Rightarrow> 'd kernel \<Rightarrow> (int \<times> cbuf) option" where
  "fs_read_file path buffer max_size k = do {
     resolved \<leftarrow> resolve path k;
     idx \<leftarrow> find_node (nodes k) resolved;
     ok \<leftarrow> found_type idx FS_FILE k;
     (if \<not> ok then Some (-1, buffer)
      else do {
        n \<leftarrow> rd (nodes k) (nat idx);
        let count = (if nd_size n < max_size then nd_size n else max_size);
        buffer' \<leftarrow> kmemcpy buffer (nd_data n) (unat count);
        Some (sint count, buffer') }) }"

definition list_entry :: "fs_node \<Rightarrow> 'd kernel \<Rightarrow> 'd kernel option" where
  "list_entry n k = do {
     k1 \<leftarrow> kprint (Some (lit (if nd_type n = FS_DIR then ''<DIR>  '' else ''       ''))) k;
     k2 \<leftarrow> kprint (Some (nd_name n)) k1;
     k3 \<leftarrow> (if nd_type n = FS_FILE then do {
              k3 \<leftarrow> kprint (Some (lit ''  '')) k2;
              k4 \<leftarrow> kprint_int (nd_size n) k3;
              kprint (Some (lit '' bytes'')) k4 }
            else Some k2);
     kprintln (Some (lit [])) k3 }"

fun list_loop :: "int \<Rightarrow> fs_node list \<Rightarrow> 'd kernel \<Rightarrow> 'd kernel option" where
  "list_loop dir [] k = Some k"
| "list_loop dir (n # ns) k =
     (if nd_used n \<noteq> 0 \<and> nd_parent n = word_of_int dir
      then do { k' \<leftarrow> list_entry n k; list_loop dir ns k' }
      else list_loop dir ns k)"

definition fs_list_dir :: "cptr \<Rightarrow> 'd kernel \<Rightarrow> (int \<times> 'd kernel) option" where
  "fs_list_dir path k = do {
     resolved \<leftarrow> resolve path k;
     dir \<leftarrow> find_node (nodes k) resolved;
     ok \<leftarrow> found_type dir FS_DIR k;
     (if \<not> ok then say ''Directory not found'' 1 k
      else do { k' \<leftarrow> list_loop dir (nodes k) k; Some (0, k') }) }"

definition fs_exists :: "cptr \<Rightarrow> 'd kernel \<Rightarrow> bool option" where
  "fs_exists path k = do {
     resolved \<leftarrow> resolve path k;
     idx \<leftarrow> find_node (nodes k) resolved;
     Some (0 \<le> idx) }"

definition fs_is_file :: "cptr \<Rightarrow> 'd kernel \<Rightarrow> bool option" where
  "fs_is_file path k = do {
     resolved \<leftarrow> resolve path k;
     idx \<leftarrow> find_node (nodes k) resolved;
     found_type idx FS_FILE k }"

definition fs_is_dir :: "cptr \<Rightarrow> 'd kernel \<Rightarrow> bool option" where
  "fs_is_dir path k = do {
     resolved \<leftarrow> resolve path k;
     idx \<leftarrow> find_node (nodes k) resolved;
     found_type idx FS_DIR k }"

definition fs_get_file_size :: "cptr \<Rightarrow> 'd kernel \<Rightarrow> 32 word option" where
  "fs_get_file_size path k = do {
     resolved \<leftarrow> resolve path k;
     idx \<leftarrow> find_node (nodes k) resolved;
     (if 0 \<le> idx then do { n \<leftarrow> rd (nodes k) (nat idx); Some (nd_size n) } else Some 0) }"

definition fs_get_file_info :: "cptr \<Rightarrow> fs_node \<Rightarrow> 'd kernel \<Rightarrow> (int \<times> fs_node) option" where
  "fs_get_file_info path out k = do {
     resolved \<leftarrow> resolve path k;
     idx \<leftarrow> find_node (nodes k) resolved;
     (if idx < 0 then Some (0, out)
      else do { n \<leftarrow> rd (nodes k) (nat idx); Some (1, n) }) }"

definition fs_disk_available :: "'d kernel \<Rightarrow> bool" where
  "fs_disk_available k = disk_present (k_disk k)"

definition fs_disk_enabled :: "'d kernel \<Rightarrow> bool" where
  "fs_disk_enabled k = persistence_enabled k"

definition fs_disk_format :: "'d ports \<Rightarrow> 'd kernel \<Rightarrow> (int \<times> 'd kernel) option" where
  "fs_disk_format hw k =
     (if \<not> disk_present (k_disk k) then Some (1, k)
      else fs_disk_save hw (k\<lparr>persistence_enabled := True\<rparr>))"

subsection \<open>Start-up\<close>

definition readme_text :: cbuf where
  "readme_text =
     lit (''Welcome to plDOS. Commands live in /progs as kernel-linked C modules.'' @ [CHR 0x0A])"

definition create_default_tree :: "'d ports \<Rightarrow> 'd kernel \<Rightarrow> 'd kernel option" where
  "create_default_tree hw k = do {
     n \<leftarrow> rd (nodes k) 0;
     nm \<leftarrow> str_copy (nd_name n) (Some (lit ''/''));
     pth \<leftarrow> str_copy (nd_path n) (Some (lit ''/''));
     let n' = n\<lparr>nd_used := 1, nd_type := FS_DIR, nd_parent := - 1, nd_name := nm, nd_path := pth\<rparr>;
     (_, k1) \<leftarrow> fs_create_dir hw (Some (lit ''/progs'')) (k\<lparr>nodes := (nodes k)[0 := n']\<rparr>);
     (_, k2) \<leftarrow> fs_create_dir hw (Some (lit ''/home'')) k1;
     (_, k3) \<leftarrow> fs_create_file hw (Some (lit ''/home/readme.txt'')) k2;
     (_, k4) \<leftarrow> fs_write_file hw (Some (lit ''/home/readme.txt'')) readme_text 70 k3;
     Some k4 }"

definition fs_init :: "'d ports \<Rightarrow> 'd kernel \<Rightarrow> 'd kernel option" where
  "fs_init hw k = do {
     raw \<leftarrow> kmemset (raw_of_nodes (nodes k)) 0 (FS_MAX_FILES * NODE_BYTES);
     cwd \<leftarrow> str_copy (current_dir k) (Some (lit ''/''));
     let k1 = k\<lparr>nodes := nodes_of_raw FS_MAX_FILES raw, current_dir := cwd,
                persistence_enabled := False, fs_booting := True\<rparr>;
     (if disk_present (k_disk k1) then do {
        (r, k2) \<leftarrow> fs_disk_load hw k1;
        (if r = 0 then Some (k2\<lparr>fs_booting := False\<rparr>)
         else do {
           k3 \<leftarrow> create_default_tree hw k2;
           (_, k4) \<leftarrow> fs_disk_save hw k3;
           Some (k4\<lparr>fs_booting := False\<rparr>) }) }
      else do {
        k3 \<leftarrow> create_default_tree hw k1;
        Some (k3\<lparr>fs_booting := False\<rparr>) }) }"

end
