(* ===== verification/Terminal_Proofs.thy ===== *)
theory Terminal_Proofs
  imports Kernel_IO
begin

section \<open>The terminal: invariant and what is visible\<close>

text \<open>
  The invariant \<open>term_wf\<close> of the terminal state of kernel/io.c (sizes of the ring and of the
  screen, column below 80, viewport between the oldest stored line and the latest view), kept by
  every function; that a printed character is on the screen; that \<open>io_print_int\<close> prints the decimal
  numeral; and that \<open>io_read_line\<close> is a line editor over the decoded key strokes.
\<close>

subsection \<open>Fields that a function leaves alone\<close>

lemma clamp_viewport_fields [simp]:
  "scrollback (clamp_viewport t) = scrollback t"
  "terminal_line (clamp_viewport t) = terminal_line t"
  "terminal_column (clamp_viewport t) = terminal_column t"
  "terminal_color (clamp_viewport t) = terminal_color t"
  "extended_scancode (clamp_viewport t) = extended_scancode t"
  "vga_memory (clamp_viewport t) = vga_memory t"
  by (simp_all add: clamp_viewport_def Let_def)

lemma move_cursor_fields [simp]:
  "scrollback (move_cursor t) = scrollback t"
  "terminal_line (move_cursor t) = terminal_line t"
  "terminal_column (move_cursor t) = terminal_column t"
  "terminal_color (move_cursor t) = terminal_color t"
  "extended_scancode (move_cursor t) = extended_scancode t"
  "viewport_top (move_cursor t) = viewport_top t"
  "vga_memory (move_cursor t) = vga_memory t"
  by (simp_all add: move_cursor_def term_outb_def Let_def)

lemma render_fields [simp]:
  "scrollback (render t) = scrollback t"
  "terminal_line (render t) = terminal_line t"
  "terminal_column (render t) = terminal_column t"
  "terminal_color (render t) = terminal_color t"
  "extended_scancode (render t) = extended_scancode t"
  "viewport_top (render t) = viewport_top (clamp_viewport t)"
  by (simp_all add: render_def Let_def)

lemma put_cell_fields [simp]:
  "terminal_line (put_cell c t) = terminal_line t"
  "terminal_column (put_cell c t) = terminal_column t"
  "terminal_color (put_cell c t) = terminal_color t"
  "extended_scancode (put_cell c t) = extended_scancode t"
  "viewport_top (put_cell c t) = viewport_top t"
  "vga_memory (put_cell c t) = vga_memory t"
  by (simp_all add: put_cell_def Let_def)

lemma clear_history_line_fields [simp]:
  "terminal_line (clear_history_line l t) = terminal_line t"
  "terminal_column (clear_history_line l t) = terminal_column t"
  "terminal_color (clear_history_line l t) = terminal_color t"
  "extended_scancode (clear_history_line l t) = extended_scancode t"
  "viewport_top (clear_history_line l t) = viewport_top t"
  "vga_memory (clear_history_line l t) = vga_memory t"
  by (simp_all add: clear_history_line_def)

lemma follow_output_fields [simp]:
  "scrollback (follow_output t) = scrollback t"
  "terminal_line (follow_output t) = terminal_line t"
  "terminal_column (follow_output t) = terminal_column t"
  "terminal_color (follow_output t) = terminal_color t"
  "extended_scancode (follow_output t) = extended_scancode t"
  "vga_memory (follow_output t) = vga_memory t"
  "viewport_top (follow_output t) = latest_view_top t"
  by (simp_all add: follow_output_def)

lemma oldest_latest_cong:
  "terminal_line t = terminal_line t' \<Longrightarrow> oldest_line t = oldest_line t'"
  "terminal_line t = terminal_line t' \<Longrightarrow> latest_view_top t = latest_view_top t'"
  by (simp_all add: oldest_line_def latest_view_top_def)

subsection \<open>The invariant\<close>

definition ring_ok :: "terminal \<Rightarrow> bool" where
  "ring_ok t \<longleftrightarrow> length (scrollback t) = SCROLLBACK_LINES \<and>
     (\<forall>row \<in> set (scrollback t). length row = VGA_WIDTH)"

definition viewport_ok :: "terminal \<Rightarrow> bool" where
  "viewport_ok t \<longleftrightarrow> oldest_line t \<le> viewport_top t \<and> viewport_top t \<le> latest_view_top t"

definition screen_ok :: "terminal \<Rightarrow> bool" where
  "screen_ok t \<longleftrightarrow> ring_ok t \<and> terminal_column t < 80"

text \<open>The VGA memory shows the viewport: each cell of a row that is a stored line holds the character and
  colour of the line, and each cell of another row a blank (in the colour that was current when it was
  drawn).  The cursor registers of the CRT controller were last set to the cursor's place in the viewport.\<close>

definition stored_line :: "32 word \<Rightarrow> terminal \<Rightarrow> bool" where
  "stored_line line t \<longleftrightarrow> oldest_line t \<le> line \<and> line \<le> terminal_line t"

definition stored_cell :: "32 word \<Rightarrow> nat \<Rightarrow> terminal \<Rightarrow> 16 word" where
  "stored_cell line x t = (let c = scrollback t ! line_index line ! x in vga_entry (ch c) (color c))"

definition viewport_shown :: "terminal \<Rightarrow> bool" where
  "viewport_shown t \<longleftrightarrow> (\<forall>y < 25. \<forall>x < 80.
     let line = viewport_top t + of_nat y; v = vga_memory t ! (y * 80 + x) in
     if stored_line line t then v = stored_cell line x t else \<exists>col. v = vga_entry 0x20 col)"

definition cursor_shown :: "terminal \<Rightarrow> bool" where
  "cursor_shown t \<longleftrightarrow> (\<exists>log. t = move_cursor (t\<lparr>crtc_log := log\<rparr>))"

definition term_wf :: "terminal \<Rightarrow> bool" where
  "term_wf t \<longleftrightarrow> screen_ok t \<and> viewport_ok t \<and> length (vga_memory t) = 2000 \<and>
     viewport_shown t \<and> cursor_shown t"

lemma line_index_bound: "line_index l < SCROLLBACK_LINES"
  by (simp add: line_index_def SCROLLBACK_LINES_def)

lemma oldest_le_latest: "oldest_line t \<le> latest_view_top t"
proof (cases "200 \<le> terminal_line t")
  case True
  then have "25 \<le> terminal_line t" by (rule order_trans [rotated]) simp
  with True have "terminal_line t - 200 + 1 \<le> terminal_line t - 25 + 1"
    by (simp add: word_le_nat_alt unat_word_ariths unat_sub)
  with True \<open>25 \<le> terminal_line t\<close> show ?thesis
    by (simp add: oldest_line_def latest_view_top_def)
next
  case False
  then show ?thesis by (simp add: oldest_line_def)
qed

lemma clamp_viewport_ok: "viewport_ok (clamp_viewport t)"
  using oldest_le_latest [of t] oldest_latest_cong [of "clamp_viewport t" t]
  by (auto simp: viewport_ok_def clamp_viewport_def Let_def oldest_line_def latest_view_top_def
      not_less)

lemma length_rendered:
  "length (concat (map (\<lambda>y. map (f y) [0..<VGA_WIDTH]) [0..<VGA_HEIGHT])) = 2000"
  by (simp add: length_concat VGA_WIDTH_def VGA_HEIGHT_def o_def sum_list_triv)

lemma vga_memory_render:
  "vga_memory (render t) =
     concat (map (\<lambda>y. map (render_cell (clamp_viewport t) y) [0..<VGA_WIDTH]) [0..<VGA_HEIGHT])"
  by (simp add: render_def Let_def)

lemma nth_rows:
  "y < n \<Longrightarrow> x < 80 \<Longrightarrow> concat (map (\<lambda>y. map (f y) [0..<80]) [0..<n]) ! (y * 80 + x) = f y x"
proof (induction n)
  case 0 then show ?case by simp
next
  case (Suc n)
  have len: "length (concat (map (\<lambda>y. map (f y) [0..<80]) [0..<n])) = n * 80"
    by (simp add: length_concat o_def sum_list_triv)
  show ?case
  proof (cases "y < n")
    case True
    with Suc len show ?thesis by (simp add: nth_append)
  next
    case False
    with Suc.prems have "y = n" by simp
    with Suc.prems len show ?thesis by (simp add: nth_append)
  qed
qed

lemma vga_memory_render_nth:
  assumes "y < 25" "x < 80"
  shows "vga_memory (render t) ! (y * 80 + x) = render_cell (clamp_viewport t) y x"
  using nth_rows [OF assms, of "render_cell (clamp_viewport t)"]
  by (simp add: vga_memory_render VGA_WIDTH_def VGA_HEIGHT_def)

lemma viewport_shown_render: "viewport_shown (render t)"
proof -
  have line: "stored_line l (render t) \<longleftrightarrow> oldest_line (clamp_viewport t) \<le> l \<and> l \<le> terminal_line (clamp_viewport t)"
    "stored_cell l x (render t) = (let c = scrollback (clamp_viewport t) ! line_index l ! x in vga_entry (ch c) (color c))" for l x
    using oldest_latest_cong [of "render t" "clamp_viewport t"] by (simp_all add: stored_line_def stored_cell_def)
  show ?thesis by (auto simp: viewport_shown_def vga_memory_render_nth render_cell_def line Let_def)
qed

lemma cursor_shown_render: "cursor_shown (render t)"
proof -
  have log: "(move_cursor u)\<lparr>crtc_log := crtc_log u\<rparr> = u" for u by (simp add: move_cursor_def Let_def term_outb_def)
  have "move_cursor u = move_cursor ((move_cursor u)\<lparr>crtc_log := crtc_log u\<rparr>)" for u by (simp only: log)
  then show ?thesis unfolding cursor_shown_def render_def Let_def by blast
qed

lemma term_wf_render: "screen_ok t \<Longrightarrow> term_wf (render t)"
  using clamp_viewport_ok [of t] oldest_latest_cong [of "render t" "clamp_viewport t"]
  by (simp add: term_wf_def screen_ok_def ring_ok_def viewport_ok_def vga_memory_render
      length_rendered viewport_shown_render cursor_shown_render)

text \<open>What is shown does not depend on the current colour or on the state of the keyboard.\<close>

lemma viewport_fields:
  "viewport_shown (t\<lparr>terminal_color := c\<rparr>) = viewport_shown t" "viewport_shown (t\<lparr>extended_scancode := e\<rparr>) = viewport_shown t"
  by (simp_all add: viewport_shown_def stored_line_def stored_cell_def oldest_line_def)

lemma cursor_fields:
  "cursor_shown t \<Longrightarrow> cursor_shown (t\<lparr>terminal_color := c\<rparr>)" "cursor_shown t \<Longrightarrow> cursor_shown (t\<lparr>extended_scancode := e\<rparr>)"
proof -
  have m: "move_cursor (t\<lparr>terminal_color := c, crtc_log := log\<rparr>) = (move_cursor (t\<lparr>crtc_log := log\<rparr>))\<lparr>terminal_color := c\<rparr>"
    "move_cursor (t\<lparr>extended_scancode := e, crtc_log := log\<rparr>) = (move_cursor (t\<lparr>crtc_log := log\<rparr>))\<lparr>extended_scancode := e\<rparr>" for log
    by (simp_all add: move_cursor_def Let_def term_outb_def cursor_row_def)
  show "cursor_shown t \<Longrightarrow> cursor_shown (t\<lparr>terminal_color := c\<rparr>)" "cursor_shown t \<Longrightarrow> cursor_shown (t\<lparr>extended_scancode := e\<rparr>)"
    unfolding cursor_shown_def using m by metis+
qed

lemma ring_ok_put_cell: "ring_ok t \<Longrightarrow> ring_ok (put_cell c t)"
  using line_index_bound [of "terminal_line t"]
  by (auto simp: ring_ok_def put_cell_def Let_def dest!: set_update_subset_insert [THEN subsetD])

lemma ring_ok_clear_line: "ring_ok t \<Longrightarrow> ring_ok (clear_history_line l t)"
  by (auto simp: ring_ok_def clear_history_line_def
      dest!: set_update_subset_insert [THEN subsetD])

lemma ring_ok_fields:
  "scrollback t' = scrollback t \<Longrightarrow> ring_ok t' = ring_ok t"
  by (simp add: ring_ok_def)

lemma screen_ok_put_cell: "screen_ok t \<Longrightarrow> screen_ok (put_cell c t)"
  by (simp add: screen_ok_def ring_ok_put_cell)

lemma screen_ok_follow: "screen_ok t \<Longrightarrow> screen_ok (follow_output t)"
  by (simp add: screen_ok_def ring_ok_def)

lemma screen_ok_new_line: "ring_ok t \<Longrightarrow> screen_ok (new_line t)"
  by (auto simp: screen_ok_def new_line_def Let_def ring_ok_def clear_history_line_def
      dest!: set_update_subset_insert [THEN subsetD])

lemma ring_ok_fold_clear:
  "ring_ok t \<Longrightarrow> ring_ok (fold (\<lambda>y. clear_history_line (of_nat y)) ys t)"
  by (induction ys arbitrary: t) (simp_all add: ring_ok_clear_line)

lemma fold_clear_fields [simp]:
  "terminal_line (fold (\<lambda>y. clear_history_line (of_nat y)) ys t) = terminal_line t"
  "terminal_column (fold (\<lambda>y. clear_history_line (of_nat y)) ys t) = terminal_column t"
  "terminal_color (fold (\<lambda>y. clear_history_line (of_nat y)) ys t) = terminal_color t"
  by (induction ys arbitrary: t) simp_all

lemma term_wf_io_init: "ring_ok t \<Longrightarrow> term_wf (io_init t)"
  unfolding io_init_def
  by (rule term_wf_render)
    (simp add: screen_ok_def clear_history_def, rule ring_ok_fold_clear, simp add: ring_ok_def)

lemma term_wf_io_clear_screen: "term_wf t \<Longrightarrow> term_wf (io_clear_screen t)"
  unfolding io_clear_screen_def
  by (rule term_wf_render)
    (simp add: screen_ok_def clear_history_def, rule ring_ok_fold_clear,
      simp add: term_wf_def screen_ok_def ring_ok_def)

lemma term_wf_io_set_color: "term_wf t \<Longrightarrow> term_wf (io_set_color fg bg t)"
  using oldest_latest_cong [of "io_set_color fg bg t" t]
  by (simp add: term_wf_def screen_ok_def ring_ok_def viewport_ok_def io_set_color_def viewport_fields cursor_fields)

lemma term_wf_io_scroll_up: "term_wf t \<Longrightarrow> term_wf (io_scroll_up t)"
  by (auto simp: io_scroll_up_def intro!: term_wf_render)
    (simp add: term_wf_def screen_ok_def ring_ok_def)

lemma term_wf_io_scroll_down: "term_wf t \<Longrightarrow> term_wf (io_scroll_down t)"
  by (auto simp: io_scroll_down_def intro!: term_wf_render)
    (simp add: term_wf_def screen_ok_def ring_ok_def)

lemma term_wf_funpow: "(\<And>t. term_wf t \<Longrightarrow> term_wf (f t)) \<Longrightarrow> term_wf t \<Longrightarrow> term_wf ((f ^^ n) t)"
  by (induction n) auto

lemma term_wf_io_scroll_pages:
  "term_wf t \<Longrightarrow> term_wf (io_scroll_page_up t)" "term_wf t \<Longrightarrow> term_wf (io_scroll_page_down t)"
  by (simp_all add: io_scroll_page_up_def io_scroll_page_down_def term_wf_funpow
      term_wf_io_scroll_up term_wf_io_scroll_down)

lemma term_wf_io_scroll_bottom: "term_wf t \<Longrightarrow> term_wf (io_scroll_bottom t)"
  unfolding io_scroll_bottom_def
  by (rule term_wf_render, rule screen_ok_follow, simp add: term_wf_def)

lemma term_wf_io_backspace:
  assumes "term_wf t"
  shows "term_wf (io_backspace t)"
proof -
  have s: "screen_ok t" using assms by (simp add: term_wf_def)
  have dec: "terminal_column t - 1 < 80" if "terminal_column t \<noteq> 0"
    using s that less_imp_diff_less [of "unat (terminal_column t)" 80 1]
    by (simp add: screen_ok_def word_less_nat_alt unat_minus_one)
  show ?thesis
    using s assms dec
    by (auto simp: io_backspace_def Let_def screen_ok_def ring_ok_def
        intro!: term_wf_render screen_ok_follow screen_ok_put_cell)
qed

lemma term_wf_io_print_char:
  assumes "term_wf t"
  shows "term_wf (io_print_char c t)"
proof -
  have s: "screen_ok t" "ring_ok t" using assms by (simp_all add: term_wf_def screen_ok_def)
  have ring: "ring_ok ((put_cell c t)\<lparr>terminal_column := v\<rparr>)" for v
    using ring_ok_put_cell [OF s(2), of c] by (simp add: ring_ok_def)
  show ?thesis
  proof (cases "c = 0x0A \<or> c = 0x0D \<or> c = 0x08")
    case True
    with s assms show ?thesis
      by (auto simp: io_print_char_def term_wf_io_backspace
          intro!: term_wf_render screen_ok_follow screen_ok_new_line)
        (simp add: screen_ok_def ring_ok_def)
  next
    case False
    with s ring show ?thesis
      by (auto simp: io_print_char_def Let_def not_le screen_ok_def
          intro!: term_wf_render screen_ok_follow screen_ok_new_line)
  qed
qed

subsection \<open>Strings\<close>

lemma io_print_loop_eq:
  "terminated b \<Longrightarrow> io_print_loop b t = Some (fold io_print_char (cstr b) t)"
  by (induction b arbitrary: t) auto

lemma io_print_eq [cbuf_simps]:
  "terminated b \<Longrightarrow> io_print (Some b) t = Some (fold io_print_char (cstr b) t)"
  by (simp add: io_print_def io_print_loop_eq)

lemma io_println_eq [cbuf_simps]:
  "terminated b \<Longrightarrow>
     io_println (Some b) t = Some (io_print_char 0x0A (fold io_print_char (cstr b) t))"
  by (simp add: io_println_def io_print_eq)

lemma term_wf_fold_print: "term_wf t \<Longrightarrow> term_wf (fold io_print_char cs t)"
  by (induction cs arbitrary: t) (simp_all add: term_wf_io_print_char)

subsection \<open>A printed character is on the screen\<close>

text \<open>With the viewport on the latest view the clamps of \<open>render\<close> do nothing.\<close>

lemma clamp_viewport_follow: "clamp_viewport (follow_output t) = follow_output t"
  using oldest_le_latest [of t] oldest_latest_cong [of "follow_output t" t]
  by (simp add: clamp_viewport_def Let_def)

text \<open>A stored line within the last 24 is in the view of \<open>follow_output\<close>.\<close>

lemma render_cell_follow:
  assumes "unat l \<le> unat (terminal_line t)" "unat (terminal_line t) < unat l + 25"
  shows "\<exists>y < 25. viewport_top (follow_output t) + of_nat y = l \<and>
     render_cell (follow_output t) y x =
       vga_entry (ch (scrollback t ! line_index l ! x)) (color (scrollback t ! line_index l ! x))"
proof -
  let ?L = "unat (terminal_line t)"
  let ?v = "latest_view_top t"
  have v: "unat ?v = ?L - 24"
  proof (cases "25 \<le> terminal_line t")
    case True
    then show ?thesis
      using unsigned_less [of "terminal_line t", where ?'a = nat]
      by (simp add: latest_view_top_def word_le_nat_alt unat_word_ariths unat_sub)
  next
    case False
    then show ?thesis by (simp add: latest_view_top_def word_le_nat_alt not_le)
  qed
  define y where "y = unat l - unat ?v"
  have y: "y < 25" "unat ?v \<le> unat l" using assms v by (auto simp: y_def)
  have eq: "?v + of_nat y = l"
  proof -
    have "of_nat (unat ?v + y) = (of_nat (unat l) :: 32 word)" using y by (simp add: y_def)
    then show ?thesis by simp
  qed
  have old: "oldest_line t \<le> l"
  proof (cases "200 \<le> terminal_line t")
    case True
    then have "unat (oldest_line t) = ?L - 199"
      using unsigned_less [of "terminal_line t", where ?'a = nat]
      by (simp add: oldest_line_def word_le_nat_alt unat_word_ariths unat_sub)
    then show ?thesis using assms by (simp add: word_le_nat_alt)
  next
    case False
    then show ?thesis by (simp add: oldest_line_def)
  qed
  have le: "l \<le> terminal_line t" using assms(1) by (simp add: word_le_nat_alt)
  show ?thesis
    using y(1) eq old le oldest_latest_cong(1) [of "follow_output t" t]
    by (intro exI [of _ y]) (simp add: render_cell_def Let_def)
qed

lemma line_index_next:
  assumes "unat l + 1 < 2 ^ 32"
  shows "line_index (l + 1) \<noteq> line_index l"
proof -
  have "unat (l + 1) = unat l + 1" using assms by (simp add: unat_word_ariths)
  moreover have "(unat l + 1) mod 200 \<noteq> unat l mod 200" by (auto simp: mod_Suc)
  ultimately show ?thesis by (simp add: line_index_def SCROLLBACK_LINES_def)
qed

lemma put_cell_nth:
  assumes "screen_ok t"
  shows "scrollback (put_cell c t) ! line_index (terminal_line t) ! unat (terminal_column t) =
     \<lparr>ch = c, color = terminal_color t\<rparr>"
proof -
  have "line_index (terminal_line t) < length (scrollback t)"
    using assms line_index_bound by (simp add: screen_ok_def ring_ok_def)
  moreover have "unat (terminal_column t) < length (scrollback t ! line_index (terminal_line t))"
    using assms calculation by (simp add: screen_ok_def ring_ok_def VGA_WIDTH_def word_less_nat_alt)
  ultimately show ?thesis by (simp add: put_cell_def Let_def)
qed

lemma io_print_char_visible:
  assumes wf: "term_wf t" and c: "c \<notin> {0x0A, 0x0D, 0x08}" and line: "unat (terminal_line t) + 1 < 2 ^ 32"
  shows "\<exists>y < 25. viewport_top (io_print_char c t) + of_nat y = terminal_line t \<and>
     vga_memory (io_print_char c t) ! (y * 80 + unat (terminal_column t)) =
       vga_entry c (terminal_color t)"
proof -
  let ?l = "terminal_line t" and ?x = "unat (terminal_column t)"
  have s: "screen_ok t" using wf by (simp add: term_wf_def)
  then have x: "?x < 80" by (simp add: screen_ok_def word_less_nat_alt)
  define t2 where "t2 = (put_cell c t)\<lparr>terminal_column := terminal_column t + 1\<rparr>"
  define t3 where "t3 = (if 80 \<le> terminal_column t2 then new_line t2 else t2)"
  have t': "io_print_char c t = render (follow_output t3)"
    using c by (simp add: io_print_char_def t3_def t2_def Let_def)
  have l3: "unat ?l \<le> unat (terminal_line t3)" "unat (terminal_line t3) < unat ?l + 25"
    using line by (auto simp: t3_def t2_def new_line_def Let_def unat_word_ariths)
  have cell: "scrollback t3 ! line_index ?l ! ?x = \<lparr>ch = c, color = terminal_color t\<rparr>"
    using put_cell_nth [OF s, of c] line_index_next [OF line]
    by (auto simp: t3_def t2_def new_line_def Let_def clear_history_line_def)
  obtain y where y: "y < 25" "viewport_top (follow_output t3) + of_nat y = ?l"
    "render_cell (follow_output t3) y ?x = vga_entry c (terminal_color t)"
    using render_cell_follow [OF l3, of ?x] cell by auto
  show ?thesis
    using y vga_memory_render_nth [OF y(1) x, of "follow_output t3"]
    by (intro exI [of _ y]) (simp add: t' clamp_viewport_follow)
qed

subsection \<open>Printing integers\<close>

text \<open>The decimal numeral of a number, and the number a numeral denotes.\<close>

fun decimal :: "nat \<Rightarrow> byte list" where
  "decimal n = (if n < 10 then [of_nat (48 + n)] else decimal (n div 10) @ [of_nat (48 + n mod 10)])"

declare decimal.simps [simp del]

definition numeral_value :: "byte list \<Rightarrow> nat" where
  "numeral_value ds = foldl (\<lambda>v d. 10 * v + (unat d - 48)) 0 ds"

lemma numeral_value_decimal: "numeral_value (decimal n) = n"
proof (induction n rule: decimal.induct)
  case (1 n)
  have digit: "unat (of_nat (48 + d) :: byte) - 48 = d" if "d < 10" for d
  proof -
    have "unat (of_nat (48 + d) :: byte) = 48 + d"
      using that by (simp add: unat_of_nat del: of_nat_add)
    then show ?thesis by simp
  qed
  show ?case
  proof (cases "n < 10")
    case True
    then show ?thesis by (simp add: decimal.simps [of n] numeral_value_def digit del: of_nat_add)
  next
    case False
    with 1 show ?thesis
      by (subst decimal.simps) (simp add: numeral_value_def digit del: of_nat_add)
  qed
qed

fun digits_lsb :: "nat \<Rightarrow> byte list" where
  "digits_lsb n = (if n = 0 then [] else of_nat (48 + n mod 10) # digits_lsb (n div 10))"

declare digits_lsb.simps [simp del]

lemma rev_digits_lsb: "0 < n \<Longrightarrow> rev (digits_lsb n) = decimal n"
proof (induction n rule: decimal.induct)
  case (1 n)
  show ?case
  proof (cases "n < 10")
    case True
    with "1.prems" show ?thesis
      by (simp add: decimal.simps [of n] digits_lsb.simps [of n] digits_lsb.simps [of 0])
  next
    case False
    with 1 show ?thesis
      by (simp add: decimal.simps [of n] digits_lsb.simps [of n])
  qed
qed

lemma int_digits_eq:
  "length buf = 16 \<Longrightarrow> i \<le> 15 \<Longrightarrow> n < 10 ^ (15 - i) \<Longrightarrow>
     \<exists>buf'. int_digits buf i n = Some (buf', i + length (digits_lsb n)) \<and> length buf' = 16 \<and>
       i + length (digits_lsb n) \<le> 15 \<and>
       take (i + length (digits_lsb n)) buf' = take i buf @ digits_lsb n"
proof (induction buf i n rule: int_digits.induct)
  case (1 buf i n)
  show ?case
  proof (cases "n = 0")
    case True
    with "1.prems" show ?thesis
      by (simp add: int_digits.simps [of buf i 0] digits_lsb.simps [of 0])
  next
    case False
    with "1.prems" have i: "i < 15" by (cases "i = 15") auto
    let ?buf = "buf[i := of_nat (48 + n mod 10)]"
    have "15 - i = Suc (15 - Suc i)" using i by simp
    then have "n < 10 * 10 ^ (15 - Suc i)"
      using "1.prems"(3) by (simp only: power_Suc)
    then have "n div 10 < 10 ^ (15 - Suc i)" by (simp add: less_mult_imp_div_less mult.commute)
    then obtain buf' where b: "int_digits ?buf (Suc i) (n div 10) =
        Some (buf', Suc i + length (digits_lsb (n div 10)))" "length buf' = 16"
      "Suc i + length (digits_lsb (n div 10)) \<le> 15"
      "take (Suc i + length (digits_lsb (n div 10))) buf' = take (Suc i) ?buf @ digits_lsb (n div 10)"
      using "1.IH" [of ?buf] False i "1.prems" by auto
    moreover have "take (Suc i) ?buf = take i buf @ [of_nat (48 + n mod 10)]"
      using i "1.prems" by (simp add: take_Suc_conv_app_nth)
    ultimately show ?thesis
      using False i "1.prems"
      by (simp add: int_digits.simps [of buf i n] digits_lsb.simps [of n] del: of_nat_add)
  qed
qed

lemma print_backwards_eq:
  "i \<le> length buf \<Longrightarrow> print_backwards buf i t = Some (fold io_print_char (rev (take i buf)) t)"
  by (induction i arbitrary: t) (simp_all add: take_Suc_conv_app_nth)

lemma io_print_int_eq:
  assumes "sint v \<noteq> - (2 ^ 31)"
  shows "io_print_int v t =
     Some (fold io_print_char ((if sint v < 0 then [0x2D] else []) @ decimal (nat \<bar>sint v\<bar>)) t)"
proof -
  define n where "n = nat \<bar>sint v\<bar>"
  have "\<bar>sint v\<bar> \<le> 2 ^ 31" using sint_range_size [of v] by (auto simp: word_size)
  then have n15: "n < 10 ^ (15 - 0)" by (simp add: n_def)
  have n_eq: "(if sint v < 0 then nat (- sint v) else nat (sint v)) = n" by (simp add: n_def)
  show ?thesis
  proof (cases "n = 0")
    case True
    then have "sint v = 0" by (simp add: n_def)
    then show ?thesis by (simp add: io_print_int_def decimal.simps [of 0])
  next
    case False
    let ?d = "digits_lsb n"
    obtain buf where buf: "int_digits (fresh 16) 0 n = Some (buf, length ?d)" "length buf = 16"
      "length ?d \<le> 15" "take (length ?d) buf = ?d"
      using int_digits_eq [of "fresh 16" 0 n] n15 by auto
    have dec: "rev ?d = decimal n" using False by (intro rev_digits_lsb) simp
    have neg: "take (Suc (length ?d)) (buf[length ?d := 0x2D]) = ?d @ [0x2D]"
      using buf by (simp add: take_Suc_conv_app_nth)
    show ?thesis
      using assms False buf dec neg
      by (simp add: io_print_int_def Let_def n_eq n_def [symmetric] print_backwards_eq)
  qed
qed

subsection \<open>The keyboard decoder and the line editor\<close>

text \<open>The characters a sequence of scan codes stands for: a prefix 0xE0 makes the next make code a
  control key, break codes and unmapped codes give nothing.\<close>

fun key_chars :: "bool \<Rightarrow> byte list \<Rightarrow> byte list" where
  "key_chars ext [] = []"
| "key_chars ext (k # ks) =
     (if k = 0xE0 then key_chars True ks
      else if k AND 0x80 \<noteq> 0 then key_chars False ks
      else if ext then key_chars False ks
      else if scancode_to_ascii k \<noteq> 0 then scancode_to_ascii k # key_chars False ks
      else key_chars False ks)"

text \<open>The line that results from typing characters into an editor with room for \<open>max - 1\<close> of them:
  return ends the line, backspace deletes, a character beyond the room is dropped.\<close>

fun edit_line :: "nat \<Rightarrow> byte list \<Rightarrow> byte list \<Rightarrow> byte list option" where
  "edit_line m acc [] = None"
| "edit_line m acc (c # cs) =
     (if c = 0x0A then Some acc
      else if c = 0x08 then edit_line m (butlast acc) cs
      else if length acc + 1 < m then edit_line m (acc @ [c]) cs
      else edit_line m acc cs)"

lemma scroll_ext [simp]:
  "extended_scancode (io_scroll_up t) = extended_scancode t"
  "extended_scancode (io_scroll_down t) = extended_scancode t"
  "extended_scancode (io_scroll_bottom t) = extended_scancode t"
  by (simp_all add: io_scroll_up_def io_scroll_down_def io_scroll_bottom_def)

lemma funpow_ext:
  "(\<And>t. extended_scancode (f t) = extended_scancode t) \<Longrightarrow>
     extended_scancode ((f ^^ n) t) = extended_scancode t" for f :: "terminal \<Rightarrow> terminal"
  by (induction n) simp_all

lemma scroll_page_ext [simp]:
  "extended_scancode (io_scroll_page_up t) = extended_scancode t"
  "extended_scancode (io_scroll_page_down t) = extended_scancode t"
  by (simp_all add: io_scroll_page_up_def io_scroll_page_down_def funpow_ext)

lemma new_line_ext [simp]: "extended_scancode (new_line t) = extended_scancode t"
  by (simp add: new_line_def Let_def)

lemma backspace_ext [simp]: "extended_scancode (io_backspace t) = extended_scancode t"
  by (simp add: io_backspace_def Let_def)

lemma print_char_ext [simp]: "extended_scancode (io_print_char c t) = extended_scancode t"
  by (simp add: io_print_char_def Let_def)

lemma term_wf_key_step: "term_wf t \<Longrightarrow> term_wf (snd (key_step k t))"
proof -
  have ext: "term_wf (t\<lparr>extended_scancode := b\<rparr>)" if "term_wf t" for t b
    using that oldest_latest_cong [of "t\<lparr>extended_scancode := b\<rparr>" t]
    by (simp add: term_wf_def screen_ok_def ring_ok_def viewport_ok_def viewport_fields cursor_fields)
  show "term_wf t \<Longrightarrow> ?thesis"
    by (simp add: key_step_def Let_def ext term_wf_io_scroll_up term_wf_io_scroll_down
        term_wf_io_scroll_pages term_wf_io_scroll_bottom)
qed

lemma key_step_chars:
  "key_chars (extended_scancode t) (k # ks) =
     (case key_step k t of
        (Some c, t') \<Rightarrow> c # key_chars (extended_scancode t') ks
      | (None, t') \<Rightarrow> key_chars (extended_scancode t') ks)"
  by (simp add: key_step_def Let_def)

lemma key_step_nonzero: "key_step k t = (Some c, t') \<Longrightarrow> c \<noteq> 0"
  by (auto simp: key_step_def Let_def split: if_splits)

lemma io_read_char_eq:
  "case key_chars (extended_scancode t) keys of
     [] \<Rightarrow> io_read_char keys t = None
   | c # cs \<Rightarrow> \<exists>rest t'. io_read_char keys t = Some (c, rest, t') \<and> c \<noteq> 0 \<and>
       cs = key_chars (extended_scancode t') rest \<and> (term_wf t \<longrightarrow> term_wf t')"
proof (induction keys arbitrary: t)
  case Nil then show ?case by simp
next
  case (Cons k ks)
  obtain r t1 where k: "key_step k t = (r, t1)" by (cases "key_step k t")
  have wf: "term_wf t \<longrightarrow> term_wf t1" using term_wf_key_step [of t k] k by simp
  show ?case
  proof (cases r)
    case None
    then show ?thesis
      using Cons.IH [of t1] wf
      by (auto simp: key_step_chars k simp del: key_chars.simps split: list.splits)
  next
    case (Some c)
    then show ?thesis
      using key_step_nonzero [of k t c t1] wf by (simp add: key_step_chars k del: key_chars.simps)
  qed
qed

definition line_read ::
    "nat \<Rightarrow> cbuf \<Rightarrow> terminal \<Rightarrow> byte list option \<Rightarrow> (cbuf \<times> byte list \<times> terminal) option \<Rightarrow> bool" where
  "line_read m buffer t spec r \<longleftrightarrow> (case spec of
       None \<Rightarrow> r = None
     | Some l \<Rightarrow> \<exists>b rest t'. r = Some (b, rest, t') \<and>
         length b = length buffer \<and> terminated b \<and> cstr b = l \<and> length l < m \<and>
         (term_wf t \<longrightarrow> term_wf t'))"

lemma line_read_trans:
  "line_read m buffer' t' spec r \<Longrightarrow> length buffer' = length buffer \<Longrightarrow> (term_wf t \<Longrightarrow> term_wf t') \<Longrightarrow>
     line_read m buffer t spec r"
  by (auto simp: line_read_def split: option.splits)

lemma read_line_return:
  assumes "io_read_char keys t = Some (0x0A, rest, t')" "term_wf t \<longrightarrow> term_wf t'"
    and "len < m" "m \<le> length buffer" "0 \<notin> set (take len buffer)"
  shows "line_read m buffer t (Some (take len buffer)) (read_line_loop buffer len m keys t)"
proof -
  have "buffer[len := 0] = take len buffer @ 0 # drop (Suc len) buffer"
    using assms(3,4) by (simp add: upd_conv_take_nth_drop)
  then show ?thesis
    using assms by (simp add: line_read_def read_line_loop.simps [of buffer len m keys t] term_wf_io_print_char)
qed

lemma read_line_loop_eq:
  "len < m \<Longrightarrow> m \<le> length buffer \<Longrightarrow> 0 \<notin> set (take len buffer) \<Longrightarrow>
     line_read m buffer t (edit_line m (take len buffer) (key_chars (extended_scancode t) keys))
       (read_line_loop buffer len m keys t)"
proof (induction buffer len m keys t rule: read_line_loop.induct)
  case (1 buffer len m keys t)
  note unf = read_line_loop.simps [of buffer len m keys t]
  show ?case
  proof (cases "key_chars (extended_scancode t) keys")
    case Nil
    then show ?thesis using io_read_char_eq [of keys t] by (simp add: unf line_read_def)
  next
    case (Cons c cs)
    obtain rest t' where r: "io_read_char keys t = Some (c, rest, t')" "c \<noteq> 0"
      "cs = key_chars (extended_scancode t') rest" "term_wf t \<longrightarrow> term_wf t'"
      using io_read_char_eq [of keys t] Cons by auto
    have len: "length (take len buffer) = len" using "1.prems" by simp
    consider (ret) "c = 0x0A" | (bs) "c = 0x08" "0 < len" | (bs0) "c = 0x08" "len = 0"
      | (add) "c \<noteq> 0x0A" "c \<noteq> 0x08" "len + 1 < m"
      | (full) "c \<noteq> 0x0A" "c \<noteq> 0x08" "\<not> len + 1 < m" by blast
    then show ?thesis
    proof cases
      case ret
      then show ?thesis using read_line_return [of keys t rest t'] r Cons "1.prems" by simp
    next
      case bs
      have "butlast (take len buffer) = take (len - 1) buffer" "0 \<notin> set (take (len - 1) buffer)"
        using "1.prems" set_take_subset_set_take [of "len - 1" len buffer] by (auto simp: butlast_take)
      then show ?thesis
        using line_read_trans [OF "1.IH"(1) [OF r(1) refl refl _ bs]] bs Cons r "1.prems"
        by (simp add: unf term_wf_io_backspace)
    next
      case bs0
      then show ?thesis
        using line_read_trans [OF "1.IH"(2) [OF r(1) refl refl]] Cons r "1.prems" unfolding unf by simp
    next
      case add
      have "take (Suc len) (buffer[len := c]) = take len buffer @ [c]"
        using "1.prems" by (simp add: take_Suc_conv_app_nth)
      then show ?thesis
        using line_read_trans [OF "1.IH"(3) [OF r(1) refl refl, of "buffer[len := c]"]] add Cons r "1.prems" len
        by (simp add: unf term_wf_io_print_char)
    next
      case full
      then show ?thesis
        using line_read_trans [OF "1.IH"(4) [OF r(1) refl refl]] Cons r "1.prems" len by (simp add: unf)
    qed
  qed
qed

subsection \<open>Properties\<close>

text \<open>The remaining functions.\<close>

lemma hex_loop_wf: "term_wf t \<Longrightarrow> \<exists>t'. hex_loop v n t = Some t' \<and> term_wf t'"
proof (induction n arbitrary: t)
  case (Suc n)
  have "drop_bit (n * 4) v AND 0xF \<le> 0xF" by (rule word_and_le1)
  then have "unat (drop_bit (n * 4) v AND 0xF) < 16" by (simp add: word_le_nat_alt)
  moreover have "length (lit ''0123456789ABCDEF'') = 17" by code_simp
  ultimately obtain c where "rd (lit ''0123456789ABCDEF'') (unat (drop_bit (n * 4) v AND 0xF)) = Some c"
    by (simp add: rd_def)
  then show ?case using Suc.IH [OF term_wf_io_print_char [OF Suc.prems]] by simp
qed simp

lemma term_wf_io_print_hex: "term_wf t \<Longrightarrow> \<exists>t'. io_print_hex v t = Some t' \<and> term_wf t'"
  using hex_loop_wf term_wf_fold_print by (simp add: io_print_hex_def io_print_eq)

lemma term_wf_io_read_char: "term_wf t \<Longrightarrow> pred_option (\<lambda>(c, rest, t'). term_wf t') (io_read_char keys t)"
  using io_read_char_eq [of keys t] by (auto split: list.splits)

lemma term_wf_read_line_loop:
  "term_wf t \<Longrightarrow> pred_option (\<lambda>(b, rest, t'). term_wf t') (read_line_loop buffer len m keys t)"
proof (induction buffer len m keys t rule: read_line_loop.induct)
  case (1 buffer len m keys t)
  show ?case
  proof (cases "io_read_char keys t")
    case None
    then show ?thesis by (simp add: read_line_loop.simps [of buffer len m keys t])
  next
    case (Some r)
    obtain c rest t' where r: "io_read_char keys t = Some (c, rest, t')" using Some by (cases r) auto
    then have "term_wf t'" using term_wf_io_read_char [OF "1.prems", of keys] by simp
    then show ?thesis
      using "1.IH" [OF r refl refl] r
      by (auto simp: read_line_loop.simps [of buffer len m keys t] bind_eq_None_conv term_wf_io_print_char
          term_wf_io_backspace wr_def)
  qed
qed

lemma term_wf_io_read_line: "term_wf t \<Longrightarrow> pred_option (\<lambda>(b, rest, t'). term_wf t') (io_read_line buffer m keys t)"
  by (simp add: io_read_line_def term_wf_read_line_loop)

text \<open>A terminal to start from: a ring and a screen of the right sizes, otherwise arbitrary.\<close>

definition term_zero :: terminal where
  "term_zero = \<lparr>scrollback = replicate 200 (replicate 80 \<lparr>ch = 0, color = 0\<rparr>),
     terminal_line = 0, terminal_column = 0, viewport_top = 0, terminal_color = 0,
     extended_scancode = False, vga_memory = replicate 2000 0, crtc_log = []\<rparr>"

lemma ring_ok_zero: "ring_ok term_zero"
  by (simp add: ring_ok_def term_zero_def SCROLLBACK_LINES_def VGA_WIDTH_def)

lemma term_wf_booted: "term_wf (io_init term_zero)"
  using ring_ok_zero by (rule term_wf_io_init)

lemma booted_line: "terminal_line (io_init term_zero) = 0"
  by (simp add: io_init_def clear_history_def)

text \<open>C23: \<open>io_init\<close> makes the terminal well formed, and every function of kernel/io.c keeps it so: the ring
  has 200 lines of 80 cells, the screen 2000 cells, the column stays below 80 (so every store into the
  ring is in range), the viewport stays between the oldest stored line and the latest view, the VGA
  memory shows the viewport (each cell of a stored line its character and colour, each cell of another
  row a blank), and the hardware cursor is at the cursor's place in it.\<close>

theorem terminal_invariant:
  assumes "ring_ok t0" "term_wf t"
  shows "term_wf (io_init t0) \<and> term_wf (io_print_char c t) \<and> term_wf (io_backspace t) \<and> term_wf (io_clear_screen t) \<and>
     term_wf (io_set_color fg bg t) \<and> term_wf (io_scroll_up t) \<and> term_wf (io_scroll_down t) \<and>
     term_wf (io_scroll_page_up t) \<and> term_wf (io_scroll_page_down t) \<and>
     term_wf (io_scroll_bottom t) \<and> term_wf (snd (key_step k t)) \<and>
     (terminated text \<longrightarrow> (\<exists>t'. io_println (Some text) t = Some t' \<and> term_wf t')) \<and>
     (terminated text \<longrightarrow> (\<exists>t'. io_print (Some text) t = Some t' \<and> term_wf t')) \<and>
     (sint v \<noteq> - (2 ^ 31) \<longrightarrow> (\<exists>t'. io_print_int v t = Some t' \<and> term_wf t')) \<and>
     (\<exists>t'. io_print_hex v t = Some t' \<and> term_wf t') \<and>
     pred_option (\<lambda>(c, rest, t'). term_wf t') (io_read_char keys t) \<and>
     pred_option (\<lambda>(b, rest, t'). term_wf t') (io_read_line buffer m keys t)"
  using assms
  by (simp add: term_wf_io_print_hex term_wf_io_read_char term_wf_io_read_line io_print_eq term_wf_io_init term_wf_io_print_char term_wf_io_backspace term_wf_io_clear_screen
      term_wf_io_set_color term_wf_io_scroll_up term_wf_io_scroll_down term_wf_io_scroll_pages
      term_wf_io_scroll_bottom term_wf_key_step io_println_eq io_print_int_eq term_wf_fold_print)

theorem terminal_invariant_witness:
  "term_wf (io_init term_zero) \<and> term_wf (io_print_char 0x41 (io_init term_zero))"
  using terminal_invariant [OF ring_ok_zero term_wf_booted, of "0x41"] by blast

text \<open>C24: What is printed is seen: after \<open>io_print_char c\<close> with a character other than newline,
  return and backspace, one of the 25 screen rows shows the line the character was printed on, and
  the VGA cell of that row at the old column holds \<open>c\<close> in the current colour, also when the
  character ends its line or scrolls the screen.\<close>

theorem printed_char_visible:
  assumes "term_wf t" "c \<notin> {0x0A, 0x0D, 0x08}" "unat (terminal_line t) + 1 < 2 ^ 32"
  shows "\<exists>y < 25. viewport_top (io_print_char c t) + of_nat y = terminal_line t \<and>
     vga_memory (io_print_char c t) ! (y * 80 + unat (terminal_column t)) =
       vga_entry c (terminal_color t)"
  using assms by (rule io_print_char_visible)

theorem printed_char_visible_witness:
  "\<exists>y < 25. viewport_top (io_print_char 0x41 (io_init term_zero)) + of_nat y =
     terminal_line (io_init term_zero)"
proof -
  have c: "(0x41::byte) \<notin> {0x0A, 0x0D, 0x08}" by simp
  have l: "unat (terminal_line (io_init term_zero)) + 1 < 2 ^ 32" by (simp add: booted_line)
  show ?thesis using printed_char_visible [OF term_wf_booted c l] by blast
qed

text \<open>\<open>io_print_int\<close> prints the decimal numeral of every 32-bit integer but the least one: a
  minus sign when it is negative, then digits that denote its absolute value; its buffer of 16
  bytes is never overrun.\<close>

theorem print_int_decimal:
  assumes "sint v \<noteq> - (2 ^ 31)"
  shows "\<exists>ds. io_print_int v t =
       Some (fold io_print_char ((if sint v < 0 then [0x2D] else []) @ ds) t) \<and>
     numeral_value ds = nat \<bar>sint v\<bar>"
  using io_print_int_eq [OF assms, of t] numeral_value_decimal by blast

theorem print_int_decimal_witness:
  "\<exists>ds. io_print_int (- 42) term_zero =
       Some (fold io_print_char ((if sint (- 42 :: 32 word) < 0 then [0x2D] else []) @ ds) term_zero) \<and>
     numeral_value ds = nat \<bar>sint (- 42 :: 32 word)\<bar>"
  by (rule print_int_decimal) simp

text \<open>C25: \<open>io_read_line\<close> is a line editor over the decoded key strokes: it returns exactly when they
  contain a return, and then the buffer holds the edited line (backspace deletes the last
  character, characters beyond the room are dropped), terminated and shorter than \<open>max_len\<close>.\<close>

theorem read_line_edits:
  assumes "0 < m" "m \<le> length buffer"
  shows "case edit_line m [] (key_chars (extended_scancode t) keys) of
       None \<Rightarrow> io_read_line buffer m keys t = None
     | Some l \<Rightarrow> \<exists>b rest t'. io_read_line buffer m keys t = Some (b, rest, t') \<and>
         length b = length buffer \<and> terminated b \<and> cstr b = l \<and> length l < m \<and>
         (term_wf t \<longrightarrow> term_wf t')"
proof -
  have eq: "io_read_line buffer m keys t = read_line_loop buffer 0 m keys t"
    using assms(1) by (simp add: io_read_line_def)
  show ?thesis
    unfolding eq using read_line_loop_eq [of 0 m buffer, where t = t and keys = keys] assms by (simp add: line_read_def)
qed

text \<open>The witness types \<open>l\<close>, \<open>x\<close>, backspace, \<open>s\<close>, return.\<close>

theorem read_line_edits_witness:
  "\<exists>b rest t'. io_read_line (fresh 256) 256 [38, 45, 14, 31, 28] term_zero = Some (b, rest, t') \<and>
     cstr b = bytes_of ''ls''"
proof -
  have e: "edit_line 256 [] (key_chars (extended_scancode term_zero) [38, 45, 14, 31, 28]) =
      Some (bytes_of ''ls'')"
    by code_simp
  show ?thesis
    using read_line_edits [of 256 "fresh 256", where t = term_zero and keys = "[38, 45, 14, 31, 28]"]
    unfolding e by auto
qed

end
