(* ===== verification/Fs_Tree.thy ===== *)
theory Fs_Tree
  imports Kernel_Fs Slot_Table Terminal_Proofs
begin

section \<open>The node table as a tree of files and directories\<close>

text \<open>
  The well-formedness of the node table of kernel/filesystem.c (\<open>fs_wf\<close>: array sizes, the root in
  slot 0, unique paths, every other node named by the last component of its path and linked to the
  directory that holds it), the abstract tree it stands for (\<open>fs_view\<close>: a map from component lists to
  entries), and what overwriting one slot does to both.  The search \<open>find_node\<close> is a
  \<open>slot_table\<close> search.
\<close>

subsection \<open>Lookup\<close>

definition nd_live :: "fs_node \<Rightarrow> bool" where
  "nd_live n \<longleftrightarrow> nd_used n \<noteq> 0"

lemma find_node_loop_eq:
  "names_ok nd_live nd_path ns \<Longrightarrow> terminated path \<Longrightarrow>
     find_node_loop ns i path =
       Some (case slot_lookup nd_live nd_path ns (cstr path) of None \<Rightarrow> -1 | Some j \<Rightarrow> i + int j)"
proof (induction ns arbitrary: i)
  case Nil then show ?case by (simp add: slot_lookup_def)
next
  case (Cons n ns)
  have IH: "find_node_loop ns (i + 1) path =
      Some (case slot_lookup nd_live nd_path ns (cstr path) of None \<Rightarrow> -1 | Some j \<Rightarrow> i + 1 + int j)"
    using Cons by (auto simp: names_ok_def)
  have rest: "\<not> (nd_live n \<and> cstr (nd_path n) = cstr path) \<Longrightarrow>
      slot_lookup nd_live nd_path (n # ns) (cstr path) =
        map_option Suc (slot_lookup nd_live nd_path ns (cstr path))"
    by (auto simp: slot_lookup_def)
  have live: "nd_used n = 0 \<longleftrightarrow> \<not> nd_live n" by (simp add: nd_live_def)
  show ?case
  proof (cases "nd_live n")
    case True
    then have "terminated (nd_path n)" using Cons.prems(1) by (simp add: names_ok_def)
    then obtain r where "str_compare (nd_path n) path = Some r" "r = 0 \<longleftrightarrow> cstr (nd_path n) = cstr path"
      using str_compareE Cons.prems(2) by blast
    then show ?thesis
      using True IH rest live by (cases "r = 0") (auto simp: slot_lookup_def split: option.splits)
  next
    case False
    then show ?thesis using IH rest live by (auto split: option.splits)
  qed
qed

interpretation fs_tab: slot_table nd_live nd_path find_node
proof
  show "find_node xs nm = Some (index_or_minus1 (slot_lookup nd_live nd_path xs (cstr nm)))"
    if "names_ok nd_live nd_path xs" "terminated nm" for xs nm
    using find_node_loop_eq [OF that, of 0]
    by (simp add: find_node_def index_or_minus1_def split: option.splits)
qed

subsection \<open>Well-formed tables\<close>

definition node_shape :: "fs_node \<Rightarrow> bool" where
  "node_shape n \<longleftrightarrow>
     length (nd_name n) = FS_MAX_NAME \<and> length (nd_path n) = FS_MAX_PATH \<and>
     length (nd_data n) = FS_MAX_FILE_SIZE"

definition root_node :: "fs_node \<Rightarrow> bool" where
  "root_node n \<longleftrightarrow> nd_live n \<and> nd_type n = FS_DIR \<and> nd_parent n = - 1 \<and> terminated (nd_path n) \<and>
     cstr (nd_path n) = path_of [] \<and> terminated (nd_name n)"

text \<open>\<open>p\<close> is the slot of the directory with the components \<open>cs\<close>.\<close>

definition dir_slot :: "fs_node list \<Rightarrow> nat \<Rightarrow> byte list list \<Rightarrow> bool" where
  "dir_slot ns p cs \<longleftrightarrow> p < length ns \<and> nd_live (ns ! p) \<and> nd_type (ns ! p) = FS_DIR \<and>
     cstr (nd_path (ns ! p)) = path_of cs"

definition entry_ok :: "fs_node list \<Rightarrow> fs_node \<Rightarrow> bool" where
  "entry_ok ns n \<longleftrightarrow>
     (\<exists>cs c p. parts_ok (cs @ [c]) \<and> terminated (nd_path n) \<and> cstr (nd_path n) = path_of (cs @ [c]) \<and>
        terminated (nd_name n) \<and> cstr (nd_name n) = c \<and> nd_parent n = of_nat p \<and> dir_slot ns p cs) \<and>
     nd_type n \<in> {FS_FILE, FS_DIR} \<and> unat (nd_size n) \<le> FS_MAX_FILE_SIZE"

definition fs_wf :: "fs_node list \<Rightarrow> bool" where
  "fs_wf ns \<longleftrightarrow>
     length ns = FS_MAX_FILES \<and> (\<forall>n \<in> set ns. node_shape n) \<and> root_node (ns ! 0) \<and>
     names_distinct nd_live nd_path ns \<and>
     (\<forall>i. 0 < i \<longrightarrow> i < FS_MAX_FILES \<longrightarrow> nd_live (ns ! i) \<longrightarrow> entry_ok ns (ns ! i))"

lemma fs_wf_length: "fs_wf ns \<Longrightarrow> length ns = FS_MAX_FILES"
  by (simp add: fs_wf_def)

lemma fs_wf_shape: "fs_wf ns \<Longrightarrow> i < FS_MAX_FILES \<Longrightarrow> node_shape (ns ! i)"
  by (simp add: fs_wf_def)

lemma fs_wf_distinct: "fs_wf ns \<Longrightarrow> names_distinct nd_live nd_path ns"
  by (simp add: fs_wf_def)

lemma fs_wf_root: "fs_wf ns \<Longrightarrow> root_node (ns ! 0)"
  by (simp add: fs_wf_def)

lemma fs_wf_entry: "fs_wf ns \<Longrightarrow> 0 < i \<Longrightarrow> i < FS_MAX_FILES \<Longrightarrow> nd_live (ns ! i) \<Longrightarrow> entry_ok ns (ns ! i)"
  by (simp add: fs_wf_def)

text \<open>Every node in use carries a normal path, and only the root the path \<open>/\<close>.\<close>

lemma live_path:
  assumes "fs_wf ns" "i < FS_MAX_FILES" "nd_live (ns ! i)"
  obtains cs where "parts_ok cs" "terminated (nd_path (ns ! i))" "cstr (nd_path (ns ! i)) = path_of cs"
    "cs = [] \<longleftrightarrow> i = 0" "length (path_of cs) < 128"
proof (cases "i = 0")
  case True
  then show ?thesis
    using that [of "[]"] fs_wf_root [OF assms(1)] by (auto simp: root_node_def)
next
  case False
  then obtain cs c where cs: "parts_ok (cs @ [c])" "terminated (nd_path (ns ! i))"
    "cstr (nd_path (ns ! i)) = path_of (cs @ [c])"
    using fs_wf_entry [OF assms(1) _ assms(2,3)] False unfolding entry_ok_def by blast
  moreover have "length (cstr (nd_path (ns ! i))) < 128"
    using cs(2) fs_wf_shape [OF assms(1,2)]
    by (simp add: terminated_iff_length node_shape_def FS_MAX_PATH_def)
  ultimately show ?thesis using that [of "cs @ [c]"] False by simp
qed

lemma fs_wf_names_ok: "fs_wf ns \<Longrightarrow> names_ok nd_live nd_path ns"
  unfolding names_ok_def by (metis fs_wf_length in_set_conv_nth live_path)

lemmas fs_find = fs_tab.find_spec [OF fs_wf_names_ok]

text \<open>The slot of a path.\<close>

definition slot_of :: "fs_node list \<Rightarrow> byte list list \<Rightarrow> nat option" where
  "slot_of ns cs = (if parts_ok cs then slot_lookup nd_live nd_path ns (path_of cs) else None)"

lemma slot_of_Some_iff:
  assumes "fs_wf ns"
  shows "slot_of ns cs = Some i \<longleftrightarrow>
     parts_ok cs \<and> i < FS_MAX_FILES \<and> nd_live (ns ! i) \<and> cstr (nd_path (ns ! i)) = path_of cs"
  using slot_lookup_Some_iff [OF fs_wf_distinct [OF assms]] fs_wf_length [OF assms]
  by (auto simp: slot_of_def)

lemma slot_of_root: "fs_wf ns \<Longrightarrow> slot_of ns [] = Some 0"
  using fs_wf_root by (simp add: slot_of_Some_iff root_node_def FS_MAX_FILES_def)

lemma slot_of_zero: "fs_wf ns \<Longrightarrow> slot_of ns cs = Some 0 \<longleftrightarrow> cs = []"
  using slot_of_root by (metis length_pos_if_in_set less_nat_zero_code list.size(3)
      live_path path_of_inject slot_of_Some_iff)

subsection \<open>The abstract tree\<close>

datatype fs_entry = Dir | File "byte list"

type_synonym fs_tree = "byte list list \<Rightarrow> fs_entry option"

definition entry_of :: "fs_node \<Rightarrow> fs_entry" where
  "entry_of n = (if nd_type n = FS_DIR then Dir else File (take (unat (nd_size n)) (nd_data n)))"

definition fs_view :: "fs_node list \<Rightarrow> fs_tree" where
  "fs_view ns cs = map_option (\<lambda>i. entry_of (ns ! i)) (slot_of ns cs)"

text \<open>A tree: the root is a directory and every entry lies in a directory.\<close>

definition tree_ok :: "fs_tree \<Rightarrow> bool" where
  "tree_ok v \<longleftrightarrow> v [] = Some Dir \<and> (\<forall>cs c. v (cs @ [c]) \<noteq> None \<longrightarrow> v cs = Some Dir)"

lemma dir_slot_view: "fs_wf ns \<Longrightarrow> parts_ok cs \<Longrightarrow> dir_slot ns p cs \<Longrightarrow> slot_of ns cs = Some p"
  by (auto simp: slot_of_Some_iff dir_slot_def fs_wf_length)

lemma fs_view_tree:
  assumes "fs_wf ns"
  shows "tree_ok (fs_view ns)"
  unfolding tree_ok_def
proof (intro conjI allI impI)
  show "fs_view ns [] = Some Dir"
    using fs_wf_root [OF assms] by (simp add: fs_view_def slot_of_root [OF assms] entry_of_def root_node_def)
  fix cs c assume "fs_view ns (cs @ [c]) \<noteq> None"
  then obtain i where i: "slot_of ns (cs @ [c]) = Some i" by (auto simp: fs_view_def)
  then have live: "parts_ok (cs @ [c])" "i < FS_MAX_FILES" "nd_live (ns ! i)"
    "cstr (nd_path (ns ! i)) = path_of (cs @ [c])"
    by (auto simp: slot_of_Some_iff [OF assms])
  have "0 < i" using i slot_of_zero [OF assms, of "cs @ [c]"] by (cases i) auto
  then obtain ds d p where d: "parts_ok (ds @ [d])" "cstr (nd_path (ns ! i)) = path_of (ds @ [d])"
    "dir_slot ns p ds"
    using fs_wf_entry [OF assms _ live(2,3)] by (auto simp: entry_ok_def)
  have "cs = ds" using live(1,4) d(1,2) path_of_inject by (metis butlast_snoc)
  moreover have "slot_of ns ds = Some p"
    using dir_slot_view [OF assms _ d(3)] parts_ok_snoc [OF d(1)] by simp
  ultimately show "fs_view ns cs = Some Dir"
    using d(3) by (simp add: fs_view_def entry_of_def dir_slot_def)
qed

subsection \<open>Overwriting one slot\<close>

lemma dir_slot_update:
  "dir_slot ns p cs \<Longrightarrow>
     (p = i \<Longrightarrow> nd_live n \<and> nd_type n = FS_DIR \<and> cstr (nd_path n) = path_of cs) \<Longrightarrow>
     dir_slot (ns[i := n]) p cs"
  by (cases "p = i") (auto simp: dir_slot_def)

lemma entry_ok_transfer:
  assumes "entry_ok ns n"
    and "\<And>p cs. nd_parent n = of_nat p \<Longrightarrow> dir_slot ns p cs \<Longrightarrow> dir_slot ns' p cs"
  shows "entry_ok ns' n"
  using assms unfolding entry_ok_def by blast

lemma option_eqI: "(\<And>i. a = Some i \<longleftrightarrow> b = Some i) \<Longrightarrow> a = b"
  by (cases a; cases b) auto

lemma slot_of_update:
  assumes "fs_wf ns" "fs_wf (ns[i := n])" "i < FS_MAX_FILES"
  shows "slot_of (ns[i := n]) cs =
     (if nd_live n \<and> parts_ok cs \<and> cstr (nd_path n) = path_of cs then Some i
      else if slot_of ns cs = Some i then None else slot_of ns cs)"
proof (rule option_eqI)
  fix j
  have len: "length ns = FS_MAX_FILES" using assms(1) by (rule fs_wf_length)
  let ?new = "nd_live n \<and> parts_ok cs \<and> cstr (nd_path n) = path_of cs"
  have at_i: "slot_of (ns[i := n]) cs = Some i \<longleftrightarrow> ?new"
    using assms(3) len by (auto simp: slot_of_Some_iff [OF assms(2)])
  have at_other: "k \<noteq> i \<Longrightarrow> slot_of (ns[i := n]) cs = Some k \<longleftrightarrow> slot_of ns cs = Some k" for k
    by (simp add: slot_of_Some_iff [OF assms(2)] slot_of_Some_iff [OF assms(1)])
  show "slot_of (ns[i := n]) cs = Some j \<longleftrightarrow>
     (if ?new then Some i else if slot_of ns cs = Some i then None else slot_of ns cs) = Some j"
    using at_i at_other [of j] by (cases "j = i") auto
qed

lemma fs_view_update:
  assumes "fs_wf ns" "fs_wf (ns[i := n])" "i < FS_MAX_FILES"
  shows "fs_view (ns[i := n]) cs =
     (if nd_live n \<and> parts_ok cs \<and> cstr (nd_path n) = path_of cs then Some (entry_of n)
      else if slot_of ns cs = Some i then None else fs_view ns cs)"
proof -
  have "slot_of ns cs = Some k \<Longrightarrow> k \<noteq> i \<Longrightarrow> ns[i := n] ! k = ns ! k" for k by simp
  then show ?thesis
    using slot_of_update [OF assms, of cs] fs_wf_length [OF assms(1)] assms(3)
    by (cases "slot_of ns cs") (auto simp: fs_view_def)
qed

text \<open>A new node in a free slot.\<close>

lemma fs_wf_fill:
  assumes "fs_wf ns" "0 < i" "i < FS_MAX_FILES" "\<not> nd_live (ns ! i)"
    and "node_shape n" "entry_ok ns n" "parts_ok cs" "cstr (nd_path n) = path_of cs" "slot_of ns cs = None"
  shows "fs_wf (ns[i := n])"
proof -
  have len: "length ns = FS_MAX_FILES" using assms(1) by (rule fs_wf_length)
  have "slot_lookup nd_live nd_path ns (cstr (nd_path n)) = None"
    using assms(7-9) by (simp add: slot_of_def)
  then have "names_distinct nd_live nd_path (ns[i := n])"
    using names_distinct_update [OF fs_wf_distinct [OF assms(1)]] by simp
  moreover have "\<forall>m \<in> set (ns[i := n]). node_shape m"
    using assms(1,5) by (auto simp: fs_wf_def dest!: set_update_subset_insert [THEN subsetD])
  moreover have keep: "dir_slot ns p ds \<Longrightarrow> dir_slot (ns[i := n]) p ds" for p ds
    using assms(4) by (intro dir_slot_update) (auto simp: dir_slot_def)
  moreover have "entry_ok (ns[i := n]) (ns[i := n] ! j)"
    if "0 < j" "j < FS_MAX_FILES" "nd_live (ns[i := n] ! j)" for j
  proof (cases "j = i")
    case True
    then show ?thesis using entry_ok_transfer [OF assms(6) keep] that len by simp
  next
    case False
    then show ?thesis using entry_ok_transfer [OF fs_wf_entry [OF assms(1) that(1,2)] keep] that by simp
  qed
  ultimately show ?thesis
    using assms(1-3) len by (auto simp: fs_wf_def)
qed

lemma fs_view_fill:
  assumes "fs_wf ns" "0 < i" "i < FS_MAX_FILES" "\<not> nd_live (ns ! i)" "nd_live n"
    and "node_shape n" "entry_ok ns n" "parts_ok cs" "cstr (nd_path n) = path_of cs" "slot_of ns cs = None"
  shows "fs_view (ns[i := n]) = (fs_view ns)(cs \<mapsto> entry_of n)"
proof
  fix ds
  have wf: "fs_wf (ns[i := n])" using fs_wf_fill assms by blast
  have "slot_of ns ds \<noteq> Some i" using assms(4) by (auto simp: slot_of_Some_iff [OF assms(1)])
  moreover have "parts_ok ds \<and> cstr (nd_path n) = path_of ds \<longleftrightarrow> ds = cs"
    using assms(8,9) path_of_inject by auto
  ultimately show "fs_view (ns[i := n]) ds = ((fs_view ns)(cs \<mapsto> entry_of n)) ds"
    using fs_view_update [OF assms(1) wf assms(3), of ds] assms(5) by simp
qed

text \<open>Freeing a slot without children.\<close>

lemma of_nat_slot_eq:
  "p < FS_MAX_FILES \<Longrightarrow> q < FS_MAX_FILES \<Longrightarrow> (of_nat p :: 32 word) = of_nat q \<longleftrightarrow> p = q"
  by (simp add: of_nat_inverse FS_MAX_FILES_def word_of_nat_eq_iff take_bit_eq_mod)

lemma fs_wf_clear:
  assumes "fs_wf ns" "0 < i" "i < FS_MAX_FILES" "\<not> nd_live n" "node_shape n"
    and childless: "\<And>j. j < FS_MAX_FILES \<Longrightarrow> nd_live (ns ! j) \<Longrightarrow> nd_parent (ns ! j) \<noteq> of_nat i"
  shows "fs_wf (ns[i := n])"
proof -
  have len: "length ns = FS_MAX_FILES" using assms(1) by (rule fs_wf_length)
  have "names_distinct nd_live nd_path (ns[i := n])"
    using assms(4) by (intro names_distinct_update [OF fs_wf_distinct [OF assms(1)]]) simp
  moreover have "\<forall>m \<in> set (ns[i := n]). node_shape m"
    using assms(1,5) by (auto simp: fs_wf_def dest!: set_update_subset_insert [THEN subsetD])
  moreover have "entry_ok (ns[i := n]) (ns[i := n] ! j)"
    if j: "0 < j" "j < FS_MAX_FILES" "nd_live (ns[i := n] ! j)" for j
  proof -
    have "j \<noteq> i" using j assms(4) len by auto
    then have live: "nd_live (ns ! j)" "ns[i := n] ! j = ns ! j" using j by simp_all
    have "dir_slot (ns[i := n]) p cs" if "nd_parent (ns ! j) = of_nat p" "dir_slot ns p cs" for p cs
      using that childless [OF j(2) live(1)] by (intro dir_slot_update) auto
    then show ?thesis
      using entry_ok_transfer [OF fs_wf_entry [OF assms(1) j(1,2) live(1)]] live(2) by simp
  qed
  ultimately show ?thesis
    using assms(1-3) len by (auto simp: fs_wf_def)
qed

lemma fs_view_clear:
  assumes "fs_wf ns" "fs_wf (ns[i := n])" "i < FS_MAX_FILES" "\<not> nd_live n" "slot_of ns cs = Some i"
  shows "fs_view (ns[i := n]) = (fs_view ns)(cs := None)"
proof
  fix ds
  have "slot_of ns ds = Some i \<longleftrightarrow> ds = cs"
    using assms(5) path_of_inject by (auto simp: slot_of_Some_iff [OF assms(1)])
  then show "fs_view (ns[i := n]) ds = ((fs_view ns)(cs := None)) ds"
    using fs_view_update [OF assms(1-3), of ds] assms(4) by simp
qed

text \<open>New content in a file's slot.\<close>

definition same_place :: "fs_node \<Rightarrow> fs_node \<Rightarrow> bool" where
  "same_place n m \<longleftrightarrow> nd_live n = nd_live m \<and> nd_type n = nd_type m \<and> nd_parent n = nd_parent m \<and>
     nd_path n = nd_path m \<and> nd_name n = nd_name m"

lemma fs_wf_content:
  assumes "fs_wf ns" "0 < i" "i < FS_MAX_FILES" "same_place (ns ! i) n" "node_shape n"
    and "unat (nd_size n) \<le> FS_MAX_FILE_SIZE"
  shows "fs_wf (ns[i := n])"
proof -
  have len: "length ns = FS_MAX_FILES" using assms(1) by (rule fs_wf_length)
  have "nd_live (ns[i := n] ! j) = nd_live (ns ! j) \<and> nd_path (ns[i := n] ! j) = nd_path (ns ! j)" for j
    using assms(3,4) len by (cases "j = i") (auto simp: same_place_def)
  then have "names_distinct nd_live nd_path (ns[i := n])"
    using fs_wf_distinct [OF assms(1)] unfolding names_distinct_def by simp
  moreover have "\<forall>m \<in> set (ns[i := n]). node_shape m"
    using assms(1,5) by (auto simp: fs_wf_def dest!: set_update_subset_insert [THEN subsetD])
  moreover have keep: "dir_slot ns p ds \<Longrightarrow> dir_slot (ns[i := n]) p ds" for p ds
    using assms(4) by (intro dir_slot_update) (auto simp: dir_slot_def same_place_def)
  moreover have "entry_ok (ns[i := n]) (ns[i := n] ! j)"
    if j: "0 < j" "j < FS_MAX_FILES" "nd_live (ns[i := n] ! j)" for j
  proof -
    have live: "nd_live (ns ! j)"
      using j assms(4) len by (cases "j = i") (auto simp: same_place_def)
    have "entry_ok (ns[i := n]) (ns ! j)"
      using entry_ok_transfer [OF fs_wf_entry [OF assms(1) j(1,2) live] keep] .
    then show ?thesis
      using assms(4,6) len j by (cases "j = i") (auto simp: entry_ok_def same_place_def)
  qed
  ultimately show ?thesis
    using assms(1-3) len by (auto simp: fs_wf_def)
qed

lemma fs_view_content:
  assumes "fs_wf ns" "0 < i" "i < FS_MAX_FILES" "same_place (ns ! i) n" "node_shape n"
    and "unat (nd_size n) \<le> FS_MAX_FILE_SIZE" "slot_of ns cs = Some i"
  shows "fs_view (ns[i := n]) = (fs_view ns)(cs \<mapsto> entry_of n)"
proof
  fix ds
  have wf: "fs_wf (ns[i := n])" by (rule fs_wf_content [OF assms(1-6)])
  have "slot_of ns ds = Some i \<longleftrightarrow> ds = cs"
    and "nd_live n \<and> parts_ok ds \<and> cstr (nd_path n) = path_of ds \<longleftrightarrow> ds = cs"
    using assms(3,4,7) path_of_inject by (auto simp: slot_of_Some_iff [OF assms(1)] same_place_def)
  then show "fs_view (ns[i := n]) ds = ((fs_view ns)(cs \<mapsto> entry_of n)) ds"
    using fs_view_update [OF assms(1) wf assms(3), of ds] by simp
qed

end
