(* ===== verification/Fs_Disk.thy ===== *)
theory Fs_Disk
  imports Fs_Tree
begin

unbundle bit_operations_syntax

section \<open>The filesystem on disk\<close>

text \<open>
  What kernel/filesystem.c stores: the codec of 32-bit words, nodes and the node table, the header
  sector, and \<open>fs_disk_save\<close> and \<open>fs_disk_load\<close> as clients of the sector disk of \<open>Kernel_Disk\<close>.
  The table fills 1068 sectors exactly, so the last chunk of the loops is never partial.
\<close>

subsection \<open>Words\<close>

lemma byte_of_word: "(ucast (v AND 0xFF) :: byte) = ucast v" for v :: "32 word"
  by (rule bit_word_eqI) (auto simp: mask8 bit_simps)

lemma u32_roundtrip: "u32_of_bytes (u32_bytes v @ bs) = v"
proof (rule bit_word_eqI)
  fix n assume n: "n < LENGTH(32)"
  have "bit (u32_of_bytes (u32_bytes v @ bs)) n \<longleftrightarrow>
      (n < 8 \<and> bit v n) \<or> (8 \<le> n \<and> n - 8 < 8 \<and> bit v n) \<or> (16 \<le> n \<and> n - 16 < 8 \<and> bit v n) \<or>
      (24 \<le> n \<and> n - 24 < 8 \<and> bit v n)"
    using n by (auto simp: u32_of_bytes_def u32_bytes_def bit_simps)
  also have "\<dots> \<longleftrightarrow> bit v n" using n by auto
  finally show "bit (u32_of_bytes (u32_bytes v @ bs)) n = bit v n" .
qed

lemma length_u32_bytes [simp]: "length (u32_bytes v) = 4"
  by (simp add: u32_bytes_def)

lemma write_u32_eq:
  assumes "off + 4 \<le> length buf"
  shows "write_u32 buf off v = Some (take off buf @ u32_bytes v @ drop (off + 4) buf)"
proof -
  have "buf[off := a, off + 1 := b, off + 2 := c, off + 3 := e] =
      take off buf @ [a, b, c, e] @ drop (off + 4) buf" for a b c e
  proof (rule nth_equalityI)
    show "length (buf[off := a, off + 1 := b, off + 2 := c, off + 3 := e]) =
        length (take off buf @ [a, b, c, e] @ drop (off + 4) buf)"
      using assms by simp
    fix i assume "i < length (buf[off := a, off + 1 := b, off + 2 := c, off + 3 := e])"
    then have i: "i < length buf" by simp
    consider "i < off" | "i = off" | "i = off + 1" | "i = off + 2" | "i = off + 3" | "off + 4 \<le> i"
      by linarith
    then show "buf[off := a, off + 1 := b, off + 2 := c, off + 3 := e] ! i =
        (take off buf @ [a, b, c, e] @ drop (off + 4) buf) ! i"
    proof cases
      case 6
      then obtain j where "i = off + 4 + j" using le_Suc_ex by blast
      then show ?thesis using assms i by (simp add: nth_append)
    qed (use assms in \<open>simp_all add: nth_append\<close>)
  qed
  then show ?thesis
    using assms by (simp add: write_u32_def u32_bytes_def byte_of_word)
qed

lemma read_u32_eq:
  assumes "off + 4 \<le> length buf"
  shows "read_u32 buf off = Some (u32_of_bytes (drop off buf))"
  using assms by (simp add: read_u32_def u32_of_bytes_def)

subsection \<open>Nodes\<close>

lemma node_roundtrip:
  assumes "node_shape n"
  shows "node_of_bytes (node_bytes n) = n"
proof -
  have l: "length (nd_name n) = 32" "length (nd_path n) = 128" "length (nd_data n) = 4096"
    using assms by (simp_all add: node_shape_def FS_MAX_NAME_def FS_MAX_PATH_def FS_MAX_FILE_SIZE_def)
  have "take 32 (node_bytes n) = nd_name n" "take 128 (drop 32 (node_bytes n)) = nd_path n"
    and "drop 160 (node_bytes n) = u32_bytes (nd_type n) @ u32_bytes (nd_parent n) @
     u32_bytes (nd_size n) @ nd_data n @ u32_bytes (nd_used n)"
    and "drop 164 (node_bytes n) = u32_bytes (nd_parent n) @
     u32_bytes (nd_size n) @ nd_data n @ u32_bytes (nd_used n)"
    and "drop 168 (node_bytes n) = u32_bytes (nd_size n) @ nd_data n @ u32_bytes (nd_used n)"
    and "drop 172 (node_bytes n) = nd_data n @ u32_bytes (nd_used n)"
    and "drop 4268 (node_bytes n) = u32_bytes (nd_used n) @ []"
    using l by (simp_all add: node_bytes_def)
  then show ?thesis
    using l u32_roundtrip [of "nd_used n" "[]"] by (simp add: node_of_bytes_def u32_roundtrip)
qed

lemma length_node_bytes: "node_shape n \<Longrightarrow> length (node_bytes n) = NODE_BYTES"
  by (simp add: node_bytes_def node_shape_def NODE_BYTES_def FS_MAX_NAME_def FS_MAX_PATH_def
      FS_MAX_FILE_SIZE_def)

lemma length_raw_of_nodes:
  "\<forall>n \<in> set ns. node_shape n \<Longrightarrow> length (raw_of_nodes ns) = length ns * NODE_BYTES"
  by (induction ns) (simp_all add: raw_of_nodes_def length_node_bytes)

lemma nodes_roundtrip:
  "\<forall>n \<in> set ns. node_shape n \<Longrightarrow> nodes_of_raw (length ns) (raw_of_nodes ns) = ns"
  by (induction ns) (simp_all add: raw_of_nodes_def length_node_bytes node_roundtrip)

lemma node_of_bytes_shape: "length bs = NODE_BYTES \<Longrightarrow> node_shape (node_of_bytes bs)"
  by (simp add: node_shape_def node_of_bytes_def NODE_BYTES_def FS_MAX_NAME_def FS_MAX_PATH_def
      FS_MAX_FILE_SIZE_def)

lemma nodes_of_raw_shape:
  "length raw = m * NODE_BYTES \<Longrightarrow>
     length (nodes_of_raw m raw) = m \<and> (\<forall>n \<in> set (nodes_of_raw m raw). node_shape n)"
proof (induction m arbitrary: raw)
  case 0 then show ?case by simp
next
  case (Suc m)
  then have l: "length (drop NODE_BYTES raw) = m * NODE_BYTES" "length (take NODE_BYTES raw) = NODE_BYTES"
    by simp_all
  show ?case using Suc.IH [OF l(1)] node_of_bytes_shape [OF l(2)] by auto
qed

definition RAW_BYTES :: nat where "RAW_BYTES = 546816"

lemma raw_bytes_eq: "FS_MAX_FILES * NODE_BYTES = RAW_BYTES" "unat FS_DISK_BYTES = RAW_BYTES"
    "unat FS_DISK_DATA_SECTORS = 1068"
  by (simp_all add: FS_MAX_FILES_def NODE_BYTES_def RAW_BYTES_def FS_DISK_BYTES_def
      FS_DISK_DATA_SECTORS_def)

lemma length_raw_wf: "fs_wf ns \<Longrightarrow> length (raw_of_nodes ns) = RAW_BYTES"
  using length_raw_of_nodes [of ns] raw_bytes_eq(1) by (simp add: fs_wf_def)

subsection \<open>The header\<close>

definition header_image :: cbuf where
  "header_image = FS_DISK_MAGIC @ u32_bytes FS_DISK_VERSION @ u32_bytes FS_DISK_BYTES @
     u32_bytes (of_nat FS_MAX_FILES) @ u32_bytes (of_nat FS_MAX_FILE_SIZE) @ replicate 488 0"

lemma length_magic [simp]: "length FS_DISK_MAGIC = 8"
  by (simp add: FS_DISK_MAGIC_def bytes_of_def)

lemma length_header_image [simp]: "length header_image = 512"
  by (simp add: header_image_def)

lemma disk_header_eq: "disk_header = Some header_image"
  by (simp add: disk_header_def kmemset_eq kmemcpy_eq write_u32_eq header_image_def)

lemma header_matches_image: "header_matches header_image = Some True"
proof -
  have "drop 8 header_image = u32_bytes FS_DISK_VERSION @ u32_bytes FS_DISK_BYTES @
      u32_bytes (of_nat FS_MAX_FILES) @ u32_bytes (of_nat FS_MAX_FILE_SIZE) @ replicate 488 0"
    and "drop 12 header_image = u32_bytes FS_DISK_BYTES @
      u32_bytes (of_nat FS_MAX_FILES) @ u32_bytes (of_nat FS_MAX_FILE_SIZE) @ replicate 488 0"
    and "drop 16 header_image =
      u32_bytes (of_nat FS_MAX_FILES) @ u32_bytes (of_nat FS_MAX_FILE_SIZE) @ replicate 488 0"
    and "drop 20 header_image = u32_bytes (of_nat FS_MAX_FILE_SIZE) @ replicate 488 0"
    and "take 8 header_image = FS_DISK_MAGIC"
    by (simp_all add: header_image_def)
  then show ?thesis
    by (simp add: header_matches_def read_u32_eq u32_roundtrip)
qed

lemma header_matches_total: "length s = 512 \<Longrightarrow> \<exists>b. header_matches s = Some b"
  by (simp add: header_matches_def read_u32_eq)

subsection \<open>The loops over the sectors\<close>

text \<open>Sector \<open>s\<close> holds the bytes \<open>512 * s .. 512 * s + 511\<close>, and the chunk is always full.\<close>

lemma sector_window:
  assumes "unat (s :: 32 word) < 1068"
  shows "unat (s * 512) = unat s * 512"
    and "(if FS_DISK_BYTES - s * 512 < 512 then FS_DISK_BYTES - s * 512 else 512) = (512 :: 32 word)"
    and "unat (FS_DISK_START_LBA + 1 + s) = 2049 + unat s"
    and "unat (s + 1) = unat s + 1"
proof -
  show off: "unat (s * 512) = unat s * 512"
    using assms by (subst unat_mult_lem [THEN iffD1]) simp_all
  have le: "s * 512 \<le> FS_DISK_BYTES"
    using off assms raw_bytes_eq(2) by (simp add: word_le_nat_alt RAW_BYTES_def)
  have "unat (FS_DISK_BYTES - s * 512) = RAW_BYTES - unat s * 512"
    using unat_sub [OF le] off raw_bytes_eq(2) by simp
  moreover have "512 \<le> RAW_BYTES - unat s * 512"
    using assms unfolding RAW_BYTES_def by linarith
  ultimately show "(if FS_DISK_BYTES - s * 512 < 512 then FS_DISK_BYTES - s * 512 else 512) = (512 :: 32 word)"
    by (simp add: word_less_nat_alt)
  show "unat (FS_DISK_START_LBA + 1 + s) = 2049 + unat s"
    using assms by (simp add: FS_DISK_START_LBA_def unat_word_ariths)
  show "unat (s + 1) = unat s + 1"
    using assms by (simp add: unat_word_ariths)
qed

definition chunk_of :: "byte list \<Rightarrow> nat \<Rightarrow> byte list" where
  "chunk_of raw i = take 512 (drop (i * 512) raw)"

lemma length_chunk: "length raw = RAW_BYTES \<Longrightarrow> i < 1068 \<Longrightarrow> length (chunk_of raw i) = 512"
  by (simp add: chunk_of_def RAW_BYTES_def)

declare save_loop.simps(2) [simp del] load_loop.simps(2) [simp del]

lemma save_loop_step:
  assumes "unat s < 1068" "length raw = RAW_BYTES"
  shows "save_loop w raw s (Suc n) d = do {
     (ok, d') \<leftarrow> w (FS_DISK_START_LBA + 1 + s) (chunk_of raw (unat s)) d;
     (if \<not> ok then Some (False, d') else save_loop w raw (s + 1) n d') }"
proof -
  have "unat s * 512 + 512 \<le> RAW_BYTES" using assms(1) by (simp add: RAW_BYTES_def)
  then have "kmemcpy (replicate 512 0) (drop (unat s * 512) raw) 512 = Some (chunk_of raw (unat s))"
    using assms(2) by (simp add: kmemcpy_eq chunk_of_def)
  then show ?thesis
    using assms(1) by (simp add: save_loop.simps(2) sector_window kmemset_eq Let_def)
qed

lemma load_loop_step:
  assumes "unat s < 1068" "length raw = RAW_BYTES"
    and "\<And>ok sec d'. r (FS_DISK_START_LBA + 1 + s) sector d = Some (ok, sec, d') \<Longrightarrow> length sec = 512"
  shows "load_loop r raw sector s (Suc n) d = do {
     (ok, sec, d') \<leftarrow> r (FS_DISK_START_LBA + 1 + s) sector d;
     (if \<not> ok then Some (False, raw, d')
      else load_loop r (take (unat s * 512) raw @ sec @ drop (unat s * 512 + 512) raw) sec (s + 1) n d') }"
proof -
  have "unat s * 512 + 512 \<le> RAW_BYTES" using assms(1) by (simp add: RAW_BYTES_def)
  then have "length sec = 512 \<Longrightarrow> kmemcpy (drop (unat s * 512) raw) sec 512 =
      Some (sec @ drop (unat s * 512 + 512) raw)" for sec
    using assms(2) by (simp add: kmemcpy_eq add.commute)
  then show ?thesis
    using assms(1,3)
    by (cases "r (FS_DISK_START_LBA + 1 + s) sector d")
      (auto simp: load_loop.simps(2) sector_window Let_def)
qed

text \<open>Whatever the disk does, the loops end.\<close>

lemma save_loop_total:
  assumes "\<And>lba buf d. length buf = 512 \<Longrightarrow> \<exists>ok d'. w lba buf d = Some (ok, d')"
    and "length raw = RAW_BYTES"
  shows "unat s + n \<le> 1068 \<Longrightarrow> \<exists>ok d'. save_loop w raw s n d = Some (ok, d')"
proof (induction n arbitrary: s d)
  case 0 then show ?case by auto
next
  case (Suc n)
  then have s: "unat s < 1068" by simp
  obtain ok d' where "w (FS_DISK_START_LBA + 1 + s) (chunk_of raw (unat s)) d = Some (ok, d')"
    using assms(1) length_chunk [OF assms(2) s] by blast
  then show ?case
    using Suc s by (cases ok) (auto simp: save_loop_step assms(2) sector_window)
qed

lemma load_loop_total:
  assumes "\<And>lba buf d. length buf = 512 \<Longrightarrow>
      \<exists>ok buf' d'. r lba buf d = Some (ok, buf', d') \<and> length buf' = 512"
  shows "unat s + n \<le> 1068 \<Longrightarrow> length raw = RAW_BYTES \<Longrightarrow> length sector = 512 \<Longrightarrow>
    \<exists>ok raw' d'. load_loop r raw sector s n d = Some (ok, raw', d') \<and> length raw' = RAW_BYTES"
proof (induction n arbitrary: s d raw sector)
  case 0 then show ?case by auto
next
  case (Suc n)
  then have s: "unat s < 1068" by simp
  obtain ok sec d' where r: "r (FS_DISK_START_LBA + 1 + s) sector d = Some (ok, sec, d')" "length sec = 512"
    using assms(1) Suc.prems(3) by blast
  let ?raw = "take (unat s * 512) raw @ sec @ drop (unat s * 512 + 512) raw"
  have "length ?raw = RAW_BYTES"
    using s r(2) Suc.prems(2) by (simp add: RAW_BYTES_def)
  moreover have "load_loop r raw sector s (Suc n) d =
      (if \<not> ok then Some (False, raw, d') else load_loop r ?raw sec (s + 1) n d')"
    using load_loop_step [OF s Suc.prems(2), of r sector d n] r by simp
  ultimately show ?case
    using Suc.IH [of "s + 1" ?raw sec d'] Suc.prems s r(2) by (cases ok) (auto simp: sector_window)
qed

text \<open>On a disk of sectors the save writes the table behind the header, and the load reads it.\<close>

definition image_at :: "(nat \<Rightarrow> byte list) \<Rightarrow> byte list \<Rightarrow> bool" where
  "image_at content raw \<longleftrightarrow> content 2048 = header_image \<and> (\<forall>i < 1068. content (2049 + i) = chunk_of raw i)"

context sector_disk
begin

lemma save_loop_ok:
  assumes "length raw = RAW_BYTES" "3117 \<le> capacity"
  shows "unat s + n \<le> 1068 \<Longrightarrow> ready d \<Longrightarrow>
    \<exists>d'. save_loop write_sector raw s n d = Some (True, d') \<and> ready d' \<and>
      (\<forall>lba. content d' lba = (if 2049 + unat s \<le> lba \<and> lba < 2049 + unat s + n
         then chunk_of raw (lba - 2049) else content d lba))"
proof (induction n arbitrary: s d)
  case 0 then show ?case by auto
next
  case (Suc n)
  then have s: "unat s < 1068" by simp
  obtain d1 where d1: "write_sector (FS_DISK_START_LBA + 1 + s) (chunk_of raw (unat s)) d = Some (True, d1)"
    "ready d1" "content d1 = (content d)(2049 + unat s := chunk_of raw (unat s))"
    using write_law [OF Suc.prems(2), of "FS_DISK_START_LBA + 1 + s" "chunk_of raw (unat s)"]
      length_chunk [OF assms(1) s] assms(2) s sector_window(3) [OF s] by auto
  have "unat (s + 1) + n \<le> 1068" using Suc.prems(1) sector_window(4) [OF s] by simp
  from Suc.IH [OF this d1(2)] obtain d2 where d2:
    "save_loop write_sector raw (s + 1) n d1 = Some (True, d2)" "ready d2"
    "\<And>lba. content d2 lba = (if 2049 + unat s + 1 \<le> lba \<and> lba < 2049 + unat s + 1 + n
       then chunk_of raw (lba - 2049) else content d1 lba)"
    unfolding sector_window(4) [OF s] by (auto simp: add.assoc)
  have "save_loop write_sector raw s (Suc n) d = Some (True, d2)"
    using d1(1) d2(1) by (simp add: save_loop_step [OF s assms(1)])
  moreover have "content d2 lba = (if 2049 + unat s \<le> lba \<and> lba < 2049 + unat s + Suc n
         then chunk_of raw (lba - 2049) else content d lba)" for lba
    using d2(3) [of lba] d1(3) by (cases "lba = 2049 + unat s") auto
  ultimately show ?case using d2(2) by auto
qed

lemma load_loop_ok:
  assumes "length img = RAW_BYTES" "3117 \<le> capacity"
  shows "unat s + n = 1068 \<Longrightarrow> ready d \<Longrightarrow> length raw = RAW_BYTES \<Longrightarrow> length sector = 512 \<Longrightarrow>
    (\<forall>i < 1068. content d (2049 + i) = chunk_of img i) \<Longrightarrow>
    take (unat s * 512) raw = take (unat s * 512) img \<Longrightarrow>
    \<exists>d'. load_loop read_sector raw sector s n d = Some (True, img, d') \<and> ready d' \<and> content d' = content d"
proof (induction n arbitrary: s d raw sector)
  case 0
  then show ?case using assms(1) by (simp add: RAW_BYTES_def)
next
  case (Suc n)
  then have s: "unat s < 1068" by simp
  have chunk: "content d (2049 + unat s) = chunk_of img (unat s)" using Suc.prems(5) s by blast
  have lba: "unat (FS_DISK_START_LBA + 1 + s) < capacity"
    using assms(2) s sector_window(3) [OF s] by simp
  obtain d1 where d1: "read_sector (FS_DISK_START_LBA + 1 + s) sector d = Some (True, chunk_of img (unat s), d1)"
    "ready d1" "content d1 = content d"
    using read_law [OF Suc.prems(2) lba Suc.prems(4)] chunk sector_window(3) [OF s] by auto
  let ?raw = "take (unat s * 512) raw @ chunk_of img (unat s) @ drop (unat s * 512 + 512) raw"
  have len: "length (chunk_of img (unat s)) = 512" by (rule length_chunk [OF assms(1) s])
  have step: "load_loop read_sector raw sector s (Suc n) d =
      load_loop read_sector ?raw (chunk_of img (unat s)) (s + 1) n d1"
    using load_loop_step [OF s Suc.prems(3), of read_sector sector d n] d1(1) len by simp
  have "length ?raw = RAW_BYTES"
    using s len Suc.prems(3) by (simp add: RAW_BYTES_def)
  moreover have "take (unat (s + 1) * 512) ?raw = take (unat (s + 1) * 512) img"
  proof -
    have "unat s * 512 \<le> length raw" using Suc.prems(3) s by (simp add: RAW_BYTES_def)
    then have "take (unat s * 512 + 512) ?raw = take (unat s * 512) raw @ chunk_of img (unat s)"
      using len by simp
    also have "\<dots> = take (unat s * 512 + 512) img"
      using Suc.prems(6) by (simp add: chunk_of_def take_add)
    finally show ?thesis using sector_window(4) [OF s] by (simp add: add.commute)
  qed
  moreover have "unat (s + 1) + n = 1068" using Suc.prems(1) sector_window(4) [OF s] by simp
  ultimately show ?case
    using Suc.IH [OF _ d1(2) _ len, of "s + 1" ?raw] Suc.prems(5) d1(3) step by simp
qed

end

subsection \<open>Saving and loading the filesystem\<close>

definition table_shape :: "fs_node list \<Rightarrow> bool" where
  "table_shape ns \<longleftrightarrow> length ns = FS_MAX_FILES \<and> (\<forall>n \<in> set ns. node_shape n)"

lemma fs_wf_table_shape: "fs_wf ns \<Longrightarrow> table_shape ns"
  by (simp add: fs_wf_def table_shape_def)

lemma length_raw_shape: "table_shape ns \<Longrightarrow> length (raw_of_nodes ns) = RAW_BYTES"
  using length_raw_of_nodes [of ns] raw_bytes_eq(1) by (simp add: table_shape_def)

lemma table_shape_of_raw: "length raw = RAW_BYTES \<Longrightarrow> table_shape (nodes_of_raw FS_MAX_FILES raw)"
  using nodes_of_raw_shape [of raw FS_MAX_FILES] raw_bytes_eq(1) by (simp add: table_shape_def)

lemma nodes_raw_roundtrip: "table_shape ns \<Longrightarrow> nodes_of_raw FS_MAX_FILES (raw_of_nodes ns) = ns"
  using nodes_roundtrip [of ns] by (simp add: table_shape_def)

text \<open>On any device: a save returns 0 or 1 and changes only the device and, when it succeeds, the
  flag \<open>persistence_enabled\<close>.\<close>

lemma fs_disk_save_frame:
  assumes "table_shape (nodes k)"
  obtains r d p where "fs_disk_save hw k = Some (r, k\<lparr>k_dev := d, persistence_enabled := p\<rparr>)"
    "r = 0 \<and> p \<or> r = 1 \<and> p = persistence_enabled k"
proof (cases "disk_present (k_disk k)")
  case False
  then show ?thesis
    using that [where r = 1 and d = "k_dev k" and p = "persistence_enabled k"] by (simp add: fs_disk_save_def)
next
  case True
  have total: "\<exists>ok d'. disk_write_sector hw (k_disk k) lba buf d = Some (ok, d')"
    if "length buf = 512" for lba buf d
    using disk_write_sector_total [OF that, of hw "k_disk k" lba d] by blast
  obtain ok d1 where w1: "disk_write_sector hw (k_disk k) FS_DISK_START_LBA header_image (k_dev k) = Some (ok, d1)"
    using total [OF length_header_image, of FS_DISK_START_LBA "k_dev k"] by blast
  obtain ok2 d2 where w2: "save_loop (disk_write_sector hw (k_disk k)) (raw_of_nodes (nodes k)) 0 1068 d1 =
      Some (ok2, d2)"
    using save_loop_total [of "disk_write_sector hw (k_disk k)" "raw_of_nodes (nodes k)" 0 1068 d1]
      total length_raw_shape [OF assms] by auto
  have run: "fs_disk_save hw k = (if \<not> ok then Some (1, k\<lparr>k_dev := d1\<rparr>)
      else if \<not> ok2 then Some (1, k\<lparr>k_dev := d2\<rparr>)
      else Some (0, k\<lparr>k_dev := d2, persistence_enabled := True\<rparr>))"
    using True w1 w2 by (simp add: fs_disk_save_def disk_header_eq raw_bytes_eq(3))
  show ?thesis
  proof (cases "ok \<and> ok2")
    case True
    then have "fs_disk_save hw k = Some (0, k\<lparr>k_dev := d2, persistence_enabled := True\<rparr>)"
      using run by simp
    then show ?thesis by (rule that) simp
  next
    case False
    then have "fs_disk_save hw k =
        Some (1, k\<lparr>k_dev := if ok then d2 else d1, persistence_enabled := persistence_enabled k\<rparr>)"
      using run by auto
    then show ?thesis by (rule that) simp
  qed
qed

lemma persist_frame:
  assumes "table_shape (nodes k)"
  obtains d where "persist_if_enabled hw k = Some (k\<lparr>k_dev := d\<rparr>)"
    "fs_booting k \<or> \<not> persistence_enabled k \<longrightarrow> d = k_dev k"
proof (cases "\<not> fs_booting k \<and> persistence_enabled k")
  case True
  obtain d p r where s: "fs_disk_save hw k = Some (r, k\<lparr>k_dev := d, persistence_enabled := p\<rparr>)"
    "r = 0 \<and> p \<or> r = 1 \<and> p = persistence_enabled k"
    using fs_disk_save_frame [OF assms] by metis
  then have "k\<lparr>k_dev := d, persistence_enabled := p\<rparr> = k\<lparr>k_dev := d\<rparr>"
    using True by (cases k) auto
  then show ?thesis using that [of d] True s(1) by (simp add: persist_if_enabled_def)
next
  case False
  then have "persist_if_enabled hw k = Some (k\<lparr>k_dev := k_dev k\<rparr>)"
    by (auto simp: persist_if_enabled_def)
  then show ?thesis by (rule that) simp
qed

text \<open>On a tolerant drive that has the 3117 sectors the layout needs.\<close>

lemma disk_save_ok:
  assumes "tolerant_drive hw view capacity" "3117 \<le> capacity"
    and "has_disk (k_disk k)" "drive_ready view (k_dev k)" "table_shape (nodes k)"
  shows "\<exists>d. fs_disk_save hw k = Some (0, k\<lparr>k_dev := d, persistence_enabled := True\<rparr>) \<and>
     drive_ready view d \<and> image_at (drive_sector view d) (raw_of_nodes (nodes k)) \<and>
     (\<forall>lba. lba < 2048 \<or> 3117 \<le> lba \<longrightarrow> drive_sector view d lba = drive_sector view (k_dev k) lba)"
proof -
  note drive = tolerant_drive.drive_disk [OF assms(1)]
  note w = disk_online_cong(2) [OF assms(3), of hw]
  have start: "unat FS_DISK_START_LBA = 2048" by (simp add: FS_DISK_START_LBA_def)
  obtain d1 where d1: "disk_write_sector hw disk_online FS_DISK_START_LBA header_image (k_dev k) = Some (True, d1)"
    "drive_ready view d1" "drive_sector view d1 = (drive_sector view (k_dev k))(2048 := header_image)"
    using sector_disk.write_law [OF drive assms(4), of FS_DISK_START_LBA header_image] start assms(2) by auto
  obtain d2 where d2: "save_loop (disk_write_sector hw disk_online) (raw_of_nodes (nodes k)) 0 1068 d1 = Some (True, d2)"
    "drive_ready view d2"
    "\<And>lba. drive_sector view d2 lba = (if 2049 \<le> lba \<and> lba < 3117
       then chunk_of (raw_of_nodes (nodes k)) (lba - 2049) else drive_sector view d1 lba)"
    using sector_disk.save_loop_ok [OF drive length_raw_shape [OF assms(5)] assms(2), of 0 1068 d1] d1(2) by auto
  have "fs_disk_save hw k = Some (0, k\<lparr>k_dev := d2, persistence_enabled := True\<rparr>)"
    using assms(3) d1(1) d2(1)
    by (simp add: fs_disk_save_def disk_present_def disk_header_eq raw_bytes_eq(3) w)
  moreover have "image_at (drive_sector view d2) (raw_of_nodes (nodes k))"
    by (simp add: image_at_def d2(3) d1(3))
  moreover have "\<forall>lba. lba < 2048 \<or> 3117 \<le> lba \<longrightarrow> drive_sector view d2 lba = drive_sector view (k_dev k) lba"
    by (auto simp: d2(3) d1(3))
  ultimately show ?thesis using d2(2) by blast
qed

lemma disk_load_ok:
  assumes "tolerant_drive hw view capacity" "3117 \<le> capacity"
    and "has_disk (k_disk k)" "drive_ready view (k_dev k)" "table_shape (nodes k)"
    and "1 < length (current_dir k)" "table_shape ns"
    and "image_at (drive_sector view (k_dev k)) (raw_of_nodes ns)"
  shows "\<exists>d. fs_disk_load hw k = Some (0, k\<lparr>k_dev := d, nodes := ns,
       current_dir := slash # 0 # drop 2 (current_dir k), persistence_enabled := True\<rparr>) \<and>
     drive_ready view d \<and> drive_sector view d = drive_sector view (k_dev k)"
proof -
  note drive = tolerant_drive.drive_disk [OF assms(1)]
  note r = disk_online_cong(1) [OF assms(3), of hw]
  have start: "unat FS_DISK_START_LBA = 2048" by (simp add: FS_DISK_START_LBA_def)
  obtain d1 where d1: "disk_read_sector hw disk_online FS_DISK_START_LBA (fresh 512) (k_dev k) =
      Some (True, header_image, d1)" "drive_ready view d1"
    "drive_sector view d1 = drive_sector view (k_dev k)"
    using sector_disk.read_law [OF drive assms(4), of FS_DISK_START_LBA "fresh 512"] start assms(2,8)
    by (auto simp: image_at_def)
  obtain d2 where d2: "load_loop (disk_read_sector hw disk_online) (raw_of_nodes (nodes k)) header_image 0 1068 d1 =
      Some (True, raw_of_nodes ns, d2)" "drive_ready view d2" "drive_sector view d2 = drive_sector view d1"
    using sector_disk.load_loop_ok [OF drive length_raw_shape [OF assms(7)] assms(2), of 0 1068 d1
        "raw_of_nodes (nodes k)" header_image] d1(2,3) assms(8) length_raw_shape [OF assms(5)]
    by (auto simp: image_at_def)
  have "str_copy (current_dir k) (Some (lit ''/'')) = Some (slash # 0 # drop 2 (current_dir k))"
    using assms(6) by (simp add: str_copy_eq put_str_def numeral_2_eq_2)
  then have "fs_disk_load hw k = Some (0, k\<lparr>k_dev := d2, nodes := ns,
      current_dir := slash # 0 # drop 2 (current_dir k), persistence_enabled := True\<rparr>)"
    using assms(3) d1(1) d2(1)
    by (simp add: fs_disk_load_def disk_present_def header_matches_image raw_bytes_eq(3) r
        nodes_raw_roundtrip [OF assms(7)])
  then show ?thesis using d2(2,3) d1(3) by auto
qed

text \<open>Whatever the device holds or answers, the load ends, and when it reports a failure the table
  still has the right shape.\<close>

lemma fs_disk_load_total:
  assumes "table_shape (nodes k)" "1 < length (current_dir k)"
  shows "\<exists>r k'. fs_disk_load hw k = Some (r, k') \<and> table_shape (nodes k') \<and>
     length (current_dir k') = length (current_dir k) \<and> k_disk k' = k_disk k"
proof (cases "disk_present (k_disk k)")
  case False
  then show ?thesis using assms by (simp add: fs_disk_load_def)
next
  case True
  have total: "\<exists>ok buf' d'. disk_read_sector hw (k_disk k) lba buf d = Some (ok, buf', d') \<and> length buf' = 512"
    if "length buf = 512" for lba buf d
    using disk_read_sector_total [OF that, of hw "k_disk k" lba d] by blast
  obtain ok sector d1 where r1: "disk_read_sector hw (k_disk k) FS_DISK_START_LBA (fresh 512) (k_dev k) =
      Some (ok, sector, d1)" "length sector = 512"
    using total [OF length_fresh, of FS_DISK_START_LBA "k_dev k"] by blast
  obtain good where g: "header_matches sector = Some good" using header_matches_total [OF r1(2)] by blast
  obtain ok2 raw d2 where r2: "load_loop (disk_read_sector hw (k_disk k)) (raw_of_nodes (nodes k)) sector 0 1068 d1 =
      Some (ok2, raw, d2)" "length raw = RAW_BYTES"
    using load_loop_total [of "disk_read_sector hw (k_disk k)" 0 1068 "raw_of_nodes (nodes k)" sector d1]
      total length_raw_shape [OF assms(1)] r1(2) by auto
  have "\<exists>cwd. str_copy (current_dir k) (Some (lit ''/'')) = Some cwd \<and> length cwd = length (current_dir k)"
    using assms(2) by (simp add: str_copy_eq put_str_def)
  then obtain cwd where cwd: "str_copy (current_dir k) (Some (lit ''/'')) = Some cwd"
    "length cwd = length (current_dir k)" by blast
  have run: "fs_disk_load hw k = (if \<not> ok then Some (1, k\<lparr>k_dev := d1\<rparr>)
      else if \<not> good then Some (1, k\<lparr>k_dev := d1\<rparr>)
      else if \<not> ok2 then Some (1, k\<lparr>k_dev := d2, nodes := nodes_of_raw FS_MAX_FILES raw\<rparr>)
      else Some (0, k\<lparr>k_dev := d2, nodes := nodes_of_raw FS_MAX_FILES raw, current_dir := cwd,
        persistence_enabled := True\<rparr>))"
    using True r1(1) g r2(1) cwd(1)
    by (simp add: fs_disk_load_def raw_bytes_eq(3) Let_def)
  show ?thesis
    unfolding run using assms cwd(2) table_shape_of_raw [OF r2(2)]
    by (cases ok; cases good; cases ok2) simp_all
qed

end
