(* ===== verification/Fs_Ops.thy ===== *)
theory Fs_Ops
  imports Fs_Disk
begin

section \<open>The filesystem operations implement a tree\<close>

text \<open>
  For each operation of kernel/filesystem.c an operation on the abstract tree (\<open>tree_create\<close>,
  \<open>tree_write\<close>, ...) that gives the returned integer and the new tree, and the proof that the code
  refines it: from a well-formed state (\<open>fs_ok\<close>) and with a path that resolves, the call returns
  (no access outside an array), returns that integer, leaves a well-formed state whose tree is the
  new tree, and changes nothing but the terminal (which stays well-formed), the device and the node
  table (\<open>kept\<close>).  All
  this holds for every device behind the ports.
\<close>

subsection \<open>The state between two operations\<close>

definition fs_ok :: "'d kernel \<Rightarrow> bool" where
  "fs_ok k \<longleftrightarrow> fs_wf (nodes k) \<and> length (current_dir k) = FS_MAX_PATH \<and> terminated (current_dir k) \<and>
     (\<exists>cwd. comps_ok cwd \<and> cstr (current_dir k) = path_of cwd)"

definition kept :: "'d kernel \<Rightarrow> 'd kernel \<Rightarrow> bool" where
  "kept k k' \<longleftrightarrow> k_keys k' = k_keys k \<and> k_users k' = k_users k \<and> k_heap k' = k_heap k \<and> k_disk k' = k_disk k \<and>
     current_dir k' = current_dir k \<and> persistence_enabled k' = persistence_enabled k \<and>
     fs_booting k' = fs_booting k \<and>
     (fs_booting k \<or> \<not> persistence_enabled k \<longrightarrow> k_dev k' = k_dev k) \<and>
     (term_wf (k_term k) \<longrightarrow> term_wf (k_term k'))"

lemma kept_refl [simp]: "kept k k"
  by (simp add: kept_def)

lemma kept_trans: "kept k k1 \<Longrightarrow> kept k1 k2 \<Longrightarrow> kept k k2"
  by (simp add: kept_def)

text \<open>The components a path argument stands for, \<open>None\<close> when it overflows the arrays of
  \<open>fs_resolve_path\<close>.\<close>

definition target :: "'d kernel \<Rightarrow> cptr \<Rightarrow> byte list list option" where
  "target k path = resolve_comps (cstr (current_dir k)) (arg_str path)"

lemma fs_ok_wf: "fs_ok k \<Longrightarrow> fs_wf (nodes k)"
  by (simp add: fs_ok_def)

lemma fs_ok_cong:
  "fs_ok k \<Longrightarrow> kept k k' \<Longrightarrow> fs_wf (nodes k') \<Longrightarrow> fs_ok k'"
  by (simp add: fs_ok_def kept_def)

lemma target_cong: "kept k k' \<Longrightarrow> target k' path = target k path"
  by (simp add: target_def kept_def)

lemma target_comps: "arg_ok path \<Longrightarrow> target k path = Some cs \<Longrightarrow> comps_ok cs \<and> length (path_of cs) < 128"
proof -
  have "0 \<notin> set (arg_str path)" by (cases path) simp_all
  then show "target k path = Some cs \<Longrightarrow> ?thesis"
    using resolve_comps_ok zero_notin_cstr unfolding target_def by blast
qed

lemma target_ok: "arg_ok path \<Longrightarrow> target k path = Some cs \<Longrightarrow> parts_ok cs \<and> length (path_of cs) < 128"
  using target_comps comps_ok_parts by blast

text \<open>Messages.\<close>

definition shown :: "string \<Rightarrow> 'd kernel \<Rightarrow> 'd kernel" where
  "shown msg k = k\<lparr>k_term := io_print_char 0x0A (fold io_print_char (cstr (lit msg)) (k_term k))\<rparr>"

lemma say_eq: "say msg r k = Some (r, shown msg k)"
  by (simp add: say_def kprintln_def io_println_eq shown_def)

lemma shown_fields [simp]:
  "nodes (shown msg k) = nodes k" "kept k (shown msg k)" "k_dev (shown msg k) = k_dev k"
  "k_disk (shown msg k) = k_disk k" "current_dir (shown msg k) = current_dir k"
  by (simp_all add: shown_def kept_def term_wf_io_print_char term_wf_fold_print)

text \<open>The first lines of every operation.\<close>

lemma resolve_total:
  assumes "terminated (current_dir k)" "arg_ok path" "target k path = Some cs"
  obtains r where "resolve path k = Some r" "terminated r" "cstr r = path_of cs" "length r = 128"
proof -
  have cs: "parts_ok cs" "length (path_of cs) < 128" using target_ok [OF assms(2,3)] by auto
  have "resolve path k = put_str (fresh 128) (path_of cs)"
    using fs_resolve_path_eq [OF assms(1,2), of 128 "fresh 128"] assms(3) cs(2)
    by (simp add: resolve_def target_def FS_MAX_PATH_def)
  moreover obtain r where r: "put_str (fresh 128) (path_of cs) = Some r"
    using cs(2) by (simp add: put_str_def)
  moreover have "0 \<notin> set (path_of cs)" using path_of_zero [OF cs(1)] .
  ultimately show ?thesis
    using that [of r] put_str_terminated [OF r] put_str_cstr [OF r] put_str_length [OF r] by simp
qed

lemma resolve_eq:
  assumes "fs_ok k" "arg_ok path" "target k path = Some cs"
  obtains r where "resolve path k = Some r" "terminated r" "cstr r = path_of cs" "length r = 128"
proof -
  have "terminated (current_dir k)" using assms(1) by (simp add: fs_ok_def)
  from resolve_total [OF this assms(2,3)] that show ?thesis by blast
qed

lemma find_node_eq:
  assumes "fs_wf ns" "terminated r" "cstr r = path_of cs" "parts_ok cs"
  shows "find_node ns r = Some (index_or_minus1 (slot_of ns cs))"
  using fs_find [OF assms(1,2)] assms(3,4) by (simp add: slot_of_def)

lemma path_query:
  assumes "fs_ok k" "arg_ok path" "target k path = Some cs"
  obtains r where "resolve path k = Some r" "terminated r" "cstr r = path_of cs" "length r = 128"
    "find_node (nodes k) r = Some (index_or_minus1 (slot_of (nodes k) cs))"
  using resolve_eq [OF assms] find_node_eq [OF fs_ok_wf [OF assms(1)]] target_ok [OF assms(2,3)]
  by metis

lemma slot_of_bound: "fs_wf ns \<Longrightarrow> slot_of ns cs = Some i \<Longrightarrow> i < FS_MAX_FILES"
  by (simp add: slot_of_Some_iff)

lemma node_type_cases:
  assumes "fs_wf ns" "slot_of ns cs = Some i"
  shows "nd_type (ns ! i) = FS_FILE \<or> nd_type (ns ! i) = FS_DIR"
proof (cases "i = 0")
  case True
  then show ?thesis using fs_wf_root [OF assms(1)] by (simp add: root_node_def)
next
  case False
  then show ?thesis
    using fs_wf_entry [OF assms(1)] assms by (auto simp: entry_ok_def slot_of_Some_iff)
qed

lemma FS_FILE_not_DIR [simp]: "FS_FILE \<noteq> FS_DIR" "FS_DIR \<noteq> FS_FILE"
  by (simp_all add: FS_FILE_def FS_DIR_def)

lemma found_type_eq:
  assumes "fs_wf (nodes k)"
  shows "found_type (index_or_minus1 (slot_of (nodes k) cs)) FS_DIR k = Some (fs_view (nodes k) cs = Some Dir)"
    and "found_type (index_or_minus1 (slot_of (nodes k) cs)) FS_FILE k =
      Some (\<exists>d. fs_view (nodes k) cs = Some (File d))"
  using slot_of_bound [OF assms, of cs] node_type_cases [OF assms, of cs] fs_wf_length [OF assms]
  by (cases "slot_of (nodes k) cs"; force simp: found_type_def fs_view_def entry_of_def)+

lemma slot_not_minus1:
  assumes "i < FS_MAX_FILES"
  shows "(of_nat i :: 32 word) \<noteq> - 1"
proof
  assume "(of_nat i :: 32 word) = - 1"
  then have "(of_nat (Suc i) :: 32 word) = 0" by simp
  then have "2 ^ 32 dvd Suc i" by (simp only: word_of_nat_eq_0_iff) simp
  then have "2 ^ 32 \<le> Suc i" by (rule dvd_imp_le) simp
  then show False using assms by (simp add: FS_MAX_FILES_def)
qed

subsection \<open>Free slots\<close>

lemma allocate_loop_eq:
  "allocate_loop ns i =
     (case first_index (\<lambda>n. \<not> nd_live n) ns of None \<Rightarrow> -1 | Some j \<Rightarrow> i + int j)"
  by (induction ns arbitrary: i) (auto simp: nd_live_def split: option.splits)

lemma allocate_node_cases:
  assumes "length ns = FS_MAX_FILES" "nd_live (ns ! 0)"
  shows "(\<forall>i < FS_MAX_FILES. nd_live (ns ! i)) \<and> allocate_node ns = -1 \<or>
    (\<exists>i. 0 < i \<and> i < FS_MAX_FILES \<and> \<not> nd_live (ns ! i) \<and> allocate_node ns = int i)"
proof -
  obtain n rest where ns: "ns = n # rest" using assms(1) by (cases ns) (auto simp: FS_MAX_FILES_def)
  show ?thesis
  proof (cases "first_index (\<lambda>n. \<not> nd_live n) rest")
    case None
    then have "\<forall>m \<in> set ns. nd_live m" using assms(2) ns by (simp add: first_index_None)
    then have "\<forall>i < FS_MAX_FILES. nd_live (ns ! i)"
      using assms(1) by (simp add: all_set_conv_all_nth)
    then show ?thesis using None ns by (simp add: allocate_node_def allocate_loop_eq)
  next
    case (Some j)
    then have "\<not> nd_live (ns ! Suc j)" "Suc j < FS_MAX_FILES"
      using ns assms(1) by (auto simp: first_index_Some)
    moreover have "allocate_node ns = int (Suc j)"
      using Some ns by (simp add: allocate_node_def allocate_loop_eq)
    ultimately have "\<not> nd_live (ns ! Suc j)" "Suc j < FS_MAX_FILES" "allocate_node ns = int (Suc j)"
      by simp_all
    then show ?thesis by blast
  qed
qed

lemma card_view:
  assumes "fs_wf ns"
  shows "card (dom (fs_view ns)) = card {i. i < FS_MAX_FILES \<and> nd_live (ns ! i)}"
proof (rule bij_betw_same_card)
  let ?f = "\<lambda>cs. the (slot_of ns cs)"
  have "inj_on ?f (dom (fs_view ns))"
  proof (rule inj_onI)
    fix x y assume "x \<in> dom (fs_view ns)" "y \<in> dom (fs_view ns)" "?f x = ?f y"
    then obtain i where "slot_of ns x = Some i" "slot_of ns y = Some i"
      by (auto simp: fs_view_def)
    then show "x = y" using path_of_inject by (auto simp: slot_of_Some_iff [OF assms])
  qed
  moreover have "?f ` dom (fs_view ns) = {i. i < FS_MAX_FILES \<and> nd_live (ns ! i)}"
  proof (intro set_eqI iffI)
    fix i assume "i \<in> ?f ` dom (fs_view ns)"
    then obtain cs where "slot_of ns cs = Some i" by (auto simp: fs_view_def)
    then show "i \<in> {i. i < FS_MAX_FILES \<and> nd_live (ns ! i)}"
      by (simp add: slot_of_Some_iff [OF assms])
  next
    fix i assume i: "i \<in> {i. i < FS_MAX_FILES \<and> nd_live (ns ! i)}"
    then obtain cs where "parts_ok cs" "cstr (nd_path (ns ! i)) = path_of cs"
      using live_path [OF assms] by (metis mem_Collect_eq)
    then have "slot_of ns cs = Some i" using i by (simp add: slot_of_Some_iff [OF assms])
    then show "i \<in> ?f ` dom (fs_view ns)" by (force simp: fs_view_def)
  qed
  ultimately show "bij_betw ?f (dom (fs_view ns)) {i. i < FS_MAX_FILES \<and> nd_live (ns ! i)}"
    by (simp add: bij_betw_def)
qed

definition tree_full :: "fs_tree \<Rightarrow> bool" where
  "tree_full v \<longleftrightarrow> card (dom v) = FS_MAX_FILES"

lemma tree_full_iff:
  assumes "fs_wf ns"
  shows "tree_full (fs_view ns) \<longleftrightarrow> (\<forall>i < FS_MAX_FILES. nd_live (ns ! i))"
proof -
  let ?L = "{i. i < FS_MAX_FILES \<and> nd_live (ns ! i)}"
  have "card ?L = FS_MAX_FILES \<longleftrightarrow> ?L = {..< FS_MAX_FILES}"
  proof
    have "?L \<subseteq> {..< FS_MAX_FILES}" by auto
    then show "card ?L = FS_MAX_FILES \<Longrightarrow> ?L = {..< FS_MAX_FILES}"
      by (intro card_subset_eq) simp_all
  qed (metis card_lessThan)
  also have "\<dots> \<longleftrightarrow> (\<forall>i < FS_MAX_FILES. nd_live (ns ! i))" by auto
  finally show ?thesis by (simp add: tree_full_def card_view [OF assms])
qed

subsection \<open>The parent directory\<close>

text \<open>The parent is looked up by the path without its last component.\<close>

lemma parent_path:
  assumes "terminated r" "cstr r = path_of (cs @ [c])" "parts_ok (cs @ [c])" "length r = 128"
  obtains e where "terminated e" "cstr e = path_of cs" "find_parent ns r = do {
     parent \<leftarrow> find_node ns e;
     (if 0 \<le> parent then do {
        n \<leftarrow> rd ns (nat parent);
        Some (if nd_type n = FS_DIR then parent else -1) }
      else Some (-1)) }"
proof -
  have c: "parts_ok cs" "comp_ok c" using parts_ok_snoc [OF assms(3)] by auto
  have "length (cstr r) < length r" using assms(1) by (simp add: terminated_iff_length)
  then have len: "length (path_of cs) \<le> 126"
    using assms(2,4) c(2) path_of_snoc [of cs c] by (cases "cs = []") (auto simp: comp_ok_def)
  then obtain d where d: "path_get_dirname (fresh 128) r = Some d" "terminated d" "cstr d = path_of cs"
    using dirname_path_of [OF assms(1,2) c(2), of "fresh 128"] by auto
  have "0 \<notin> set (path_of cs)" using path_of_zero [OF c(1)] .
  then obtain e where "str_copy_n (fresh FS_MAX_PATH) (Some d) FS_MAX_PATH = Some e"
    "terminated e" "cstr e = path_of cs"
    using d(2,3) len by (simp add: str_copy_n_eq FS_MAX_PATH_def put_str_def)
  then show ?thesis using that d(1) by (simp add: find_parent_def)
qed

lemma find_parent_eq:
  assumes "fs_wf ns" "terminated r" "cstr r = path_of (cs @ [c])" "parts_ok (cs @ [c])" "length r = 128"
  shows "find_parent ns r =
    Some (if fs_view ns cs = Some Dir then index_or_minus1 (slot_of ns cs) else -1)"
proof -
  obtain e where e: "terminated e" "cstr e = path_of cs" "find_parent ns r = do {
     parent \<leftarrow> find_node ns e;
     (if 0 \<le> parent then do {
        n \<leftarrow> rd ns (nat parent);
        Some (if nd_type n = FS_DIR then parent else -1) }
      else Some (-1)) }"
    using parent_path [OF assms(2-5)] by blast
  have "parts_ok cs" using parts_ok_snoc [OF assms(4)] by simp
  then have "find_node ns e = Some (index_or_minus1 (slot_of ns cs))"
    using find_node_eq [OF assms(1) e(1,2)] by blast
  then show ?thesis
    using e(3) slot_of_bound [OF assms(1), of cs] fs_wf_length [OF assms(1)]
    by (cases "slot_of ns cs") (auto simp: fs_view_def entry_of_def)
qed

text \<open>The name and path of a node placed at \<open>cs @ [c]\<close>.\<close>

lemma placed_names:
  assumes "node_shape n" "terminated r" "cstr r = path_of (cs @ [c])" "parts_ok (cs @ [c])" "length r = 128"
  obtains f nm pth where "path_get_filename r = Some f"
    "str_copy_n (nd_name n) (Some f) FS_MAX_NAME = Some nm" "terminated nm" "cstr nm = c"
    "length nm = FS_MAX_NAME"
    "str_copy_n (nd_path n) (Some r) FS_MAX_PATH = Some pth" "terminated pth"
    "cstr pth = path_of (cs @ [c])" "length pth = FS_MAX_PATH"
proof -
  have c: "comp_ok c" using parts_ok_snoc [OF assms(4)] by simp
  obtain f where f: "path_get_filename r = Some f" "terminated f" "cstr f = c"
    using filename_path_of [OF assms(2,3) c] by blast
  have cl: "length c < 32" "0 \<notin> set c" using c by (auto simp: comp_ok_def FS_MAX_NAME_def)
  obtain nm where nm: "put_str (nd_name n) c = Some nm"
    using assms(1) cl(1) by (simp add: put_str_def node_shape_def FS_MAX_NAME_def)
  have pl: "length (path_of (cs @ [c])) < 128" using assms(2,3,5) by (simp add: terminated_iff_length)
  have pz: "0 \<notin> set (path_of (cs @ [c]))" using assms(3) zero_notin_cstr [of r] by simp
  obtain pth where pth: "put_str (nd_path n) (path_of (cs @ [c])) = Some pth"
    using assms(1) pl by (simp add: put_str_def node_shape_def FS_MAX_PATH_def)
  show ?thesis
  proof (rule that [of f nm pth])
    show "str_copy_n (nd_name n) (Some f) FS_MAX_NAME = Some nm"
      using f nm cl by (simp add: str_copy_n_eq FS_MAX_NAME_def)
    show "str_copy_n (nd_path n) (Some r) FS_MAX_PATH = Some pth"
      using assms(2,3) pth pl by (simp add: str_copy_n_eq FS_MAX_PATH_def)
    show "length nm = FS_MAX_NAME" "length pth = FS_MAX_PATH"
      using put_str_length [OF nm] put_str_length [OF pth] assms(1) by (simp_all add: node_shape_def)
  qed (use f put_str_terminated [OF nm] put_str_cstr [OF nm cl(2)] put_str_terminated [OF pth]
      put_str_cstr [OF pth pz] in simp_all)
qed

text \<open>An operation gives the code \<open>r\<close> and the node table \<open>ns\<close>: it returns, and apart from the table it
  changes only the terminal and the device.  The two ways an operation ends are a message and the
  storing of a new table.\<close>

definition gives :: "'d kernel \<Rightarrow> int \<Rightarrow> fs_node list \<Rightarrow> (int \<times> 'd kernel) option \<Rightarrow> bool" where
  "gives k r ns m \<longleftrightarrow> (\<exists>k'. m = Some (r, k') \<and> fs_ok k' \<and> kept k k' \<and> nodes k' = ns)"

lemma gives_say: "fs_ok k \<Longrightarrow> gives k r (nodes k) (say msg r k)"
  using fs_ok_cong [of k "shown msg k"] fs_ok_wf [of k] by (simp add: gives_def say_eq)

lemma gives_persist:
  assumes "fs_ok k" "fs_wf ns"
  shows "gives k r ns (do { k' \<leftarrow> persist_if_enabled hw (k\<lparr>nodes := ns\<rparr>); Some (r, k') })"
proof -
  have "table_shape (nodes (k\<lparr>nodes := ns\<rparr>))" using fs_wf_table_shape [OF assms(2)] by simp
  then obtain d where d: "persist_if_enabled hw (k\<lparr>nodes := ns\<rparr>) = Some (k\<lparr>nodes := ns, k_dev := d\<rparr>)"
    "fs_booting k \<or> \<not> persistence_enabled k \<longrightarrow> d = k_dev k"
    by (rule persist_frame [of "k\<lparr>nodes := ns\<rparr>" hw]) simp
  moreover have "kept k (k\<lparr>nodes := ns, k_dev := d\<rparr>)" using d(2) by (simp add: kept_def)
  moreover have "fs_ok (k\<lparr>nodes := ns, k_dev := d\<rparr>)" using assms by (simp add: fs_ok_def)
  ultimately show ?thesis by (simp add: gives_def)
qed

subsection \<open>Creating files and directories\<close>

definition tree_create :: "fs_entry \<Rightarrow> byte list list \<Rightarrow> fs_tree \<Rightarrow> int \<times> fs_tree" where
  "tree_create e cs v =
     (if v cs \<noteq> None then (1, v)
      else if v (butlast cs) \<noteq> Some Dir then (1, v)
      else if tree_full v then (1, v)
      else (0, v(cs \<mapsto> e)))"

definition entry_of_type :: "32 word \<Rightarrow> fs_entry" where
  "entry_of_type t = (if t = FS_DIR then Dir else File [])"

lemma view_None_iff: "fs_view ns cs = None \<longleftrightarrow> slot_of ns cs = None"
  by (simp add: fs_view_def)

text \<open>Existing entries keep their slots and nodes.\<close>

definition slots_kept :: "fs_node list \<Rightarrow> fs_node list \<Rightarrow> bool" where
  "slots_kept ns ns' \<longleftrightarrow>
     (\<forall>cs i. slot_of ns cs = Some i \<longrightarrow> slot_of ns' cs = Some i \<and> ns' ! i = ns ! i)"

lemma slots_kept_refl [simp]: "slots_kept ns ns"
  by (simp add: slots_kept_def)

lemma slots_kept_fill:
  assumes "fs_wf ns" "fs_wf (ns[i := n])" "\<not> nd_live (ns ! i)"
  shows "slots_kept ns (ns[i := n])"
  unfolding slots_kept_def
proof (intro allI impI)
  fix cs j assume j: "slot_of ns cs = Some j"
  then have "j \<noteq> i" using assms(3) by (auto simp: slot_of_Some_iff [OF assms(1)])
  with j show "slot_of (ns[i := n]) cs = Some j \<and> ns[i := n] ! j = ns ! j"
    by (simp add: slot_of_Some_iff [OF assms(1)] slot_of_Some_iff [OF assms(2)])
qed

lemma create_refused:
  assumes "fs_ok k" "arg_ok path" "target k path = Some cs" "fst (tree_create e cs (fs_view (nodes k))) \<noteq> 0"
  shows "\<exists>m. create_node t msg hw path k = say m 1 k"
proof -
  let ?v = "fs_view (nodes k)"
  have wf: "fs_wf (nodes k)" using assms(1) by (rule fs_ok_wf)
  obtain rp where rp: "resolve path k = Some rp" "terminated rp" "cstr rp = path_of cs" "length rp = 128"
    "find_node (nodes k) rp = Some (index_or_minus1 (slot_of (nodes k) cs))"
    using path_query [OF assms(1-3)] .
  show ?thesis
  proof (cases "slot_of (nodes k) cs")
    case (Some i)
    then show ?thesis using rp(1,5) by (auto simp: create_node_def)
  next
    case None
    then have "cs \<noteq> []" using slot_of_root [OF wf] by auto
    then obtain ds c where ds: "cs = ds @ [c]" by (metis rev_exhaust)
    have cs: "parts_ok (ds @ [c])" using target_ok [OF assms(2,3)] ds by simp
    note par = find_parent_eq [OF wf rp(2) rp(3) [unfolded ds] cs rp(4)]
    have "?v ds \<noteq> Some Dir \<or> tree_full ?v"
      using assms(4) None ds by (auto simp: tree_create_def view_None_iff split: if_splits)
    moreover have "allocate_node (nodes k) = -1" if "tree_full ?v"
      using that tree_full_iff [OF wf] allocate_node_cases [OF fs_wf_length [OF wf]] fs_wf_root [OF wf]
      by (auto simp: root_node_def)
    ultimately show ?thesis using rp(1,5) None par by (auto simp: create_node_def)
  qed
qed

text \<open>The node that is filled in at \<open>ds @ [c]\<close>, below the directory in slot \<open>p\<close>.\<close>

lemma created_node:
  assumes wf: "fs_wf ns" and i: "0 < i" "i < FS_MAX_FILES" "\<not> nd_live (ns ! i)"
    and cs: "parts_ok (ds @ [c])" "slot_of ns (ds @ [c]) = None"
    and p: "slot_of ns ds = Some p" "nd_type (ns ! p) = FS_DIR"
    and nm: "terminated nm" "cstr nm = c" "length nm = FS_MAX_NAME"
    and pth: "terminated pth" "cstr pth = path_of (ds @ [c])" "length pth = FS_MAX_PATH"
    and t: "t \<in> {FS_FILE, FS_DIR}"
    and n: "n = (ns ! i)\<lparr>nd_used := 1, nd_type := t, nd_parent := word_of_int (int p),
      nd_size := 0, nd_name := nm, nd_path := pth\<rparr>"
  shows "fs_wf (ns[i := n])" "fs_view (ns[i := n]) = (fs_view ns)(ds @ [c] \<mapsto> entry_of_type t)"
proof -
  have shape: "node_shape n" "nd_live n"
    using fs_wf_shape [OF wf i(2)] nm(3) pth(3) by (simp_all add: n node_shape_def nd_live_def)
  have "dir_slot ns p ds"
    using p fs_wf_length [OF wf] by (simp add: dir_slot_def slot_of_Some_iff [OF wf])
  then have entry: "entry_ok ns n"
    using cs(1) nm(1,2) pth(1,2) t unfolding entry_ok_def
    by (intro conjI exI [of _ ds] exI [of _ c] exI [of _ p]) (simp_all add: n)
  have path: "cstr (nd_path n) = path_of (ds @ [c])" using pth(2) by (simp add: n)
  show "fs_wf (ns[i := n])" by (rule fs_wf_fill [OF wf i shape(1) entry cs(1) path cs(2)])
  show "fs_view (ns[i := n]) = (fs_view ns)(ds @ [c] \<mapsto> entry_of_type t)"
    using fs_view_fill [OF wf i shape(2,1) entry cs(1) path cs(2)]
    by (simp add: n entry_of_def entry_of_type_def)
qed

lemma create_fills:
  assumes "fs_ok k" "arg_ok path" "target k path = Some cs" "t \<in> {FS_FILE, FS_DIR}"
    and new: "fs_view (nodes k) cs = None" "fs_view (nodes k) (butlast cs) = Some Dir" "\<not> tree_full (fs_view (nodes k))"
  obtains ns where "gives k 0 ns (create_node t msg hw path k)" "slots_kept (nodes k) ns"
    "fs_view ns = (fs_view (nodes k))(cs \<mapsto> entry_of_type t)"
proof -
  let ?ns = "nodes k"
  have wf: "fs_wf ?ns" using assms(1) by (rule fs_ok_wf)
  obtain rp where rp: "resolve path k = Some rp" "terminated rp" "cstr rp = path_of cs" "length rp = 128"
    "find_node ?ns rp = Some (index_or_minus1 (slot_of ?ns cs))"
    using path_query [OF assms(1-3)] .
  have none: "slot_of ?ns cs = None" using new(1) by (simp add: view_None_iff)
  then have "cs \<noteq> []" using slot_of_root [OF wf] by auto
  then obtain ds c where ds: "cs = ds @ [c]" by (metis rev_exhaust)
  have cs: "parts_ok (ds @ [c])" using target_ok [OF assms(2,3)] ds by simp
  obtain p where p: "slot_of ?ns ds = Some p" "nd_type (?ns ! p) = FS_DIR"
    using new(2) ds by (auto simp: fs_view_def entry_of_def split: if_splits)
  have par: "find_parent ?ns rp = Some (int p)"
    using find_parent_eq [OF wf rp(2) rp(3) [unfolded ds] cs rp(4)] new(2) ds p(1) by simp
  obtain i where i: "0 < i" "i < FS_MAX_FILES" "\<not> nd_live (?ns ! i)" "allocate_node ?ns = int i"
    using new(3) tree_full_iff [OF wf] allocate_node_cases [OF fs_wf_length [OF wf]] fs_wf_root [OF wf]
    by (auto simp: root_node_def)
  obtain f nm pth where nm: "path_get_filename rp = Some f"
    "str_copy_n (nd_name (?ns ! i)) (Some f) FS_MAX_NAME = Some nm" "terminated nm" "cstr nm = c"
    "length nm = FS_MAX_NAME"
    "str_copy_n (nd_path (?ns ! i)) (Some rp) FS_MAX_PATH = Some pth" "terminated pth"
    "cstr pth = path_of (ds @ [c])" "length pth = FS_MAX_PATH"
    using placed_names [OF fs_wf_shape [OF wf i(2)] rp(2) rp(3) [unfolded ds] cs rp(4)] .
  define n where "n = (?ns ! i)\<lparr>nd_used := 1, nd_type := t, nd_parent := word_of_int (int p),
    nd_size := 0, nd_name := nm, nd_path := pth\<rparr>"
  note made = created_node [OF wf i(1-3) cs none [unfolded ds] p nm(3-5,7-9) assms(4) n_def]
  have "create_node t msg hw path k =
      do { k' \<leftarrow> persist_if_enabled hw (k\<lparr>nodes := ?ns[i := n]\<rparr>); Some (0, k') }"
    using rp(1,5) none par i fs_wf_length [OF wf] nm(1,2,6) by (simp add: create_node_def Let_def n_def)
  then show ?thesis
    using that gives_persist [OF assms(1) made(1)] slots_kept_fill [OF wf made(1) i(3)] made(2) ds by metis
qed

lemma create_node_refines:
  assumes "fs_ok k" "arg_ok path" "target k path = Some cs" "t \<in> {FS_FILE, FS_DIR}"
  shows "\<exists>r k'. create_node t msg hw path k = Some (r, k') \<and> fs_ok k' \<and> kept k k' \<and>
     slots_kept (nodes k) (nodes k') \<and>
     tree_create (entry_of_type t) cs (fs_view (nodes k)) = (r, fs_view (nodes k'))"
proof (cases "fst (tree_create (entry_of_type t) cs (fs_view (nodes k))) = 0")
  case True
  then have new: "fs_view (nodes k) cs = None" "fs_view (nodes k) (butlast cs) = Some Dir"
    "\<not> tree_full (fs_view (nodes k))"
    by (auto simp: tree_create_def split: if_splits)
  obtain ns where "gives k 0 ns (create_node t msg hw path k)" "slots_kept (nodes k) ns"
    "fs_view ns = (fs_view (nodes k))(cs \<mapsto> entry_of_type t)"
    using create_fills [OF assms new] .
  then show ?thesis using new by (auto simp: gives_def tree_create_def)
next
  case False
  then obtain m where "create_node t msg hw path k = say m 1 k"
    using create_refused [OF assms(1-3)] by blast
  moreover have "tree_create (entry_of_type t) cs (fs_view (nodes k)) = (1, fs_view (nodes k))"
    using False by (auto simp: tree_create_def split: if_splits)
  ultimately show ?thesis using gives_say [OF assms(1), of 1 m] by (auto simp: gives_def)
qed

subsection \<open>Writing files\<close>

definition tree_write :: "byte list \<Rightarrow> byte list list \<Rightarrow> fs_tree \<Rightarrow> int \<times> fs_tree" where
  "tree_write content cs v =
     (case v cs of
        Some (File _) \<Rightarrow>
          if FS_MAX_FILE_SIZE < length content then (1, v) else (0, v(cs \<mapsto> File content))
      | _ \<Rightarrow> (1, v))"

lemma file_slot:
  assumes "fs_wf ns" "fs_view ns cs = Some (File content)"
  obtains i where "slot_of ns cs = Some i" "0 < i" "i < FS_MAX_FILES" "nd_type (ns ! i) = FS_FILE"
    "content = take (unat (nd_size (ns ! i))) (nd_data (ns ! i))"
    "unat (nd_size (ns ! i)) \<le> FS_MAX_FILE_SIZE" "node_shape (ns ! i)" "nd_live (ns ! i)"
proof -
  obtain i where i: "slot_of ns cs = Some i" "entry_of (ns ! i) = File content"
    using assms(2) by (auto simp: fs_view_def)
  have b: "i < FS_MAX_FILES" "nd_live (ns ! i)" using i(1) by (auto simp: slot_of_Some_iff [OF assms(1)])
  have t: "nd_type (ns ! i) = FS_FILE" "content = take (unat (nd_size (ns ! i))) (nd_data (ns ! i))"
    using i node_type_cases [OF assms(1) i(1)] by (auto simp: entry_of_def split: if_splits)
  have "0 < i" using t(1) fs_wf_root [OF assms(1)] by (cases i) (auto simp: root_node_def)
  moreover have "unat (nd_size (ns ! i)) \<le> FS_MAX_FILE_SIZE"
    using fs_wf_entry [OF assms(1) \<open>0 < i\<close> b] by (simp add: entry_ok_def)
  ultimately show ?thesis using that i(1) b t fs_wf_shape [OF assms(1) b(1)] by blast
qed

lemma max_size_word: "(of_nat FS_MAX_FILE_SIZE :: 32 word) < w \<longleftrightarrow> FS_MAX_FILE_SIZE < unat w"
  by (simp add: FS_MAX_FILE_SIZE_def word_less_nat_alt)

text \<open>How the operations find a file, and how they see that there is none.\<close>

lemma file_query:
  assumes "fs_ok k" "arg_ok path" "target k path = Some cs" "fs_view (nodes k) cs = Some (File content)"
  obtains rp i where "resolve path k = Some rp" "find_node (nodes k) rp = Some (int i)"
    "found_type (int i) FS_FILE k = Some True" "rd (nodes k) i = Some (nodes k ! i)" "slot_of (nodes k) cs = Some i"
    "content = take (unat (nd_size (nodes k ! i))) (nd_data (nodes k ! i))"
    "length content = unat (nd_size (nodes k ! i))" "unat (nd_size (nodes k ! i)) \<le> FS_MAX_FILE_SIZE"
    "length (nd_data (nodes k ! i)) = FS_MAX_FILE_SIZE" "i < length (nodes k)"
proof -
  have wf: "fs_wf (nodes k)" using assms(1) by (rule fs_ok_wf)
  obtain rp where rp: "resolve path k = Some rp"
    "find_node (nodes k) rp = Some (index_or_minus1 (slot_of (nodes k) cs))"
    using path_query [OF assms(1-3)] by metis
  obtain i where i: "slot_of (nodes k) cs = Some i" "i < FS_MAX_FILES" "node_shape (nodes k ! i)"
    "content = take (unat (nd_size (nodes k ! i))) (nd_data (nodes k ! i))"
    "unat (nd_size (nodes k ! i)) \<le> FS_MAX_FILE_SIZE"
    using file_slot [OF wf assms(4)] by metis
  have f: "find_node (nodes k) rp = Some (int i)" "found_type (int i) FS_FILE k = Some True"
    using rp(2) i(1) assms(4) found_type_eq(2) [OF wf, of cs] by simp_all
  have b: "i < length (nodes k)" using i(2) fs_wf_length [OF wf] by simp
  then have r: "rd (nodes k) i = Some (nodes k ! i)" by simp
  have d: "length (nd_data (nodes k ! i)) = FS_MAX_FILE_SIZE" using i(3) by (simp add: node_shape_def)
  then have l: "length content = unat (nd_size (nodes k ! i))" using i(4,5) by simp
  show ?thesis by (rule that [OF rp(1) f r i(1,4) l i(5) d b])
qed

lemma no_file_query:
  assumes "fs_ok k" "arg_ok path" "target k path = Some cs" "\<nexists>content. fs_view (nodes k) cs = Some (File content)"
  obtains rp idx where "resolve path k = Some rp" "find_node (nodes k) rp = Some idx"
    "found_type idx FS_FILE k = Some False"
proof -
  obtain rp where "resolve path k = Some rp"
    "find_node (nodes k) rp = Some (index_or_minus1 (slot_of (nodes k) cs))"
    using path_query [OF assms(1-3)] by metis
  moreover have "found_type (index_or_minus1 (slot_of (nodes k) cs)) FS_FILE k = Some False"
    using found_type_eq(2) [OF fs_ok_wf [OF assms(1)], of cs] assms(4) by simp
  ultimately show ?thesis by (rule that)
qed

text \<open>New content at a file's slot, on the table and on the tree.\<close>

definition stored :: "fs_node list \<Rightarrow> nat \<Rightarrow> cbuf \<Rightarrow> 32 word \<Rightarrow> fs_node list" where
  "stored ns i buf sz = ns[i := (ns ! i)\<lparr>nd_data := buf, nd_size := sz\<rparr>]"

lemma store_content:
  assumes "fs_wf ns" "fs_view ns cs = Some (File old)" "slot_of ns cs = Some i"
    and "length buf = FS_MAX_FILE_SIZE" "unat sz \<le> FS_MAX_FILE_SIZE"
  shows "fs_wf (stored ns i buf sz)"
    and "fs_view (stored ns i buf sz) = (fs_view ns)(cs \<mapsto> File (take (unat sz) buf))"
proof -
  let ?n = "(ns ! i)\<lparr>nd_data := buf, nd_size := sz\<rparr>"
  obtain j where j: "slot_of ns cs = Some j" "0 < j" "j < FS_MAX_FILES" "nd_type (ns ! j) = FS_FILE" "node_shape (ns ! j)"
    using file_slot [OF assms(1,2)] by metis
  then have i: "0 < i" "i < FS_MAX_FILES" "nd_type (ns ! i) = FS_FILE" "node_shape (ns ! i)"
    using assms(3) by simp_all
  have n: "same_place (ns ! i) ?n" "node_shape ?n" "unat (nd_size ?n) \<le> FS_MAX_FILE_SIZE"
    using i(4) assms(4,5) by (simp_all add: same_place_def node_shape_def nd_live_def)
  show "fs_wf (stored ns i buf sz)" unfolding stored_def by (rule fs_wf_content [OF assms(1) i(1,2) n])
  show "fs_view (stored ns i buf sz) = (fs_view ns)(cs \<mapsto> File (take (unat sz) buf))"
    using fs_view_content [OF assms(1) i(1,2) n assms(3)] i(3) by (simp add: entry_of_def stored_def)
qed

lemma write_stores:
  assumes "fs_ok k" "arg_ok path" "target k path = Some cs" "unat sz \<le> length data"
    and old: "fs_view (nodes k) cs = Some (File old)" and sz: "unat sz \<le> FS_MAX_FILE_SIZE"
  obtains ns where "gives k 0 ns (fs_write_file hw path data sz k)"
    "fs_view ns = (fs_view (nodes k))(cs \<mapsto> File (take (unat sz) data))"
proof -
  obtain rp i where q: "resolve path k = Some rp" "find_node (nodes k) rp = Some (int i)"
    "found_type (int i) FS_FILE k = Some True" "rd (nodes k) i = Some (nodes k ! i)" "slot_of (nodes k) cs = Some i"
    "length (nd_data (nodes k ! i)) = FS_MAX_FILE_SIZE"
    using file_query [OF assms(1-3) old] .
  let ?buf = "take (unat sz) data @ drop (unat sz) (nd_data (nodes k ! i))"
  have buf: "length ?buf = FS_MAX_FILE_SIZE" using q(6) sz assms(4) by simp
  note made = store_content [OF fs_ok_wf [OF assms(1)] old q(5) buf sz]
  have "fs_write_file hw path data sz k =
      do { k' \<leftarrow> persist_if_enabled hw (k\<lparr>nodes := stored (nodes k) i ?buf sz\<rparr>); Some (0, k') }"
    using q sz assms(4) by (simp add: fs_write_file_def stored_def max_size_word kmemcpy_eq)
  then show ?thesis
    using that gives_persist [OF assms(1) made(1), of 0 hw] made(2) assms(4) by simp
qed

lemma fs_write_file_refines:
  assumes "fs_ok k" "arg_ok path" "target k path = Some cs" "unat sz \<le> length data"
  shows "\<exists>r k'. fs_write_file hw path data sz k = Some (r, k') \<and> fs_ok k' \<and> kept k k' \<and>
     tree_write (take (unat sz) data) cs (fs_view (nodes k)) = (r, fs_view (nodes k'))"
proof (cases "\<exists>old. fs_view (nodes k) cs = Some (File old)")
  case False
  obtain rp idx where "resolve path k = Some rp" "find_node (nodes k) rp = Some idx"
    "found_type idx FS_FILE k = Some False"
    using no_file_query [OF assms(1-3) False] .
  then have "fs_write_file hw path data sz k = say ''File not found'' 1 k" by (simp add: fs_write_file_def)
  then show ?thesis
    using False gives_say [OF assms(1), of 1 "''File not found''"]
    by (auto simp: gives_def tree_write_def split: option.splits fs_entry.splits)
next
  case True
  then obtain old where old: "fs_view (nodes k) cs = Some (File old)" by blast
  show ?thesis
  proof (cases "unat sz \<le> FS_MAX_FILE_SIZE")
    case True
    obtain ns where "gives k 0 ns (fs_write_file hw path data sz k)"
      "fs_view ns = (fs_view (nodes k))(cs \<mapsto> File (take (unat sz) data))"
      using write_stores [OF assms old True] .
    then show ?thesis using old True assms(4) by (auto simp: gives_def tree_write_def)
  next
    case False
    obtain rp i where "resolve path k = Some rp" "find_node (nodes k) rp = Some (int i)"
      "found_type (int i) FS_FILE k = Some True"
      using file_query [OF assms(1-3) old] .
    then have "fs_write_file hw path data sz k = say ''File too large'' 1 k"
      using False by (simp add: fs_write_file_def max_size_word)
    then show ?thesis
      using False old assms(4) gives_say [OF assms(1), of 1 "''File too large''"]
      by (auto simp: gives_def tree_write_def)
  qed
qed

definition tree_append :: "byte list \<Rightarrow> byte list list \<Rightarrow> fs_tree \<Rightarrow> int \<times> fs_tree" where
  "tree_append content cs v =
     (case v cs of
        Some (File old) \<Rightarrow>
          if FS_MAX_FILE_SIZE < length old + length content then (1, v)
          else (0, v(cs \<mapsto> File (old @ content)))
      | _ \<Rightarrow> (1, v))"

lemma append_stores:
  assumes "fs_ok k" "arg_ok path" "target k path = Some cs" "unat sz \<le> length data"
    and old: "fs_view (nodes k) cs = Some (File old)" and fits: "length old + unat sz \<le> FS_MAX_FILE_SIZE"
  obtains ns where "gives k 0 ns (fs_append_file hw path data sz k)"
    "fs_view ns = (fs_view (nodes k))(cs \<mapsto> File (old @ take (unat sz) data))"
proof -
  obtain rp i where q: "resolve path k = Some rp" "find_node (nodes k) rp = Some (int i)"
    "found_type (int i) FS_FILE k = Some True" "rd (nodes k) i = Some (nodes k ! i)" "slot_of (nodes k) cs = Some i"
    "old = take (unat (nd_size (nodes k ! i))) (nd_data (nodes k ! i))"
    "length old = unat (nd_size (nodes k ! i))" "length (nd_data (nodes k ! i)) = FS_MAX_FILE_SIZE"
    using file_query [OF assms(1-3) old] .
  let ?s = "nd_size (nodes k ! i)" and ?d = "nd_data (nodes k ! i)"
  let ?buf = "take (unat ?s) ?d @ take (unat sz) data @ drop (unat sz + unat ?s) ?d"
  have sum: "unat (?s + sz) = unat ?s + unat sz"
    using fits q(7) by (subst unat_add_lem [THEN iffD1]) (simp_all add: FS_MAX_FILE_SIZE_def)
  have buf: "length ?buf = FS_MAX_FILE_SIZE" using q(7,8) fits assms(4) by simp
  have sz: "unat (?s + sz) \<le> FS_MAX_FILE_SIZE" using fits sum q(7) by simp
  note made = store_content [OF fs_ok_wf [OF assms(1)] old q(5) buf sz]
  have "kmemcpy (drop (unat ?s) ?d) data (unat sz) = Some (take (unat sz) data @ drop (unat sz + unat ?s) ?d)"
    using q(7,8) fits assms(4) by (simp add: kmemcpy_eq)
  then have "fs_append_file hw path data sz k =
      do { k' \<leftarrow> persist_if_enabled hw (k\<lparr>nodes := stored (nodes k) i ?buf (?s + sz)\<rparr>); Some (0, k') }"
    using q(1-4) sz by (simp add: fs_append_file_def stored_def max_size_word Let_def)
  moreover have "take (unat (?s + sz)) ?buf = old @ take (unat sz) data"
    using q(6-8) sum assms(4) fits by simp
  ultimately show ?thesis
    using that gives_persist [OF assms(1) made(1), of 0 hw] made(2) by simp
qed

lemma fs_append_file_refines:
  assumes "fs_ok k" "arg_ok path" "target k path = Some cs" "unat sz \<le> length data"
    and "\<And>old. fs_view (nodes k) cs = Some (File old) \<Longrightarrow> length old + unat sz < 2 ^ 32"
  shows "\<exists>r k'. fs_append_file hw path data sz k = Some (r, k') \<and> fs_ok k' \<and> kept k k' \<and>
     tree_append (take (unat sz) data) cs (fs_view (nodes k)) = (r, fs_view (nodes k'))"
proof (cases "\<exists>old. fs_view (nodes k) cs = Some (File old)")
  case False
  obtain rp idx where "resolve path k = Some rp" "find_node (nodes k) rp = Some idx"
    "found_type idx FS_FILE k = Some False"
    using no_file_query [OF assms(1-3) False] .
  then have "fs_append_file hw path data sz k = say ''File not found'' 1 k" by (simp add: fs_append_file_def)
  then show ?thesis
    using False gives_say [OF assms(1), of 1 "''File not found''"]
    by (auto simp: gives_def tree_append_def split: option.splits fs_entry.splits)
next
  case True
  then obtain old where old: "fs_view (nodes k) cs = Some (File old)" by blast
  show ?thesis
  proof (cases "length old + unat sz \<le> FS_MAX_FILE_SIZE")
    case True
    obtain ns where "gives k 0 ns (fs_append_file hw path data sz k)"
      "fs_view ns = (fs_view (nodes k))(cs \<mapsto> File (old @ take (unat sz) data))"
      using append_stores [OF assms(1-4) old True] .
    then show ?thesis using old True assms(4) by (auto simp: gives_def tree_append_def)
  next
    case False
    obtain rp i where q: "resolve path k = Some rp" "find_node (nodes k) rp = Some (int i)"
      "found_type (int i) FS_FILE k = Some True" "rd (nodes k) i = Some (nodes k ! i)"
      "length old = unat (nd_size (nodes k ! i))" "unat (nd_size (nodes k ! i)) \<le> FS_MAX_FILE_SIZE"
      using file_query [OF assms(1-3) old] .
    have "unat (nd_size (nodes k ! i) + sz) = unat (nd_size (nodes k ! i)) + unat sz"
      using q(5) assms(5) [OF old] by (subst unat_add_lem [THEN iffD1]) simp_all
    then have "fs_append_file hw path data sz k = say ''File too large'' 1 k"
      using q(1-5) False by (simp add: fs_append_file_def max_size_word)
    then show ?thesis
      using False old assms(4) gives_say [OF assms(1), of 1 "''File too large''"]
      by (auto simp: gives_def tree_append_def)
  qed
qed

text \<open>The bound check of \<open>fs_append_file\<close> adds two 32-bit sizes; with a size that makes the sum wrap
  it passes, and the copy runs off the end of the node's data.\<close>

lemma fs_append_file_wrap:
  assumes "fs_ok k" "arg_ok path" "target k path = Some cs"
    and "fs_view (nodes k) cs = Some (File old)" "2 ^ 32 \<le> length old + unat sz"
  shows "fs_append_file hw path data sz k = None"
proof -
  obtain rp i where q: "resolve path k = Some rp" "find_node (nodes k) rp = Some (int i)"
    "found_type (int i) FS_FILE k = Some True" "rd (nodes k) i = Some (nodes k ! i)"
    "length old = unat (nd_size (nodes k ! i))" "unat (nd_size (nodes k ! i)) \<le> FS_MAX_FILE_SIZE"
    "length (nd_data (nodes k ! i)) = FS_MAX_FILE_SIZE"
    using file_query [OF assms(1-4)] .
  let ?s = "nd_size (nodes k ! i)"
  have "unat ?s + unat sz < 2 * 2 ^ 32"
    using unsigned_less [of ?s, where ?'a = nat] unsigned_less [of sz, where ?'a = nat] by simp
  then have "unat (?s + sz) = unat ?s + unat sz - 2 ^ 32"
    using assms(5) q(5) by (simp add: unat_word_ariths mod_if)
  then have pass: "\<not> of_nat FS_MAX_FILE_SIZE < ?s + sz"
    using q(6) unsigned_less [of sz, where ?'a = nat] by (simp add: max_size_word)
  have "FS_MAX_FILE_SIZE < unat sz" using assms(5) q(5,6) by (simp add: FS_MAX_FILE_SIZE_def)
  then have "kmemcpy (drop (unat ?s) (nd_data (nodes k ! i))) data (unat sz) = None"
    using q(7) by (auto simp: kmemcpy_None)
  then show ?thesis using q(1-4) pass by (simp add: fs_append_file_def)
qed

subsection \<open>Copying\<close>

definition tree_copy :: "byte list list \<Rightarrow> byte list list \<Rightarrow> fs_tree \<Rightarrow> int \<times> fs_tree" where
  "tree_copy src dest v =
     (case v src of
        Some (File content) \<Rightarrow>
          let (r, v1) = tree_create (File []) dest v in
          if r \<noteq> 0 then (1, v1) else (0, v1(dest \<mapsto> File content))
      | _ \<Rightarrow> (1, v))"

text \<open>With a file at the source, \<open>fs_copy\<close> creates the destination and writes the content there.\<close>

lemma fs_copy_calls:
  assumes "fs_ok k" "arg_ok src" "target k src = Some cs" "fs_view (nodes k) cs = Some (File old)"
    and "fs_create_file hw dest k = Some (r, k1)" "slots_kept (nodes k) (nodes k1)" "fs_ok k1"
  obtains data sz where "fs_copy hw src dest k = (if r \<noteq> 0 then Some (1, k1) else fs_write_file hw dest data sz k1)"
    "take (unat sz) data = old" "unat sz \<le> length data"
proof -
  obtain rp i where q: "resolve src k = Some rp" "find_node (nodes k) rp = Some (int i)"
    "found_type (int i) FS_FILE k = Some True" "rd (nodes k) i = Some (nodes k ! i)" "slot_of (nodes k) cs = Some i"
    "old = take (unat (nd_size (nodes k ! i))) (nd_data (nodes k ! i))"
    "unat (nd_size (nodes k ! i)) \<le> FS_MAX_FILE_SIZE" "length (nd_data (nodes k ! i)) = FS_MAX_FILE_SIZE"
    "i < length (nodes k)"
    using file_query [OF assms(1-4)] .
  have "rd (nodes k1) i = Some (nodes k ! i)"
    using assms(6) q(5,9) fs_wf_length [OF fs_ok_wf [OF assms(1)]] fs_wf_length [OF fs_ok_wf [OF assms(7)]]
    by (simp add: slots_kept_def)
  then have "fs_copy hw src dest k =
      (if r \<noteq> 0 then Some (1, k1) else fs_write_file hw dest (nd_data (nodes k ! i)) (nd_size (nodes k ! i)) k1)"
    using q(1-3) assms(5) by (simp add: fs_copy_def)
  moreover have "unat (nd_size (nodes k ! i)) \<le> length (nd_data (nodes k ! i))" using q(7,8) by simp
  ultimately show ?thesis using that q(6) by blast
qed

lemma fs_copy_refines:
  assumes "fs_ok k" "arg_ok src" "arg_ok dest" "target k src = Some cs" "target k dest = Some ds"
  shows "\<exists>r k'. fs_copy hw src dest k = Some (r, k') \<and> fs_ok k' \<and> kept k k' \<and>
     tree_copy cs ds (fs_view (nodes k)) = (r, fs_view (nodes k'))"
proof (cases "\<exists>old. fs_view (nodes k) cs = Some (File old)")
  case False
  obtain rp idx where "resolve src k = Some rp" "find_node (nodes k) rp = Some idx"
    "found_type idx FS_FILE k = Some False"
    using no_file_query [OF assms(1,2,4) False] .
  then have "fs_copy hw src dest k = say ''Source file not found'' 1 k" by (simp add: fs_copy_def)
  then show ?thesis
    using False gives_say [OF assms(1), of 1 "''Source file not found''"]
    by (auto simp: gives_def tree_copy_def split: option.splits fs_entry.splits)
next
  case True
  then obtain old where old: "fs_view (nodes k) cs = Some (File old)" by blast
  obtain r k1 where k1: "fs_create_file hw dest k = Some (r, k1)" "fs_ok k1" "kept k k1"
    "tree_create (File []) ds (fs_view (nodes k)) = (r, fs_view (nodes k1))" "slots_kept (nodes k) (nodes k1)"
    using create_node_refines [OF assms(1,3,5), of FS_FILE "''File already exists''" hw]
    by (auto simp: fs_create_file_def entry_of_type_def)
  obtain data sz where c: "fs_copy hw src dest k = (if r \<noteq> 0 then Some (1, k1) else fs_write_file hw dest data sz k1)"
    "take (unat sz) data = old" "unat sz \<le> length data"
    using fs_copy_calls [OF assms(1,2,4) old k1(1,5,2)] .
  show ?thesis
  proof (cases "r = 0")
    case False
    then show ?thesis using c(1) k1(2-4) old by (simp add: tree_copy_def)
  next
    case r0: True
    have "target k1 dest = Some ds" using target_cong [OF k1(3)] assms(5) by simp
    from fs_write_file_refines [OF k1(2) assms(3) this c(3), of hw]
    obtain r2 k2 where k2: "fs_copy hw src dest k = Some (r2, k2)" "fs_ok k2" "kept k1 k2"
      "tree_write old ds (fs_view (nodes k1)) = (r2, fs_view (nodes k2))"
      using c r0 by auto
    have "fs_view (nodes k1) = (fs_view (nodes k))(ds \<mapsto> File [])"
      using k1(4) r0 by (auto simp: tree_create_def split: if_splits)
    moreover have "length old \<le> FS_MAX_FILE_SIZE"
      using file_slot [OF fs_ok_wf [OF assms(1)] old] by (metis length_take min.coboundedI2 order.trans min.cobounded2)
    ultimately have "tree_copy cs ds (fs_view (nodes k)) = (r2, fs_view (nodes k2))"
      using old k1(4) k2(4) r0 by (auto simp: tree_copy_def tree_write_def)
    then show ?thesis using k2 kept_trans [OF k1(3)] by blast
  qed
qed

subsection \<open>Deleting\<close>

definition tree_delete :: "byte list list \<Rightarrow> fs_tree \<Rightarrow> int \<times> fs_tree" where
  "tree_delete cs v =
     (if cs = [] \<or> v cs = None then (1, v)
      else if v cs = Some Dir \<and> (\<exists>c. v (cs @ [c]) \<noteq> None) then (1, v)
      else (0, v(cs := None)))"

text \<open>The links of the table and the tree agree: the nodes whose \<open>parent\<close> is the slot of a
  directory are the entries below it.\<close>

lemma parent_link:
  assumes "fs_wf ns" "0 < j" "j < FS_MAX_FILES" "nd_live (ns ! j)"
  obtains ds d p where "parts_ok (ds @ [d])" "cstr (nd_path (ns ! j)) = path_of (ds @ [d])"
    "cstr (nd_name (ns ! j)) = d" "nd_parent (ns ! j) = of_nat p" "slot_of ns ds = Some p"
    "nd_type (ns ! p) = FS_DIR" "slot_of ns (ds @ [d]) = Some j"
proof -
  obtain ds d p where d: "parts_ok (ds @ [d])" "cstr (nd_path (ns ! j)) = path_of (ds @ [d])"
    "cstr (nd_name (ns ! j)) = d" "nd_parent (ns ! j) = of_nat p" "dir_slot ns p ds"
    using fs_wf_entry [OF assms] by (auto simp: entry_ok_def)
  have "slot_of ns ds = Some p" using dir_slot_view [OF assms(1) _ d(5)] parts_ok_snoc [OF d(1)] by simp
  moreover have "slot_of ns (ds @ [d]) = Some j"
    using d(1,2) assms(3,4) by (simp add: slot_of_Some_iff [OF assms(1)])
  ultimately show ?thesis using that d by (auto simp: dir_slot_def)
qed

lemma has_childI:
  "j < length ns \<Longrightarrow> nd_live (ns ! j) \<Longrightarrow> nd_parent (ns ! j) = of_nat i \<Longrightarrow> has_child (int i) ns"
  unfolding has_child_def nd_live_def by (rule bexI [of _ "ns ! j"]) simp_all

lemma has_child_eq:
  assumes "fs_wf ns" "slot_of ns cs = Some i"
  shows "has_child (int i) ns \<longleftrightarrow> (\<exists>c. fs_view ns (cs @ [c]) \<noteq> None)"
proof
  have i: "i < FS_MAX_FILES" using assms by (rule slot_of_bound)
  assume "has_child (int i) ns"
  then obtain j where j: "j < FS_MAX_FILES" "nd_live (ns ! j)" "nd_parent (ns ! j) = of_nat i"
    using fs_wf_length [OF assms(1)] by (auto simp: has_child_def nd_live_def in_set_conv_nth)
  have "j \<noteq> 0" using j(3) fs_wf_root [OF assms(1)] slot_not_minus1 [OF i] by (metis root_node_def)
  then obtain ds d p where d: "nd_parent (ns ! j) = of_nat p" "slot_of ns ds = Some p"
    "slot_of ns (ds @ [d]) = Some j"
    using parent_link [OF assms(1) _ j(1,2)] by (metis neq0_conv)
  have "p = i"
    using d(1) j(3) of_nat_slot_eq [OF slot_of_bound [OF assms(1) d(2)] i] by simp
  then have "ds = cs"
    using d(2) assms(2) path_of_inject by (auto simp: slot_of_Some_iff [OF assms(1)])
  then show "\<exists>c. fs_view ns (cs @ [c]) \<noteq> None" using d(3) by (auto simp: fs_view_def)
next
  have i: "i < FS_MAX_FILES" using assms by (rule slot_of_bound)
  assume "\<exists>c. fs_view ns (cs @ [c]) \<noteq> None"
  then obtain c j where j: "slot_of ns (cs @ [c]) = Some j" by (auto simp: fs_view_def)
  then have live: "j < FS_MAX_FILES" "nd_live (ns ! j)" "parts_ok (cs @ [c])"
    "cstr (nd_path (ns ! j)) = path_of (cs @ [c])"
    by (auto simp: slot_of_Some_iff [OF assms(1)])
  have "0 < j" using j slot_of_zero [OF assms(1), of "cs @ [c]"] by (cases j) auto
  then obtain ds d p where d: "parts_ok (ds @ [d])" "cstr (nd_path (ns ! j)) = path_of (ds @ [d])"
    "nd_parent (ns ! j) = of_nat p" "slot_of ns ds = Some p"
    using parent_link [OF assms(1) _ live(1,2)] by metis
  have "ds = cs" using d(1,2) live(3,4) path_of_inject by (metis butlast_snoc)
  then have "nd_parent (ns ! j) = of_nat i" using d(3,4) assms(2) by simp
  then show "has_child (int i) ns"
    using live(1,2) fs_wf_length [OF assms(1)] by (intro has_childI) simp_all
qed

text \<open>An entry without children is cleared.\<close>

lemma clear_entry:
  assumes wf: "fs_wf ns" and i: "slot_of ns cs = Some i" "cs \<noteq> []"
    and leaf: "fs_view ns cs = Some Dir \<Longrightarrow> \<forall>c. fs_view ns (cs @ [c]) = None"
  shows "fs_wf (ns[i := (ns ! i)\<lparr>nd_used := 0\<rparr>])"
    and "fs_view (ns[i := (ns ! i)\<lparr>nd_used := 0\<rparr>]) = (fs_view ns)(cs := None)"
proof -
  let ?n = "(ns ! i)\<lparr>nd_used := 0\<rparr>"
  have ib: "0 < i" "i < FS_MAX_FILES"
    using i slot_of_zero [OF wf, of cs] slot_of_bound [OF wf i(1)] by (cases i; simp)+
  have childless: "nd_parent (ns ! j) \<noteq> of_nat i" if j: "j < FS_MAX_FILES" "nd_live (ns ! j)" for j
  proof
    assume "nd_parent (ns ! j) = of_nat i"
    then have "has_child (int i) ns" using j fs_wf_length [OF wf] by (intro has_childI) simp_all
    then obtain c where "fs_view ns (cs @ [c]) \<noteq> None" using has_child_eq [OF wf i(1)] by blast
    moreover from this have "fs_view ns cs = Some Dir" using fs_view_tree [OF wf] unfolding tree_ok_def by blast
    ultimately show False using leaf by simp
  qed
  have dead: "\<not> nd_live ?n" "node_shape ?n"
    using fs_wf_shape [OF wf ib(2)] by (simp_all add: nd_live_def node_shape_def)
  show wf': "fs_wf (ns[i := ?n])" by (rule fs_wf_clear [OF wf ib dead childless])
  show "fs_view (ns[i := ?n]) = (fs_view ns)(cs := None)"
    by (rule fs_view_clear [OF wf wf' ib(2) dead(1) i(1)])
qed

lemma fs_delete_eq:
  assumes "fs_ok k" "arg_ok path" "target k path = Some cs" "cs \<noteq> []" "slot_of (nodes k) cs = Some i"
  shows "fs_delete hw path k =
     (if fs_view (nodes k) cs = Some Dir \<and> (\<exists>c. fs_view (nodes k) (cs @ [c]) \<noteq> None)
      then say ''Directory is not empty'' 1 k
      else do {
        k' \<leftarrow> persist_if_enabled hw (k\<lparr>nodes := (nodes k)[i := (nodes k ! i)\<lparr>nd_used := 0\<rparr>]\<rparr>);
        Some (0, k') })"
proof -
  have wf: "fs_wf (nodes k)" using assms(1) by (rule fs_ok_wf)
  obtain rp where rp: "resolve path k = Some rp" "find_node (nodes k) rp = Some (int i)"
    using path_query [OF assms(1-3)] assms(5) by (metis index_or_minus1_simps(2))
  have i: "0 < i" "i < FS_MAX_FILES"
    using assms(4,5) slot_of_zero [OF wf, of cs] slot_of_bound [OF wf assms(5)] by (cases i; simp)+
  have "nd_type (nodes k ! i) = FS_DIR \<longleftrightarrow> fs_view (nodes k) cs = Some Dir"
    using assms(5) by (simp add: fs_view_def entry_of_def)
  then show ?thesis
    using rp i fs_wf_length [OF wf] has_child_eq [OF wf assms(5)] by (auto simp: fs_delete_def)
qed

lemma fs_delete_refines:
  assumes "fs_ok k" "arg_ok path" "target k path = Some cs"
  shows "\<exists>r k'. fs_delete hw path k = Some (r, k') \<and> fs_ok k' \<and> kept k k' \<and>
     tree_delete cs (fs_view (nodes k)) = (r, fs_view (nodes k'))"
proof (cases "cs = [] \<or> fs_view (nodes k) cs = None")
  case True
  obtain rp where "resolve path k = Some rp"
    "find_node (nodes k) rp = Some (index_or_minus1 (slot_of (nodes k) cs))"
    using path_query [OF assms] by metis
  moreover have "index_or_minus1 (slot_of (nodes k) cs) \<le> 0"
    using True slot_of_root [OF fs_ok_wf [OF assms(1)]] by (auto simp: view_None_iff)
  ultimately have "fs_delete hw path k = say ''Cannot delete that path'' 1 k" by (simp add: fs_delete_def)
  then show ?thesis
    using True gives_say [OF assms(1), of 1 "''Cannot delete that path''"]
    by (auto simp: gives_def tree_delete_def)
next
  case False
  then obtain i where i: "slot_of (nodes k) cs = Some i" "cs \<noteq> []" by (auto simp: view_None_iff)
  note run = fs_delete_eq [OF assms i(2,1), of hw]
  show ?thesis
  proof (cases "fs_view (nodes k) cs = Some Dir \<and> (\<exists>c. fs_view (nodes k) (cs @ [c]) \<noteq> None)")
    case True
    then show ?thesis
      using False run gives_say [OF assms(1), of 1 "''Directory is not empty''"]
      by (auto simp: gives_def tree_delete_def)
  next
    case leaf: False
    note cleared = clear_entry [OF fs_ok_wf [OF assms(1)] i]
    let ?ns = "(nodes k)[i := (nodes k ! i)\<lparr>nd_used := 0\<rparr>]"
    have made: "fs_wf ?ns" "fs_view ?ns = (fs_view (nodes k))(cs := None)" using cleared leaf by blast+
    have "gives k 0 ?ns (fs_delete hw path k)"
      using run leaf gives_persist [OF assms(1) made(1), of 0 hw] by (simp del: not_None_eq)
    moreover have "tree_delete cs (fs_view (nodes k)) = (0, fs_view ?ns)"
      using False leaf made(2) by (auto simp: tree_delete_def)
    ultimately show ?thesis by (auto simp: gives_def)
  qed
qed

subsection \<open>Reading\<close>

lemma sint_small:
  assumes "unat (w :: 32 word) \<le> 4096"
  shows "sint w = int (unat w)"
proof -
  have u: "uint w = int (unat w)" by (rule uint_nat)
  have b: "n \<le> 4096 \<Longrightarrow> - (2 ^ 31) \<le> int n" "n \<le> 4096 \<Longrightarrow> int n < 2 ^ 31" for n by simp_all
  have "sint w = signed_take_bit 31 (int (unat w))"
    unfolding sint_uint u by simp
  also have "\<dots> = int (unat w)"
    by (rule signed_take_bit_int_eq_self [OF b(1) [OF assms] b(2) [OF assms]])
  finally show ?thesis .
qed

lemma fs_read_file_eq:
  assumes "fs_ok k" "arg_ok path" "target k path = Some cs" "unat max_size \<le> length buffer"
  shows "fs_read_file path buffer max_size k =
     (case fs_view (nodes k) cs of
        Some (File content) \<Rightarrow>
          let got = take (unat max_size) content in
          Some (int (length got), got @ drop (length got) buffer)
      | _ \<Rightarrow> Some (-1, buffer))"
proof (cases "\<exists>old. fs_view (nodes k) cs = Some (File old)")
  case False
  obtain rp idx where "resolve path k = Some rp" "find_node (nodes k) rp = Some idx"
    "found_type idx FS_FILE k = Some False"
    using no_file_query [OF assms(1-3) False] .
  then have "fs_read_file path buffer max_size k = Some (-1, buffer)" by (simp add: fs_read_file_def)
  then show ?thesis using False by (auto split: option.splits fs_entry.splits)
next
  case True
  then obtain old where old: "fs_view (nodes k) cs = Some (File old)" by blast
  obtain rp i where q: "resolve path k = Some rp" "find_node (nodes k) rp = Some (int i)"
    "found_type (int i) FS_FILE k = Some True" "rd (nodes k) i = Some (nodes k ! i)"
    "old = take (unat (nd_size (nodes k ! i))) (nd_data (nodes k ! i))"
    "unat (nd_size (nodes k ! i)) \<le> FS_MAX_FILE_SIZE" "length (nd_data (nodes k ! i)) = FS_MAX_FILE_SIZE"
    using file_query [OF assms(1-3) old] .
  let ?s = "nd_size (nodes k ! i)" and ?d = "nd_data (nodes k ! i)"
  define count where "count = (if ?s < max_size then ?s else max_size)"
  have cnt: "unat count = min (unat ?s) (unat max_size)"
    by (simp add: count_def word_less_nat_alt min_def)
  then have got: "take (unat max_size) old = take (unat count) ?d"
    and len: "length (take (unat max_size) old) = unat count"
    using q(5-7) by (simp_all add: min.commute)
  have "unat count \<le> 4096" using cnt q(6) by (simp add: FS_MAX_FILE_SIZE_def)
  then have sint: "sint count = int (unat count)" by (rule sint_small)
  have "kmemcpy buffer ?d (unat count) = Some (take (unat count) ?d @ drop (unat count) buffer)"
    using cnt q(6,7) assms(4) by (intro kmemcpy_eq) simp_all
  then have "fs_read_file path buffer max_size k = Some (int (unat count), take (unat count) ?d @ drop (unat count) buffer)"
    using q(1-4) sint by (simp add: fs_read_file_def Let_def flip: count_def)
  then show ?thesis using old got len by (simp add: Let_def)
qed

subsection \<open>Queries and the current directory\<close>

lemma fs_exists_eq:
  assumes "fs_ok k" "arg_ok path" "target k path = Some cs"
  shows "fs_exists path k = Some (fs_view (nodes k) cs \<noteq> None)"
proof -
  obtain r where "resolve path k = Some r"
    "find_node (nodes k) r = Some (index_or_minus1 (slot_of (nodes k) cs))"
    using path_query [OF assms] by metis
  then show ?thesis
    by (auto simp: fs_exists_def fs_view_def index_or_minus1_def split: option.splits)
qed

lemma fs_is_file_eq:
  assumes "fs_ok k" "arg_ok path" "target k path = Some cs"
  shows "fs_is_file path k = Some (\<exists>d. fs_view (nodes k) cs = Some (File d))"
proof -
  obtain r where "resolve path k = Some r"
    "find_node (nodes k) r = Some (index_or_minus1 (slot_of (nodes k) cs))"
    using path_query [OF assms] by metis
  then show ?thesis
    using found_type_eq(2) [OF fs_ok_wf [OF assms(1)]] by (simp add: fs_is_file_def)
qed

lemma fs_is_dir_eq:
  assumes "fs_ok k" "arg_ok path" "target k path = Some cs"
  shows "fs_is_dir path k = Some (fs_view (nodes k) cs = Some Dir)"
proof -
  obtain r where "resolve path k = Some r"
    "find_node (nodes k) r = Some (index_or_minus1 (slot_of (nodes k) cs))"
    using path_query [OF assms] by metis
  then show ?thesis
    using found_type_eq(1) [OF fs_ok_wf [OF assms(1)]] by (simp add: fs_is_dir_def)
qed

lemma fs_get_file_size_eq:
  assumes "fs_ok k" "arg_ok path" "target k path = Some cs" "fs_view (nodes k) cs = Some (File content)"
  shows "fs_get_file_size path k = Some (of_nat (length content))"
proof -
  have wf: "fs_wf (nodes k)" using assms(1) by (rule fs_ok_wf)
  obtain r where r: "resolve path k = Some r"
    "find_node (nodes k) r = Some (index_or_minus1 (slot_of (nodes k) cs))"
    using path_query [OF assms(1-3)] by metis
  obtain i where i: "slot_of (nodes k) cs = Some i" "i < FS_MAX_FILES" "node_shape (nodes k ! i)"
    "content = take (unat (nd_size (nodes k ! i))) (nd_data (nodes k ! i))"
    "unat (nd_size (nodes k ! i)) \<le> FS_MAX_FILE_SIZE"
    using file_slot [OF wf assms(4)] by metis
  then have "length content = unat (nd_size (nodes k ! i))" by (simp add: node_shape_def)
  then show ?thesis using r i fs_wf_length [OF wf] by (simp add: fs_get_file_size_def)
qed

definition tree_chdir :: "byte list list \<Rightarrow> fs_tree \<Rightarrow> int" where
  "tree_chdir cs v = (if v cs = Some Dir then 0 else 1)"

lemma fs_change_dir_refines:
  assumes "fs_ok k" "arg_ok path" "target k path = Some cs"
  shows "\<exists>k'. fs_change_dir path k = Some (tree_chdir cs (fs_view (nodes k)), k') \<and> fs_ok k' \<and>
     nodes k' = nodes k \<and> k_dev k' = k_dev k \<and>
     cstr (current_dir k') =
       (if fs_view (nodes k) cs = Some Dir then path_of cs else cstr (current_dir k))"
proof -
  have wf: "fs_wf (nodes k)" using assms(1) by (rule fs_ok_wf)
  have cs: "parts_ok cs" "length (path_of cs) < 128" using target_ok [OF assms(2,3)] by auto
  obtain r where r: "resolve path k = Some r" "terminated r" "cstr r = path_of cs"
    "find_node (nodes k) r = Some (index_or_minus1 (slot_of (nodes k) cs))"
    using path_query [OF assms] by metis
  show ?thesis
  proof (cases "fs_view (nodes k) cs = Some Dir")
    case False
    then have "fs_change_dir path k = say ''Directory not found'' 1 k"
      using r found_type_eq(1) [OF wf, of cs] by (simp add: fs_change_dir_def)
    then show ?thesis
      using False fs_ok_cong [OF assms(1), of "shown ''Directory not found'' k"] wf
      by (simp add: say_eq tree_chdir_def)
  next
    case True
    have nz: "0 \<notin> set (path_of cs)" using path_of_zero [OF cs(1)] .
    obtain cwd where cwd: "put_str (current_dir k) (path_of cs) = Some cwd"
      using assms(1) cs(2) by (simp add: put_str_def fs_ok_def FS_MAX_PATH_def)
    have "fs_change_dir path k = Some (0, k\<lparr>current_dir := cwd\<rparr>)"
      using True r found_type_eq(1) [OF wf, of cs] cwd by (simp add: fs_change_dir_def str_copy_eq)
    moreover have "fs_ok (k\<lparr>current_dir := cwd\<rparr>)"
      using assms(1) target_comps [OF assms(2,3)] put_str_cstr [OF cwd nz] put_str_terminated [OF cwd] put_str_length [OF cwd]
      by (auto simp: fs_ok_def)
    ultimately show ?thesis using True put_str_cstr [OF cwd nz] by (simp add: tree_chdir_def)
  qed
qed

text \<open>A listing prints and returns; it changes only the terminal.\<close>

lemma kprint_eq:
  "terminated b \<Longrightarrow> kprint (Some b) k = Some (k\<lparr>k_term := fold io_print_char (cstr b) (k_term k)\<rparr>)"
  by (simp add: kprint_def io_print_eq)

lemma kprintln_eq:
  "terminated b \<Longrightarrow> kprintln (Some b) k =
     Some (k\<lparr>k_term := io_print_char 0x0A (fold io_print_char (cstr b) (k_term k))\<rparr>)"
  by (simp add: kprintln_def io_println_eq)

lemma kprint_int_eq:
  "sint v \<noteq> - (2 ^ 31) \<Longrightarrow> kprint_int v k = Some (k\<lparr>k_term :=
     fold io_print_char ((if sint v < 0 then [0x2D] else []) @ decimal (nat \<bar>sint v\<bar>)) (k_term k)\<rparr>)"
  by (simp add: kprint_int_def io_print_int_eq)

lemma kprint_int_nat:
  "sint v = int n \<Longrightarrow> kprint_int v k = Some (k\<lparr>k_term := fold io_print_char (decimal n) (k_term k)\<rparr>)"
  by (simp add: kprint_int_eq)

text \<open>The line of one entry: \<open><DIR>\<close> or blanks, the name and, for a file, its size.\<close>

definition entry_line :: "byte list \<Rightarrow> fs_entry \<Rightarrow> byte list" where
  "entry_line nm e =
     (case e of
        Dir \<Rightarrow> bytes_of ''<DIR>  '' @ nm
      | File content \<Rightarrow> bytes_of ''       '' @ nm @ bytes_of ''  '' @ decimal (length content) @
          bytes_of '' bytes'') @ [0x0A]"

lemma list_literals:
  "cstr (lit ''<DIR>  '') = bytes_of ''<DIR>  ''" "cstr (lit ''       '') = bytes_of ''       ''"
  "cstr (lit ''  '') = bytes_of ''  ''" "cstr (lit '' bytes'') = bytes_of '' bytes''" "cstr (lit []) = []"
  by (simp_all add: lit_def bytes_of_def)

lemma list_entry_eq:
  assumes "fs_wf ns" "0 < j" "j < FS_MAX_FILES" "nd_live (ns ! j)"
  shows "list_entry (ns ! j) k = Some (k\<lparr>k_term :=
     fold io_print_char (entry_line (cstr (nd_name (ns ! j))) (entry_of (ns ! j))) (k_term k)\<rparr>)"
proof -
  let ?n = "ns ! j"
  have e: "terminated (nd_name ?n)" "nd_type ?n = FS_FILE \<or> nd_type ?n = FS_DIR"
    "unat (nd_size ?n) \<le> FS_MAX_FILE_SIZE"
    using fs_wf_entry [OF assms] by (auto simp: entry_ok_def)
  have dl: "length (nd_data ?n) = FS_MAX_FILE_SIZE"
    using fs_wf_shape [OF assms(1,3)] by (simp add: node_shape_def)
  have int: "kprint_int (nd_size ?n) k' =
      Some (k'\<lparr>k_term := fold io_print_char (decimal (unat (nd_size ?n))) (k_term k')\<rparr>)" for k' :: "'a kernel"
    using e(3) by (intro kprint_int_nat sint_small) (simp add: FS_MAX_FILE_SIZE_def)
  show ?thesis
    using e dl int
    by (auto simp: list_entry_def kprint_eq kprintln_eq list_literals entry_line_def entry_of_def)
qed

text \<open>The listing of a directory: the lines of its entries in the order of their slots.\<close>

definition listing :: "fs_node list \<Rightarrow> byte list list \<Rightarrow> byte list" where
  "listing ns cs = concat (map (\<lambda>n. entry_line (cstr (nd_name n)) (entry_of n))
     (filter (\<lambda>n. nd_live n \<and> (\<exists>c. cstr (nd_path n) = path_of (cs @ [c]) \<and> parts_ok (cs @ [c]))) ns))"

lemma child_iff:
  assumes "fs_wf ns" "slot_of ns cs = Some i" "j < FS_MAX_FILES" "nd_live (ns ! j)"
  shows "nd_parent (ns ! j) = of_nat i \<longleftrightarrow>
     (\<exists>c. cstr (nd_path (ns ! j)) = path_of (cs @ [c]) \<and> parts_ok (cs @ [c]))"
proof (cases "j = 0")
  case True
  have i: "i < FS_MAX_FILES" using assms(1,2) by (rule slot_of_bound)
  have root: "nd_parent (ns ! 0) = - 1" "cstr (nd_path (ns ! 0)) = path_of []"
    using fs_wf_root [OF assms(1)] by (simp_all add: root_node_def)
  have "(of_nat i :: 32 word) \<noteq> - 1" using i by (rule slot_not_minus1)
  moreover have "path_of [] \<noteq> path_of (cs @ [c])" if "parts_ok (cs @ [c])" for c
    using that path_of_inject [of "[]" "cs @ [c]"] by simp
  ultimately show ?thesis using True root by auto
next
  case False
  then obtain ds d p where d: "parts_ok (ds @ [d])" "cstr (nd_path (ns ! j)) = path_of (ds @ [d])"
    "nd_parent (ns ! j) = of_nat p" "slot_of ns ds = Some p"
    using parent_link [OF assms(1) _ assms(3,4)] by (metis neq0_conv)
  have "nd_parent (ns ! j) = of_nat i \<longleftrightarrow> p = i"
    using d(3) of_nat_slot_eq [OF slot_of_bound [OF assms(1) d(4)] slot_of_bound [OF assms(1,2)]] by simp
  also have "\<dots> \<longleftrightarrow> ds = cs"
  proof
    assume "p = i"
    then show "ds = cs"
      using d(4) assms(2) path_of_inject by (auto simp: slot_of_Some_iff [OF assms(1)])
  qed (use d(4) assms(2) in simp)
  also have "\<dots> \<longleftrightarrow> (\<exists>c. cstr (nd_path (ns ! j)) = path_of (cs @ [c]) \<and> parts_ok (cs @ [c]))"
    using d(1,2) path_of_inject by (metis butlast_snoc)
  finally show ?thesis .
qed

lemma list_loop_eq:
  assumes "fs_wf ns" "slot_of ns cs = Some i"
  shows "list_loop (int i) (drop j ns) k = Some (k\<lparr>k_term :=
    fold io_print_char (concat (map (\<lambda>n. entry_line (cstr (nd_name n)) (entry_of n))
      (filter (\<lambda>n. nd_live n \<and> (\<exists>c. cstr (nd_path n) = path_of (cs @ [c]) \<and> parts_ok (cs @ [c])))
        (drop j ns)))) (k_term k)\<rparr>)"
proof (induction "length ns - j" arbitrary: j k)
  case 0
  then show ?case by simp
next
  case (Suc m)
  then have j: "j < length ns" by simp
  then have dr: "drop j ns = ns ! j # drop (Suc j) ns" by (simp add: Cons_nth_drop_Suc)
  have jb: "j < FS_MAX_FILES" using j fs_wf_length [OF assms(1)] by simp
  have IH: "list_loop (int i) (drop (Suc j) ns) k' = Some (k'\<lparr>k_term :=
    fold io_print_char (concat (map (\<lambda>n. entry_line (cstr (nd_name n)) (entry_of n))
      (filter (\<lambda>n. nd_live n \<and> (\<exists>c. cstr (nd_path n) = path_of (cs @ [c]) \<and> parts_ok (cs @ [c])))
        (drop (Suc j) ns)))) (k_term k')\<rparr>)" for k' :: "'a kernel"
    by (rule Suc.hyps(1)) (use Suc.hyps(2) in simp)
  show ?case
  proof (cases "nd_live (ns ! j) \<and> nd_parent (ns ! j) = of_nat i")
    case True
    then have live: "nd_live (ns ! j)" by simp
    then obtain c where c: "cstr (nd_path (ns ! j)) = path_of (cs @ [c])" "parts_ok (cs @ [c])"
      using child_iff [OF assms jb] True by blast
    have "j \<noteq> 0"
    proof
      assume "j = 0"
      then have "path_of (cs @ [c]) = path_of []"
        using c(1) fs_wf_root [OF assms(1)] by (simp add: root_node_def)
      then show False using path_of_inject [OF c(2), of "[]"] by simp
    qed
    then have "0 < j" by simp
    with live have "list_entry (ns ! j) k = Some (k\<lparr>k_term :=
        fold io_print_char (entry_line (cstr (nd_name (ns ! j))) (entry_of (ns ! j))) (k_term k)\<rparr>)"
      using list_entry_eq [OF assms(1) _ jb] by simp
    then show ?thesis
      using True child_iff [OF assms jb live] IH by (simp add: dr nd_live_def)
  next
    case False
    then show ?thesis
      using child_iff [OF assms jb] IH by (auto simp: dr nd_live_def)
  qed
qed

lemma fs_list_dir_eq:
  assumes "fs_ok k" "arg_ok path" "target k path = Some cs"
  shows "fs_list_dir path k = Some
     (if fs_view (nodes k) cs = Some Dir
      then (0, k\<lparr>k_term := fold io_print_char (listing (nodes k) cs) (k_term k)\<rparr>)
      else (1, shown ''Directory not found'' k))"
proof -
  have wf: "fs_wf (nodes k)" using assms(1) by (rule fs_ok_wf)
  obtain r where r: "resolve path k = Some r"
    "find_node (nodes k) r = Some (index_or_minus1 (slot_of (nodes k) cs))"
    using path_query [OF assms] by metis
  show ?thesis
  proof (cases "fs_view (nodes k) cs = Some Dir")
    case False
    then show ?thesis using r found_type_eq(1) [OF wf, of cs] by (simp add: fs_list_dir_def say_eq)
  next
    case True
    then obtain i where i: "slot_of (nodes k) cs = Some i" by (auto simp: fs_view_def)
    then show ?thesis
      using True r found_type_eq(1) [OF wf, of cs] list_loop_eq [OF wf i, of 0 k]
      by (simp add: fs_list_dir_def listing_def)
  qed
qed

end
