(* ===== verification/Fs_Boot.thy ===== *)
theory Fs_Boot
  imports Fs_Ops
begin

section \<open>Starting the filesystem\<close>

text \<open>
  \<open>fs_init\<close> and \<open>create_default_tree\<close>: from a zeroed table the default tree is built by the ordinary
  operations, from a disk that holds an image the saved table comes back.
\<close>

subsection \<open>The default tree\<close>

definition default_view :: fs_tree where
  "default_view = [[] \<mapsto> Dir, [bytes_of ''progs''] \<mapsto> Dir, [bytes_of ''home''] \<mapsto> Dir,
     [bytes_of ''home'', bytes_of ''readme.txt''] \<mapsto> File (cstr readme_text)]"

lemma fs_wf_root_only:
  assumes "table_shape ns" "root_node (ns ! 0)" "\<And>i. 0 < i \<Longrightarrow> i < FS_MAX_FILES \<Longrightarrow> \<not> nd_live (ns ! i)"
  shows "fs_wf ns" "fs_view ns = [[] \<mapsto> Dir]"
proof -
  have dead: "i < FS_MAX_FILES \<Longrightarrow> nd_live (ns ! i) \<Longrightarrow> i = 0" for i using assms(3) by (cases i) auto
  show wf: "fs_wf ns"
    using assms dead by (auto simp: fs_wf_def table_shape_def names_distinct_def)
  show "fs_view ns = [[] \<mapsto> Dir]"
  proof
    fix cs
    show "fs_view ns cs = [[] \<mapsto> Dir] cs"
    proof (cases "cs = []")
      case True
      then show ?thesis
        using assms(2) slot_of_root [OF wf] by (simp add: fs_view_def entry_of_def root_node_def)
    next
      case False
      have "slot_of ns cs = Some i \<Longrightarrow> i = 0" for i using dead by (simp add: slot_of_Some_iff [OF wf])
      then have "slot_of ns cs = None" using False slot_of_zero [OF wf, of cs] by (cases "slot_of ns cs") auto
      then show ?thesis using False by (simp add: fs_view_def)
    qed
  qed
qed

text \<open>The paths of the default tree, in any directory.\<close>

lemma path_of_literals:
  "path_of [bytes_of ''progs''] = cstr (lit ''/progs'')"
  "path_of [bytes_of ''home''] = cstr (lit ''/home'')"
  "path_of [bytes_of ''home'', bytes_of ''readme.txt''] = cstr (lit ''/home/readme.txt'')"
  by code_simp+

lemma comps_ok_literals:
  "comps_ok [bytes_of ''progs'']" "comps_ok [bytes_of ''home'']"
  "comps_ok [bytes_of ''home'', bytes_of ''readme.txt'']"
  by code_simp+

lemma target_path_of:
  assumes "comps_ok cs" "cstr s = path_of cs" "length (cstr s) < 128"
  shows "target k (Some s) = Some cs"
  using resolve_comps_path_of [OF assms(1)] assms(2,3) by (simp add: target_def)

lemma length_literals:
  "length (cstr (lit ''/progs'')) < 128" "length (cstr (lit ''/home'')) < 128"
  "length (cstr (lit ''/home/readme.txt'')) < 128"
  by code_simp+

lemma target_literals:
  "target k (Some (lit ''/progs'')) = Some [bytes_of ''progs'']"
  "target k (Some (lit ''/home'')) = Some [bytes_of ''home'']"
  "target k (Some (lit ''/home/readme.txt'')) = Some [bytes_of ''home'', bytes_of ''readme.txt'']"
  using target_path_of [OF comps_ok_literals(1) path_of_literals(1) [symmetric] length_literals(1)]
    target_path_of [OF comps_ok_literals(2) path_of_literals(2) [symmetric] length_literals(2)]
    target_path_of [OF comps_ok_literals(3) path_of_literals(3) [symmetric] length_literals(3)]
  by blast+

lemma names_differ:
  "bytes_of ''home'' \<noteq> bytes_of ''progs''" "bytes_of ''progs'' \<noteq> bytes_of ''home''"
  by code_simp+

lemma readme_text_size: "take (unat (70 :: 32 word)) readme_text = cstr readme_text"
    "unat (70 :: 32 word) \<le> length readme_text" "length (cstr readme_text) \<le> FS_MAX_FILE_SIZE"
  by code_simp+

lemma small_tree_not_full: "card (dom v) < FS_MAX_FILES \<Longrightarrow> \<not> tree_full v"
  by (simp add: tree_full_def)

text \<open>The entries below the root, created and written by the ordinary operations.\<close>

lemma default_entries:
  assumes ok0: "fs_ok k0" and v0: "fs_view (nodes k0) = [[] \<mapsto> Dir]"
  obtains r1 k1 r2 k2 r3 k3 r4 k4 where "fs_create_dir hw (Some (lit ''/progs'')) k0 = Some (r1, k1)"
    "fs_create_dir hw (Some (lit ''/home'')) k1 = Some (r2, k2)"
    "fs_create_file hw (Some (lit ''/home/readme.txt'')) k2 = Some (r3, k3)"
    "fs_write_file hw (Some (lit ''/home/readme.txt'')) readme_text 70 k3 = Some (r4, k4)"
    "fs_ok k4" "kept k0 k4" "fs_view (nodes k4) = default_view"
proof -
  note dirs = create_node_refines [where t = FS_DIR and msg = "''Directory already exists''" and hw = hw,
      folded fs_create_dir_def, unfolded entry_of_type_def]
  obtain r1 k1 where k1: "fs_create_dir hw (Some (lit ''/progs'')) k0 = Some (r1, k1)" "fs_ok k1" "kept k0 k1"
    "tree_create Dir [bytes_of ''progs''] (fs_view (nodes k0)) = (r1, fs_view (nodes k1))"
    using dirs [OF ok0 _ target_literals(1)] by auto
  have v1: "fs_view (nodes k1) = [[] \<mapsto> Dir, [bytes_of ''progs''] \<mapsto> Dir]"
    using k1(4) small_tree_not_full [of "[[] \<mapsto> Dir]"]
    by (simp add: v0 tree_create_def FS_MAX_FILES_def)
  obtain r2 k2 where k2: "fs_create_dir hw (Some (lit ''/home'')) k1 = Some (r2, k2)" "fs_ok k2" "kept k1 k2"
    "tree_create Dir [bytes_of ''home''] (fs_view (nodes k1)) = (r2, fs_view (nodes k2))"
    using dirs [OF k1(2) _ target_literals(2)] by auto
  have v2: "fs_view (nodes k2) = [[] \<mapsto> Dir, [bytes_of ''progs''] \<mapsto> Dir, [bytes_of ''home''] \<mapsto> Dir]"
    using k2(4) small_tree_not_full [of "[[] \<mapsto> Dir, [bytes_of ''progs''] \<mapsto> Dir]"] names_differ
    by (simp add: v1 tree_create_def FS_MAX_FILES_def card_insert_if)
  obtain r3 k3 where k3: "fs_create_file hw (Some (lit ''/home/readme.txt'')) k2 = Some (r3, k3)"
    "fs_ok k3" "kept k2 k3"
    "tree_create (File []) [bytes_of ''home'', bytes_of ''readme.txt''] (fs_view (nodes k2)) =
       (r3, fs_view (nodes k3))"
    using create_node_refines [OF k2(2) _ target_literals(3), of FS_FILE "''File already exists''" hw]
    by (auto simp: entry_of_type_def fs_create_file_def)
  have v3: "fs_view (nodes k3) = [[] \<mapsto> Dir, [bytes_of ''progs''] \<mapsto> Dir, [bytes_of ''home''] \<mapsto> Dir,
      [bytes_of ''home'', bytes_of ''readme.txt''] \<mapsto> File []]"
    using k3(4) names_differ
      small_tree_not_full [of "[[] \<mapsto> Dir, [bytes_of ''progs''] \<mapsto> Dir, [bytes_of ''home''] \<mapsto> Dir]"]
    by (simp add: v2 tree_create_def FS_MAX_FILES_def card_insert_if)
  obtain r4 k4 where k4: "fs_write_file hw (Some (lit ''/home/readme.txt'')) readme_text 70 k3 = Some (r4, k4)"
    "fs_ok k4" "kept k3 k4"
    "tree_write (cstr readme_text) [bytes_of ''home'', bytes_of ''readme.txt''] (fs_view (nodes k3)) =
       (r4, fs_view (nodes k4))"
    using fs_write_file_refines [OF k3(2) _ target_literals(3) readme_text_size(2), of hw] readme_text_size(1)
    by auto
  have v4: "fs_view (nodes k4) = default_view"
    using k4(4) readme_text_size(3) by (simp add: v3 tree_write_def default_view_def)
  have "kept k0 k4" using k1(3) k2(3) k3(3) k4(3) kept_trans by blast
  then show ?thesis using that k1(1) k2(1) k3(1) k4(1,2) v4 by blast
qed

text \<open>The root is written into slot 0 directly.\<close>

lemma create_default_tree_ok:
  assumes "table_shape (nodes k)" "\<And>i. 0 < i \<Longrightarrow> i < FS_MAX_FILES \<Longrightarrow> \<not> nd_live (nodes k ! i)"
    and "length (current_dir k) = FS_MAX_PATH" "terminated (current_dir k)"
    and "comps_ok cwd" "cstr (current_dir k) = path_of cwd"
  shows "\<exists>k'. create_default_tree hw k = Some k' \<and> fs_ok k' \<and> kept k k' \<and>
     fs_view (nodes k') = default_view"
proof -
  let ?n = "nodes k ! 0"
  have len: "0 < length (nodes k)" using assms(1) by (simp add: table_shape_def FS_MAX_FILES_def)
  have shape: "node_shape ?n" using assms(1) len by (simp add: table_shape_def)
  obtain nm where nm: "put_str (nd_name ?n) [slash] = Some nm"
    using shape by (simp add: put_str_def node_shape_def FS_MAX_NAME_def)
  obtain pth where pth: "put_str (nd_path ?n) [slash] = Some pth"
    using shape by (simp add: put_str_def node_shape_def FS_MAX_PATH_def)
  define n where "n = ?n\<lparr>nd_used := 1, nd_type := FS_DIR, nd_parent := - 1, nd_name := nm, nd_path := pth\<rparr>"
  define k0 where "k0 = k\<lparr>nodes := (nodes k)[0 := n]\<rparr>"
  have n: "root_node n" "node_shape n"
    using shape put_str_terminated [OF nm] put_str_terminated [OF pth] put_str_cstr [OF pth]
      put_str_length [OF nm] put_str_length [OF pth]
    by (simp_all add: n_def root_node_def node_shape_def nd_live_def)
  have "table_shape (nodes k0)"
    using assms(1) n(2) by (auto simp: k0_def table_shape_def dest!: set_update_subset_insert [THEN subsetD])
  then have wf0: "fs_wf (nodes k0)" "fs_view (nodes k0) = [[] \<mapsto> Dir]"
    using fs_wf_root_only [of "nodes k0"] n(1) len assms(2) by (simp_all add: k0_def)
  then have ok0: "fs_ok k0" "kept k k0"
    using assms(3-6) by (auto simp: fs_ok_def k0_def kept_def)
  obtain r1 k1 r2 k2 r3 k3 r4 k4 where s: "fs_create_dir hw (Some (lit ''/progs'')) k0 = Some (r1, k1)"
    "fs_create_dir hw (Some (lit ''/home'')) k1 = Some (r2, k2)"
    "fs_create_file hw (Some (lit ''/home/readme.txt'')) k2 = Some (r3, k3)"
    "fs_write_file hw (Some (lit ''/home/readme.txt'')) readme_text 70 k3 = Some (r4, k4)"
    and k4: "fs_ok k4" "kept k0 k4" "fs_view (nodes k4) = default_view"
    by (rule default_entries [OF ok0(1) wf0(2)])
  have "create_default_tree hw k = Some k4"
    using len nm pth s by (simp add: create_default_tree_def str_copy_eq n_def k0_def Let_def)
  then show ?thesis using k4 kept_trans [OF ok0(2)] by blast
qed

subsection \<open>The zeroed table\<close>

definition zero_node :: fs_node where
  "zero_node = \<lparr>nd_name = replicate 32 0, nd_path = replicate 128 0, nd_type = 0, nd_parent = 0,
     nd_size = 0, nd_data = replicate 4096 0, nd_used = 0\<rparr>"

lemma zero_node_bytes: "node_of_bytes (replicate NODE_BYTES 0) = zero_node"
  by (simp add: node_of_bytes_def NODE_BYTES_def zero_node_def u32_of_bytes_def)

lemma nodes_of_zero_raw: "nodes_of_raw m (replicate (m * NODE_BYTES) 0) = replicate m zero_node"
proof (induction m)
  case (Suc m)
  have "take NODE_BYTES (replicate (Suc m * NODE_BYTES) 0) = (replicate NODE_BYTES 0 :: byte list)"
    and "drop NODE_BYTES (replicate (Suc m * NODE_BYTES) 0) = (replicate (m * NODE_BYTES) 0 :: byte list)"
    by simp_all
  then show ?case using Suc by (simp only: nodes_of_raw.simps zero_node_bytes replicate_Suc)
qed simp

definition zero_table :: "fs_node list" where
  "zero_table = replicate FS_MAX_FILES zero_node"

lemma zero_table_shape: "table_shape zero_table"
  by (simp add: table_shape_def zero_table_def node_shape_def zero_node_def FS_MAX_NAME_def
      FS_MAX_PATH_def FS_MAX_FILE_SIZE_def)

lemma zero_table_dead: "i < FS_MAX_FILES \<Longrightarrow> \<not> nd_live (zero_table ! i)"
  by (simp add: zero_table_def zero_node_def nd_live_def)

text \<open>What \<open>fs_init\<close> has done before it looks for a disk.\<close>

definition fs_zeroed :: "'d kernel \<Rightarrow> 'd kernel" where
  "fs_zeroed k = k\<lparr>nodes := zero_table, current_dir := slash # 0 # drop 2 (current_dir k),
     persistence_enabled := False, fs_booting := True\<rparr>"

lemma fs_init_eq:
  assumes "table_shape (nodes k)" "length (current_dir k) = FS_MAX_PATH"
  shows "fs_init hw k =
     (if disk_present (k_disk k) then do {
        (r, k2) \<leftarrow> fs_disk_load hw (fs_zeroed k);
        (if r = 0 then Some (k2\<lparr>fs_booting := False\<rparr>)
         else do {
           k3 \<leftarrow> create_default_tree hw k2;
           (_, k4) \<leftarrow> fs_disk_save hw k3;
           Some (k4\<lparr>fs_booting := False\<rparr>) }) }
      else do {
        k3 \<leftarrow> create_default_tree hw (fs_zeroed k);
        Some (k3\<lparr>fs_booting := False\<rparr>) })"
proof -
  have "kmemset (raw_of_nodes (nodes k)) 0 (FS_MAX_FILES * NODE_BYTES) =
      Some (replicate (FS_MAX_FILES * NODE_BYTES) 0)"
    using length_raw_shape [OF assms(1)] by (simp add: kmemset_eq raw_bytes_eq(1))
  moreover have "str_copy (current_dir k) (Some (lit ''/'')) = Some (slash # 0 # drop 2 (current_dir k))"
    using assms(2) by (simp add: str_copy_eq put_str_def FS_MAX_PATH_def numeral_2_eq_2)
  ultimately show ?thesis
    by (simp add: fs_init_def Let_def nodes_of_zero_raw fs_zeroed_def zero_table_def)
qed

lemma fs_zeroed_cwd:
  assumes "length (current_dir k) = FS_MAX_PATH"
  shows "length (current_dir (fs_zeroed k)) = FS_MAX_PATH" "terminated (current_dir (fs_zeroed k))"
    and "cstr (current_dir (fs_zeroed k)) = path_of []" "comps_ok []"
  using assms by (simp_all add: fs_zeroed_def comps_ok_def FS_MAX_PATH_def)

lemma fs_booting_irrelevant: "fs_ok (k\<lparr>fs_booting := b\<rparr>) \<longleftrightarrow> fs_ok k"
  by (simp add: fs_ok_def)

text \<open>What start-up of the filesystem leaves alone.\<close>

definition fs_keeps :: "'d kernel \<Rightarrow> 'd kernel \<Rightarrow> bool" where
  "fs_keeps k k' \<longleftrightarrow> k_keys k' = k_keys k \<and> k_users k' = k_users k \<and> k_heap k' = k_heap k \<and>
     k_disk k' = k_disk k \<and> (term_wf (k_term k) \<longrightarrow> term_wf (k_term k'))"

text \<open>Without a disk, and with one that holds no image of this filesystem.\<close>

lemma fs_init_without_disk:
  assumes "table_shape (nodes k)" "length (current_dir k) = FS_MAX_PATH" "\<not> has_disk (k_disk k)"
  shows "\<exists>k'. fs_init hw k = Some k' \<and> fs_ok k' \<and> fs_view (nodes k') = default_view \<and>
     cstr (current_dir k') = path_of [] \<and> \<not> persistence_enabled k' \<and> \<not> fs_booting k' \<and>
     fs_keeps k k'"
proof -
  note cwd = fs_zeroed_cwd [OF assms(2)]
  have "table_shape (nodes (fs_zeroed k))" by (simp add: fs_zeroed_def zero_table_shape)
  moreover have "\<not> nd_live (nodes (fs_zeroed k) ! i)" if "0 < i" "i < FS_MAX_FILES" for i
    using that zero_table_dead by (simp add: fs_zeroed_def)
  ultimately obtain k3 where k3: "create_default_tree hw (fs_zeroed k) = Some k3" "fs_ok k3"
    "kept (fs_zeroed k) k3" "fs_view (nodes k3) = default_view"
    using create_default_tree_ok [of "fs_zeroed k" "[]" hw] cwd by blast
  have "fs_init hw k = Some (k3\<lparr>fs_booting := False\<rparr>)"
    using fs_init_eq [OF assms(1,2), of hw] assms(3) k3(1) by (simp add: disk_present_def)
  then show ?thesis
    using k3(2-4) cwd(3) by (auto simp: fs_booting_irrelevant kept_def fs_keeps_def fs_zeroed_def)
qed

lemma fs_init_formats:
  assumes "table_shape (nodes k)" "length (current_dir k) = FS_MAX_PATH"
    and "tolerant_drive hw view capacity" "3117 \<le> capacity" "has_disk (k_disk k)" "drive_ready view (k_dev k)"
    and "header_matches (drive_sector view (k_dev k) 2048) = Some False"
  shows "\<exists>k'. fs_init hw k = Some k' \<and> fs_ok k' \<and> fs_view (nodes k') = default_view \<and>
     persistence_enabled k' \<and> \<not> fs_booting k' \<and> drive_ready view (k_dev k') \<and>
     image_at (drive_sector view (k_dev k')) (raw_of_nodes (nodes k')) \<and>
     cstr (current_dir k') = path_of [] \<and> fs_keeps k k'"
proof -
  note drive = tolerant_drive.drive_disk [OF assms(3)]
  note cwd = fs_zeroed_cwd [OF assms(2)]
  let ?z = "fs_zeroed k"
  have z: "k_disk ?z = k_disk k" "k_dev ?z = k_dev k" by (simp_all add: fs_zeroed_def)
  have start: "unat FS_DISK_START_LBA = 2048" by (simp add: FS_DISK_START_LBA_def)
  obtain d1 where d1: "disk_read_sector hw disk_online FS_DISK_START_LBA (fresh 512) (k_dev k) =
      Some (True, drive_sector view (k_dev k) 2048, d1)" "drive_ready view d1"
    using sector_disk.read_law [OF drive assms(6), of FS_DISK_START_LBA "fresh 512"] start assms(4) by auto
  let ?k2 = "?z\<lparr>k_dev := d1\<rparr>"
  have load: "fs_disk_load hw ?z = Some (1, ?k2)"
    using d1(1) assms(5,7) z
    by (simp add: fs_disk_load_def disk_present_def disk_online_cong(1) [OF assms(5)])
  have "table_shape (nodes ?k2)" by (simp add: fs_zeroed_def zero_table_shape)
  moreover have "\<not> nd_live (nodes ?k2 ! i)" if "0 < i" "i < FS_MAX_FILES" for i
    using that zero_table_dead by (simp add: fs_zeroed_def)
  ultimately obtain k3 where k3: "create_default_tree hw ?k2 = Some k3" "fs_ok k3"
    "kept ?k2 k3" "fs_view (nodes k3) = default_view"
    using create_default_tree_ok [of ?k2 "[]" hw] cwd by (auto simp: fs_zeroed_def)
  have dev3: "k_dev k3 = d1" "k_disk k3 = k_disk k"
    using k3(3) z(1) by (simp_all add: kept_def fs_zeroed_def)
  obtain d4 where d4: "fs_disk_save hw k3 = Some (0, k3\<lparr>k_dev := d4, persistence_enabled := True\<rparr>)"
    "drive_ready view d4" "image_at (drive_sector view d4) (raw_of_nodes (nodes k3))"
    using disk_save_ok [OF assms(3,4), of k3] dev3 assms(5) d1(2)
      fs_wf_table_shape [OF fs_ok_wf [OF k3(2)]] by auto
  have "fs_init hw k = Some (k3\<lparr>k_dev := d4, persistence_enabled := True, fs_booting := False\<rparr>)"
    using fs_init_eq [OF assms(1,2), of hw] assms(5) load k3(1) d4(1) by (simp add: disk_present_def)
  then show ?thesis
    using k3(2-4) d4(2,3) cwd(3) by (auto simp: fs_ok_def kept_def fs_keeps_def fs_zeroed_def)
qed

text \<open>With a disk that holds a table under a valid header: the table is adopted as it is, well-formed or not.\<close>

lemma fs_init_adopts:
  assumes "table_shape (nodes k)" "length (current_dir k) = FS_MAX_PATH"
    and "tolerant_drive hw view capacity" "3117 \<le> capacity" "has_disk (k_disk k)" "drive_ready view (k_dev k)"
    and "table_shape ns" "image_at (drive_sector view (k_dev k)) (raw_of_nodes ns)"
  obtains k' where "fs_init hw k = Some k'" "nodes k' = ns" "terminated (current_dir k')"
    "cstr (current_dir k') = path_of []" "length (current_dir k') = FS_MAX_PATH"
    "persistence_enabled k'" "\<not> fs_booting k'" "drive_ready view (k_dev k')"
    "drive_sector view (k_dev k') = drive_sector view (k_dev k)" "fs_keeps k k'"
proof -
  let ?z = "fs_zeroed k"
  have z: "k_disk ?z = k_disk k" "k_dev ?z = k_dev k" by (simp_all add: fs_zeroed_def)
  note cwd = fs_zeroed_cwd [OF assms(2)]
  have shape: "table_shape (nodes ?z)" by (simp add: fs_zeroed_def zero_table_shape)
  obtain d where d: "fs_disk_load hw ?z = Some (0, ?z\<lparr>k_dev := d, nodes := ns,
       current_dir := slash # 0 # drop 2 (current_dir ?z), persistence_enabled := True\<rparr>)"
    "drive_ready view d" "drive_sector view d = drive_sector view (k_dev k)"
    using disk_load_ok [OF assms(3,4), of ?z ns] z assms(5-8) shape cwd(1)
    by (auto simp: FS_MAX_PATH_def)
  let ?k' = "?z\<lparr>k_dev := d, nodes := ns, current_dir := slash # 0 # drop 2 (current_dir ?z),
    persistence_enabled := True, fs_booting := False\<rparr>"
  have "fs_init hw k = Some ?k'"
    using fs_init_eq [OF assms(1,2), of hw] assms(5) d(1) by (simp add: disk_present_def)
  moreover have "fs_keeps k ?k'" by (simp add: fs_keeps_def fs_zeroed_def)
  ultimately show ?thesis using d(2,3) cwd(1) by (intro that) (auto simp: FS_MAX_PATH_def)
qed

text \<open>A saved table comes back as it was saved.\<close>

lemma fs_init_loads:
  assumes "table_shape (nodes k)" "length (current_dir k) = FS_MAX_PATH"
    and "tolerant_drive hw view capacity" "3117 \<le> capacity" "has_disk (k_disk k)" "drive_ready view (k_dev k)"
    and "fs_wf ns" "image_at (drive_sector view (k_dev k)) (raw_of_nodes ns)"
  shows "\<exists>k'. fs_init hw k = Some k' \<and> fs_ok k' \<and> nodes k' = ns \<and> cstr (current_dir k') = path_of [] \<and>
     persistence_enabled k' \<and> \<not> fs_booting k' \<and> drive_ready view (k_dev k') \<and>
     drive_sector view (k_dev k') = drive_sector view (k_dev k) \<and> fs_keeps k k'"
proof -
  obtain k' where k': "fs_init hw k = Some k'" "nodes k' = ns" "terminated (current_dir k')"
    "cstr (current_dir k') = path_of []" "length (current_dir k') = FS_MAX_PATH"
    "persistence_enabled k'" "\<not> fs_booting k'" "drive_ready view (k_dev k')"
    "drive_sector view (k_dev k') = drive_sector view (k_dev k)" "fs_keeps k k'"
    using fs_init_adopts [OF assms(1-6) fs_wf_table_shape [OF assms(7)] assms(8)] .
  have "comps_ok []" by (simp add: comps_ok_def)
  then have "fs_ok k'" using k'(2-5) assms(7) unfolding fs_ok_def by blast
  then show ?thesis using k' by blast
qed

end
