(* ===== verification/Fs_Move.thy ===== *)
theory Fs_Move
  imports Fs_Ops "HOL-Library.Sublist"
begin

section \<open>Moving\<close>

text \<open>
  \<open>fs_move\<close> renames one node and, for a directory, rewrites the stored paths of everything below it
  by the recursion \<open>rebuild_child_paths\<close>.  Moving an entry to a new place outside its own subtree,
  where all resulting paths still fit (at most 127 bytes), implements the move of the subtree; under
  these conditions the recursion ends.  Theory \<open>Fs_Move_Limits\<close> shows that it ends in no other case.
\<close>

subsection \<open>The relocated table\<close>

definition node_comps :: "fs_node \<Rightarrow> byte list list" where
  "node_comps n = split_parts (cstr (nd_path n))"

text \<open>Nodes strictly below the directory \<open>cs\<close>, and such a node moved along to \<open>ds\<close>.\<close>

definition below :: "byte list list \<Rightarrow> fs_node \<Rightarrow> bool" where
  "below cs n \<longleftrightarrow> nd_live n \<and> length cs < length (node_comps n) \<and> take (length cs) (node_comps n) = cs"

definition moved_comps :: "byte list list \<Rightarrow> byte list list \<Rightarrow> fs_node \<Rightarrow> byte list list" where
  "moved_comps cs ds n = ds @ drop (length cs) (node_comps n)"

definition reloc :: "byte list list \<Rightarrow> byte list list \<Rightarrow> fs_node \<Rightarrow> fs_node" where
  "reloc cs ds n = n\<lparr>nd_path := the (put_str (nd_path n) (path_of (moved_comps cs ds n)))\<rparr>"

lemma node_comps_eq:
  "parts_ok cs \<Longrightarrow> cstr (nd_path n) = path_of cs \<Longrightarrow> node_comps n = cs"
  by (simp add: node_comps_def split_parts_path_of)

lemma below_iff:
  assumes "fs_wf ns" "j < FS_MAX_FILES" "nd_live (ns ! j)"
  shows "below cs (ns ! j) \<longleftrightarrow>
     (\<exists>rel. rel \<noteq> [] \<and> parts_ok (cs @ rel) \<and> cstr (nd_path (ns ! j)) = path_of (cs @ rel))"
proof -
  obtain es where es: "parts_ok es" "cstr (nd_path (ns ! j)) = path_of es"
    using live_path [OF assms] by metis
  have nc: "node_comps (ns ! j) = es" using es by (rule node_comps_eq)
  show ?thesis
  proof
    assume "below cs (ns ! j)"
    then have "es = cs @ drop (length cs) es" "drop (length cs) es \<noteq> []"
      using nc by (auto simp: below_def) (metis append_take_drop_id)
    then show "\<exists>rel. rel \<noteq> [] \<and> parts_ok (cs @ rel) \<and> cstr (nd_path (ns ! j)) = path_of (cs @ rel)"
      using es by metis
  next
    assume "\<exists>rel. rel \<noteq> [] \<and> parts_ok (cs @ rel) \<and> cstr (nd_path (ns ! j)) = path_of (cs @ rel)"
    then obtain rel where "rel \<noteq> []" "node_comps (ns ! j) = cs @ rel"
      using node_comps_eq by blast
    then show "below cs (ns ! j)" using assms(3) by (simp add: below_def)
  qed
qed

text \<open>Paths of 127 bytes have fewer than 128 components.\<close>

lemma slot_depth:
  assumes "fs_wf ns" "slot_of ns cs = Some i"
  shows "length cs < 128"
proof -
  have i: "i < FS_MAX_FILES" "nd_live (ns ! i)" "parts_ok cs" "cstr (nd_path (ns ! i)) = path_of cs"
    using assms(2) by (auto simp: slot_of_Some_iff [OF assms(1)])
  then have "length (path_of cs) < 128" using live_path [OF assms(1) i(1,2)] by metis
  moreover have "length cs \<le> length (path_of cs)" by (induction cs rule: rev_induct) (auto simp: path_of_snoc)
  ultimately show ?thesis by simp
qed

text \<open>A node's children are the nodes one component below it; descendants of a node are its
  children and their descendants.\<close>

definition child_of :: "fs_node list \<Rightarrow> nat \<Rightarrow> nat \<Rightarrow> bool" where
  "child_of ns p j \<longleftrightarrow> j < FS_MAX_FILES \<and> nd_live (ns ! j) \<and> nd_parent (ns ! j) = of_nat p"

lemma child_comps:
  assumes "fs_wf ns" "slot_of ns cs = Some p" "child_of ns p j"
  shows "0 < j" "node_comps (ns ! j) = cs @ [cstr (nd_name (ns ! j))]"
    "parts_ok (cs @ [cstr (nd_name (ns ! j))])" "slot_of ns (cs @ [cstr (nd_name (ns ! j))]) = Some j"
proof -
  have j: "j < FS_MAX_FILES" "nd_live (ns ! j)" "nd_parent (ns ! j) = of_nat p"
    using assms(3) by (auto simp: child_of_def)
  obtain c where c: "cstr (nd_path (ns ! j)) = path_of (cs @ [c])" "parts_ok (cs @ [c])"
    using child_iff [OF assms(1,2) j(1,2)] j(3) by blast
  show "0 < j"
  proof (rule ccontr)
    assume "\<not> 0 < j"
    then have "path_of (cs @ [c]) = path_of []"
      using c(1) fs_wf_root [OF assms(1)] by (simp add: root_node_def)
    then show False using path_of_inject [OF c(2), of "[]"] by (simp add: parts_ok_def)
  qed
  then obtain ds d where d: "parts_ok (ds @ [d])" "cstr (nd_path (ns ! j)) = path_of (ds @ [d])"
    "cstr (nd_name (ns ! j)) = d"
    using parent_link [OF assms(1) _ j(1,2)] by metis
  have "ds @ [d] = cs @ [c]" using c d(1,2) path_of_inject by metis
  then have "cstr (nd_name (ns ! j)) = c" using d(3) by simp
  then show "node_comps (ns ! j) = cs @ [cstr (nd_name (ns ! j))]"
    "parts_ok (cs @ [cstr (nd_name (ns ! j))])" "slot_of ns (cs @ [cstr (nd_name (ns ! j))]) = Some j"
    using c node_comps_eq j(1,2) by (simp_all add: slot_of_Some_iff [OF assms(1)])
qed

text \<open>The slots handled by the loop of \<open>rebuild_from\<close> at \<open>i\<close>: the children from \<open>i\<close> on and everything
  below them.\<close>

definition subtrees :: "fs_node list \<Rightarrow> nat \<Rightarrow> nat \<Rightarrow> nat set" where
  "subtrees ns p i = {j. j < FS_MAX_FILES \<and>
     (\<exists>c. i \<le> c \<and> child_of ns p c \<and> (j = c \<or> below (node_comps (ns ! c)) (ns ! j)))}"

lemma subtrees_step_no: "\<not> child_of ns p i \<Longrightarrow> subtrees ns p i = subtrees ns p (Suc i)"
  unfolding subtrees_def by (metis Suc_leD le_antisym not_less_eq_eq)

lemma subtrees_step_yes:
  "child_of ns p i \<Longrightarrow> subtrees ns p i =
     insert i {j. j < FS_MAX_FILES \<and> below (node_comps (ns ! i)) (ns ! j)} \<union> subtrees ns p (Suc i)"
proof -
  have le: "i \<le> c \<longleftrightarrow> c = i \<or> Suc i \<le> c" for c by auto
  show "child_of ns p i \<Longrightarrow> ?thesis"
    unfolding subtrees_def le by (auto simp: child_of_def)
qed

lemma below_prefix:
  assumes "below (cs @ [c]) n"
  shows "below cs n"
proof -
  have "take (length cs) (node_comps n) = take (length cs) (take (Suc (length cs)) (node_comps n))"
    by simp
  also have "\<dots> = cs" using assms by (simp add: below_def)
  finally show ?thesis using assms by (simp add: below_def)
qed

lemma subtrees_end: "subtrees ns p FS_MAX_FILES = {}"
  by (auto simp: subtrees_def child_of_def)

text \<open>All descendants are reached from the children: an entry below \<open>cs\<close> has a first component after
  \<open>cs\<close>, and the child of that name.\<close>

lemma top_child:
  assumes "fs_wf ns" "slot_of ns cs = Some p"
  shows "slot_of ns (cs @ rel) = Some i \<Longrightarrow> rel \<noteq> [] \<Longrightarrow>
    \<exists>c. child_of ns p c \<and> slot_of ns (cs @ [hd rel]) = Some c"
proof (induction rel arbitrary: i rule: rev_induct)
  case (snoc x r)
  have i: "parts_ok (cs @ r @ [x])" "i < FS_MAX_FILES" "nd_live (ns ! i)"
    "cstr (nd_path (ns ! i)) = path_of (cs @ r @ [x])"
    using snoc.prems(1) by (auto simp: slot_of_Some_iff [OF assms(1)])
  have "0 < i" using snoc.prems(1) slot_of_zero [OF assms(1), of "cs @ r @ [x]"] by (cases i) auto
  then obtain es e q where e: "parts_ok (es @ [e])" "cstr (nd_path (ns ! i)) = path_of (es @ [e])"
    "nd_parent (ns ! i) = of_nat q" "slot_of ns es = Some q"
    using parent_link [OF assms(1) _ i(2,3)] by metis
  have es: "es = cs @ r" using i(1,4) e(1,2) path_of_inject by (metis append_assoc butlast_snoc)
  show ?case
  proof (cases "r = []")
    case True
    then have "q = p" using e(4) es assms(2) by simp
    then show ?thesis using True snoc.prems e(3) i(2,3) by (auto simp: child_of_def)
  next
    case False
    then show ?thesis using snoc.IH [of q] e(4) es by simp
  qed
qed simp

lemma below_child:
  assumes "node_comps n = cs @ rel" "nd_live n" "rel \<noteq> []"
  shows "rel = [hd rel] \<or> below (cs @ [hd rel]) n"
proof (cases "tl rel = []")
  case True
  then show ?thesis using assms(3) by (cases rel) auto
next
  case False
  then obtain x y ys where "rel = x # y # ys" using assms(3) by (cases rel; cases "tl rel") auto
  then show ?thesis using assms(1,2) by (simp add: below_def)
qed

lemma subtrees_all:
  assumes "fs_wf ns" "slot_of ns cs = Some p"
  shows "subtrees ns p 0 = {j. j < FS_MAX_FILES \<and> below cs (ns ! j)}"
proof (intro set_eqI iffI)
  fix j assume "j \<in> subtrees ns p 0"
  then obtain c where c: "child_of ns p c" "j < FS_MAX_FILES" "j = c \<or> below (node_comps (ns ! c)) (ns ! j)"
    by (auto simp: subtrees_def)
  note cc = child_comps(2) [OF assms c(1)]
  have "below cs (ns ! c)" using cc c(1) by (simp add: below_def child_of_def)
  then show "j \<in> {j. j < FS_MAX_FILES \<and> below cs (ns ! j)}"
    using c(2,3) below_prefix unfolding cc by blast
next
  fix j assume j: "j \<in> {j. j < FS_MAX_FILES \<and> below cs (ns ! j)}"
  then have live: "nd_live (ns ! j)" by (simp add: below_def)
  then obtain rel where rel: "rel \<noteq> []" "parts_ok (cs @ rel)" "cstr (nd_path (ns ! j)) = path_of (cs @ rel)"
    using below_iff [OF assms(1)] j by blast
  have sl: "slot_of ns (cs @ rel) = Some j" using rel j live by (simp add: slot_of_Some_iff [OF assms(1)])
  obtain c where c: "child_of ns p c" "slot_of ns (cs @ [hd rel]) = Some c"
    using top_child [OF assms sl rel(1)] by blast
  have nc: "node_comps (ns ! c) = cs @ [hd rel]"
    using c(2) by (intro node_comps_eq) (auto simp: slot_of_Some_iff [OF assms(1)])
  have "j = c \<or> below (cs @ [hd rel]) (ns ! j)"
    using below_child [OF node_comps_eq [OF rel(2,3)] live rel(1)] sl c(2) by force
  then show "j \<in> subtrees ns p 0" using c(1) j nc by (auto simp: subtrees_def)
qed

subsection \<open>The recursion\<close>

text \<open>The table in which slot \<open>idx\<close> holds the moved node \<open>n'\<close> and the slots of \<open>S\<close> are relocated.\<close>

definition tbl :: "fs_node list \<Rightarrow> nat \<Rightarrow> fs_node \<Rightarrow> byte list list \<Rightarrow> byte list list \<Rightarrow> nat set \<Rightarrow> fs_node list" where
  "tbl ns idx n' cs ds S =
     map (\<lambda>j. if j = idx then n' else if j \<in> S then reloc cs ds (ns ! j) else ns ! j) [0..<FS_MAX_FILES]"

lemma tbl_nth:
  "j < FS_MAX_FILES \<Longrightarrow> tbl ns idx n' cs ds S ! j =
     (if j = idx then n' else if j \<in> S then reloc cs ds (ns ! j) else ns ! j)"
  by (simp add: tbl_def)

lemma length_tbl [simp]: "length (tbl ns idx n' cs ds S) = FS_MAX_FILES"
  by (simp add: tbl_def)

lemma reloc_fields [simp]:
  "nd_live (reloc cs ds n) = nd_live n" "nd_parent (reloc cs ds n) = nd_parent n"
  "nd_name (reloc cs ds n) = nd_name n" "nd_type (reloc cs ds n) = nd_type n"
  "nd_used (reloc cs ds n) = nd_used n" "nd_size (reloc cs ds n) = nd_size n"
  "nd_data (reloc cs ds n) = nd_data n"
  by (simp_all add: reloc_def nd_live_def)

text \<open>The situation of the recursion: \<open>ns\<close> is the table before the move, the directory \<open>cs\<close> in slot
  \<open>idx\<close> moves to \<open>ds\<close>, and every path below it fits at the new place.\<close>

definition move_setup ::
    "fs_node list \<Rightarrow> nat \<Rightarrow> fs_node \<Rightarrow> byte list list \<Rightarrow> byte list list \<Rightarrow> bool" where
  "move_setup ns idx n' cs ds \<longleftrightarrow> fs_wf ns \<and> slot_of ns cs = Some idx \<and> cs \<noteq> [] \<and> ds \<noteq> [] \<and> parts_ok ds \<and>
     nd_live n' \<and> nd_parent n' \<noteq> of_nat idx \<and> terminated (nd_path n') \<and> cstr (nd_path n') = path_of ds \<and>
     (\<forall>j < FS_MAX_FILES. below cs (ns ! j) \<longrightarrow>
        parts_ok (moved_comps cs ds (ns ! j)) \<and> length (path_of (moved_comps cs ds (ns ! j))) < 128 \<and>
        nd_parent n' \<noteq> of_nat j)"

lemma reloc_path:
  assumes "move_setup ns idx n' cs ds" "j < FS_MAX_FILES" "below cs (ns ! j)"
  shows "put_str (nd_path (ns ! j)) (path_of (moved_comps cs ds (ns ! j))) = Some (nd_path (reloc cs ds (ns ! j)))"
    "terminated (nd_path (reloc cs ds (ns ! j)))"
    "cstr (nd_path (reloc cs ds (ns ! j))) = path_of (moved_comps cs ds (ns ! j))"
    "length (nd_path (reloc cs ds (ns ! j))) = FS_MAX_PATH"
proof -
  have ok: "parts_ok (moved_comps cs ds (ns ! j))" "length (path_of (moved_comps cs ds (ns ! j))) < 128"
    using assms by (auto simp: move_setup_def)
  have len: "length (nd_path (ns ! j)) = FS_MAX_PATH"
    using assms fs_wf_shape by (auto simp: move_setup_def node_shape_def)
  then obtain p where p: "put_str (nd_path (ns ! j)) (path_of (moved_comps cs ds (ns ! j))) = Some p"
    using ok(2) by (simp add: put_str_def FS_MAX_PATH_def)
  have "0 \<notin> set (path_of (moved_comps cs ds (ns ! j)))"
    using ok(1) by (auto simp: parts_ok_def comp_ok_def)
  then show "put_str (nd_path (ns ! j)) (path_of (moved_comps cs ds (ns ! j))) = Some (nd_path (reloc cs ds (ns ! j)))"
    "terminated (nd_path (reloc cs ds (ns ! j)))"
    "cstr (nd_path (reloc cs ds (ns ! j))) = path_of (moved_comps cs ds (ns ! j))"
    "length (nd_path (reloc cs ds (ns ! j))) = FS_MAX_PATH"
    using p put_str_cstr [OF p] put_str_terminated [OF p] put_str_length [OF p] len
    by (simp_all add: reloc_def)
qed

text \<open>One child of a directory whose own path is already the new one.\<close>

lemma rebuild_child_bytes:
  assumes "terminated pp" "cstr pp \<noteq> [slash]" "terminated nm"
  shows "do {
     next0 \<leftarrow> str_copy (fresh FS_MAX_PATH) (Some pp);
     r \<leftarrow> str_compare next0 (lit ''/'');
     next1 \<leftarrow> (if r \<noteq> 0 then str_concat next0 (Some (lit ''/'')) else Some next0);
     next2 \<leftarrow> str_concat next1 (Some nm);
     path \<leftarrow> str_copy_n dest (Some next2) FS_MAX_PATH;
     K path } =
     (if length (cstr pp @ slash # cstr nm) < 128
      then Option.bind (put_str dest (cstr pp @ slash # cstr nm)) K else None)"
proof (cases "put_str (fresh FS_MAX_PATH) (cstr pp)")
  case None
  then have "128 \<le> length (cstr pp)" by (simp add: put_str_None_iff FS_MAX_PATH_def)
  then show ?thesis using None assms(1) by (simp add: str_copy_eq)
next
  case (Some n0)
  have c0: "cstr n0 = cstr pp" "terminated n0" using put_str_cstr [OF Some] put_str_terminated [OF Some] by auto
  obtain r where r: "str_compare n0 (lit ''/'') = Some r" "r \<noteq> 0"
    using str_compareE [OF c0(2) terminated_lit [of "''/''"]] c0(1) assms(2) by (metis lit_path_literals(1))
  have s1: "str_concat n0 (Some (lit ''/'')) = put_str (fresh FS_MAX_PATH) (cstr pp @ [slash])"
    using kstr.put_append [of "cstr pp" "lit ''/''" "fresh FS_MAX_PATH"] Some by simp
  have s2: "Option.bind (put_str (fresh FS_MAX_PATH) (cstr pp @ [slash])) (\<lambda>n1. str_concat n1 (Some nm)) =
      put_str (fresh FS_MAX_PATH) (cstr pp @ slash # cstr nm)"
    using kstr.put_append [of "cstr pp @ [slash]" nm "fresh FS_MAX_PATH"] assms(3) by simp
  show ?thesis
  proof (cases "put_str (fresh FS_MAX_PATH) (cstr pp @ slash # cstr nm)")
    case None
    then have "128 \<le> length (cstr pp @ slash # cstr nm)" by (simp add: put_str_None_iff FS_MAX_PATH_def)
    then show ?thesis using Some r s1 s2 None assms(1) by (simp add: str_copy_eq flip: bind_assoc)
  next
    case n2: (Some n2)
    then have fits: "length (cstr pp @ slash # cstr nm) < 128"
      using put_str_None_iff [of "fresh FS_MAX_PATH" "cstr pp @ slash # cstr nm"] by (simp add: FS_MAX_PATH_def)
    have "cstr n2 = cstr pp @ slash # cstr nm" "terminated n2"
      using put_str_cstr [OF n2] put_str_terminated [OF n2] by auto
    then have "str_copy_n dest (Some n2) FS_MAX_PATH = put_str dest (cstr pp @ slash # cstr nm)"
      using fits by (simp add: str_copy_n_eq FS_MAX_PATH_def)
    then show ?thesis using Some r s1 s2 n2 assms(1) fits by (simp add: str_copy_eq flip: bind_assoc)
  qed
qed

lemma rebuild_child_path:
  assumes "terminated pp" "cstr pp = path_of es" "es \<noteq> []" "parts_ok (es @ [c])" "terminated nm" "cstr nm = c"
    and "length (path_of (es @ [c])) < 128"
  shows "do {
     next0 \<leftarrow> str_copy (fresh FS_MAX_PATH) (Some pp);
     r \<leftarrow> str_compare next0 (lit ''/'');
     next1 \<leftarrow> (if r \<noteq> 0 then str_concat next0 (Some (lit ''/'')) else Some next0);
     next2 \<leftarrow> str_concat next1 (Some nm);
     path \<leftarrow> str_copy_n dest (Some next2) FS_MAX_PATH;
     K path } = Option.bind (put_str dest (path_of (es @ [c]))) K"
proof -
  have "path_of es \<noteq> [slash]"
    using path_of_inject [of es "[]"] parts_ok_snoc [OF assms(4)] assms(3) by (auto simp: parts_ok_def)
  then show ?thesis
    using rebuild_child_bytes [of pp nm dest K] assms by (simp add: path_of_snoc)
qed

lemma below_append: "below (xs @ ys) n \<Longrightarrow> below xs n"
proof (induction ys rule: rev_induct)
  case (snoc y ys)
  then show ?case using below_prefix [of "xs @ ys" y n] by simp
qed simp

text \<open>Only directories have children.\<close>

lemma child_parent_dir:
  assumes "fs_wf ns" "slot_of ns cs = Some p" "child_of ns p j"
  shows "nd_type (ns ! p) = FS_DIR"
proof -
  have j: "j < FS_MAX_FILES" "nd_live (ns ! j)" "nd_parent (ns ! j) = of_nat p"
    using assms(3) by (auto simp: child_of_def)
  obtain es d q where q: "nd_parent (ns ! j) = of_nat q" "slot_of ns es = Some q" "nd_type (ns ! q) = FS_DIR"
    using parent_link [OF assms(1) child_comps(1) [OF assms] j(1,2)] by metis
  have "q = p"
    using of_nat_slot_eq [of q p] slot_of_bound [OF assms(1)] assms(2) q(1,2) j(3) by simp
  then show ?thesis using q(3) by simp
qed

lemma file_no_subtree:
  assumes "fs_wf ns" "slot_of ns cs = Some p" "nd_type (ns ! p) \<noteq> FS_DIR"
  shows "{j. j < FS_MAX_FILES \<and> below cs (ns ! j)} = {}"
  using child_parent_dir [OF assms(1,2)] assms(3)
  unfolding subtrees_all [OF assms(1,2), symmetric] subtrees_def by blast

text \<open>The recursion at the directory \<open>cs @ rel\<close> in slot \<open>p\<close>, when the slots of \<open>S\<close> have been relocated.\<close>

definition at_level ::
    "fs_node list \<Rightarrow> nat \<Rightarrow> fs_node \<Rightarrow> byte list list \<Rightarrow> byte list list \<Rightarrow> byte list list \<Rightarrow> nat \<Rightarrow> nat set \<Rightarrow> bool" where
  "at_level ns idx n' cs ds rel p S \<longleftrightarrow> move_setup ns idx n' cs ds \<and> slot_of ns (cs @ rel) = Some p \<and>
     (rel = [] \<or> p \<in> S) \<and> S \<subseteq> {j. j < FS_MAX_FILES \<and> below cs (ns ! j)}"

lemma level_setup:
  assumes "at_level ns idx n' cs ds rel p S"
  shows "move_setup ns idx n' cs ds" "fs_wf ns" "slot_of ns cs = Some idx" "slot_of ns (cs @ rel) = Some p"
    "node_comps (ns ! idx) = cs" "node_comps (ns ! p) = cs @ rel" "p < FS_MAX_FILES" "idx < FS_MAX_FILES"
proof -
  show su: "move_setup ns idx n' cs ds" and p: "slot_of ns (cs @ rel) = Some p"
    using assms by (auto simp: at_level_def)
  show wf: "fs_wf ns" and idx: "slot_of ns cs = Some idx" using su by (auto simp: move_setup_def)
  show "node_comps (ns ! idx) = cs" "node_comps (ns ! p) = cs @ rel"
    using idx p by (auto simp: slot_of_Some_iff [OF wf] intro: node_comps_eq)
  show "p < FS_MAX_FILES" "idx < FS_MAX_FILES" using slot_of_bound [OF wf] idx p by auto
qed

lemma level_parent:
  assumes "at_level ns idx n' cs ds rel p S"
  shows "terminated (nd_path (tbl ns idx n' cs ds S ! p))"
    "cstr (nd_path (tbl ns idx n' cs ds S ! p)) = path_of (ds @ rel)" "nd_parent n' \<noteq> of_nat p"
proof -
  note f = level_setup [OF assms]
  have n': "terminated (nd_path n')" "cstr (nd_path n') = path_of ds" "nd_parent n' \<noteq> of_nat idx"
    using f(1) by (auto simp: move_setup_def)
  have "nd_live (ns ! p)" using f(4) by (simp add: slot_of_Some_iff [OF f(2)])
  then have p: "rel = [] \<Longrightarrow> p = idx" "rel \<noteq> [] \<Longrightarrow> p \<noteq> idx \<and> below cs (ns ! p)"
    using f(3-6) by (auto simp: below_def)
  have "rel = [] \<or> p \<in> S" using assms by (simp add: at_level_def)
  then show "terminated (nd_path (tbl ns idx n' cs ds S ! p))"
    "cstr (nd_path (tbl ns idx n' cs ds S ! p)) = path_of (ds @ rel)"
    using p reloc_path [OF f(1,7)] n' f(6,7) by (cases "rel = []"; auto simp: tbl_nth moved_comps_def)+
  show "nd_parent n' \<noteq> of_nat p"
    using p n'(3) f(1,7) by (cases "rel = []") (auto simp: move_setup_def)
qed

lemma level_child:
  assumes "at_level ns idx n' cs ds rel p S" "i < FS_MAX_FILES"
  shows "child_of ns p i \<Longrightarrow> i \<noteq> idx"
    and "nd_used (tbl ns idx n' cs ds S ! i) \<noteq> 0 \<and> nd_parent (tbl ns idx n' cs ds S ! i) = of_nat p \<longleftrightarrow> child_of ns p i"
proof -
  note f = level_setup [OF assms(1)]
  show ni: "child_of ns p i \<Longrightarrow> i \<noteq> idx" using child_comps(2) [OF f(2,4)] f(5) by auto
  then show "nd_used (tbl ns idx n' cs ds S ! i) \<noteq> 0 \<and> nd_parent (tbl ns idx n' cs ds S ! i) = of_nat p \<longleftrightarrow> child_of ns p i"
    using assms(2) level_parent(3) [OF assms(1)] by (cases "i = idx") (auto simp: tbl_nth child_of_def nd_live_def)
qed

lemma rebuild_skip:
  assumes "at_level ns idx n' cs ds rel p S" "i < FS_MAX_FILES" "\<not> child_of ns p i"
  shows "rebuild_from i p (tbl ns idx n' cs ds S) = rebuild_from (Suc i) p (tbl ns idx n' cs ds S)"
  using level_child(2) [OF assms(1,2)] assms(2,3) by (subst rebuild_from.simps) auto

lemma rebuild_child:
  assumes lev: "at_level ns idx n' cs ds rel p S" and i: "i < FS_MAX_FILES" "child_of ns p i"
  shows "rebuild_from i p (tbl ns idx n' cs ds S) =
     Option.bind (if nd_type (ns ! i) = FS_DIR then rebuild_from 0 i (tbl ns idx n' cs ds (insert i S))
                  else Some (tbl ns idx n' cs ds (insert i S))) (rebuild_from (Suc i) p)"
proof -
  note f = level_setup [OF lev] and ni = level_child(1) [OF lev i]
  define c where "c = cstr (nd_name (ns ! i))"
  note cc = child_comps [OF f(2,4) i(2), folded c_def]
  have bi: "below cs (ns ! i)" using cc(2) i by (simp add: below_def child_of_def)
  have mi: "moved_comps cs ds (ns ! i) = (ds @ rel) @ [c]" using cc(2) by (simp add: moved_comps_def)
  note ri = reloc_path [OF f(1) i(1) bi]
  let ?n = "tbl ns idx n' cs ds S ! i"
  have fields: "nd_used ?n \<noteq> 0" "nd_parent ?n = of_nat p" "nd_name ?n = nd_name (ns ! i)" "nd_type ?n = nd_type (ns ! i)"
    using level_child(2) [OF lev i(1)] i ni by (auto simp: tbl_nth)
  have name: "terminated (nd_name ?n)" "cstr (nd_name ?n) = c"
    using fs_wf_entry [OF f(2) cc(1) i(1)] i(2) fields(3) by (auto simp: entry_ok_def child_of_def c_def)
  have fits: "parts_ok ((ds @ rel) @ [c])" "length (path_of ((ds @ rel) @ [c])) < 128" "ds @ rel \<noteq> []"
    using f(1) bi i(1) mi by (auto simp: move_setup_def)
  have path: "put_str (nd_path ?n) (path_of ((ds @ rel) @ [c])) = Some (nd_path (reloc cs ds (ns ! i)))"
    using ri(1) mi put_str_put_str [OF ri(1)] ni i(1) by (auto simp: tbl_nth)
  have rec: "?n\<lparr>nd_path := nd_path (reloc cs ds (ns ! i))\<rparr> = reloc cs ds (ns ! i)"
    using ni i(1) by (auto simp: tbl_nth reloc_def)
  have upd: "(tbl ns idx n' cs ds S)[i := reloc cs ds (ns ! i)] = tbl ns idx n' cs ds (insert i S)"
    using ni i(1) by (intro nth_equalityI) (auto simp: tbl_nth nth_list_update)
  note step = rebuild_child_path [OF level_parent(1,2) [OF lev] fits(3,1) name fits(2), of "nd_path ?n", unfolded path]
  show ?thesis
    using i(1) f(7) fields(1,2) upd rec unfolding fields(4) [symmetric]
    by (subst rebuild_from.simps, cases "nd_type ?n = FS_DIR") (simp_all add: step)
qed

text \<open>A child with everything below it, and then the rest of the loop.\<close>

lemma rebuild_subtree:
  fixes rel c
  assumes lev: "at_level ns idx n' cs ds rel p S" and i: "i < FS_MAX_FILES" "child_of ns p i"
  defines "c \<equiv> cstr (nd_name (ns ! i))"
  defines "S' \<equiv> insert i S \<union> {j. j < FS_MAX_FILES \<and> below (cs @ rel @ [c]) (ns ! j)}"
  assumes IH: "at_level ns idx n' cs ds (rel @ [c]) i (insert i S) \<Longrightarrow> length (cs @ rel @ [c]) < 128 \<Longrightarrow>
    rebuild_from 0 i (tbl ns idx n' cs ds (insert i S)) = Some (tbl ns idx n' cs ds (insert i S \<union> subtrees ns i 0))"
  shows "rebuild_from i p (tbl ns idx n' cs ds S) = rebuild_from (Suc i) p (tbl ns idx n' cs ds S')"
    "at_level ns idx n' cs ds rel p S'" "S' \<union> subtrees ns p (Suc i) = S \<union> subtrees ns p i"
proof -
  note f = level_setup [OF lev]
  note cc = child_comps [OF f(2,4) i(2), folded c_def]
  have bi: "below cs (ns ! i)" using cc(2) i by (simp add: below_def child_of_def)
  have levi: "at_level ns idx n' cs ds (rel @ [c]) i (insert i S)"
    using lev cc(4) bi i(1) by (auto simp: at_level_def)
  have depth: "length (cs @ rel @ [c]) < 128" using slot_depth [OF f(2) cc(4)] by simp
  have leaf: "S' = insert i S" if "nd_type (ns ! i) \<noteq> FS_DIR"
    using file_no_subtree [OF f(2) cc(4) that] by (simp only: S'_def append_assoc Un_empty_right)
  have "(if nd_type (ns ! i) = FS_DIR then rebuild_from 0 i (tbl ns idx n' cs ds (insert i S))
      else Some (tbl ns idx n' cs ds (insert i S))) = Some (tbl ns idx n' cs ds S')"
    using IH [OF levi depth] subtrees_all [OF f(2) cc(4)] leaf by (cases "nd_type (ns ! i) = FS_DIR") (simp_all add: S'_def)
  then show "rebuild_from i p (tbl ns idx n' cs ds S) = rebuild_from (Suc i) p (tbl ns idx n' cs ds S')"
    unfolding rebuild_child [OF lev i] by simp
  show "at_level ns idx n' cs ds rel p S'"
    using lev bi i(1) below_append [of cs "rel @ [c]"] by (auto simp: at_level_def S'_def)
  show "S' \<union> subtrees ns p (Suc i) = S \<union> subtrees ns p i"
    using subtrees_step_yes [OF i(2)] cc(2) by (auto simp: S'_def)
qed

lemma rebuild_from_tbl:
  "at_level ns idx n' cs ds rel p S \<Longrightarrow> length (cs @ rel) < 128 \<Longrightarrow> i \<le> FS_MAX_FILES \<Longrightarrow>
    rebuild_from i p (tbl ns idx n' cs ds S) = Some (tbl ns idx n' cs ds (S \<union> subtrees ns p i))"
proof (induction "(128 - length (cs @ rel)) * 200 + (FS_MAX_FILES - i)" arbitrary: rel p S i rule: less_induct)
  case less
  note lev = less.prems(1)
  consider "i = FS_MAX_FILES" | "i < FS_MAX_FILES" "\<not> child_of ns p i" | "i < FS_MAX_FILES" "child_of ns p i"
    using less.prems(3) by fastforce
  then show ?case
  proof cases
    case 1
    then show ?thesis by (simp add: rebuild_from.simps [of FS_MAX_FILES] subtrees_end)
  next
    case 2
    then show ?thesis
      using less.hyps [of rel "Suc i" p S] less.prems rebuild_skip [OF lev 2] subtrees_step_no by simp
  next
    case 3
    let ?c = "cstr (nd_name (ns ! i))"
    have "(128 - length (cs @ rel @ [?c])) * 200 + (FS_MAX_FILES - 0) < (128 - length (cs @ rel)) * 200 + (FS_MAX_FILES - i)"
      using less.prems(2) by (simp add: FS_MAX_FILES_def)
    then have "at_level ns idx n' cs ds (rel @ [?c]) i (insert i S) \<Longrightarrow> length (cs @ rel @ [?c]) < 128 \<Longrightarrow>
        rebuild_from 0 i (tbl ns idx n' cs ds (insert i S)) = Some (tbl ns idx n' cs ds (insert i S \<union> subtrees ns i 0))"
      using less.hyps [of "rel @ [?c]" 0 i "insert i S"] by simp
    note sub = rebuild_subtree [OF lev 3 this]
    have "(128 - length (cs @ rel)) * 200 + (FS_MAX_FILES - Suc i) < (128 - length (cs @ rel)) * 200 + (FS_MAX_FILES - i)"
      using 3(1) by simp
    from less.hyps [OF this sub(2) less.prems(2)] show ?thesis using 3(1) sub(1,3) by simp
  qed
qed

subsection \<open>The moved tree\<close>

text \<open>The components of an entry after the move, and the whole situation of a successful move.\<close>

definition new_comps :: "byte list list \<Rightarrow> byte list list \<Rightarrow> byte list list \<Rightarrow> byte list list" where
  "new_comps cs ds es = (if prefix cs es then ds @ drop (length cs) es else es)"

definition moving ::
    "fs_node list \<Rightarrow> nat \<Rightarrow> nat \<Rightarrow> fs_node \<Rightarrow> byte list list \<Rightarrow> byte list list \<Rightarrow> bool" where
  "moving ns idx q n' cs ds \<longleftrightarrow>
     fs_wf ns \<and> slot_of ns cs = Some idx \<and> cs \<noteq> [] \<and> ds \<noteq> [] \<and> slot_of ns ds = None \<and>
     slot_of ns (butlast ds) = Some q \<and> nd_type (ns ! q) = FS_DIR \<and> \<not> prefix cs ds \<and>
     (\<forall>rel. slot_of ns (cs @ rel) \<noteq> None \<longrightarrow> parts_ok (ds @ rel) \<and> length (path_of (ds @ rel)) < 128) \<and>
     node_shape n' \<and> nd_live n' \<and> nd_parent n' = of_nat q \<and> terminated (nd_path n') \<and>
     cstr (nd_path n') = path_of ds \<and> terminated (nd_name n') \<and> cstr (nd_name n') = last ds \<and>
     nd_type n' = nd_type (ns ! idx) \<and> nd_size n' = nd_size (ns ! idx) \<and> nd_data n' = nd_data (ns ! idx)"

lemma live_slot:
  assumes "fs_wf ns" "j < FS_MAX_FILES" "nd_live (ns ! j)"
  shows "slot_of ns (node_comps (ns ! j)) = Some j"
  using live_path [OF assms] node_comps_eq assms by (metis slot_of_Some_iff)

lemma slot_comps: "fs_wf ns \<Longrightarrow> slot_of ns es = Some j \<Longrightarrow> node_comps (ns ! j) = es"
  by (auto simp: slot_of_Some_iff intro: node_comps_eq)

lemma below_slot:
  assumes "fs_wf ns" "slot_of ns es = Some j"
  shows "below cs (ns ! j) \<longleftrightarrow> prefix cs es \<and> es \<noteq> cs"
  using slot_comps [OF assms] assms
  by (auto simp: below_def slot_of_Some_iff prefix_def dest: append_eq_conv_conj [THEN iffD1])
     (metis append_take_drop_id)

lemma slot_closed:
  assumes "fs_wf ns" "slot_of ns (xs @ ys) \<noteq> None"
  shows "slot_of ns xs \<noteq> None"
  using assms(2)
proof (induction ys rule: rev_induct)
  case (snoc y ys)
  then show ?case using fs_view_tree [OF assms(1)]
    by (metis append_assoc not_None_eq tree_ok_def view_None_iff)
qed simp

lemma moving_setup:
  assumes "moving ns idx q n' cs ds"
  shows "move_setup ns idx n' cs ds"
proof -
  have wf: "fs_wf ns" and cs: "slot_of ns cs = Some idx" and q: "slot_of ns (butlast ds) = Some q"
    and nest: "\<not> prefix cs ds" and ds: "slot_of ns cs \<noteq> None"
    using assms by (auto simp: moving_def)
  have not: "\<not> prefix cs (butlast ds)" using nest by (metis prefix_order.trans prefixeq_butlast)
  have fits: "parts_ok (ds @ rel) \<and> length (path_of (ds @ rel)) < 128"
    if "slot_of ns (cs @ rel) \<noteq> None" for rel using assms that by (simp add: moving_def)
  have "parts_ok ds" using fits [of "[]"] ds by simp
  moreover have "idx \<noteq> q" using slot_comps [OF wf cs] slot_comps [OF wf q] not by auto
  moreover have "parts_ok (moved_comps cs ds (ns ! j)) \<and>
      length (path_of (moved_comps cs ds (ns ! j))) < 128 \<and> nd_parent n' \<noteq> of_nat j"
    if j: "j < FS_MAX_FILES" "below cs (ns ! j)" for j
  proof -
    have sl: "slot_of ns (node_comps (ns ! j)) = Some j"
      using live_slot [OF wf j(1)] j(2) by (simp add: below_def)
    then have "prefix cs (node_comps (ns ! j))" using below_slot [OF wf] j(2) by blast
    then obtain rel where rel: "node_comps (ns ! j) = cs @ rel" by (auto simp: prefix_def)
    have "j \<noteq> q" using slot_comps [OF wf q] \<open>prefix cs (node_comps (ns ! j))\<close> not by auto
    then have "nd_parent n' \<noteq> of_nat j"
      using of_nat_slot_eq [OF slot_of_bound [OF wf q] j(1)] assms by (auto simp: moving_def)
    then show ?thesis using fits [of rel] sl rel by (simp add: moved_comps_def)
  qed
  ultimately show ?thesis
    using assms of_nat_slot_eq [OF slot_of_bound [OF wf q] slot_of_bound [OF wf cs]]
    by (auto simp: moving_def move_setup_def)
qed


definition moved_tbl :: "fs_node list \<Rightarrow> nat \<Rightarrow> fs_node \<Rightarrow> byte list list \<Rightarrow> byte list list \<Rightarrow> fs_node list" where
  "moved_tbl ns idx n' cs ds = tbl ns idx n' cs ds {j. j < FS_MAX_FILES \<and> below cs (ns ! j)}"

text \<open>What a node of the moved table is: the old one with the new path.\<close>

definition moved_as ::
    "fs_node list \<Rightarrow> nat \<Rightarrow> byte list list \<Rightarrow> byte list list \<Rightarrow> byte list list \<Rightarrow> nat \<Rightarrow> fs_node \<Rightarrow> bool" where
  "moved_as ns idx cs ds es j n \<longleftrightarrow> nd_live n \<and> nd_type n = nd_type (ns ! j) \<and> entry_of n = entry_of (ns ! j) \<and>
     terminated (nd_path n) \<and> cstr (nd_path n) = path_of (new_comps cs ds es) \<and> parts_ok (new_comps cs ds es) \<and>
     (j \<noteq> idx \<longrightarrow> nd_name n = nd_name (ns ! j) \<and> nd_parent n = nd_parent (ns ! j) \<and> nd_size n = nd_size (ns ! j)) \<and>
     node_shape n"

lemma moved_outside:
  assumes wf: "fs_wf ns" and "slot_of ns es = Some j" "j \<noteq> idx" "\<not> prefix cs es"
  shows "moved_as ns idx cs ds es j (ns ! j)"
proof -
  have j: "j < FS_MAX_FILES" "nd_live (ns ! j)" "parts_ok es" "cstr (nd_path (ns ! j)) = path_of es"
    using assms(2) by (auto simp: slot_of_Some_iff [OF wf])
  moreover have "terminated (nd_path (ns ! j))" using live_path [OF wf j(1,2)] by blast
  ultimately show ?thesis using assms(3,4) fs_wf_shape [OF wf] by (simp add: moved_as_def new_comps_def)
qed

lemma moved_inside:
  assumes mv: "moving ns idx q n' cs ds" and sl: "slot_of ns (cs @ rel) = Some j" and rel: "rel \<noteq> []" "j \<noteq> idx"
  shows "moved_as ns idx cs ds (cs @ rel) j (reloc cs ds (ns ! j))"
proof -
  have wf: "fs_wf ns" using mv by (simp add: moving_def)
  have j: "j < FS_MAX_FILES" "nd_live (ns ! j)" using sl by (auto simp: slot_of_Some_iff [OF wf])
  have "below cs (ns ! j)" using below_slot [OF wf sl] rel(1) by simp
  note path = reloc_path [OF moving_setup [OF mv] j(1) this]
  have "moved_comps cs ds (ns ! j) = ds @ rel" using slot_comps [OF wf sl] by (simp add: moved_comps_def)
  moreover have "parts_ok (ds @ rel)" using mv sl unfolding moving_def by blast
  ultimately show ?thesis
    using path j fs_wf_shape [OF wf j(1)] by (simp add: moved_as_def new_comps_def entry_of_def node_shape_def)
qed

text \<open>One slot of the moved table.\<close>

lemma moved_slot_as:
  assumes mv: "moving ns idx q n' cs ds" and sl: "slot_of ns es = Some j"
  shows "moved_as ns idx cs ds es j (moved_tbl ns idx n' cs ds ! j)"
proof -
  have wf: "fs_wf ns" and cs: "slot_of ns cs = Some idx" using mv by (auto simp: moving_def)
  have T: "moved_tbl ns idx n' cs ds ! j = (if j = idx then n' else if prefix cs es \<and> es \<noteq> cs then reloc cs ds (ns ! j) else ns ! j)"
    using slot_of_bound [OF wf sl] below_slot [OF wf sl] by (simp add: moved_tbl_def tbl_nth)
  have idx: "j = idx \<longleftrightarrow> es = cs" using slot_comps [OF wf] cs sl by (metis option.inject)
  show ?thesis
  proof (cases "prefix cs es")
    case False
    then have "j \<noteq> idx" using idx by auto
    then show ?thesis using moved_outside [OF wf sl _ False] False T by simp
  next
    case True
    then obtain rel where rel: "es = cs @ rel" by (auto simp: prefix_def)
    show ?thesis
    proof (cases "rel = []")
      case True
      then have "j = idx" "parts_ok ds" using idx rel mv cs unfolding moving_def by (auto dest: spec [of _ "[]"])
      then show ?thesis using mv rel True T by (simp add: moving_def moved_as_def entry_of_def new_comps_def)
    next
      case False
      then show ?thesis using moved_inside [OF mv sl [unfolded rel] False] idx rel T by simp
    qed
  qed
qed

lemma moved_slot:
  assumes "moving ns idx q n' cs ds" "slot_of ns es = Some j"
  shows "nd_live (moved_tbl ns idx n' cs ds ! j)"
    and "nd_type (moved_tbl ns idx n' cs ds ! j) = nd_type (ns ! j)"
    and "entry_of (moved_tbl ns idx n' cs ds ! j) = entry_of (ns ! j)"
    and "terminated (nd_path (moved_tbl ns idx n' cs ds ! j))"
    and "cstr (nd_path (moved_tbl ns idx n' cs ds ! j)) = path_of (new_comps cs ds es)"
    and "parts_ok (new_comps cs ds es)"
    and "j \<noteq> idx \<longrightarrow> nd_name (moved_tbl ns idx n' cs ds ! j) = nd_name (ns ! j) \<and>
           nd_parent (moved_tbl ns idx n' cs ds ! j) = nd_parent (ns ! j) \<and>
           nd_size (moved_tbl ns idx n' cs ds ! j) = nd_size (ns ! j)"
    and "node_shape (moved_tbl ns idx n' cs ds ! j)"
  using moved_slot_as [OF assms] by (simp_all add: moved_as_def)

lemma moved_live:
  assumes "moving ns idx q n' cs ds" "j < FS_MAX_FILES"
  shows "nd_live (moved_tbl ns idx n' cs ds ! j) \<longleftrightarrow> nd_live (ns ! j)"
    and "node_shape (moved_tbl ns idx n' cs ds ! j)"
proof -
  have wf: "fs_wf ns" and cs: "slot_of ns cs = Some idx" using assms(1) by (auto simp: moving_def)
  have "\<not> nd_live (ns ! j) \<Longrightarrow> moved_tbl ns idx n' cs ds ! j = ns ! j"
    using cs assms(2) by (auto simp: moved_tbl_def tbl_nth below_def slot_of_Some_iff [OF wf])
  then show "nd_live (moved_tbl ns idx n' cs ds ! j) \<longleftrightarrow> nd_live (ns ! j)"
    "node_shape (moved_tbl ns idx n' cs ds ! j)"
    using moved_slot(1,8) [OF assms(1) live_slot [OF wf assms(2)]] fs_wf_shape [OF wf assms(2)] by metis+
qed

lemma new_comps_inj:
  assumes "moving ns idx q n' cs ds" "slot_of ns xs \<noteq> None" "slot_of ns ys \<noteq> None"
    and "new_comps cs ds xs = new_comps cs ds ys"
  shows "xs = ys"
proof -
  have "\<not> prefix ds zs" if "slot_of ns zs \<noteq> None" for zs
    using that slot_closed [of ns ds] assms(1) by (auto simp: moving_def prefix_def)
  then show ?thesis
    using assms(2-4) by (auto simp: new_comps_def prefix_def split: if_splits)
qed


lemma new_comps_snoc:
  "xs @ [c] \<noteq> cs \<Longrightarrow> new_comps cs ds (xs @ [c]) = new_comps cs ds xs @ [c]"
  by (auto simp: new_comps_def prefix_def append_eq_append_conv2 Cons_eq_append_conv)

lemma moved_dir_slot:
  assumes "moving ns idx q n' cs ds" "slot_of ns xs = Some p" "nd_type (ns ! p) = FS_DIR"
  shows "dir_slot (moved_tbl ns idx n' cs ds) p (new_comps cs ds xs)"
proof -
  have "fs_wf ns" using assms(1) by (simp add: moving_def)
  then have "p < FS_MAX_FILES" using slot_of_bound assms(2) by blast
  then show ?thesis
    using moved_slot(1,2,5) [OF assms(1,2)] assms(3) by (simp add: dir_slot_def moved_tbl_def)
qed

lemma moved_entry:
  assumes mv: "moving ns idx q n' cs ds" and j: "0 < j" "j < FS_MAX_FILES" "nd_live (ns ! j)"
  shows "entry_ok (moved_tbl ns idx n' cs ds) (moved_tbl ns idx n' cs ds ! j)"
proof -
  let ?T = "moved_tbl ns idx n' cs ds"
  have wf: "fs_wf ns" and cs: "slot_of ns cs = Some idx" using mv by (auto simp: moving_def)
  note entry = fs_wf_entry [OF wf j]
  obtain xs c p where x: "parts_ok (xs @ [c])" "cstr (nd_name (ns ! j)) = c"
    "nd_parent (ns ! j) = of_nat p" "slot_of ns xs = Some p" "nd_type (ns ! p) = FS_DIR"
    "slot_of ns (xs @ [c]) = Some j"
    using parent_link [OF wf j] by metis
  note ms = moved_slot [OF mv x(6)]
  show ?thesis
  proof (cases "j = idx")
    case True
    have "ds = butlast ds @ [last ds]" using mv by (simp add: moving_def)
    moreover have "new_comps cs ds (butlast ds) = butlast ds"
      using mv prefixeq_butlast prefix_order.trans unfolding moving_def new_comps_def by metis
    then have "dir_slot ?T q (butlast ds)"
      using moved_dir_slot [OF mv, of "butlast ds" q] mv by (simp add: moving_def)
    moreover have "?T ! j = n'" using True j by (simp add: moved_tbl_def tbl_nth)
    moreover have "xs @ [c] = cs" using slot_comps [OF wf x(6)] slot_comps [OF wf cs] True by simp
    then have "parts_ok ds" using ms(6) by (simp add: new_comps_def)
    moreover have "nd_type n' \<in> {FS_FILE, FS_DIR}" "unat (nd_size n') \<le> FS_MAX_FILE_SIZE"
      using mv entry True unfolding moving_def entry_ok_def by simp_all
    ultimately show ?thesis
      using mv unfolding moving_def entry_ok_def
      by (intro conjI exI [of _ "butlast ds"] exI [of _ "last ds"] exI [of _ q]) simp_all
  next
    case False
    then have "xs @ [c] \<noteq> cs" using cs x(6) by auto
    then have snoc: "new_comps cs ds (xs @ [c]) = new_comps cs ds xs @ [c]" by (rule new_comps_snoc)
    have "terminated (nd_name (ns ! j))" "nd_type (ns ! j) \<in> {FS_FILE, FS_DIR}"
      "unat (nd_size (ns ! j)) \<le> FS_MAX_FILE_SIZE"
      using entry by (auto simp: entry_ok_def)
    then show ?thesis
      using ms(2,4-7) False moved_dir_slot [OF mv x(4,5)] x(2,3) unfolding entry_ok_def snoc
      by (intro conjI exI [of _ "new_comps cs ds xs"] exI [of _ c] exI [of _ p]) simp_all
  qed
qed

lemma moved_wf:
  assumes mv: "moving ns idx q n' cs ds"
  shows "fs_wf (moved_tbl ns idx n' cs ds)"
proof -
  let ?T = "moved_tbl ns idx n' cs ds"
  have wf: "fs_wf ns" and cs: "slot_of ns cs = Some idx" "cs \<noteq> []" using mv by (auto simp: moving_def)
  have len: "length ?T = FS_MAX_FILES" by (simp add: moved_tbl_def)
  have "idx \<noteq> 0" using slot_of_zero [OF wf] cs by metis
  moreover have "\<not> below cs (ns ! 0)"
    using below_slot [OF wf slot_of_root [OF wf]] cs(2) by simp
  ultimately have root: "root_node (?T ! 0)"
    using fs_wf_root [OF wf] by (simp add: moved_tbl_def tbl_nth FS_MAX_FILES_def)
  have "names_distinct nd_live nd_path ?T"
    unfolding names_distinct_def len
  proof (intro allI impI)
    fix i j assume i: "i < FS_MAX_FILES" "nd_live (?T ! i)" and j: "j < FS_MAX_FILES" "nd_live (?T ! j)"
      and eq: "cstr (nd_path (?T ! i)) = cstr (nd_path (?T ! j))"
    have li: "slot_of ns (node_comps (ns ! i)) = Some i" and lj: "slot_of ns (node_comps (ns ! j)) = Some j"
      using i j moved_live [OF mv] live_slot [OF wf] by auto
    have "path_of (new_comps cs ds (node_comps (ns ! i))) = path_of (new_comps cs ds (node_comps (ns ! j)))"
      using moved_slot(5) [OF mv li] moved_slot(5) [OF mv lj] eq by simp
    then have "new_comps cs ds (node_comps (ns ! i)) = new_comps cs ds (node_comps (ns ! j))"
      using path_of_inject [OF moved_slot(6) [OF mv li] moved_slot(6) [OF mv lj]] by blast
    then have "node_comps (ns ! i) = node_comps (ns ! j)"
      using new_comps_inj [OF mv, of "node_comps (ns ! i)" "node_comps (ns ! j)"] li lj by blast
    then show "i = j" using li lj by (metis option.inject)
  qed
  moreover have "\<forall>n \<in> set ?T. node_shape n"
    using moved_live(2) [OF mv] len by (simp add: all_set_conv_all_nth)
  moreover have "entry_ok ?T (?T ! j)" if "0 < j" "j < FS_MAX_FILES" "nd_live (?T ! j)" for j
    using moved_entry [OF mv that(1,2)] moved_live(1) [OF mv that(2)] that(3) by simp
  ultimately show ?thesis using root len by (simp add: fs_wf_def)
qed

lemma moved_slot_of:
  assumes mv: "moving ns idx q n' cs ds"
  shows "slot_of (moved_tbl ns idx n' cs ds) es = Some j \<longleftrightarrow>
     (\<exists>xs. slot_of ns xs = Some j \<and> new_comps cs ds xs = es)"
proof
  let ?T = "moved_tbl ns idx n' cs ds"
  have wf: "fs_wf ns" using mv by (simp add: moving_def)
  note wf' = moved_wf [OF mv]
  { assume "slot_of ?T es = Some j"
    then have j: "parts_ok es" "j < FS_MAX_FILES" "nd_live (?T ! j)" "cstr (nd_path (?T ! j)) = path_of es"
      by (auto simp: slot_of_Some_iff [OF wf'])
    then have sl: "slot_of ns (node_comps (ns ! j)) = Some j"
      using live_slot [OF wf] moved_live [OF mv] by simp
    then have "new_comps cs ds (node_comps (ns ! j)) = es"
      using moved_slot(5,6) [OF mv sl] j path_of_inject by simp
    then show "\<exists>xs. slot_of ns xs = Some j \<and> new_comps cs ds xs = es" using sl by blast }
  { assume "\<exists>xs. slot_of ns xs = Some j \<and> new_comps cs ds xs = es"
    then show "slot_of ?T es = Some j"
      using moved_slot [OF mv] slot_of_bound [OF wf] by (auto simp: slot_of_Some_iff [OF wf']) }
qed

definition tree_moved :: "byte list list \<Rightarrow> byte list list \<Rightarrow> fs_tree \<Rightarrow> fs_tree" where
  "tree_moved cs ds v = (\<lambda>es.
     if prefix ds es then v (cs @ drop (length ds) es)
     else if prefix cs es then None
     else v es)"

lemma moved_view:
  assumes mv: "moving ns idx q n' cs ds"
  shows "fs_view (moved_tbl ns idx n' cs ds) = tree_moved cs ds (fs_view ns)"
proof
  fix es
  let ?T = "moved_tbl ns idx n' cs ds"
  have wf: "fs_wf ns" using mv by (simp add: moving_def)
  have free: "\<not> prefix ds zs" if "slot_of ns zs = Some i" for zs i
    using that slot_closed [of ns ds] mv by (auto simp: moving_def prefix_def)
  have inv: "new_comps cs ds xs = es \<longleftrightarrow>
      (if prefix ds es then xs = cs @ drop (length ds) es else \<not> prefix cs es \<and> xs = es)"
    if "slot_of ns xs = Some i" for xs i
    using free [OF that] by (auto simp: new_comps_def prefix_def)
  show "fs_view ?T es = tree_moved cs ds (fs_view ns) es"
  proof (cases "slot_of ?T es")
    case (Some j)
    then obtain xs where xs: "slot_of ns xs = Some j" "new_comps cs ds xs = es"
      using moved_slot_of [OF mv] by blast
    then show ?thesis
      using Some inv [OF xs(1)] moved_slot(3) [OF mv xs(1)]
      by (auto simp: fs_view_def tree_moved_def split: if_splits)
  next
    case None
    then have no: "new_comps cs ds xs \<noteq> es" if "slot_of ns xs = Some i" for xs i
      using moved_slot_of [OF mv] that by (metis option.distinct(1))
    have "prefix ds es \<Longrightarrow> slot_of ns (cs @ drop (length ds) es) = None"
      "\<not> prefix ds es \<Longrightarrow> \<not> prefix cs es \<Longrightarrow> slot_of ns es = None"
      using no inv by (metis not_None_eq)+
    then show ?thesis using None by (simp add: fs_view_def tree_moved_def)
  qed
qed


lemma rebuild_moved:
  assumes mv: "moving ns idx q n' cs ds"
  shows "(if nd_type (ns ! idx) = FS_DIR then rebuild_child_paths idx (ns[idx := n']) else Some (ns[idx := n'])) =
     Some (moved_tbl ns idx n' cs ds)"
proof -
  have wf: "fs_wf ns" and cs: "slot_of ns cs = Some idx" using mv by (auto simp: moving_def)
  have upd: "ns[idx := n'] = tbl ns idx n' cs ds {}"
    using slot_of_bound [OF wf cs] fs_wf_length [OF wf]
    by (intro nth_equalityI) (auto simp: tbl_nth nth_list_update)
  show ?thesis
  proof (cases "nd_type (ns ! idx) = FS_DIR")
    case True
    have "rebuild_from 0 idx (tbl ns idx n' cs ds {}) = Some (tbl ns idx n' cs ds ({} \<union> subtrees ns idx 0))"
      using rebuild_from_tbl [of ns idx n' cs ds "[]" idx "{}" 0] moving_setup [OF mv] cs slot_depth [OF wf cs]
      by (simp add: at_level_def)
    then show ?thesis
      using True upd subtrees_all [OF wf cs] by (simp add: rebuild_child_paths_def moved_tbl_def)
  next
    case False
    then show ?thesis
      unfolding moved_tbl_def file_no_subtree [OF wf cs False] using upd by (simp only: if_False)
  qed
qed

subsection \<open>The operation\<close>

definition tree_move :: "byte list list \<Rightarrow> byte list list \<Rightarrow> fs_tree \<Rightarrow> int \<times> fs_tree" where
  "tree_move cs ds v =
     (if cs = [] \<or> v cs = None then (1, v)
      else if v ds \<noteq> None then (1, v)
      else if v (butlast ds) \<noteq> Some Dir then (1, v)
      else (0, tree_moved cs ds v))"

text \<open>The moves the arrays of the code can hold: not into the moved subtree itself, and with every
  resulting path inside the bounds.\<close>

definition movable :: "byte list list \<Rightarrow> byte list list \<Rightarrow> fs_tree \<Rightarrow> bool" where
  "movable cs ds v \<longleftrightarrow> \<not> prefix cs ds \<and>
     (\<forall>rel. v (cs @ rel) \<noteq> None \<longrightarrow> length (path_of (ds @ rel)) < 128)"

lemma fs_move_refused:
  assumes "fs_ok k" "arg_ok src" "arg_ok dest" "target k src = Some cs" "target k dest = Some ds"
    and "fst (tree_move cs ds (fs_view (nodes k))) \<noteq> 0"
  shows "\<exists>m. fs_move hw src dest k = say m 1 k"
proof -
  let ?ns = "nodes k"
  have wf: "fs_wf ?ns" using assms(1) by (rule fs_ok_wf)
  obtain f where f: "resolve src k = Some f" "find_node ?ns f = Some (index_or_minus1 (slot_of ?ns cs))"
    using path_query [OF assms(1,2,4)] by metis
  obtain t where t: "resolve dest k = Some t" "terminated t" "cstr t = path_of ds" "length t = 128"
    "find_node ?ns t = Some (index_or_minus1 (slot_of ?ns ds))"
    using path_query [OF assms(1,3,5)] by metis
  show ?thesis
  proof (cases "cs = [] \<or> slot_of ?ns cs = None \<or> slot_of ?ns ds \<noteq> None")
    case True
    then show ?thesis using f t slot_of_root [OF wf] by (auto simp: fs_move_def)
  next
    case False
    then have "ds \<noteq> []" using slot_of_root [OF wf] by auto
    then obtain es c where es: "ds = es @ [c]" by (metis rev_exhaust)
    have "parts_ok (es @ [c])" using target_ok [OF assms(3,5)] es by simp
    note par = find_parent_eq [OF wf t(2) t(3) [unfolded es] this t(4)]
    have "fs_view ?ns es \<noteq> Some Dir"
      using assms(6) False es by (auto simp: tree_move_def view_None_iff split: if_splits)
    then show ?thesis using f t False par by (auto simp: fs_move_def)
  qed
qed

text \<open>Otherwise the node is linked to its new parent and the paths below it are rebuilt.\<close>

lemma fs_move_relinks:
  assumes "fs_ok k" "arg_ok src" "arg_ok dest" "target k src = Some cs" "target k dest = Some ds"
    and ok: "cs \<noteq> []" "slot_of (nodes k) cs = Some idx" "fs_view (nodes k) ds = None"
      "slot_of (nodes k) (butlast ds) = Some q" "nd_type (nodes k ! q) = FS_DIR"
  obtains n' where "node_shape n'" "nd_live n'" "nd_parent n' = of_nat q" "terminated (nd_path n')"
    "cstr (nd_path n') = path_of ds" "terminated (nd_name n')" "cstr (nd_name n') = last ds"
    "nd_type n' = nd_type (nodes k ! idx)" "nd_size n' = nd_size (nodes k ! idx)" "nd_data n' = nd_data (nodes k ! idx)"
    "fs_move hw src dest k = do {
       ns \<leftarrow> (if nd_type (nodes k ! idx) = FS_DIR then rebuild_child_paths idx ((nodes k)[idx := n'])
             else Some ((nodes k)[idx := n']));
       k' \<leftarrow> persist_if_enabled hw (k\<lparr>nodes := ns\<rparr>);
       Some (0, k') }"
proof -
  let ?ns = "nodes k"
  have wf: "fs_wf ?ns" using assms(1) by (rule fs_ok_wf)
  obtain f where f: "resolve src k = Some f" "find_node ?ns f = Some (int idx)"
    using path_query [OF assms(1,2,4)] ok(2) by (metis index_or_minus1_simps(2))
  have none: "slot_of ?ns ds = None" using ok(3) by (simp add: view_None_iff)
  obtain t where t: "resolve dest k = Some t" "terminated t" "cstr t = path_of ds" "length t = 128"
    "find_node ?ns t = Some (- 1)"
    using path_query [OF assms(1,3,5)] none by (metis index_or_minus1_simps(1))
  have "ds \<noteq> []" using none slot_of_root [OF wf] by auto
  then obtain es c where es: "ds = es @ [c]" by (metis rev_exhaust)
  have ds: "parts_ok (es @ [c])" using target_ok [OF assms(3,5)] es by simp
  have "fs_view ?ns es = Some Dir" using ok(4,5) es by (simp add: fs_view_def entry_of_def)
  then have par: "find_parent ?ns t = Some (int q)"
    using find_parent_eq [OF wf t(2) t(3) [unfolded es] ds t(4)] ok(4) es by simp
  have i: "idx \<noteq> 0" "idx < FS_MAX_FILES"
    using slot_of_zero [OF wf] slot_of_bound [OF wf] ok(1,2) by metis+
  obtain fn nm pth where nm: "path_get_filename t = Some fn"
    "str_copy_n (nd_name (?ns ! idx)) (Some fn) FS_MAX_NAME = Some nm" "terminated nm" "cstr nm = c"
    "length nm = FS_MAX_NAME"
    "str_copy_n (nd_path (?ns ! idx)) (Some t) FS_MAX_PATH = Some pth" "terminated pth"
    "cstr pth = path_of (es @ [c])" "length pth = FS_MAX_PATH"
    using placed_names [OF fs_wf_shape [OF wf i(2)] t(2) t(3) [unfolded es] ds t(4)] .
  define n' where "n' = (?ns ! idx)\<lparr>nd_parent := of_nat q, nd_name := nm, nd_path := pth\<rparr>"
  have "fs_move hw src dest k = do {
      ns \<leftarrow> (if nd_type (?ns ! idx) = FS_DIR then rebuild_child_paths idx (?ns[idx := n']) else Some (?ns[idx := n']));
      k' \<leftarrow> persist_if_enabled hw (k\<lparr>nodes := ns\<rparr>);
      Some (0, k') }"
    using f t i par nm(1,2,6) fs_wf_length [OF wf]
    by (simp add: fs_move_def Let_def n'_def [symmetric] cong: if_cong split del: if_split)
  then show ?thesis
    using that [of n'] fs_wf_shape [OF wf i(2)] nm ok(2) es
    by (simp add: n'_def node_shape_def nd_live_def slot_of_Some_iff [OF wf])
qed

lemma fs_move_refines:
  assumes "fs_ok k" "arg_ok src" "arg_ok dest" "target k src = Some cs" "target k dest = Some ds"
    and "fst (tree_move cs ds (fs_view (nodes k))) = 0 \<Longrightarrow> movable cs ds (fs_view (nodes k))"
  shows "\<exists>r k'. fs_move hw src dest k = Some (r, k') \<and> fs_ok k' \<and> kept k k' \<and>
     tree_move cs ds (fs_view (nodes k)) = (r, fs_view (nodes k'))"
proof (cases "fst (tree_move cs ds (fs_view (nodes k))) = 0")
  case False
  obtain m where "fs_move hw src dest k = say m 1 k" using fs_move_refused [OF assms(1-5) False] by blast
  then show ?thesis
    using False gives_say [OF assms(1), of 1 m] by (auto simp: gives_def tree_move_def split: if_splits)
next
  case True
  let ?ns = "nodes k"
  have wf: "fs_wf ?ns" using assms(1) by (rule fs_ok_wf)
  have tm: "tree_move cs ds (fs_view ?ns) = (0, tree_moved cs ds (fs_view ?ns))" "cs \<noteq> []" "fs_view ?ns cs \<noteq> None"
    "fs_view ?ns ds = None" "fs_view ?ns (butlast ds) = Some Dir"
    using True by (auto simp: tree_move_def split: if_splits)
  obtain idx where idx: "slot_of ?ns cs = Some idx" using tm(3) by (auto simp: view_None_iff)
  obtain q where q: "slot_of ?ns (butlast ds) = Some q" "nd_type (?ns ! q) = FS_DIR"
    using tm(5) by (auto simp: fs_view_def entry_of_def split: if_splits)
  obtain n' where n': "node_shape n'" "nd_live n'" "nd_parent n' = of_nat q" "terminated (nd_path n')"
    "cstr (nd_path n') = path_of ds" "terminated (nd_name n')" "cstr (nd_name n') = last ds"
    "nd_type n' = nd_type (?ns ! idx)" "nd_size n' = nd_size (?ns ! idx)" "nd_data n' = nd_data (?ns ! idx)"
    and run: "fs_move hw src dest k = do {
       ns \<leftarrow> (if nd_type (?ns ! idx) = FS_DIR then rebuild_child_paths idx (?ns[idx := n']) else Some (?ns[idx := n']));
       k' \<leftarrow> persist_if_enabled hw (k\<lparr>nodes := ns\<rparr>);
       Some (0, k') }"
    using fs_move_relinks [OF assms(1-5) tm(2) idx tm(4) q] .
  have movable: "movable cs ds (fs_view ?ns)" using assms(6) True by simp
  have ds: "parts_ok ds" using target_ok [OF assms(3,5)] by simp
  have fits: "parts_ok (ds @ rel) \<and> length (path_of (ds @ rel)) < 128" if "slot_of ?ns (cs @ rel) \<noteq> None" for rel
  proof -
    have "parts_ok (cs @ rel)" using that by (auto simp: slot_of_Some_iff [OF wf])
    moreover have "fs_view ?ns (cs @ rel) \<noteq> None" using that by (simp add: view_None_iff)
    ultimately show ?thesis using movable ds by (auto simp: movable_def)
  qed
  have none: "slot_of ?ns ds = None" using tm(4) by (simp add: view_None_iff)
  moreover have "ds \<noteq> []" using none slot_of_root [OF wf] by auto
  ultimately have mv: "moving ?ns idx q n' cs ds"
    using wf idx tm(2) q fits n' movable unfolding moving_def movable_def by metis
  have "gives k 0 (moved_tbl ?ns idx n' cs ds) (fs_move hw src dest k)"
    using gives_persist [OF assms(1) moved_wf [OF mv], of 0 hw] unfolding run rebuild_moved [OF mv] bind.simps .
  then show ?thesis using tm(1) moved_view [OF mv] by (auto simp: gives_def)
qed

end
