(* ===== verification/Fs_Move_Limits.thy ===== *)
theory Fs_Move_Limits
  imports Fs_Move
begin

section \<open>Moves the arrays cannot hold\<close>

text \<open>
  When \<open>fs_move\<close> does not return: \<open>rebuild_child_paths\<close> builds each new path in \<open>next[128]\<close> without a
  bound, and follows the links to the parents, which form a cycle once a directory has been linked
  below itself.  On a well-formed table it fails to return exactly when the move is not \<open>movable\<close>.
\<close>

subsection \<open>What the recursion can touch\<close>

text \<open>The links of a table, and what the recursion leaves alone: everything but the paths of the
  descendants.\<close>

definition kids :: "fs_node list \<Rightarrow> (nat \<times> nat) set" where
  "kids ns = {(p, c). p < FS_MAX_FILES \<and> child_of ns p c}"

definition skeleton :: "fs_node list \<Rightarrow> (32 word \<times> 32 word \<times> cbuf \<times> 32 word) list" where
  "skeleton ns = map (\<lambda>n. (nd_used n, nd_parent n, nd_name n, nd_type n)) ns"

lemma skeletonD:
  assumes "skeleton ns' = skeleton ns"
  shows "length ns' = length ns"
    and "j < length ns \<Longrightarrow> nd_used (ns' ! j) = nd_used (ns ! j) \<and> nd_parent (ns' ! j) = nd_parent (ns ! j) \<and>
      nd_name (ns' ! j) = nd_name (ns ! j) \<and> nd_type (ns' ! j) = nd_type (ns ! j)"
proof -
  show len: "length ns' = length ns" using assms map_eq_imp_length_eq unfolding skeleton_def by blast
  show "j < length ns \<Longrightarrow> nd_used (ns' ! j) = nd_used (ns ! j) \<and> nd_parent (ns' ! j) = nd_parent (ns ! j) \<and>
      nd_name (ns' ! j) = nd_name (ns ! j) \<and> nd_type (ns' ! j) = nd_type (ns ! j)"
    using arg_cong [OF assms, of "\<lambda>xs. xs ! j"] len by (simp add: skeleton_def)
qed

lemma skeleton_path [simp]: "skeleton (ns[i := (ns ! i)\<lparr>nd_path := b\<rparr>]) = skeleton ns"
  by (cases "i < length ns") (auto simp: skeleton_def map_update list_update_same_conv list_update_beyond)

lemma kids_skeleton: "skeleton ns' = skeleton ns \<Longrightarrow> length ns = FS_MAX_FILES \<Longrightarrow> kids ns' = kids ns"
  using skeletonD(2) [of ns' ns] by (auto simp: kids_def child_of_def nd_live_def)

definition keeps :: "nat \<Rightarrow> fs_node list \<Rightarrow> fs_node list \<Rightarrow> bool" where
  "keeps q ns ns' \<longleftrightarrow> (q < FS_MAX_FILES \<and> length ns = FS_MAX_FILES \<longrightarrow>
     skeleton ns' = skeleton ns \<and> (\<forall>p. (q, p) \<notin> (kids ns)\<^sup>+ \<longrightarrow> ns' ! p = ns ! p))"

lemma rebuild_from_keeps:
  assumes "rebuild_from i q ns = Some ns'"
  shows "keeps q ns ns'"
proof (rule rebuild_from.raw_induct [OF _ assms])
  fix f i q ns ns'
  assume IH: "\<And>i q ns ns'. f i q ns = Some ns' \<Longrightarrow> keeps q ns ns'"
    and step: "(if i < FS_MAX_FILES then do {
        n \<leftarrow> rd ns i;
        (if nd_used n \<noteq> 0 \<and> nd_parent n = of_nat q then do {
           p \<leftarrow> rd ns q;
           next0 \<leftarrow> str_copy (fresh FS_MAX_PATH) (Some (nd_path p));
           r \<leftarrow> str_compare next0 (lit ''/'');
           next1 \<leftarrow> (if r \<noteq> 0 then str_concat next0 (Some (lit ''/'')) else Some next0);
           next2 \<leftarrow> str_concat next1 (Some (nd_name n));
           path \<leftarrow> str_copy_n (nd_path n) (Some next2) FS_MAX_PATH;
           ns2 \<leftarrow> (if nd_type n = FS_DIR
                   then f 0 i (ns[i := n\<lparr>nd_path := path\<rparr>])
                   else Some (ns[i := n\<lparr>nd_path := path\<rparr>]));
           f (i + 1) q ns2 }
         else f (i + 1) q ns) }
      else Some ns) = Some ns'"
  have "skeleton ns' = skeleton ns \<and> (\<forall>p. (q, p) \<notin> (kids ns)\<^sup>+ \<longrightarrow> ns' ! p = ns ! p)"
    if h: "q < FS_MAX_FILES" "length ns = FS_MAX_FILES"
  proof (cases "i < FS_MAX_FILES \<and> nd_used (ns ! i) \<noteq> 0 \<and> nd_parent (ns ! i) = of_nat q")
    case False
    then show ?thesis using step h IH [of "i + 1" q ns ns'] by (auto simp: keeps_def split: if_splits)
  next
    case True
    then have kid: "(q, i) \<in> kids ns" using h(1) by (simp add: kids_def child_of_def nd_live_def)
    obtain path ns2 where ns2: "(if nd_type (ns ! i) = FS_DIR then f 0 i (ns[i := (ns ! i)\<lparr>nd_path := path\<rparr>])
        else Some (ns[i := (ns ! i)\<lparr>nd_path := path\<rparr>])) = Some ns2" "f (i + 1) q ns2 = Some ns'"
      using step True h(2) by (auto simp: bind_Some_iff)
    let ?ns1 = "ns[i := (ns ! i)\<lparr>nd_path := path\<rparr>]"
    have 1: "kids ?ns1 = kids ns" using h(2) by (intro kids_skeleton) simp_all
    have 2: "skeleton ns2 = skeleton ns \<and> (\<forall>p. (i, p) \<notin> (kids ns)\<^sup>+ \<longrightarrow> ns2 ! p = ?ns1 ! p)"
      using ns2(1) IH [of 0 i ?ns1 ns2] h(2) True 1 by (auto simp: keeps_def split: if_splits)
    then have 3: "skeleton ns' = skeleton ns2 \<and> (\<forall>p. (q, p) \<notin> (kids ns)\<^sup>+ \<longrightarrow> ns' ! p = ns2 ! p)"
      using IH [OF ns2(2)] h skeletonD(1) [of ns2 ns] kids_skeleton [of ns2 ns] by (simp add: keeps_def)
    have "(i, p) \<notin> (kids ns)\<^sup>+ \<and> i \<noteq> p" if "(q, p) \<notin> (kids ns)\<^sup>+" for p
      using that kid by (auto intro: trancl_into_trancl2)
    then show ?thesis using 2 3 by simp
  qed
  then show "keeps q ns ns'" by (simp add: keeps_def)
qed

subsection \<open>The overrun\<close>

text \<open>Below slot \<open>p\<close>, whose path has at least \<open>l\<close> bytes, there is a chain of children whose paths
  grow to 128 bytes.  The children visited before the next one of the chain leave \<open>p\<close> alone.\<close>

definition apart :: "fs_node list \<Rightarrow> nat \<Rightarrow> nat \<Rightarrow> bool" where
  "apart ns p c \<longleftrightarrow> (p, c) \<in> kids ns \<and> terminated (nd_name (ns ! c)) \<and>
     (\<forall>i < c. (p, i) \<in> kids ns \<longrightarrow> (i, p) \<notin> (kids ns)\<^sup>+)"

inductive overlong :: "fs_node list \<Rightarrow> nat \<Rightarrow> nat \<Rightarrow> bool" for ns where
  overlong_here: "apart ns p c \<Longrightarrow> 128 \<le> Suc l + length (cstr (nd_name (ns ! c))) \<Longrightarrow> overlong ns p l"
| overlong_below: "apart ns p c \<Longrightarrow> nd_type (ns ! c) = FS_DIR \<Longrightarrow>
    overlong ns c (Suc l + length (cstr (nd_name (ns ! c)))) \<Longrightarrow> overlong ns p l"

text \<open>The loop reaches the child \<open>c\<close>, or an earlier child fails.\<close>

lemma rebuild_reaches:
  assumes ap: "apart ns p c" and len: "length ns = FS_MAX_FILES"
    and fails: "\<And>ns2. skeleton ns2 = skeleton ns \<Longrightarrow> ns2 ! p = m \<Longrightarrow> rebuild_from c p ns2 = None"
  shows "skeleton ns1 = skeleton ns \<Longrightarrow> ns1 ! p = m \<Longrightarrow> i \<le> c \<Longrightarrow> rebuild_from i p ns1 = None"
proof (induction "c - i" arbitrary: i ns1)
  case 0
  then show ?case using fails by simp
next
  case (Suc d)
  have b: "p < FS_MAX_FILES" "c < FS_MAX_FILES" using ap by (auto simp: apart_def kids_def child_of_def)
  have l1: "length ns1 = FS_MAX_FILES" "kids ns1 = kids ns"
    using skeletonD(1) [OF Suc.prems(1)] kids_skeleton [OF Suc.prems(1) len] len by simp_all
  have i: "i < c" "i < FS_MAX_FILES" using Suc.hyps(2) b by simp_all
  have rest: "rebuild_from (Suc i) p ns2 = None" if "skeleton ns2 = skeleton ns" "ns2 ! p = m" for ns2
    using Suc.hyps(1) [of "Suc i" ns2] Suc.hyps(2) that i(1) by simp
  show ?case
  proof (cases "nd_used (ns1 ! i) \<noteq> 0 \<and> nd_parent (ns1 ! i) = of_nat p")
    case False
    then have "rebuild_from i p ns1 = rebuild_from (Suc i) p ns1"
      using i(2) l1(1) by (subst rebuild_from.simps) auto
    then show ?thesis using rest Suc.prems by simp
  next
    case True
    then have "(p, i) \<in> kids ns" using i(2) b(1) unfolding l1(2) [symmetric] by (simp add: kids_def child_of_def nd_live_def)
    then have ip: "(i, p) \<notin> (kids ns)\<^sup>+" "i \<noteq> p" using ap i(1) by (auto simp: apart_def)
    show ?thesis
    proof (cases "rebuild_from i p ns1")
      case (Some ns')
      then obtain path ns2 where ns2: "(if nd_type (ns1 ! i) = FS_DIR then rebuild_from 0 i (ns1[i := (ns1 ! i)\<lparr>nd_path := path\<rparr>])
          else Some (ns1[i := (ns1 ! i)\<lparr>nd_path := path\<rparr>])) = Some ns2" "rebuild_from (Suc i) p ns2 = Some ns'"
        using True i(2) l1(1) by (subst (asm) rebuild_from.simps) (auto simp: bind_Some_iff)
      let ?n = "ns1[i := (ns1 ! i)\<lparr>nd_path := path\<rparr>]"
      have "kids ?n = kids ns" using l1 by (subst kids_skeleton [of ?n ns1]) simp_all
      then have "skeleton ns2 = skeleton ns" "ns2 ! p = m"
        using ns2(1) rebuild_from_keeps [of 0 i ?n ns2] l1(1) i(2) ip Suc.prems(1,2) by (auto simp: keeps_def split: if_splits)
      then show ?thesis using rest [of ns2] ns2(2) by simp
    qed simp
  qed
qed

text \<open>At the child, the path is extended by its name: an overrun, or the recursion goes on there.\<close>

lemma rebuild_at:
  assumes "(p, c) \<in> kids ns" "length ns = FS_MAX_FILES" "terminated (nd_name (ns ! c))"
    and "terminated (nd_path (ns ! p))" "2 \<le> length (cstr (nd_path (ns ! p)))"
    and "l \<le> length (cstr (nd_path (ns ! p)))"
    and rec: "\<And>ns2. skeleton ns2 = skeleton ns \<Longrightarrow> terminated (nd_path (ns2 ! c)) \<Longrightarrow>
       Suc l + length (cstr (nd_name (ns ! c))) \<le> length (cstr (nd_path (ns2 ! c))) \<Longrightarrow>
       Suc l + length (cstr (nd_name (ns ! c))) < 128 \<Longrightarrow>
       nd_type (ns ! c) = FS_DIR \<and> rebuild_from 0 c ns2 = None"
  shows "rebuild_from c p ns = None"
proof -
  let ?x = "cstr (nd_path (ns ! p)) @ slash # cstr (nd_name (ns ! c))"
  have c: "p < FS_MAX_FILES" "c < FS_MAX_FILES" "nd_used (ns ! c) \<noteq> 0" "nd_parent (ns ! c) = of_nat p"
    using assms(1) by (auto simp: kids_def child_of_def nd_live_def)
  have "cstr (nd_path (ns ! p)) \<noteq> [slash]" using assms(5) by auto
  note step = rebuild_child_bytes [OF assms(4) this assms(3), of "nd_path (ns ! c)"]
  show ?thesis
  proof (cases "length ?x < 128 \<and> put_str (nd_path (ns ! c)) ?x \<noteq> None")
    case False
    then show ?thesis using c assms(2) by (subst rebuild_from.simps) (auto simp: step)
  next
    case True
    then obtain path where path: "put_str (nd_path (ns ! c)) ?x = Some path" by blast
    have "0 \<notin> set ?x" by simp
    note px = put_str_cstr [OF path this] put_str_terminated [OF path]
    let ?n = "ns[c := (ns ! c)\<lparr>nd_path := path\<rparr>]"
    have "nd_type (ns ! c) = FS_DIR \<and> rebuild_from 0 c ?n = None"
      using True px assms(2,6) c(2) by (intro rec) simp_all
    then show ?thesis using True path c assms(2) by (subst rebuild_from.simps) (simp add: step)
  qed
qed

lemma overlong_fails:
  "overlong ns p l \<Longrightarrow> length ns = FS_MAX_FILES \<Longrightarrow> 2 \<le> l \<Longrightarrow> skeleton ns1 = skeleton ns \<Longrightarrow>
     terminated (nd_path (ns1 ! p)) \<Longrightarrow> l \<le> length (cstr (nd_path (ns1 ! p))) \<Longrightarrow> rebuild_from 0 p ns1 = None"
proof (induction arbitrary: ns1 rule: overlong.induct)
  case (overlong_here p c l)
  have fails: "rebuild_from c p ns2 = None" if s: "skeleton ns2 = skeleton ns" "ns2 ! p = ns1 ! p" for ns2
  proof (rule rebuild_at [where l = l])
    have c: "c < length ns" using overlong_here by (auto simp: apart_def kids_def child_of_def)
    show "(p, c) \<in> kids ns2" "length ns2 = FS_MAX_FILES" "terminated (nd_name (ns2 ! c))"
      using overlong_here kids_skeleton [OF s(1)] skeletonD [OF s(1)] c by (simp_all add: apart_def)
  qed (use overlong_here s skeletonD [OF s(1)] in \<open>auto simp: apart_def kids_def child_of_def\<close>)
  show ?case using rebuild_reaches [OF overlong_here.hyps(1) _ fails] overlong_here.prems by blast
next
  case (overlong_below p c l)
  have c: "c < length ns" using overlong_below by (auto simp: apart_def kids_def child_of_def)
  have fails: "rebuild_from c p ns2 = None" if s: "skeleton ns2 = skeleton ns" "ns2 ! p = ns1 ! p" for ns2
  proof (rule rebuild_at [where l = l])
    note sk = skeletonD [OF s(1)]
    show "(p, c) \<in> kids ns2" "length ns2 = FS_MAX_FILES" "terminated (nd_name (ns2 ! c))"
      using overlong_below kids_skeleton [OF s(1)] sk c by (simp_all add: apart_def)
    fix ns3 assume "skeleton ns3 = skeleton ns2" "terminated (nd_path (ns3 ! c))"
      "Suc l + length (cstr (nd_name (ns2 ! c))) \<le> length (cstr (nd_path (ns3 ! c)))"
    then show "nd_type (ns2 ! c) = FS_DIR \<and> rebuild_from 0 c ns3 = None"
      using overlong_below.IH [of ns3] overlong_below.hyps(2) overlong_below.prems(1,2) s(1) sk(2) [OF c] by simp
  qed (use overlong_below s in auto)
  show ?case using rebuild_reaches [OF overlong_below.hyps(1) _ fails] overlong_below.prems by blast
qed

subsection \<open>The links after a move\<close>

text \<open>Slot \<open>idx\<close>, with the components \<open>cs\<close>, is linked to the directory \<open>qs\<close> in slot \<open>q\<close> and called \<open>nm\<close>.\<close>

definition relinked ::
    "fs_node list \<Rightarrow> nat \<Rightarrow> nat \<Rightarrow> fs_node \<Rightarrow> byte list list \<Rightarrow> byte list list \<Rightarrow> byte list \<Rightarrow> bool" where
  "relinked ns idx q n' cs qs nm \<longleftrightarrow> fs_wf ns \<and> slot_of ns cs = Some idx \<and> slot_of ns qs = Some q \<and>
     nd_type (ns ! q) = FS_DIR \<and> nd_live n' \<and> nd_parent n' = of_nat q \<and> nd_type n' = nd_type (ns ! idx) \<and>
     terminated (nd_name n') \<and> cstr (nd_name n') = nm"

lemma kids_relinked:
  assumes "relinked ns idx q n' cs qs nm"
  shows "(p, c) \<in> kids (ns[idx := n']) \<longleftrightarrow>
     (if c = idx then p = q else p < FS_MAX_FILES \<and> child_of ns p c)"
proof -
  have "q < FS_MAX_FILES" "idx < FS_MAX_FILES" "length ns = FS_MAX_FILES" "nd_live n'" "nd_parent n' = of_nat q"
    using assms slot_of_bound fs_wf_length by (auto simp: relinked_def)
  then show ?thesis using of_nat_slot_eq [of q p] by (cases "c = idx") (auto simp: kids_def child_of_def)
qed

text \<open>Everything below an entry that does not lie on the way to \<open>qs\<close> was below it before.\<close>

lemma descendants:
  assumes rl: "relinked ns idx q n' cs qs nm" and i: "slot_of ns es = Some i" "\<not> prefix es qs"
    and "(i, j) \<in> (kids (ns[idx := n']))\<^sup>+"
  shows "\<exists>rel. rel \<noteq> [] \<and> slot_of ns (es @ rel) = Some j"
proof -
  have wf: "fs_wf ns" and q: "slot_of ns qs = Some q" using rl by (auto simp: relinked_def)
  have grow: "\<exists>rel. rel \<noteq> [] \<and> slot_of ns (es @ rel) = Some z"
    if y: "slot_of ns (es @ rel) = Some y" "(y, z) \<in> kids (ns[idx := n'])" for y z rel
  proof -
    have "y \<noteq> q" using slot_comps [OF wf y(1)] slot_comps [OF wf q] i(2) by (auto simp: prefix_def)
    then have "child_of ns y z" using y(2) kids_relinked [OF rl] by (auto split: if_splits)
    from child_comps(4) [OF wf y(1) this] show ?thesis by (intro exI [of _ "rel @ [_]"]) simp
  qed
  from assms(4) show ?thesis
  proof (induction rule: trancl_induct)
    case (base y)
    then show ?case using grow [of "[]" i y] i(1) by simp
  next
    case (step y z)
    then show ?case using grow by blast
  qed
qed

lemma no_loop:
  assumes "fs_wf ns" "slot_of ns es = Some p" "\<exists>rel. rel \<noteq> [] \<and> slot_of ns ((es @ [x]) @ rel) = Some p"
  shows False
  using slot_comps [OF assms(1)] assms(2,3) by (metis append_is_Nil_conv append_self_conv not_Cons_self2 append_assoc)

text \<open>A child on a chain of directories, whose earlier siblings do not lead back to its parent.\<close>

lemma apart_child:
  assumes rl: "relinked ns idx q n' cs qs nm" and p: "slot_of ns es = Some p" "p \<noteq> q"
    and c: "slot_of ns (es @ [x]) = Some c" "c \<noteq> idx"
    and side: "\<And>y. prefix (es @ [y]) qs \<Longrightarrow> y = x"
  shows "apart (ns[idx := n']) p c" "cstr (nd_name (ns[idx := n'] ! c)) = x" "nd_type (ns[idx := n'] ! c) = nd_type (ns ! c)"
proof -
  have wf: "fs_wf ns" using rl by (simp add: relinked_def)
  obtain c' where c': "child_of ns p c'" "slot_of ns (es @ [hd [x]]) = Some c'" using top_child [OF wf p(1) c(1)] by blast
  then have ch: "child_of ns p c" using c(1) by simp
  note cc = child_comps [OF wf p(1) ch]
  have nm: "cstr (nd_name (ns ! c)) = x" using cc(2) slot_comps [OF wf c(1)] by simp
  have b: "p < FS_MAX_FILES" "c < FS_MAX_FILES" using slot_of_bound [OF wf] p(1) c(1) by auto
  have "entry_ok ns (ns ! c)" using fs_wf_entry [OF wf cc(1) b(2)] ch by (simp add: child_of_def)
  moreover have "(i, p) \<notin> (kids (ns[idx := n']))\<^sup>+" if "i < c" "(p, i) \<in> kids (ns[idx := n'])" for i
  proof
    assume loop: "(i, p) \<in> (kids (ns[idx := n']))\<^sup>+"
    have i: "child_of ns p i" using that(2) p(2) kids_relinked [OF rl] by (auto split: if_splits)
    note ic = child_comps(4) [OF wf p(1) i]
    have "cstr (nd_name (ns ! i)) \<noteq> x" using ic c(1) that(1) by auto
    then have "\<not> prefix (es @ [cstr (nd_name (ns ! i))]) qs" using side by blast
    from no_loop [OF wf p(1) descendants [OF rl ic this loop]] show False .
  qed
  ultimately show "apart (ns[idx := n']) p c" "cstr (nd_name (ns[idx := n'] ! c)) = x"
    "nd_type (ns[idx := n'] ! c) = nd_type (ns ! c)"
    using kids_relinked [OF rl] b ch c(2) nm by (auto simp: apart_def entry_ok_def)
qed

text \<open>The moved entry itself, at the end of the children that lead to \<open>qs\<close>.\<close>

lemma apart_moved:
  assumes rl: "relinked ns idx q n' cs qs nm"
  shows "apart (ns[idx := n']) q idx" "nd_type (ns[idx := n'] ! idx) = nd_type (ns ! idx)"
proof -
  have wf: "fs_wf ns" and q: "slot_of ns qs = Some q" using rl by (auto simp: relinked_def)
  have b: "idx < length ns" using rl slot_of_bound fs_wf_length by (auto simp: relinked_def)
  have "(i, q) \<notin> (kids (ns[idx := n']))\<^sup>+" if "i < idx" "(q, i) \<in> kids (ns[idx := n'])" for i
  proof
    assume loop: "(i, q) \<in> (kids (ns[idx := n']))\<^sup>+"
    have i: "child_of ns q i" using that kids_relinked [OF rl] by (auto split: if_splits)
    have "\<not> prefix (qs @ [cstr (nd_name (ns ! i))]) qs" by (simp add: prefix_def)
    from no_loop [OF wf q descendants [OF rl child_comps(4) [OF wf q i] this loop]] show False .
  qed
  then show "apart (ns[idx := n']) q idx" "nd_type (ns[idx := n'] ! idx) = nd_type (ns ! idx)"
    using kids_relinked [OF rl] rl b by (auto simp: apart_def relinked_def)
qed

text \<open>Two reasons for an overrun: an entry below \<open>cs\<close> whose new path is too long \<dots>\<close>

lemma overlong_deep:
  assumes rl: "relinked ns idx q n' cs qs nm" and out: "\<not> prefix cs qs" "ds \<noteq> []"
  shows "slot_of ns (cs @ zs) = Some p \<Longrightarrow> slot_of ns (cs @ zs @ rel) \<noteq> None \<Longrightarrow> rel \<noteq> [] \<Longrightarrow>
    128 \<le> length (path_of (ds @ zs @ rel)) \<Longrightarrow> overlong (ns[idx := n']) p (length (path_of (ds @ zs)))"
proof (induction rel arbitrary: zs p)
  case (Cons x rel)
  have wf: "fs_wf ns" and cs: "slot_of ns cs = Some idx" and q: "slot_of ns qs = Some q"
    using rl by (auto simp: relinked_def)
  obtain c where c: "slot_of ns ((cs @ zs) @ [x]) = Some c"
    using slot_closed [OF wf, of "(cs @ zs) @ [x]" rel] Cons.prems(2) by auto
  have ne: "p \<noteq> q" "c \<noteq> idx"
    using slot_comps [OF wf Cons.prems(1)] slot_comps [OF wf q] slot_comps [OF wf c] slot_comps [OF wf cs] out(1)
    by (auto simp: prefix_def)
  note ap = apart_child [OF rl Cons.prems(1) ne(1) c ne(2)]
  have side: "y = x" if "prefix ((cs @ zs) @ [y]) qs" for y using that out(1) by (auto simp: prefix_def)
  have len: "length (path_of (ds @ zs @ [x])) = Suc (length (path_of (ds @ zs)) + length x)"
    using out(2) path_of_snoc [of "ds @ zs" x] by simp
  show ?case
  proof (cases "rel = []")
    case True
    then show ?thesis using overlong_here [OF ap(1) [OF side]] ap(2) [OF side] Cons.prems(4) len by simp
  next
    case False
    then obtain c' where "child_of ns c c'" using top_child [OF wf c] Cons.prems(2) by fastforce
    then have "nd_type (ns ! c) = FS_DIR" by (rule child_parent_dir [OF wf c])
    moreover have "overlong (ns[idx := n']) c (length (path_of (ds @ zs @ [x])))"
      using Cons.IH [of "zs @ [x]" c] Cons.prems(2,4) c False by simp
    ultimately show ?thesis
      using overlong_below [OF ap(1) [OF side]] ap(2,3) [OF side] len by simp
  qed
qed simp

text \<open>\<dots> and a destination below \<open>cs\<close>, which closes a cycle of links.\<close>

lemma overlong_cycle:
  assumes rl: "relinked ns idx q n' cs qs nm" and dir: "nd_type (ns ! idx) = FS_DIR"
  shows "prefix (cs @ zs) qs \<Longrightarrow> slot_of ns (cs @ zs) = Some p \<Longrightarrow> overlong (ns[idx := n']) p l"
proof (induction "128 - l" arbitrary: l zs p rule: less_induct)
  case less
  have wf: "fs_wf ns" and cs: "slot_of ns cs = Some idx" and q: "slot_of ns qs = Some q" "nd_type (ns ! q) = FS_DIR"
    using rl by (auto simp: relinked_def)
  have on: "overlong (ns[idx := n']) p l"
    if "apart (ns[idx := n']) p c" "nd_type (ns[idx := n'] ! c) = FS_DIR" "prefix (cs @ ys) qs"
      "slot_of ns (cs @ ys) = Some c" for c ys
    using less.hyps [of "Suc l + length (cstr (nd_name (ns[idx := n'] ! c)))" ys c] that
      overlong_here [OF that(1), of l] overlong_below [OF that(1,2), of l] by fastforce
  obtain rest where rest: "qs = cs @ zs @ rest" using less.prems(1) by (auto simp: prefix_def)
  show ?case
  proof (cases rest)
    case Nil
    then have "p = q" using rest less.prems(2) q(1) by simp
    then show ?thesis using on [of idx "[]"] apart_moved [OF rl] dir cs rest by simp
  next
    case (Cons x r)
    obtain c where c: "slot_of ns ((cs @ zs) @ [x]) = Some c"
      using slot_closed [OF wf, of "(cs @ zs) @ [x]" r] q(1) rest Cons by auto
    have ne: "p \<noteq> q" "c \<noteq> idx"
      using slot_comps [OF wf less.prems(2)] slot_comps [OF wf q(1)] slot_comps [OF wf c] slot_comps [OF wf cs] rest Cons
      by auto
    have side: "y = x" if "prefix ((cs @ zs) @ [y]) qs" for y using that rest Cons by (auto simp: prefix_def)
    have "nd_type (ns ! c) = FS_DIR"
    proof (cases "r = []")
      case True
      then show ?thesis using c q rest Cons by simp
    next
      case False
      then obtain c' where "child_of ns c c'" using top_child [OF wf c, of r q] q(1) rest Cons by auto
      then show ?thesis by (rule child_parent_dir [OF wf c])
    qed
    then show ?thesis
      using on [of c "zs @ [x]"] apart_child(1,3) [OF rl less.prems(2) ne(1) c ne(2) side] c rest Cons by simp
  qed
qed

subsection \<open>The operation\<close>

lemma path_of_length2: "parts_ok ds \<Longrightarrow> ds \<noteq> [] \<Longrightarrow> 2 \<le> length (path_of ds)"
  by (cases ds rule: rev_cases) (auto simp: path_of_snoc parts_ok_def comp_ok_def Suc_le_eq)

lemma slot_dir:
  assumes "fs_wf ns" "slot_of ns cs = Some p" "slot_of ns (cs @ rel) \<noteq> None" "rel \<noteq> []"
  shows "nd_type (ns ! p) = FS_DIR"
  using top_child [OF assms(1,2)] child_parent_dir [OF assms(1,2)] assms(3,4) by blast

lemma overlong_move:
  assumes rl: "relinked ns idx q n' cs (butlast ds) (last ds)" and ds: "ds \<noteq> []" "slot_of ns ds = None" "length (path_of ds) < 128"
    and "\<not> movable cs ds (fs_view ns)"
  shows "nd_type (ns ! idx) = FS_DIR \<and> overlong (ns[idx := n']) idx (length (path_of ds))"
proof (cases "prefix cs ds")
  case True
  have wf: "fs_wf ns" and cs: "slot_of ns cs = Some idx" and q: "slot_of ns (butlast ds) = Some q" "nd_type (ns ! q) = FS_DIR"
    using rl by (auto simp: relinked_def)
  have "cs \<noteq> ds" using cs ds(2) by auto
  then have pre: "prefix cs (butlast ds)" using True ds(1) by (metis append_butlast_last_id prefix_snoc)
  then obtain rel where rel: "butlast ds = cs @ rel" by (auto simp: prefix_def)
  have "nd_type (ns ! idx) = FS_DIR"
    using slot_dir [OF wf cs, of rel] q cs rel by (cases "rel = []") auto
  then show ?thesis using overlong_cycle [OF rl, of "[]" idx "length (path_of ds)"] pre cs by simp
next
  case False
  have wf: "fs_wf ns" and cs: "slot_of ns cs = Some idx" using rl by (auto simp: relinked_def)
  obtain rel where rel: "slot_of ns (cs @ rel) \<noteq> None" "128 \<le> length (path_of (ds @ rel))"
    using assms(5) False by (force simp: movable_def view_None_iff not_less)
  have ne: "rel \<noteq> []" using rel(2) ds(3) by auto
  have "\<not> prefix cs (butlast ds)" using False by (metis prefix_order.trans prefixeq_butlast)
  from overlong_deep [OF rl this ds(1), of "[]" idx rel] show ?thesis
    using slot_dir [OF wf cs rel(1) ne] rel ne cs by simp
qed

lemma fs_move_overruns:
  assumes "fs_ok k" "arg_ok src" "arg_ok dest" "target k src = Some cs" "target k dest = Some ds"
    and "fst (tree_move cs ds (fs_view (nodes k))) = 0" "\<not> movable cs ds (fs_view (nodes k))"
  shows "fs_move hw src dest k = None"
proof -
  let ?ns = "nodes k"
  have wf: "fs_wf ?ns" using assms(1) by (rule fs_ok_wf)
  have tm: "cs \<noteq> []" "fs_view ?ns cs \<noteq> None" "fs_view ?ns ds = None" "fs_view ?ns (butlast ds) = Some Dir"
    using assms(6) by (auto simp: tree_move_def split: if_splits)
  obtain idx where idx: "slot_of ?ns cs = Some idx" using tm(2) by (auto simp: view_None_iff)
  obtain q where q: "slot_of ?ns (butlast ds) = Some q" "nd_type (?ns ! q) = FS_DIR"
    using tm(4) by (auto simp: fs_view_def entry_of_def split: if_splits)
  have none: "slot_of ?ns ds = None" using tm(3) by (simp add: view_None_iff)
  have ds: "parts_ok ds" "length (path_of ds) < 128" "ds \<noteq> []"
    using target_ok [OF assms(3,5)] none slot_of_root [OF wf] by auto
  obtain n' where n': "nd_live n'" "nd_parent n' = of_nat q" "terminated (nd_path n')" "cstr (nd_path n') = path_of ds"
    "terminated (nd_name n')" "cstr (nd_name n') = last ds" "nd_type n' = nd_type (?ns ! idx)"
    and run: "fs_move hw src dest k = do {
       ns \<leftarrow> (if nd_type (?ns ! idx) = FS_DIR then rebuild_child_paths idx (?ns[idx := n']) else Some (?ns[idx := n']));
       k' \<leftarrow> persist_if_enabled hw (k\<lparr>nodes := ns\<rparr>);
       Some (0, k') }"
    by (rule fs_move_relinks [OF assms(1-5) tm(1) idx tm(3) q])
  have "relinked ?ns idx q n' cs (butlast ds) (last ds)" using wf idx q n' by (simp add: relinked_def)
  note long = overlong_move [OF this ds(3) none ds(2) assms(7)]
  have "rebuild_from 0 idx (?ns[idx := n']) = None"
    using overlong_fails [OF long [THEN conjunct2] _ path_of_length2 [OF ds(1,3)]] n' slot_of_bound [OF wf idx] fs_wf_length [OF wf]
    by simp
  then show ?thesis unfolding run using long by (simp add: rebuild_child_paths_def)
qed

text \<open>So a move returns exactly when it is refused or the arrays can hold it.\<close>

lemma fs_move_returns:
  assumes "fs_ok k" "arg_ok src" "arg_ok dest" "target k src = Some cs" "target k dest = Some ds"
  shows "fs_move hw src dest k \<noteq> None \<longleftrightarrow>
     fst (tree_move cs ds (fs_view (nodes k))) \<noteq> 0 \<or> movable cs ds (fs_view (nodes k))"
  using fs_move_refines [OF assms, of hw] fs_move_overruns [OF assms, of hw]
  by (cases "fst (tree_move cs ds (fs_view (nodes k))) \<noteq> 0 \<or> movable cs ds (fs_view (nodes k))") auto

end
