(* ===== verification/Fs_Properties.thy ===== *)
theory Fs_Properties
  imports Fs_Boot Fs_Move_Limits
begin

section \<open>Properties of the filesystem\<close>

text \<open>
  The statements about kernel/filesystem.c that the rest of the development is for, each over the
  code's own functions, with a concrete instance: the machine \<open>kernel_off\<close>, all static memory zero
  and no disk, started by \<open>fs_init\<close>; and the simulated drive where a disk is needed.
\<close>

subsection \<open>A machine to run on\<close>

definition disk_offline :: disk_state where
  "disk_offline = \<lparr>has_disk = False, status_text = lit ''no primary ATA disk''\<rparr>"

definition kernel_off :: "ata_view kernel" where
  "kernel_off = \<lparr>k_term = term_zero, k_keys = [], k_users = users_zero, k_heap = \<lparr>heap_used = 0\<rparr>,
     k_disk = disk_offline, k_dev = sim_blank, nodes = zero_table, current_dir = fresh 128,
     persistence_enabled = False, fs_booting = False\<rparr>"

lemma kernel_off_shape: "table_shape (nodes kernel_off)" "length (current_dir kernel_off) = FS_MAX_PATH"
    "\<not> has_disk (k_disk kernel_off)"
  by (simp_all add: kernel_off_def zero_table_shape FS_MAX_PATH_def disk_offline_def)

definition kernel_up :: "ata_view kernel" where
  "kernel_up = the (fs_init sim_ports kernel_off)"

lemma kernel_up:
  "fs_init sim_ports kernel_off = Some kernel_up" "fs_ok kernel_up" "fs_view (nodes kernel_up) = default_view"
  "cstr (current_dir kernel_up) = path_of []" "k_disk kernel_up = disk_offline"
proof -
  obtain k where "fs_init sim_ports kernel_off = Some k" "fs_ok k" "fs_view (nodes k) = default_view"
    "cstr (current_dir k) = path_of []" "k_disk k = k_disk kernel_off"
    using fs_init_without_disk [OF kernel_off_shape, of sim_ports] unfolding fs_keeps_def by blast
  then show "fs_init sim_ports kernel_off = Some kernel_up" "fs_ok kernel_up"
    "fs_view (nodes kernel_up) = default_view" "cstr (current_dir kernel_up) = path_of []"
    "k_disk kernel_up = disk_offline"
    by (simp_all add: kernel_up_def kernel_off_def)
qed

definition memo :: cbuf where "memo = lit ''/home/memo''"
definition readme :: cbuf where "readme = lit ''/home/readme.txt''"

lemma sample_targets:
  "target k (Some memo) = Some [bytes_of ''home'', bytes_of ''memo'']"
  "target k (Some readme) = Some [bytes_of ''home'', bytes_of ''readme.txt'']"
  "arg_ok (Some memo)" "arg_ok (Some readme)"
proof -
  have "comps_ok [bytes_of ''home'', bytes_of ''memo'']" "length (cstr memo) < 128"
    "cstr memo = path_of [bytes_of ''home'', bytes_of ''memo'']"
    by code_simp+
  then show "target k (Some memo) = Some [bytes_of ''home'', bytes_of ''memo'']"
    by (intro target_path_of)
  show "target k (Some readme) = Some [bytes_of ''home'', bytes_of ''readme.txt'']"
    unfolding readme_def by (rule target_literals(3))
qed (simp_all add: memo_def readme_def)

lemma sample_views:
  "default_view [bytes_of ''home''] = Some Dir"
  "default_view [bytes_of ''home'', bytes_of ''memo''] = None"
  "default_view [bytes_of ''home'', bytes_of ''readme.txt''] = Some (File (cstr readme_text))"
  "\<not> tree_full default_view"
proof -
  have ne: "bytes_of ''memo'' \<noteq> bytes_of ''readme.txt''" by code_simp
  show "default_view [bytes_of ''home''] = Some Dir"
    "default_view [bytes_of ''home'', bytes_of ''memo''] = None"
    "default_view [bytes_of ''home'', bytes_of ''readme.txt''] = Some (File (cstr readme_text))"
    using ne by (simp_all add: default_view_def)
  show "\<not> tree_full default_view"
    by (rule small_tree_not_full) (simp add: default_view_def FS_MAX_FILES_def card_insert_if)
qed

subsection \<open>The operations\<close>

text \<open>
  C2: Creating refines the tree.  From a well-formed state, \<open>fs_create_file\<close> and \<open>fs_create_dir\<close> on a
  path that resolves return without an access outside an array, on every device; they return 1 and
  leave the tree alone when the path exists, its parent is not a directory or all 128 nodes are in
  use, and otherwise return 0 and add exactly the new entry (an empty file, a directory).  The
  state stays well-formed and users, heap and current directory are untouched.
\<close>

theorem fs_create_refines:
  assumes "fs_ok k" "arg_ok path" "target k path = Some cs"
  shows "(\<exists>r k'. fs_create_file hw path k = Some (r, k') \<and> fs_ok k' \<and> kept k k' \<and>
       tree_create (File []) cs (fs_view (nodes k)) = (r, fs_view (nodes k'))) \<and>
     (\<exists>r k'. fs_create_dir hw path k = Some (r, k') \<and> fs_ok k' \<and> kept k k' \<and>
       tree_create Dir cs (fs_view (nodes k)) = (r, fs_view (nodes k')))"
  using create_node_refines [OF assms, of FS_FILE "''File already exists''" hw]
    create_node_refines [OF assms, of FS_DIR "''Directory already exists''" hw]
  unfolding fs_create_file_def fs_create_dir_def entry_of_type_def by auto

lemma fs_create_refines_witness:
  "\<exists>k'. fs_create_file sim_ports (Some memo) kernel_up = Some (0, k') \<and>
     fs_view (nodes k') = default_view([bytes_of ''home'', bytes_of ''memo''] \<mapsto> File [])"
  using fs_create_refines [OF kernel_up(2) sample_targets(3,1), of sim_ports] sample_views
  by (auto simp: kernel_up(3) tree_create_def)

text \<open>
  C9: Writing refines the tree.  \<open>fs_write_file\<close> replaces the content of an existing file by the given
  bytes, exactly when they are at most 4096; on a missing path, a directory or too many bytes it
  returns 1 and changes nothing in the tree.
\<close>

theorem fs_write_refines:
  assumes "fs_ok k" "arg_ok path" "target k path = Some cs" "unat sz \<le> length data"
  shows "\<exists>r k'. fs_write_file hw path data sz k = Some (r, k') \<and> fs_ok k' \<and> kept k k' \<and>
     tree_write (take (unat sz) data) cs (fs_view (nodes k)) = (r, fs_view (nodes k'))"
  using assms by (rule fs_write_file_refines)

lemma fs_write_refines_witness:
  "\<exists>k'. fs_write_file sim_ports (Some readme) (lit ''hi'') 2 kernel_up = Some (0, k') \<and>
     fs_view (nodes k') = default_view([bytes_of ''home'', bytes_of ''readme.txt''] \<mapsto> File (bytes_of ''hi''))"
proof -
  have "unat (2 :: 32 word) \<le> length (lit ''hi'')" "take (unat (2 :: 32 word)) (lit ''hi'') = bytes_of ''hi''"
    "length (bytes_of ''hi'') = 2"
    by code_simp+
  then show ?thesis
    using fs_write_refines [OF kernel_up(2) sample_targets(4,2), of 2 "lit ''hi''" sim_ports] sample_views
    by (auto simp: kernel_up(3) tree_write_def FS_MAX_FILE_SIZE_def)
qed

text \<open>
  C19: Appending refines the tree, up to a wrap-around.  \<open>fs_append_file\<close> adds the bytes at the end of the
  file when the result has at most 4096 bytes and otherwise returns 1 and changes nothing in the tree,
  with one exception: the bound check compares the 32-bit sum of the two sizes, and exactly the sizes
  that make this sum exceed \<open>2 ^ 32\<close> pass it, after which the copy leaves the data array of the node.
\<close>

theorem fs_append_refines:
  assumes "fs_ok k" "arg_ok path" "target k path = Some cs" "unat sz \<le> length data"
  shows "(fs_append_file hw path data sz k = None \<longleftrightarrow>
       (\<exists>old. fs_view (nodes k) cs = Some (File old) \<and> 2 ^ 32 \<le> length old + unat sz)) \<and>
     pred_option (\<lambda>(r, k'). fs_ok k' \<and> kept k k' \<and>
         tree_append (take (unat sz) data) cs (fs_view (nodes k)) = (r, fs_view (nodes k')))
       (fs_append_file hw path data sz k)"
proof (cases "\<exists>old. fs_view (nodes k) cs = Some (File old) \<and> 2 ^ 32 \<le> length old + unat sz")
  case True
  then show ?thesis using fs_append_file_wrap [OF assms(1-3)] by auto
next
  case False
  then have "length old + unat sz < 2 ^ 32" if "fs_view (nodes k) cs = Some (File old)" for old
    using that by (auto simp: not_le)
  then show ?thesis using fs_append_file_refines [OF assms, of hw] False by fastforce
qed

lemma fs_append_refines_witness:
  "\<exists>k'. fs_append_file sim_ports (Some readme) (lit ''hi'') 2 kernel_up = Some (0, k') \<and>
     fs_view (nodes k') = default_view([bytes_of ''home'', bytes_of ''readme.txt''] \<mapsto>
       File (cstr readme_text @ bytes_of ''hi''))"
proof -
  have "unat (2 :: 32 word) \<le> length (lit ''hi'')" "take (unat (2 :: 32 word)) (lit ''hi'') = bytes_of ''hi''"
    "length (bytes_of ''hi'') = 2" "length (cstr readme_text) = 70"
    by code_simp+
  then show ?thesis
    using fs_append_refines [OF kernel_up(2) sample_targets(4,2), of 2 "lit ''hi''" sim_ports] sample_views
    by (cases "fs_append_file sim_ports (Some readme) (lit ''hi'') 2 kernel_up")
      (auto simp: kernel_up(3) tree_append_def FS_MAX_FILE_SIZE_def)
qed

text \<open>The wrap-around at a concrete size.\<close>

lemma fs_append_wraps:
  "fs_append_file sim_ports (Some readme) data (- 1) kernel_up = None"
proof -
  have "length (cstr readme_text) = 70" by code_simp
  moreover have "unat (- 1 :: 32 word) = 2 ^ 32 - 1" by (simp add: unsigned_minus_1_eq_mask mask_eq_exp_minus_1)
  ultimately show ?thesis
    using fs_append_file_wrap [OF kernel_up(2) sample_targets(4,2), of "cstr readme_text" "- 1"] sample_views(3)
    by (simp add: kernel_up(3))
qed

text \<open>
  C18: Copying refines the tree.  \<open>fs_copy\<close> of an existing file to a path where \<open>fs_create_file\<close>
  succeeds makes a file with the same content there and changes nothing else; otherwise it returns
  1 and the tree stays.
\<close>

theorem fs_copy_refines_tree:
  assumes "fs_ok k" "arg_ok src" "arg_ok dest" "target k src = Some cs" "target k dest = Some ds"
  shows "\<exists>r k'. fs_copy hw src dest k = Some (r, k') \<and> fs_ok k' \<and> kept k k' \<and>
     tree_copy cs ds (fs_view (nodes k)) = (r, fs_view (nodes k'))"
  using assms by (rule fs_copy_refines)

lemma fs_copy_refines_tree_witness:
  "\<exists>k'. fs_copy sim_ports (Some readme) (Some memo) kernel_up = Some (0, k') \<and>
     fs_view (nodes k') = default_view([bytes_of ''home'', bytes_of ''memo''] \<mapsto> File (cstr readme_text))"
  using fs_copy_refines_tree [OF kernel_up(2) sample_targets(4,3,2,1), of sim_ports] sample_views
  by (auto simp: kernel_up(3) tree_copy_def tree_create_def)

text \<open>
  C8: Deleting refines the tree.  \<open>fs_delete\<close> removes exactly the named entry and returns 0; on the
  root, a missing path or a directory that still has an entry it returns 1 and the tree stays, so
  that every entry always lies in a directory.
\<close>

theorem fs_delete_refines_tree:
  assumes "fs_ok k" "arg_ok path" "target k path = Some cs"
  shows "\<exists>r k'. fs_delete hw path k = Some (r, k') \<and> fs_ok k' \<and> kept k k' \<and>
     tree_delete cs (fs_view (nodes k)) = (r, fs_view (nodes k'))"
  using assms by (rule fs_delete_refines)

lemma fs_delete_refines_tree_witness:
  "\<exists>k'. fs_delete sim_ports (Some readme) kernel_up = Some (0, k') \<and>
     fs_view (nodes k') = default_view([bytes_of ''home'', bytes_of ''readme.txt''] := None)"
  using fs_delete_refines_tree [OF kernel_up(2) sample_targets(4,2), of sim_ports] sample_views(3)
  by (auto simp: kernel_up(3) tree_delete_def)

text \<open>
  C20: Reading returns the file.  With a buffer of at least \<open>max_size\<close> bytes, \<open>fs_read_file\<close> returns
  the number of bytes of the file, at most \<open>max_size\<close>, and puts exactly these bytes at the start of
  the buffer; on a missing path or a directory it returns -1 and leaves the buffer alone.
\<close>

theorem fs_read_returns_content:
  assumes "fs_ok k" "arg_ok path" "target k path = Some cs" "unat max_size \<le> length buffer"
  shows "fs_read_file path buffer max_size k =
     (case fs_view (nodes k) cs of
        Some (File content) \<Rightarrow>
          let got = take (unat max_size) content in
          Some (int (length got), got @ drop (length got) buffer)
      | _ \<Rightarrow> Some (-1, buffer))"
  using assms by (rule fs_read_file_eq)

lemma fs_read_returns_content_witness:
  "fs_read_file (Some readme) (fresh 128) 127 kernel_up = Some (70, cstr readme_text @ replicate 58 0)"
proof -
  have "length (cstr readme_text) = 70" by code_simp
  then show ?thesis
    using fs_read_returns_content [OF kernel_up(2) sample_targets(4,2), of 127 "fresh 128"] sample_views(3)
    by (simp add: kernel_up(3) Let_def fresh_def)
qed

text \<open>
  C26: A listing shows the directory.  \<open>fs_list_dir\<close> on a directory prints one line for each of its
  entries, in slot order: \<open><DIR>\<close> or blanks, the entry's name, and for a file its size in bytes; it
  returns 0 and changes nothing but the terminal.  On anything else it prints an error and returns 1.
\<close>

theorem fs_list_prints_entries:
  assumes "fs_ok k" "arg_ok path" "target k path = Some cs"
  shows "fs_list_dir path k = Some
     (if fs_view (nodes k) cs = Some Dir
      then (0, k\<lparr>k_term := fold io_print_char (listing (nodes k) cs) (k_term k)\<rparr>)
      else (1, shown ''Directory not found'' k))"
  using assms by (rule fs_list_dir_eq)

lemma fs_list_prints_entries_witness:
  "fs_list_dir (Some readme) kernel_up = Some (1, shown ''Directory not found'' kernel_up)"
  using fs_list_prints_entries [OF kernel_up(2) sample_targets(4,2)] sample_views(3)
  by (simp add: kernel_up(3))

text \<open>
  C27: The questions are answered from the tree.  \<open>fs_exists\<close>, \<open>fs_is_file\<close> and \<open>fs_is_dir\<close> say what is
  at the path, \<open>fs_get_file_size\<close> the length of the content of a file, and \<open>fs_change_dir\<close> makes the
  path the current directory and returns 0 exactly when it is a directory.
\<close>

theorem fs_queries_answer:
  assumes "fs_ok k" "arg_ok path" "target k path = Some cs"
  shows "fs_exists path k = Some (fs_view (nodes k) cs \<noteq> None) \<and>
     fs_is_file path k = Some (\<exists>d. fs_view (nodes k) cs = Some (File d)) \<and>
     fs_is_dir path k = Some (fs_view (nodes k) cs = Some Dir) \<and>
     (\<forall>content. fs_view (nodes k) cs = Some (File content) \<longrightarrow>
        fs_get_file_size path k = Some (of_nat (length content))) \<and>
     (\<exists>r k'. fs_change_dir path k = Some (r, k') \<and> fs_ok k' \<and> nodes k' = nodes k \<and>
        (r = 0 \<longleftrightarrow> fs_view (nodes k) cs = Some Dir) \<and>
        cstr (current_dir k') =
          (if fs_view (nodes k) cs = Some Dir then path_of cs else cstr (current_dir k)))"
proof -
  obtain k' where k': "fs_change_dir path k = Some (tree_chdir cs (fs_view (nodes k)), k')" "fs_ok k'"
    "nodes k' = nodes k" "cstr (current_dir k') =
       (if fs_view (nodes k) cs = Some Dir then path_of cs else cstr (current_dir k))"
    using fs_change_dir_refines [OF assms] by blast
  have "tree_chdir cs (fs_view (nodes k)) = 0 \<longleftrightarrow> fs_view (nodes k) cs = Some Dir"
    by (simp add: tree_chdir_def)
  with k' show ?thesis
    using fs_exists_eq [OF assms] fs_is_file_eq [OF assms] fs_is_dir_eq [OF assms]
      fs_get_file_size_eq [OF assms] by blast
qed

lemma fs_queries_answer_witness:
  "fs_exists (Some memo) kernel_up = Some False \<and> fs_is_file (Some readme) kernel_up = Some True"
  using fs_queries_answer [OF kernel_up(2) sample_targets(3,1)]
    fs_queries_answer [OF kernel_up(2) sample_targets(4,2)] sample_views
  by (simp add: kernel_up(3))

text \<open>
  C3: Moving refines the tree.  On the root or a missing source, an existing destination or a destination
  whose parent is not a directory \<open>fs_move\<close> returns 1 and the tree stays; otherwise it returns 0 on
  every device, and the entry with everything below it is at the new place and nowhere else, exactly
  when the destination is not inside the moved entry and every resulting path fits 127 bytes.  In all
  other cases the recursion \<open>rebuild_child_paths\<close> does not return normally: it makes a path longer than
  its array \<open>next[128]\<close>, or follows a cycle of parent links for ever.
\<close>

theorem fs_move_refines_tree:
  assumes "fs_ok k" "arg_ok src" "arg_ok dest" "target k src = Some cs" "target k dest = Some ds"
  shows "(fs_move hw src dest k \<noteq> None \<longleftrightarrow>
       (fst (tree_move cs ds (fs_view (nodes k))) = 0 \<longrightarrow> movable cs ds (fs_view (nodes k)))) \<and>
     pred_option (\<lambda>(r, k'). fs_ok k' \<and> kept k k' \<and> tree_move cs ds (fs_view (nodes k)) = (r, fs_view (nodes k')))
       (fs_move hw src dest k)"
  using fs_move_returns [OF assms, of hw] fs_move_refines [OF assms, of hw]
  by (cases "fs_move hw src dest k") auto

lemma move_targets:
  "target k (Some (lit ''/home'')) = Some [bytes_of ''home'']"
  "target k (Some (lit ''/docs'')) = Some [bytes_of ''docs'']"
  "target k (Some (lit ''/home/memo'')) = Some [bytes_of ''home'', bytes_of ''memo'']"
  using sample_targets(1) [of k]
  by (auto simp: memo_def intro!: target_path_of) code_simp+

lemma fs_move_refines_tree_witness:
  "\<exists>k'. fs_move sim_ports (Some (lit ''/home'')) (Some (lit ''/docs'')) kernel_up = Some (0, k') \<and>
     fs_view (nodes k') [bytes_of ''docs'', bytes_of ''readme.txt''] = Some (File (cstr readme_text)) \<and>
     fs_view (nodes k') [bytes_of ''home''] = None"
proof -
  have ne: "bytes_of ''docs'' \<noteq> bytes_of ''home''" "bytes_of ''docs'' \<noteq> bytes_of ''progs''"
    "bytes_of ''home'' \<noteq> bytes_of ''progs''"
    by code_simp+
  have len: "length (path_of [bytes_of ''docs'']) < 128"
    "length (path_of [bytes_of ''docs'', bytes_of ''readme.txt'']) < 128"
    by code_simp+
  have "movable [bytes_of ''home''] [bytes_of ''docs''] default_view"
    using ne len by (auto simp: movable_def default_view_def split: if_splits)
  moreover have "tree_move [bytes_of ''home''] [bytes_of ''docs''] default_view =
      (0, tree_moved [bytes_of ''home''] [bytes_of ''docs''] default_view)"
    using ne by (simp add: tree_move_def default_view_def)
  moreover have "tree_moved [bytes_of ''home''] [bytes_of ''docs''] default_view
        [bytes_of ''docs'', bytes_of ''readme.txt''] = Some (File (cstr readme_text))"
    "tree_moved [bytes_of ''home''] [bytes_of ''docs''] default_view [bytes_of ''home''] = None"
    using ne sample_views(3) by (auto simp: tree_moved_def)
  ultimately show ?thesis
    using fs_move_refines_tree [OF kernel_up(2) _ _ move_targets(1,2), of sim_ports]
    by (cases "fs_move sim_ports (Some (lit ''/home'')) (Some (lit ''/docs'')) kernel_up") (auto simp: kernel_up(3))
qed

text \<open>
  The case of a directory moved into its own subtree: \<open>fs_move\<close> has no check that the destination lies
  outside the source, the links to the parents become a cycle, and \<open>rebuild_child_paths\<close> never returns
  normally, for every free destination in a directory at or below the source.
\<close>

lemma fs_move_into_itself:
  assumes "fs_ok k" "arg_ok src" "arg_ok dest" "target k src = Some cs" "target k dest = Some (cs @ rel @ [c])"
    and "cs \<noteq> []" "fs_view (nodes k) (cs @ rel) = Some Dir" "fs_view (nodes k) (cs @ rel @ [c]) = None"
  shows "fs_move hw src dest k = None"
proof (rule fs_move_overruns [OF assms(1-5)])
  have wf: "fs_wf (nodes k)" using assms(1) by (rule fs_ok_wf)
  have "fs_view (nodes k) cs \<noteq> None"
    using slot_closed [OF wf, of cs rel] assms(7) unfolding view_None_iff [symmetric] by simp
  then show "fst (tree_move cs (cs @ rel @ [c]) (fs_view (nodes k))) = 0"
    using assms(6-8) by (simp add: tree_move_def butlast_append)
  show "\<not> movable cs (cs @ rel @ [c]) (fs_view (nodes k))" by (simp add: movable_def)
qed

subsection \<open>Persistence\<close>

text \<open>
  C11: A saved filesystem survives a reboot.  When \<open>fs_disk_save\<close> runs on a well-formed state with a
  tolerant drive (\<open>tolerant_drive\<close>: the PIO protocol without errors, no ERR and no effect of a flush
  command while busy) with 3117 sectors, it returns 0 without touching any
  sector outside 2048 to 3116; and whenever a machine with static memory of any content starts with
  a drive that holds these sectors, \<open>fs_init\<close> brings back exactly the saved node table.
\<close>

theorem save_survives_reboot:
  assumes "tolerant_drive hw view capacity" "3117 \<le> capacity"
    and "fs_ok k" "has_disk (k_disk k)" "drive_ready view (k_dev k)"
    and "table_shape (nodes k0)" "length (current_dir k0) = FS_MAX_PATH" "has_disk (k_disk k0)"
  shows "\<exists>k'. fs_disk_save hw k = Some (0, k') \<and> nodes k' = nodes k \<and>
     (\<forall>lba. lba < 2048 \<or> 3117 \<le> lba \<longrightarrow>
        drive_sector view (k_dev k') lba = drive_sector view (k_dev k) lba) \<and>
     (\<exists>k2. fs_init hw (k0\<lparr>k_dev := k_dev k'\<rparr>) = Some k2 \<and> fs_ok k2 \<and> nodes k2 = nodes k \<and>
        persistence_enabled k2)"
proof -
  have shape: "table_shape (nodes k)" using fs_wf_table_shape [OF fs_ok_wf [OF assms(3)]] .
  obtain d where d: "fs_disk_save hw k = Some (0, k\<lparr>k_dev := d, persistence_enabled := True\<rparr>)"
    "drive_ready view d" "image_at (drive_sector view d) (raw_of_nodes (nodes k))"
    "\<forall>lba. lba < 2048 \<or> 3117 \<le> lba \<longrightarrow> drive_sector view d lba = drive_sector view (k_dev k) lba"
    using disk_save_ok [OF assms(1,2,4,5) shape] by blast
  obtain k2 where "fs_init hw (k0\<lparr>k_dev := d\<rparr>) = Some k2" "fs_ok k2" "nodes k2 = nodes k"
    "persistence_enabled k2"
    using fs_init_loads [of "k0\<lparr>k_dev := d\<rparr>" hw view capacity "nodes k"] assms(1,2,6-8) d(2,3)
      fs_ok_wf [OF assms(3)] by auto
  with d show ?thesis by auto
qed

lemma save_survives_reboot_witness:
  "\<exists>k' k2. fs_disk_save sim_ports (kernel_up\<lparr>k_disk := disk_online\<rparr>) = Some (0, k') \<and>
     fs_init sim_ports (kernel_off\<lparr>k_disk := disk_online, k_dev := k_dev k'\<rparr>) = Some k2 \<and>
     fs_view (nodes k2) = default_view"
proof -
  have on: "has_disk disk_online" by (simp add: disk_online_def)
  have dev: "k_dev kernel_up = sim_blank"
  proof -
    obtain k3 where k3: "create_default_tree sim_ports (fs_zeroed kernel_off) = Some k3"
      "kept (fs_zeroed kernel_off) k3"
      using create_default_tree_ok [of "fs_zeroed kernel_off" "[]" sim_ports] fs_zeroed_cwd [OF kernel_off_shape(2)]
        zero_table_shape zero_table_dead by (auto simp: fs_zeroed_def)
    then have up: "kernel_up = k3\<lparr>fs_booting := False\<rparr>"
      using fs_init_eq [OF kernel_off_shape(1,2), of sim_ports] kernel_off_shape(3)
      by (simp add: kernel_up_def disk_present_def)
    have "k_dev k3 = sim_blank" using k3(2) by (simp add: kept_def fs_zeroed_def kernel_off_def)
    then show ?thesis unfolding up by simp
  qed
  have "fs_ok (kernel_up\<lparr>k_disk := disk_online\<rparr>)" using kernel_up(2) by (simp add: fs_ok_def)
  from save_survives_reboot [OF sim_drive.tolerant_drive_axioms _ this, of "kernel_off\<lparr>k_disk := disk_online\<rparr>"]
  show ?thesis
    using on dev sim_blank_ready kernel_off_shape kernel_up(3) by auto
qed

text \<open>
  A disk without an image is formatted.  When the machine starts with a drive whose sector 2048
  is not a header of this filesystem, \<open>fs_init\<close> builds the default tree, writes it to the drive and
  enables persistence: afterwards the drive holds the image of the node table.
\<close>

theorem init_formats_blank_disk:
  assumes "table_shape (nodes k)" "length (current_dir k) = FS_MAX_PATH"
    and "tolerant_drive hw view capacity" "3117 \<le> capacity" "has_disk (k_disk k)" "drive_ready view (k_dev k)"
    and "header_matches (drive_sector view (k_dev k) 2048) = Some False"
  shows "\<exists>k'. fs_init hw k = Some k' \<and> fs_ok k' \<and> fs_view (nodes k') = default_view \<and>
     persistence_enabled k' \<and> \<not> fs_booting k' \<and>
     image_at (drive_sector view (k_dev k')) (raw_of_nodes (nodes k'))"
  using fs_init_formats [OF assms] by blast

lemma init_formats_blank_disk_witness:
  "\<exists>k'. fs_init sim_ports (kernel_off\<lparr>k_disk := disk_online\<rparr>) = Some k' \<and>
     fs_view (nodes k') = default_view \<and> persistence_enabled k'"
proof -
  have zeros: "bytes_of_words (replicate n 0) = replicate (2 * n) 0" for n
    by (induction n) (simp_all add: word_lo_def word_hi_def)
  have "header_matches (replicate 512 0) = Some False"
    by (simp add: header_matches_def read_u32_eq u32_of_bytes_def FS_DISK_VERSION_def)
  then have "header_matches (drive_sector id sim_blank 2048) = Some False"
    using zeros [of 256] by (simp add: drive_sector_def sim_blank_def)
  then show ?thesis
    using init_formats_blank_disk [of "kernel_off\<lparr>k_disk := disk_online\<rparr>" sim_ports id "2 ^ 28"]
      kernel_off_shape sim_blank_ready sim_drive.tolerant_drive_axioms
    by (auto simp: disk_online_def kernel_off_def)
qed

text \<open>
  Starting without a disk gives the default tree: \<open>/progs\<close>, \<open>/home\<close> and \<open>/home/readme.txt\<close> with
  its 70 bytes, current directory \<open>/\<close>, persistence off.
\<close>

theorem init_without_disk:
  assumes "table_shape (nodes k)" "length (current_dir k) = FS_MAX_PATH" "\<not> has_disk (k_disk k)"
  shows "\<exists>k'. fs_init hw k = Some k' \<and> fs_ok k' \<and> fs_view (nodes k') = default_view \<and>
     cstr (current_dir k') = path_of [] \<and> \<not> persistence_enabled k' \<and> \<not> fs_booting k'"
  using fs_init_without_disk [OF assms, of hw] by blast

lemma init_without_disk_witness:
  "\<exists>k'. fs_init sim_ports kernel_off = Some k' \<and> fs_view (nodes k') = default_view"
  using init_without_disk [OF kernel_off_shape, of sim_ports] by blast

end
