(* ===== verification/Disk_Images.thy ===== *)
theory Disk_Images
  imports Fs_Properties
begin

section \<open>Disk images that no system has saved\<close>

text \<open>
  \<open>fs_disk_load\<close> checks magic, version and the three sizes of the header and then takes the bytes of 1068
  sectors for the node table.  Nothing in kernel/filesystem.c checks the table itself.  This theory states
  what start-up does with any bytes under a valid header, and two consequences: a table without any entry
  in use leaves a system on which nothing can be created, and a name without a terminator makes \<open>ls\<close> read
  outside the name's array.
\<close>

subsection \<open>A table without entries\<close>

definition table_empty :: "fs_node list \<Rightarrow> bool" where
  "table_empty ns \<longleftrightarrow> (\<forall>n \<in> set ns. nd_used n = 0)"

lemma find_node_empty: "table_empty ns \<Longrightarrow> find_node ns path = Some (-1)"
proof -
  have "table_empty ns \<Longrightarrow> find_node_loop ns i path = Some (-1)" for i
    by (induction ns arbitrary: i) (simp_all add: table_empty_def)
  then show "table_empty ns \<Longrightarrow> ?thesis" by (simp add: find_node_def)
qed

lemma create_in_empty:
  assumes "table_empty (nodes k)" "terminated (current_dir k)" "arg_ok path" "target k path = Some cs" "cs \<noteq> []"
  shows "create_node t msg hw path k = Some (1, shown ''Parent directory not found'' k)"
proof -
  obtain r where r: "resolve path k = Some r" "terminated r" "cstr r = path_of cs" "length r = 128"
    using resolve_total [OF assms(2-4)] .
  obtain ds c where ds: "cs = ds @ [c]" using assms(5) by (metis rev_exhaust)
  have cs: "parts_ok (ds @ [c])" using target_ok [OF assms(3,4)] ds by simp
  have "find_parent (nodes k) r = Some (-1)"
    by (rule parent_path [OF r(2) r(3) [unfolded ds] cs r(4), of "nodes k"])
      (simp add: find_node_empty [OF assms(1)])
  then show ?thesis using r(1) find_node_empty [OF assms(1)] by (simp add: create_node_def say_eq)
qed

subsection \<open>A name without a terminator\<close>

lemma print_unterminated: "\<not> terminated s \<Longrightarrow> kprint (Some s) k = None"
proof -
  have "\<not> terminated s \<Longrightarrow> io_print_loop s t = None" for t by (induction s arbitrary: t) auto
  then show "\<not> terminated s \<Longrightarrow> ?thesis" by (simp add: kprint_def io_print_def)
qed

lemma list_entry_unterminated: "\<not> terminated (nd_name n) \<Longrightarrow> list_entry n k = None"
  by (simp add: list_entry_def kprint_eq print_unterminated)

lemma list_unterminated:
  "n \<in> set ns \<Longrightarrow> nd_used n \<noteq> 0 \<Longrightarrow> nd_parent n = word_of_int dir \<Longrightarrow> \<not> terminated (nd_name n) \<Longrightarrow>
    list_loop dir ns k = None"
  by (induction ns arbitrary: k) (auto simp: list_entry_unterminated split: bind_splits)

lemma find_root_first: "root_node n \<Longrightarrow> terminated r \<Longrightarrow> cstr r = path_of [] \<Longrightarrow> find_node (n # ns) r = Some 0"
  using str_compare_zero_iff [of "nd_path n" r] by (simp add: find_node_def root_node_def nd_live_def)

subsection \<open>The property\<close>

text \<open>
  C39: Start-up trusts the disk.  Whatever table of the right size a drive holds under a valid header,
  \<open>fs_init\<close> adopts it byte for byte and returns, with the automatic saving on.  When no entry of the table
  is in use (so there is no root either), every path that can be resolved, the root apart, is refused as a
  new file or directory, and the table stays as it is; and when the first entry is a root and an entry of
  it has a name without a terminator, listing \<open>/\<close> reads outside the name's array.
\<close>

theorem image_not_validated:
  assumes "table_shape (nodes k)" "length (current_dir k) = FS_MAX_PATH"
    and "tolerant_drive hw view capacity" "3117 \<le> capacity" "has_disk (k_disk k)" "drive_ready view (k_dev k)"
    and "table_shape ns" "image_at (drive_sector view (k_dev k)) (raw_of_nodes ns)"
  shows "\<exists>k'. fs_init hw k = Some k' \<and> nodes k' = ns \<and> persistence_enabled k' \<and>
     (table_empty ns \<longrightarrow> (\<forall>path cs. arg_ok path \<and> target k' path = Some cs \<and> cs \<noteq> [] \<longrightarrow>
        fs_create_file hw path k' = Some (1, shown ''Parent directory not found'' k') \<and>
        fs_create_dir hw path k' = Some (1, shown ''Parent directory not found'' k'))) \<and>
     (root_node (hd ns) \<and> (\<exists>n \<in> set ns. nd_used n \<noteq> 0 \<and> nd_parent n = 0 \<and> \<not> terminated (nd_name n)) \<longrightarrow>
        fs_list_dir (Some (lit ''/'')) k' = None)"
proof -
  obtain k' where k': "fs_init hw k = Some k'" "nodes k' = ns" "terminated (current_dir k')" "persistence_enabled k'"
    using fs_init_adopts [OF assms] .
  have create: "create_node t msg hw path k' = Some (1, shown ''Parent directory not found'' k')"
    if "table_empty ns" "arg_ok path" "target k' path = Some cs" "cs \<noteq> []" for t msg path cs
    using create_in_empty [OF _ k'(3) that(2-4)] that(1) k'(2) by simp
  have "fs_list_dir (Some (lit ''/'')) k' = None"
    if root: "root_node (hd ns)" and n: "n \<in> set ns" "nd_used n \<noteq> 0" "nd_parent n = 0" "\<not> terminated (nd_name n)" for n
  proof -
    have "target k' (Some (lit ''/'')) = Some []"
      by (rule target_path_of) (simp_all add: comps_ok_def path_of_literals)
    then obtain r where r: "resolve (Some (lit ''/'')) k' = Some r" "terminated r" "cstr r = path_of []"
      using resolve_total [OF k'(3), of "Some (lit ''/'')"] by auto
    obtain m ms where ns: "ns = m # ms" using n(1) by (cases ns) auto
    have "find_node (nodes k') r = Some 0"
      using find_root_first [OF _ r(2,3), of m ms] root ns k'(2) by simp
    moreover have "found_type 0 FS_DIR k' = Some True"
      using root ns k'(2) by (simp add: found_type_def root_node_def)
    ultimately show ?thesis
      using r(1) list_unterminated [OF n(1,2) _ n(4), of 0 k'] n(3) k'(2) by (simp add: fs_list_dir_def)
  qed
  then show ?thesis using k' create unfolding fs_create_file_def fs_create_dir_def by blast
qed

text \<open>
  Two such drives: one holds a table of zeros, the other a root and an entry whose name is 32 times the
  letter a.  On the first a file cannot be created, on the second \<open>/\<close> cannot be listed.
\<close>

definition rotten_table :: "fs_node list" where
  "rotten_table =
     zero_node\<lparr>nd_path := slash # replicate 127 0, nd_name := slash # replicate 31 0, nd_type := FS_DIR,
       nd_parent := -1, nd_used := 1\<rparr> #
     zero_node\<lparr>nd_name := replicate 32 97, nd_type := FS_FILE, nd_used := 1\<rparr> # replicate 126 zero_node"

lemma rotten_table_shape: "table_shape rotten_table"
  by (simp add: table_shape_def rotten_table_def node_shape_def zero_node_def FS_MAX_NAME_def
      FS_MAX_PATH_def FS_MAX_FILE_SIZE_def FS_MAX_FILES_def)

lemma rotten_table_root: "root_node (hd rotten_table)"
proof -
  have "replicate 127 0 = 0 # replicate 126 (0 :: byte)" "replicate 31 0 = 0 # replicate 30 (0 :: byte)"
    by (simp_all add: numeral_eq_Suc)
  then show ?thesis by (simp add: rotten_table_def root_node_def zero_node_def nd_live_def path_of_def)
qed

lemma sim_image:
  assumes "table_shape ns"
  obtains d where "drive_ready id d" "image_at (drive_sector id d) (raw_of_nodes ns)"
  using disk_save_ok [OF sim_drive.tolerant_drive_axioms _ _ _ , of "kernel_off\<lparr>k_disk := disk_online, nodes := ns\<rparr>"]
    assms sim_blank_ready by (auto simp: disk_online_def kernel_off_def)

lemma image_not_validated_witness:
  "\<exists>d e k k'. fs_init sim_ports (kernel_off\<lparr>k_disk := disk_online, k_dev := d\<rparr>) = Some k \<and>
     fs_create_file sim_ports (Some (lit ''/home'')) k = Some (1, shown ''Parent directory not found'' k) \<and>
     fs_init sim_ports (kernel_off\<lparr>k_disk := disk_online, k_dev := e\<rparr>) = Some k' \<and>
     fs_list_dir (Some (lit ''/'')) k' = None"
proof -
  obtain d where d: "drive_ready id d" "image_at (drive_sector id d) (raw_of_nodes zero_table)"
    using sim_image [OF zero_table_shape] .
  obtain e where e: "drive_ready id e" "image_at (drive_sector id e) (raw_of_nodes rotten_table)"
    using sim_image [OF rotten_table_shape] .
  have empty: "table_empty zero_table" by (simp add: table_empty_def zero_table_def zero_node_def)
  have name: "\<exists>n \<in> set rotten_table. nd_used n \<noteq> 0 \<and> nd_parent n = 0 \<and> \<not> terminated (nd_name n)"
    by (simp add: rotten_table_def zero_node_def terminated_def)
  have path: "arg_ok (Some (lit ''/home'')) \<and> target k (Some (lit ''/home'')) = Some [bytes_of ''home''] \<and>
      [bytes_of ''home''] \<noteq> []" for k :: "ata_view kernel"
    using target_literals(2) [of k] by simp
  have "\<exists>k. fs_init sim_ports (kernel_off\<lparr>k_disk := disk_online, k_dev := d\<rparr>) = Some k \<and>
      fs_create_file sim_ports (Some (lit ''/home'')) k = Some (1, shown ''Parent directory not found'' k)"
    using image_not_validated [OF _ _ sim_drive.tolerant_drive_axioms _ _ _ zero_table_shape,
        of "kernel_off\<lparr>k_disk := disk_online, k_dev := d\<rparr>"] d empty kernel_off_shape
    by (simp add: disk_online_def) (metis path)
  moreover have "\<exists>k. fs_init sim_ports (kernel_off\<lparr>k_disk := disk_online, k_dev := e\<rparr>) = Some k \<and>
      fs_list_dir (Some (lit ''/'')) k = None"
    using image_not_validated [OF _ _ sim_drive.tolerant_drive_axioms _ _ _ rotten_table_shape,
        of "kernel_off\<lparr>k_disk := disk_online, k_dev := e\<rparr>"] e name rotten_table_root kernel_off_shape
    by (auto simp: disk_online_def)
  ultimately show ?thesis by blast
qed

end
