(* ===== verification/Kernel_Connector.thy ===== *)
theory Kernel_Connector
  imports Kernel_Fs
begin

section \<open>kernel/kernel_connector.c: the interface between the commands and the kernel\<close>

text \<open>
  The commands under progs/ reach the kernel only through the functions \<open>kc_...\<close>.  Each of them packs
  its arguments into a structure, passes a request number and a \<open>void *\<close> to it to the one dispatcher,
  and casts the \<open>uintptr_t\<close> that comes back.  \<open>kc_args\<close> is the memory behind the \<open>void *\<close>, with one
  constructor for each structure.  The casts of the dispatcher are unchecked: with a structure of another
  type it would read whatever fields lie there.  The functions \<open>kc_...\<close> never do that, and the model
  follows such a call no further (\<open>None\<close>); no theorem says anything of it.  \<open>kc_value\<close> is the \<open>uintptr_t\<close>, a 32-bit word or a pointer to a string of the
  kernel.  The dispatcher gives back the memory behind its argument as well, since some requests
  write to it.
\<close>

datatype kc_request =
    KC_REQ_CLEAR
  | KC_REQ_PRINT
  | KC_REQ_PRINTLN
  | KC_REQ_PRINT_INT
  | KC_REQ_READ_CHAR
  | KC_REQ_STRLEN
  | KC_REQ_STRCPY
  | KC_REQ_STRCAT
  | KC_REQ_STRCMP
  | KC_REQ_FS_CURRENT_DIR
  | KC_REQ_FS_CD
  | KC_REQ_FS_LIST
  | KC_REQ_FS_MKDIR
  | KC_REQ_FS_TOUCH
  | KC_REQ_FS_DELETE
  | KC_REQ_FS_MOVE
  | KC_REQ_FS_COPY
  | KC_REQ_FS_WRITE
  | KC_REQ_FS_READ
  | KC_REQ_FS_EXISTS
  | KC_REQ_FS_DISK_AVAILABLE
  | KC_REQ_FS_DISK_ENABLED
  | KC_REQ_FS_DISK_FORMAT
  | KC_REQ_FS_DISK_SAVE
  | KC_REQ_FS_DISK_LOAD
  | KC_REQ_DISK_STATUS
  | KC_REQ_USERS_ADD
  | KC_REQ_USERS_REMOVE
  | KC_REQ_USERS_LOGIN
  | KC_REQ_USERS_LOGOUT
  | KC_REQ_USERS_CURRENT_NAME
  | KC_REQ_USERS_CURRENT_IS_ADMIN
  | KC_REQ_USERS_COUNT
  | KC_REQ_USERS_GET

text \<open>The dispatcher compares numbers.  The enumeration gives each request its own, so a comparison of numbers
  is one of constructors, and the requests are ordered by them.\<close>

fun kc_number :: "kc_request \<Rightarrow> nat" where
  "kc_number KC_REQ_CLEAR = 0" | "kc_number KC_REQ_PRINT = 1" | "kc_number KC_REQ_PRINTLN = 2"
| "kc_number KC_REQ_PRINT_INT = 3" | "kc_number KC_REQ_READ_CHAR = 4" | "kc_number KC_REQ_STRLEN = 5"
| "kc_number KC_REQ_STRCPY = 6" | "kc_number KC_REQ_STRCAT = 7" | "kc_number KC_REQ_STRCMP = 8"
| "kc_number KC_REQ_FS_CURRENT_DIR = 9" | "kc_number KC_REQ_FS_CD = 10" | "kc_number KC_REQ_FS_LIST = 11"
| "kc_number KC_REQ_FS_MKDIR = 12" | "kc_number KC_REQ_FS_TOUCH = 13" | "kc_number KC_REQ_FS_DELETE = 14"
| "kc_number KC_REQ_FS_MOVE = 15" | "kc_number KC_REQ_FS_COPY = 16" | "kc_number KC_REQ_FS_WRITE = 17"
| "kc_number KC_REQ_FS_READ = 18" | "kc_number KC_REQ_FS_EXISTS = 19" | "kc_number KC_REQ_FS_DISK_AVAILABLE = 20"
| "kc_number KC_REQ_FS_DISK_ENABLED = 21" | "kc_number KC_REQ_FS_DISK_FORMAT = 22" | "kc_number KC_REQ_FS_DISK_SAVE = 23"
| "kc_number KC_REQ_FS_DISK_LOAD = 24" | "kc_number KC_REQ_DISK_STATUS = 25" | "kc_number KC_REQ_USERS_ADD = 26"
| "kc_number KC_REQ_USERS_REMOVE = 27" | "kc_number KC_REQ_USERS_LOGIN = 28" | "kc_number KC_REQ_USERS_LOGOUT = 29"
| "kc_number KC_REQ_USERS_CURRENT_NAME = 30" | "kc_number KC_REQ_USERS_CURRENT_IS_ADMIN = 31"
| "kc_number KC_REQ_USERS_COUNT = 32" | "kc_number KC_REQ_USERS_GET = 33"

lemma kc_number_inj: "kc_number r = kc_number s \<longleftrightarrow> r = s"
  by (cases r; cases s; simp)

instantiation kc_request :: linorder
begin

definition less_eq_kc_request :: "kc_request \<Rightarrow> kc_request \<Rightarrow> bool" where
  "less_eq_kc_request r s \<longleftrightarrow> kc_number r \<le> kc_number s"

definition less_kc_request :: "kc_request \<Rightarrow> kc_request \<Rightarrow> bool" where
  "less_kc_request r s \<longleftrightarrow> kc_number r < kc_number s"

instance
  by standard (auto simp: less_eq_kc_request_def less_kc_request_def kc_number_inj)

end

text \<open>\<open>kc_user_t\<close>: what a command sees of a user.\<close>

record kc_user =
  kcu_name :: cbuf
  kcu_active :: int
  kcu_admin :: int

datatype kc_args =
    No_Args
  | Int_Arg "32 word"
  | Text_Args cptr
  | Str_Args cbuf cptr
  | Cmp_Args cbuf cbuf
  | Path_Args cptr
  | Two_Path_Args cptr cptr
  | Write_Args cptr cbuf "32 word"
  | Read_Args cptr cbuf "32 word"
  | User_Add_Args cptr int
  | User_Get_Args int kc_user

datatype kc_value =
    Value "32 word"
  | Pointer cbuf

subsection \<open>The dispatcher\<close>

text \<open>The casts of \<open>args\<close>.\<close>

fun text_args :: "kc_args \<Rightarrow> cptr option" where
  "text_args (Text_Args text) = Some text"
| "text_args args = None"

fun path_args :: "kc_args \<Rightarrow> cptr option" where
  "path_args (Path_Args path) = Some path"
| "path_args args = None"

fun two_path_args :: "kc_args \<Rightarrow> (cptr \<times> cptr) option" where
  "two_path_args (Two_Path_Args src dest) = Some (src, dest)"
| "two_path_args args = None"

fun str_args :: "kc_args \<Rightarrow> (cbuf \<times> cptr) option" where
  "str_args (Str_Args dest src) = Some (dest, src)"
| "str_args args = None"

text \<open>A \<open>return\<close> of the dispatcher that leaves the argument structure alone.\<close>

definition reply :: "int \<Rightarrow> kc_args \<Rightarrow> 'd kernel \<Rightarrow> (kc_value \<times> kc_args \<times> 'd kernel) option" where
  "reply r args k = Some (Value (word_of_int r), args, k)"

definition reply_bool :: "bool \<Rightarrow> kc_args \<Rightarrow> 'd kernel \<Rightarrow> (kc_value \<times> kc_args \<times> 'd kernel) option" where
  "reply_bool b args k = reply (if b then 1 else 0) args k"

definition reply_str :: "cbuf \<Rightarrow> kc_args \<Rightarrow> 'd kernel \<Rightarrow> (kc_value \<times> kc_args \<times> 'd kernel) option" where
  "reply_str s args k = Some (Pointer s, args, k)"

text \<open>\<open>return f(...);\<close> for an \<open>int\<close> function that changes the state.\<close>

definition reply_of ::
    "kc_args \<Rightarrow> (int \<times> 'd kernel) option \<Rightarrow> (kc_value \<times> kc_args \<times> 'd kernel) option" where
  "reply_of args m = do { (r, k') \<leftarrow> m; reply r args k' }"

text \<open>The same for a function of kernel/users.c.\<close>

definition users_reply ::
    "kc_args \<Rightarrow> 'd kernel \<Rightarrow> (int \<times> users_state) option \<Rightarrow> (kc_value \<times> kc_args \<times> 'd kernel) option" where
  "users_reply args k m = do { (r, s) \<leftarrow> m; reply r args (k\<lparr>k_users := s\<rparr>) }"

definition users_get_request ::
    "kc_args \<Rightarrow> 'd kernel \<Rightarrow> (kc_value \<times> kc_args \<times> 'd kernel) option" where
  "users_get_request args k =
     (case args of
        User_Get_Args index out \<Rightarrow>
          (case users_get index (k_users k) of
             None \<Rightarrow> reply 0 args k
           | Some kernel_user \<Rightarrow> do {
               nm \<leftarrow> str_copy (kcu_name out) (Some (u_name kernel_user));
               reply 1 (User_Get_Args index
                 (out\<lparr>kcu_name := nm, kcu_active := u_active kernel_user, kcu_admin := u_admin kernel_user\<rparr>)) k })
      | _ \<Rightarrow> None)"

definition kernel_connector_request ::
    "'d ports \<Rightarrow> kc_request \<Rightarrow> kc_args \<Rightarrow> 'd kernel \<Rightarrow> (kc_value \<times> kc_args \<times> 'd kernel) option" where
  "kernel_connector_request hw request args k =
     (case request of
        KC_REQ_CLEAR \<Rightarrow> reply 0 args (k\<lparr>k_term := io_clear_screen (k_term k)\<rparr>)
      | KC_REQ_PRINT \<Rightarrow> do { text \<leftarrow> text_args args; k' \<leftarrow> kprint text k; reply 0 args k' }
      | KC_REQ_PRINTLN \<Rightarrow> do { text \<leftarrow> text_args args; k' \<leftarrow> kprintln text k; reply 0 args k' }
      | KC_REQ_PRINT_INT \<Rightarrow>
          (case args of Int_Arg v \<Rightarrow> do { k' \<leftarrow> kprint_int v k; reply 0 args k' } | _ \<Rightarrow> None)
      | KC_REQ_READ_CHAR \<Rightarrow> do {
          (c, keys, t) \<leftarrow> io_read_char (k_keys k) (k_term k);
          reply (sint c) args (k\<lparr>k_keys := keys, k_term := t\<rparr>) }
      | KC_REQ_STRLEN \<Rightarrow> do { text \<leftarrow> text_args args; n \<leftarrow> str_len text; reply (int n) args k }
      | KC_REQ_STRCPY \<Rightarrow> do {
          (dest, src) \<leftarrow> str_args args;
          dest' \<leftarrow> str_copy dest src;
          reply 0 (Str_Args dest' src) k }
      | KC_REQ_STRCAT \<Rightarrow> do {
          (dest, src) \<leftarrow> str_args args;
          dest' \<leftarrow> str_concat dest src;
          reply 0 (Str_Args dest' src) k }
      | KC_REQ_STRCMP \<Rightarrow>
          (case args of Cmp_Args a b \<Rightarrow> do { r \<leftarrow> str_compare a b; reply r args k } | _ \<Rightarrow> None)
      | KC_REQ_FS_CURRENT_DIR \<Rightarrow> reply_str (fs_get_current_dir k) args k
      | KC_REQ_FS_CD \<Rightarrow> do { path \<leftarrow> path_args args; reply_of args (fs_change_dir path k) }
      | KC_REQ_FS_LIST \<Rightarrow> do { path \<leftarrow> path_args args; reply_of args (fs_list_dir path k) }
      | KC_REQ_FS_MKDIR \<Rightarrow> do { path \<leftarrow> path_args args; reply_of args (fs_create_dir hw path k) }
      | KC_REQ_FS_TOUCH \<Rightarrow> do { path \<leftarrow> path_args args; reply_of args (fs_create_file hw path k) }
      | KC_REQ_FS_DELETE \<Rightarrow> do { path \<leftarrow> path_args args; reply_of args (fs_delete hw path k) }
      | KC_REQ_FS_MOVE \<Rightarrow> do { (src, dest) \<leftarrow> two_path_args args; reply_of args (fs_move hw src dest k) }
      | KC_REQ_FS_COPY \<Rightarrow> do { (src, dest) \<leftarrow> two_path_args args; reply_of args (fs_copy hw src dest k) }
      | KC_REQ_FS_WRITE \<Rightarrow>
          (case args of
             Write_Args path data sz \<Rightarrow> reply_of args (fs_write_file hw path data sz k)
           | _ \<Rightarrow> None)
      | KC_REQ_FS_READ \<Rightarrow>
          (case args of
             Read_Args path buffer max_size \<Rightarrow> do {
               (r, buffer') \<leftarrow> fs_read_file path buffer max_size k;
               reply r (Read_Args path buffer' max_size) k }
           | _ \<Rightarrow> None)
      | KC_REQ_FS_EXISTS \<Rightarrow> do { path \<leftarrow> path_args args; b \<leftarrow> fs_exists path k; reply_bool b args k }
      | KC_REQ_FS_DISK_AVAILABLE \<Rightarrow> reply_bool (fs_disk_available k) args k
      | KC_REQ_FS_DISK_ENABLED \<Rightarrow> reply_bool (fs_disk_enabled k) args k
      | KC_REQ_FS_DISK_FORMAT \<Rightarrow> reply_of args (fs_disk_format hw k)
      | KC_REQ_FS_DISK_SAVE \<Rightarrow> reply_of args (fs_disk_save hw k)
      | KC_REQ_FS_DISK_LOAD \<Rightarrow> reply_of args (fs_disk_load hw k)
      | KC_REQ_DISK_STATUS \<Rightarrow> reply_str (disk_status (k_disk k)) args k
      | KC_REQ_USERS_ADD \<Rightarrow>
          (case args of
             User_Add_Args name admin \<Rightarrow> users_reply args k (users_add name admin (k_users k))
           | _ \<Rightarrow> None)
      | KC_REQ_USERS_REMOVE \<Rightarrow> do {
          text \<leftarrow> text_args args; name \<leftarrow> text; users_reply args k (users_remove name (k_users k)) }
      | KC_REQ_USERS_LOGIN \<Rightarrow> do {
          text \<leftarrow> text_args args; name \<leftarrow> text; users_reply args k (users_login name (k_users k)) }
      | KC_REQ_USERS_LOGOUT \<Rightarrow> users_reply args k (Some (users_logout (k_users k)))
      | KC_REQ_USERS_CURRENT_NAME \<Rightarrow> do { nm \<leftarrow> users_current_name (k_users k); reply_str nm args k }
      | KC_REQ_USERS_CURRENT_IS_ADMIN \<Rightarrow> do {
          a \<leftarrow> users_current_is_admin (k_users k); reply a args k }
      | KC_REQ_USERS_COUNT \<Rightarrow> reply (users_count (k_users k)) args k
      | KC_REQ_USERS_GET \<Rightarrow> users_get_request args k)"

subsection \<open>The functions the commands call\<close>

text \<open>The casts of the result.\<close>

fun int_of_value :: "kc_value \<Rightarrow> int option" where
  "int_of_value (Value w) = Some (sint w)"
| "int_of_value (Pointer s) = None"

fun string_of_value :: "kc_value \<Rightarrow> cbuf option" where
  "string_of_value (Pointer s) = Some s"
| "string_of_value (Value w) = None"

text \<open>The three shapes of a wrapper: the result is dropped, cast to \<open>int\<close>, or cast to a string.\<close>

definition kc_void :: "'d ports \<Rightarrow> kc_request \<Rightarrow> kc_args \<Rightarrow> 'd kernel \<Rightarrow> 'd kernel option" where
  "kc_void hw request args k =
     do { (_, _, k') \<leftarrow> kernel_connector_request hw request args k; Some k' }"

definition kc_int :: "'d ports \<Rightarrow> kc_request \<Rightarrow> kc_args \<Rightarrow> 'd kernel \<Rightarrow> (int \<times> 'd kernel) option" where
  "kc_int hw request args k = do {
     (v, _, k') \<leftarrow> kernel_connector_request hw request args k;
     r \<leftarrow> int_of_value v;
     Some (r, k') }"

definition kc_string :: "'d ports \<Rightarrow> kc_request \<Rightarrow> kc_args \<Rightarrow> 'd kernel \<Rightarrow> (cbuf \<times> 'd kernel) option" where
  "kc_string hw request args k = do {
     (v, _, k') \<leftarrow> kernel_connector_request hw request args k;
     s \<leftarrow> string_of_value v;
     Some (s, k') }"

definition kc_clear :: "'d ports \<Rightarrow> 'd kernel \<Rightarrow> 'd kernel option" where
  "kc_clear hw k = kc_void hw KC_REQ_CLEAR No_Args k"

definition kc_print :: "'d ports \<Rightarrow> cptr \<Rightarrow> 'd kernel \<Rightarrow> 'd kernel option" where
  "kc_print hw text k = kc_void hw KC_REQ_PRINT (Text_Args text) k"

definition kc_println :: "'d ports \<Rightarrow> cptr \<Rightarrow> 'd kernel \<Rightarrow> 'd kernel option" where
  "kc_println hw text k = kc_void hw KC_REQ_PRINTLN (Text_Args text) k"

definition kc_print_int :: "'d ports \<Rightarrow> 32 word \<Rightarrow> 'd kernel \<Rightarrow> 'd kernel option" where
  "kc_print_int hw value k = kc_void hw KC_REQ_PRINT_INT (Int_Arg value) k"

definition kc_read_char :: "'d ports \<Rightarrow> 'd kernel \<Rightarrow> (byte \<times> 'd kernel) option" where
  "kc_read_char hw k = do { (r, k') \<leftarrow> kc_int hw KC_REQ_READ_CHAR No_Args k; Some (word_of_int r, k') }"

definition kc_strlen :: "'d ports \<Rightarrow> cptr \<Rightarrow> 'd kernel \<Rightarrow> (32 word \<times> 'd kernel) option" where
  "kc_strlen hw text k = do {
     (r, k') \<leftarrow> kc_int hw KC_REQ_STRLEN (Text_Args text) k; Some (word_of_int r, k') }"

definition kc_strcpy :: "'d ports \<Rightarrow> cbuf \<Rightarrow> cptr \<Rightarrow> 'd kernel \<Rightarrow> (cbuf \<times> 'd kernel) option" where
  "kc_strcpy hw dest src k = do {
     (_, args, k') \<leftarrow> kernel_connector_request hw KC_REQ_STRCPY (Str_Args dest src) k;
     (dest', _) \<leftarrow> str_args args;
     Some (dest', k') }"

definition kc_strcat :: "'d ports \<Rightarrow> cbuf \<Rightarrow> cptr \<Rightarrow> 'd kernel \<Rightarrow> (cbuf \<times> 'd kernel) option" where
  "kc_strcat hw dest src k = do {
     (_, args, k') \<leftarrow> kernel_connector_request hw KC_REQ_STRCAT (Str_Args dest src) k;
     (dest', _) \<leftarrow> str_args args;
     Some (dest', k') }"

definition kc_strcmp :: "'d ports \<Rightarrow> cbuf \<Rightarrow> cbuf \<Rightarrow> 'd kernel \<Rightarrow> (int \<times> 'd kernel) option" where
  "kc_strcmp hw a b k = kc_int hw KC_REQ_STRCMP (Cmp_Args a b) k"

definition kc_fs_current_dir :: "'d ports \<Rightarrow> 'd kernel \<Rightarrow> (cbuf \<times> 'd kernel) option" where
  "kc_fs_current_dir hw k = kc_string hw KC_REQ_FS_CURRENT_DIR No_Args k"

definition kc_fs_cd :: "'d ports \<Rightarrow> cptr \<Rightarrow> 'd kernel \<Rightarrow> (int \<times> 'd kernel) option" where
  "kc_fs_cd hw path k = kc_int hw KC_REQ_FS_CD (Path_Args path) k"

definition kc_fs_list :: "'d ports \<Rightarrow> cptr \<Rightarrow> 'd kernel \<Rightarrow> (int \<times> 'd kernel) option" where
  "kc_fs_list hw path k = kc_int hw KC_REQ_FS_LIST (Path_Args path) k"

definition kc_fs_mkdir :: "'d ports \<Rightarrow> cptr \<Rightarrow> 'd kernel \<Rightarrow> (int \<times> 'd kernel) option" where
  "kc_fs_mkdir hw path k = kc_int hw KC_REQ_FS_MKDIR (Path_Args path) k"

definition kc_fs_touch :: "'d ports \<Rightarrow> cptr \<Rightarrow> 'd kernel \<Rightarrow> (int \<times> 'd kernel) option" where
  "kc_fs_touch hw path k = kc_int hw KC_REQ_FS_TOUCH (Path_Args path) k"

definition kc_fs_delete :: "'d ports \<Rightarrow> cptr \<Rightarrow> 'd kernel \<Rightarrow> (int \<times> 'd kernel) option" where
  "kc_fs_delete hw path k = kc_int hw KC_REQ_FS_DELETE (Path_Args path) k"

definition kc_fs_move :: "'d ports \<Rightarrow> cptr \<Rightarrow> cptr \<Rightarrow> 'd kernel \<Rightarrow> (int \<times> 'd kernel) option" where
  "kc_fs_move hw src dest k = kc_int hw KC_REQ_FS_MOVE (Two_Path_Args src dest) k"

definition kc_fs_copy :: "'d ports \<Rightarrow> cptr \<Rightarrow> cptr \<Rightarrow> 'd kernel \<Rightarrow> (int \<times> 'd kernel) option" where
  "kc_fs_copy hw src dest k = kc_int hw KC_REQ_FS_COPY (Two_Path_Args src dest) k"

definition kc_fs_write ::
    "'d ports \<Rightarrow> cptr \<Rightarrow> cbuf \<Rightarrow> 32 word \<Rightarrow> 'd kernel \<Rightarrow> (int \<times> 'd kernel) option" where
  "kc_fs_write hw path data sz k = kc_int hw KC_REQ_FS_WRITE (Write_Args path data sz) k"

definition kc_fs_read ::
    "'d ports \<Rightarrow> cptr \<Rightarrow> cbuf \<Rightarrow> 32 word \<Rightarrow> 'd kernel \<Rightarrow> (int \<times> cbuf \<times> 'd kernel) option" where
  "kc_fs_read hw path buffer max_size k = do {
     (v, args, k') \<leftarrow> kernel_connector_request hw KC_REQ_FS_READ (Read_Args path buffer max_size) k;
     r \<leftarrow> int_of_value v;
     (case args of Read_Args _ buffer' _ \<Rightarrow> Some (r, buffer', k') | _ \<Rightarrow> None) }"

definition kc_fs_exists :: "'d ports \<Rightarrow> cptr \<Rightarrow> 'd kernel \<Rightarrow> (int \<times> 'd kernel) option" where
  "kc_fs_exists hw path k = kc_int hw KC_REQ_FS_EXISTS (Path_Args path) k"

definition kc_fs_disk_available :: "'d ports \<Rightarrow> 'd kernel \<Rightarrow> (int \<times> 'd kernel) option" where
  "kc_fs_disk_available hw k = kc_int hw KC_REQ_FS_DISK_AVAILABLE No_Args k"

definition kc_fs_disk_enabled :: "'d ports \<Rightarrow> 'd kernel \<Rightarrow> (int \<times> 'd kernel) option" where
  "kc_fs_disk_enabled hw k = kc_int hw KC_REQ_FS_DISK_ENABLED No_Args k"

definition kc_fs_disk_format :: "'d ports \<Rightarrow> 'd kernel \<Rightarrow> (int \<times> 'd kernel) option" where
  "kc_fs_disk_format hw k = kc_int hw KC_REQ_FS_DISK_FORMAT No_Args k"

definition kc_fs_disk_save :: "'d ports \<Rightarrow> 'd kernel \<Rightarrow> (int \<times> 'd kernel) option" where
  "kc_fs_disk_save hw k = kc_int hw KC_REQ_FS_DISK_SAVE No_Args k"

definition kc_fs_disk_load :: "'d ports \<Rightarrow> 'd kernel \<Rightarrow> (int \<times> 'd kernel) option" where
  "kc_fs_disk_load hw k = kc_int hw KC_REQ_FS_DISK_LOAD No_Args k"

definition kc_disk_status :: "'d ports \<Rightarrow> 'd kernel \<Rightarrow> (cbuf \<times> 'd kernel) option" where
  "kc_disk_status hw k = kc_string hw KC_REQ_DISK_STATUS No_Args k"

definition kc_users_add :: "'d ports \<Rightarrow> cptr \<Rightarrow> int \<Rightarrow> 'd kernel \<Rightarrow> (int \<times> 'd kernel) option" where
  "kc_users_add hw name admin k = kc_int hw KC_REQ_USERS_ADD (User_Add_Args name admin) k"

definition kc_users_remove :: "'d ports \<Rightarrow> cptr \<Rightarrow> 'd kernel \<Rightarrow> (int \<times> 'd kernel) option" where
  "kc_users_remove hw name k = kc_int hw KC_REQ_USERS_REMOVE (Text_Args name) k"

definition kc_users_login :: "'d ports \<Rightarrow> cptr \<Rightarrow> 'd kernel \<Rightarrow> (int \<times> 'd kernel) option" where
  "kc_users_login hw name k = kc_int hw KC_REQ_USERS_LOGIN (Text_Args name) k"

definition kc_users_logout :: "'d ports \<Rightarrow> 'd kernel \<Rightarrow> (int \<times> 'd kernel) option" where
  "kc_users_logout hw k = kc_int hw KC_REQ_USERS_LOGOUT No_Args k"

definition kc_users_current_name :: "'d ports \<Rightarrow> 'd kernel \<Rightarrow> (cbuf \<times> 'd kernel) option" where
  "kc_users_current_name hw k = kc_string hw KC_REQ_USERS_CURRENT_NAME No_Args k"

definition kc_users_current_is_admin :: "'d ports \<Rightarrow> 'd kernel \<Rightarrow> (int \<times> 'd kernel) option" where
  "kc_users_current_is_admin hw k = kc_int hw KC_REQ_USERS_CURRENT_IS_ADMIN No_Args k"

definition kc_users_count :: "'d ports \<Rightarrow> 'd kernel \<Rightarrow> (int \<times> 'd kernel) option" where
  "kc_users_count hw k = kc_int hw KC_REQ_USERS_COUNT No_Args k"

definition kc_users_get ::
    "'d ports \<Rightarrow> int \<Rightarrow> kc_user \<Rightarrow> 'd kernel \<Rightarrow> (int \<times> kc_user \<times> 'd kernel) option" where
  "kc_users_get hw index out k = do {
     (v, args, k') \<leftarrow> kernel_connector_request hw KC_REQ_USERS_GET (User_Get_Args index out) k;
     r \<leftarrow> int_of_value v;
     (case args of User_Get_Args _ out' \<Rightarrow> Some (r, out', k') | _ \<Rightarrow> None) }"

subsection \<open>The functions are the kernel's\<close>

text \<open>The results of the kernel's functions are small, so that they survive the way through an unsigned
  32-bit word.\<close>

definition c_int :: "int \<Rightarrow> bool" where
  "c_int r \<longleftrightarrow> - (2 ^ 31) \<le> r \<and> r < 2 ^ 31"

lemma sint_word_of_int: "c_int r \<Longrightarrow> sint (word_of_int r :: 32 word) = r"
  unfolding sint_sbintrunc' by (rule signed_take_bit_int_eq_self) (simp_all add: c_int_def)

lemma c_int_bit [simp]: "c_int 0" "c_int 1" "c_int 2" "c_int 3" "c_int (- 1)"
  by (simp_all add: c_int_def)

lemma c_int_sint [simp]: "c_int (sint (w :: 32 word))"
  using sint_ge [of w] sint_lt [of w] by (simp add: c_int_def)

definition small :: "(int \<times> 'a) option \<Rightarrow> bool" where
  "small m \<longleftrightarrow> (\<forall>r x. m = Some (r, x) \<longrightarrow> c_int r)"

lemma small_simps [simp]: "small None" "small (Some (r, x)) \<longleftrightarrow> c_int r"
  by (simp_all add: small_def)

lemma small_bind [intro]: "(\<And>x. m = Some x \<Longrightarrow> small (f x)) \<Longrightarrow> small (Option.bind m f)"
  by (cases m) simp_all

lemma small_say [simp]: "c_int r \<Longrightarrow> small (say msg r k)"
  by (auto simp: small_def say_def)

lemma small_ops:
  "small (fs_change_dir path k)" "small (fs_list_dir path k)" "small (create_node t msg hw path k)"
  "small (fs_delete hw path k)" "small (fs_move hw src dest k)" "small (fs_write_file hw path data sz k)"
  "small (fs_read_file path buffer sz k)" 
  "small (fs_disk_save hw k)" "small (fs_disk_load hw k)"
  unfolding fs_change_dir_def fs_list_dir_def create_node_def fs_delete_def fs_move_def fs_write_file_def
    fs_read_file_def fs_disk_save_def fs_disk_load_def Let_def
  by (auto intro!: small_bind split: prod.split)


lemma small_more:
  "small (fs_create_file hw path k)" "small (fs_create_dir hw path k)" "small (fs_copy hw src dest k)"
  "small (fs_disk_format hw k)"
  unfolding fs_create_file_def fs_create_dir_def fs_copy_def fs_disk_format_def
  using small_ops by (auto intro!: small_bind split: prod.split)

lemma small_users_add_loop: "small (users_add_loop us name admin)"
  by (induction us) (auto intro!: small_bind simp: small_def bind_Some_iff split: if_splits)

lemmas small_users_add_loopD = small_users_add_loop [unfolded small_def, rule_format]

lemma small_users:
  "small (users_add name admin s)" "small (users_remove nm s)" "small (users_login nm s)"
  unfolding users_add_def users_remove_def users_login_def
  by (auto intro!: small_bind small_users_add_loopD split: prod.split option.split)

lemma str_compare_c_int: "str_compare a b = Some r \<Longrightarrow> c_int r"
proof (induction a b rule: str_compare.induct)
  case (1 a as b bs)
  have "- (2 ^ 8) < uint a - uint b" "uint a - uint b < 2 ^ 8"
    using unsigned_less [of a, where ?'a = int] unsigned_less [of b, where ?'a = int]
      uint_ge_0 [of a] uint_ge_0 [of b] unfolding len_of_numeral_defs by (simp_all, linarith+)
  then have "c_int (uint a - uint b)" by (simp add: c_int_def)
  then show ?case using 1 by (auto split: if_splits)
qed simp_all

lemma kc_int_reply_of:
  assumes "kernel_connector_request hw request args k = reply_of args' m" "small m"
  shows "kc_int hw request args k = m"
  using assms by (cases m) (auto simp: kc_int_def reply_of_def reply_def sint_word_of_int small_def)

lemma kc_int_users_reply:
  assumes "kernel_connector_request hw request args k = users_reply args' k m" "small m"
  shows "kc_int hw request args k = map_option (\<lambda>(r, s). (r, k\<lparr>k_users := s\<rparr>)) m"
  using assms by (cases m) (auto simp: kc_int_def users_reply_def reply_def sint_word_of_int small_def)

lemmas request = kernel_connector_request_def

lemma kc_terminal:
  "kc_clear hw k = Some (k\<lparr>k_term := io_clear_screen (k_term k)\<rparr>)"
  "kc_print hw text k = kprint text k"
  "kc_println hw text k = kprintln text k"
  "kc_print_int hw v k = kprint_int v k"
  by (simp_all add: kc_clear_def kc_print_def kc_println_def kc_print_int_def kc_void_def request reply_def)

lemma kc_read_char_eq:
  "kc_read_char hw k = map_option (\<lambda>(c, keys, t). (c, k\<lparr>k_keys := keys, k_term := t\<rparr>))
     (io_read_char (k_keys k) (k_term k))"
proof -
  have "scast (scast c :: 32 word) = c" for c :: byte
    by (rule scast_up_scast_id) (simp add: is_up)
  then show ?thesis
    by (cases "io_read_char (k_keys k) (k_term k)")
      (auto simp: kc_read_char_def kc_int_def request reply_def sint_word_of_int)
qed

lemma kc_strings:
  "kc_strlen hw text k = map_option (\<lambda>n. (of_nat n, k)) (str_len text)"
  "kc_strcpy hw dest src k = map_option (\<lambda>d. (d, k)) (str_copy dest src)"
  "kc_strcat hw dest src k = map_option (\<lambda>d. (d, k)) (str_concat dest src)"
  "kc_strcmp hw a b k = map_option (\<lambda>r. (r, k)) (str_compare a b)"
proof -
  show "kc_strlen hw text k = map_option (\<lambda>n. (of_nat n, k)) (str_len text)"
    by (cases "str_len text") (simp_all add: kc_strlen_def kc_int_def request reply_def)
  show "kc_strcpy hw dest src k = map_option (\<lambda>d. (d, k)) (str_copy dest src)"
    by (cases "str_copy dest src") (simp_all add: kc_strcpy_def request reply_def)
  show "kc_strcat hw dest src k = map_option (\<lambda>d. (d, k)) (str_concat dest src)"
    by (cases "str_concat dest src") (simp_all add: kc_strcat_def request reply_def)
  show "kc_strcmp hw a b k = map_option (\<lambda>r. (r, k)) (str_compare a b)"
    using str_compare_c_int [of a b]
    by (cases "str_compare a b") (simp_all add: kc_strcmp_def kc_int_def request reply_def sint_word_of_int)
qed

lemma kc_fs:
  "kc_fs_current_dir hw k = Some (current_dir k, k)"
  "kc_fs_cd hw path k = fs_change_dir path k"
  "kc_fs_list hw path k = fs_list_dir path k"
  "kc_fs_mkdir hw path k = fs_create_dir hw path k"
  "kc_fs_touch hw path k = fs_create_file hw path k"
  "kc_fs_delete hw path k = fs_delete hw path k"
  "kc_fs_move hw src dest k = fs_move hw src dest k"
  "kc_fs_copy hw src dest k = fs_copy hw src dest k"
  "kc_fs_write hw path data sz k = fs_write_file hw path data sz k"
  unfolding kc_fs_current_dir_def kc_fs_cd_def kc_fs_list_def kc_fs_mkdir_def kc_fs_touch_def kc_fs_delete_def
    kc_fs_move_def kc_fs_copy_def kc_fs_write_def
  by (simp add: kc_string_def request reply_str_def fs_get_current_dir_def,
    (rule kc_int_reply_of, simp add: request, simp add: small_ops small_more)+)


lemma kc_fs_read_eq:
  "kc_fs_read hw path buffer sz k = map_option (\<lambda>(r, b). (r, b, k)) (fs_read_file path buffer sz k)"
  using small_ops(7) [of path buffer sz k]
  by (cases "fs_read_file path buffer sz k")
    (auto simp: kc_fs_read_def request reply_def sint_word_of_int small_def)

lemma kc_fs_exists_eq:
  "kc_fs_exists hw path k = map_option (\<lambda>b. (if b then 1 else 0, k)) (fs_exists path k)"
  by (cases "fs_exists path k")
    (simp_all add: kc_fs_exists_def kc_int_def request reply_bool_def reply_def)

lemma kc_disk:
  "kc_fs_disk_available hw k = Some (if fs_disk_available k then 1 else 0, k)"
  "kc_fs_disk_enabled hw k = Some (if fs_disk_enabled k then 1 else 0, k)"
  "kc_fs_disk_format hw k = fs_disk_format hw k"
  "kc_fs_disk_save hw k = fs_disk_save hw k"
  "kc_fs_disk_load hw k = fs_disk_load hw k"
  "kc_disk_status hw k = Some (disk_status (k_disk k), k)"
proof -
  show "kc_fs_disk_available hw k = Some (if fs_disk_available k then 1 else 0, k)"
    "kc_fs_disk_enabled hw k = Some (if fs_disk_enabled k then 1 else 0, k)"
    "kc_disk_status hw k = Some (disk_status (k_disk k), k)"
    by (simp_all add: kc_fs_disk_available_def kc_fs_disk_enabled_def kc_disk_status_def kc_int_def kc_string_def
        request reply_bool_def reply_def reply_str_def)
  show "kc_fs_disk_format hw k = fs_disk_format hw k" "kc_fs_disk_save hw k = fs_disk_save hw k"
    "kc_fs_disk_load hw k = fs_disk_load hw k"
    unfolding kc_fs_disk_format_def kc_fs_disk_save_def kc_fs_disk_load_def
    by (rule kc_int_reply_of, simp add: request, simp add: small_ops small_more)+
qed

lemma kc_users_change:
  "kc_users_add hw name admin k =
     map_option (\<lambda>(r, s). (r, k\<lparr>k_users := s\<rparr>)) (users_add name admin (k_users k))"
  "kc_users_remove hw (Some nm) k =
     map_option (\<lambda>(r, s). (r, k\<lparr>k_users := s\<rparr>)) (users_remove nm (k_users k))"
  "kc_users_login hw (Some nm) k =
     map_option (\<lambda>(r, s). (r, k\<lparr>k_users := s\<rparr>)) (users_login nm (k_users k))"
  "kc_users_logout hw k = Some (0, k\<lparr>k_users := snd (users_logout (k_users k))\<rparr>)"
proof -
  show "kc_users_add hw name admin k =
      map_option (\<lambda>(r, s). (r, k\<lparr>k_users := s\<rparr>)) (users_add name admin (k_users k))"
    "kc_users_remove hw (Some nm) k =
      map_option (\<lambda>(r, s). (r, k\<lparr>k_users := s\<rparr>)) (users_remove nm (k_users k))"
    "kc_users_login hw (Some nm) k =
      map_option (\<lambda>(r, s). (r, k\<lparr>k_users := s\<rparr>)) (users_login nm (k_users k))"
    unfolding kc_users_add_def kc_users_remove_def kc_users_login_def
    by (rule kc_int_users_reply, simp add: request, simp add: small_users)+
  show "kc_users_logout hw k = Some (0, k\<lparr>k_users := snd (users_logout (k_users k))\<rparr>)"
    by (simp add: kc_users_logout_def kc_int_def request users_reply_def users_logout_def reply_def)
qed

lemma users_count_bound: "0 \<le> users_count s \<and> users_count s \<le> int (length (users s))"
proof -
  have "c \<le> users_count_loop us c \<and> users_count_loop us c \<le> c + int (length us)" for us c
  proof (induction us arbitrary: c)
    case (Cons u us)
    show ?case using Cons [of c] Cons [of "c + 1"] by (cases "u_active u = 0") simp_all
  qed simp
  from this [of 0 "users s"] show ?thesis by (simp add: users_count_def)
qed

lemma kc_users_ask:
  assumes "users_wf (k_users k)"
  shows "kc_users_current_name hw k = map_option (\<lambda>nm. (nm, k)) (users_current_name (k_users k))"
    and "kc_users_current_is_admin hw k = map_option (\<lambda>a. (a, k)) (users_current_is_admin (k_users k))"
    and "kc_users_count hw k = Some (users_count (k_users k), k)"
proof -
  show "kc_users_current_name hw k = map_option (\<lambda>nm. (nm, k)) (users_current_name (k_users k))"
    by (cases "users_current_name (k_users k)")
      (simp_all add: kc_users_current_name_def kc_string_def request reply_str_def)
  have "c_int a" if "users_current_is_admin (k_users k) = Some a" for a
  proof -
    have "user_ok (users (k_users k) ! current_user (k_users k))"
      using assms nth_mem [of "current_user (k_users k)" "users (k_users k)"] by (simp add: users_wf_def)
    then show ?thesis
      using that by (auto simp: users_current_is_admin_def user_ok_def rd_def split: if_splits)
  qed
  then show "kc_users_current_is_admin hw k = map_option (\<lambda>a. (a, k)) (users_current_is_admin (k_users k))"
    by (cases "users_current_is_admin (k_users k)")
      (simp_all add: kc_users_current_is_admin_def kc_int_def request reply_def sint_word_of_int)
  have "c_int (users_count (k_users k))"
    using users_count_bound [of "k_users k"] assms by (simp add: users_wf_def USER_MAX_COUNT_def c_int_def)
  then show "kc_users_count hw k = Some (users_count (k_users k), k)"
    by (simp add: kc_users_count_def kc_int_def request reply_def sint_word_of_int)
qed

lemma kc_users_get_eq:
  "kc_users_get hw i out k =
     (case users_get i (k_users k) of
        None \<Rightarrow> Some (0, out, k)
      | Some u \<Rightarrow> map_option
          (\<lambda>nm. (1, out\<lparr>kcu_name := nm, kcu_active := u_active u, kcu_admin := u_admin u\<rparr>, k))
          (str_copy (kcu_name out) (Some (u_name u))))"
proof (cases "users_get i (k_users k)")
  case None
  then show ?thesis by (simp add: kc_users_get_def request users_get_request_def reply_def)
next
  case (Some u)
  then show ?thesis
    by (cases "str_copy (kcu_name out) (Some (u_name u))")
      (simp_all add: kc_users_get_def request users_get_request_def reply_def)
qed

text \<open>The bundle with which the commands are unfolded to the kernel's functions.\<close>

lemma kc_users_null: "kc_users_remove hw None k = None" "kc_users_login hw None k = None"
  by (simp_all add: kc_users_remove_def kc_users_login_def kc_int_def request)

lemma kc_user_written:
  "out\<lparr>kcu_name := nm, kcu_active := a, kcu_admin := b\<rparr> = \<lparr>kcu_name = nm, kcu_active = a, kcu_admin = b\<rparr>"
  by (cases out) simp

lemmas kc_eqs = kc_terminal kc_strings kc_fs kc_fs_read_eq kc_fs_exists_eq kc_disk kc_users_change
  kc_users_get_eq

text \<open>
  C12: The connector is transparent.  Packing the arguments, dispatching on the request number and
  casting the result back through an unsigned 32-bit word loses nothing: every function a command
  calls does what the kernel function of the request does, with the same result, the same state
  and the same memory written, and is undefined exactly when that is.  \<open>kc_users_get\<close> copies the name, the
  active and the admin flag of the user into the caller's structure and answers 1, or answers 0 and leaves
  the structure alone.  (The answers about the accounts are integers of the table, so they fit the 32 bits
  when the table is well-formed; \<open>users_remove\<close> and \<open>users_login\<close> compare a \<open>NULL\<close> name with that of
  \<open>root\<close>, which reads through \<open>NULL\<close>.)
\<close>

theorem connector_transparent:
  "kc_clear hw k = Some (k\<lparr>k_term := io_clear_screen (k_term k)\<rparr>) \<and>
   kc_print hw text k = kprint text k \<and> kc_println hw text k = kprintln text k \<and>
   kc_print_int hw v k = kprint_int v k \<and>
   kc_read_char hw k = map_option (\<lambda>(c, keys, t). (c, k\<lparr>k_keys := keys, k_term := t\<rparr>))
     (io_read_char (k_keys k) (k_term k)) \<and>
   kc_strlen hw text k = map_option (\<lambda>n. (of_nat n, k)) (str_len text) \<and>
   kc_strcpy hw dest src k = map_option (\<lambda>d. (d, k)) (str_copy dest src) \<and>
   kc_strcat hw dest src k = map_option (\<lambda>d. (d, k)) (str_concat dest src) \<and>
   kc_strcmp hw a b k = map_option (\<lambda>r. (r, k)) (str_compare a b) \<and>
   kc_fs_current_dir hw k = Some (fs_get_current_dir k, k) \<and>
   kc_fs_cd hw path k = fs_change_dir path k \<and> kc_fs_list hw path k = fs_list_dir path k \<and>
   kc_fs_mkdir hw path k = fs_create_dir hw path k \<and> kc_fs_touch hw path k = fs_create_file hw path k \<and>
   kc_fs_delete hw path k = fs_delete hw path k \<and>
   kc_fs_move hw path path2 k = fs_move hw path path2 k \<and>
   kc_fs_copy hw path path2 k = fs_copy hw path path2 k \<and>
   kc_fs_write hw path data sz k = fs_write_file hw path data sz k \<and>
   kc_fs_read hw path data sz k = map_option (\<lambda>(r, b). (r, b, k)) (fs_read_file path data sz k) \<and>
   kc_fs_exists hw path k = map_option (\<lambda>e. (if e then 1 else 0, k)) (fs_exists path k) \<and>
   kc_fs_disk_available hw k = Some (if fs_disk_available k then 1 else 0, k) \<and>
   kc_fs_disk_enabled hw k = Some (if fs_disk_enabled k then 1 else 0, k) \<and>
   kc_fs_disk_format hw k = fs_disk_format hw k \<and>
   kc_fs_disk_save hw k = fs_disk_save hw k \<and> kc_fs_disk_load hw k = fs_disk_load hw k \<and>
   kc_disk_status hw k = Some (disk_status (k_disk k), k) \<and>
   kc_users_add hw text adm k =
     map_option (\<lambda>(r, s). (r, k\<lparr>k_users := s\<rparr>)) (users_add text adm (k_users k)) \<and>
   kc_users_remove hw (Some a) k =
     map_option (\<lambda>(r, s). (r, k\<lparr>k_users := s\<rparr>)) (users_remove a (k_users k)) \<and>
   kc_users_login hw (Some a) k =
     map_option (\<lambda>(r, s). (r, k\<lparr>k_users := s\<rparr>)) (users_login a (k_users k)) \<and>
   kc_users_logout hw k = Some (0, k\<lparr>k_users := snd (users_logout (k_users k))\<rparr>) \<and>
   (users_wf (k_users k) \<longrightarrow>
      kc_users_current_name hw k = map_option (\<lambda>nm. (nm, k)) (users_current_name (k_users k)) \<and>
      kc_users_current_is_admin hw k = map_option (\<lambda>a. (a, k)) (users_current_is_admin (k_users k)) \<and>
      kc_users_count hw k = Some (users_count (k_users k), k) \<and>
      kc_users_remove hw None k = None \<and> kc_users_login hw None k = None) \<and>
   kc_users_get hw i out k =
     (case users_get i (k_users k) of
        None \<Rightarrow> Some (0, out, k)
      | Some u \<Rightarrow> map_option (\<lambda>nm. (1, \<lparr>kcu_name = nm, kcu_active = u_active u, kcu_admin = u_admin u\<rparr>, k))
          (str_copy (kcu_name out) (Some (u_name u))))"
  unfolding kc_user_written [where out = out, symmetric]
  by (intro conjI impI kc_terminal kc_read_char_eq kc_strings kc_fs(1) [folded fs_get_current_dir_def] kc_fs(2-) kc_fs_read_eq
      kc_fs_exists_eq kc_disk kc_users_change kc_users_ask
      kc_users_null kc_users_get_eq)

end
