(* ===== verification/Kernel_Programs.thy ===== *)
theory Kernel_Programs
  imports Kernel_Connector
begin

section \<open>progs: the commands\<close>

text \<open>
  Every command is a function of \<open>argc\<close> and \<open>argv\<close> on the kernel's state; \<open>argv\<close> is the list of the
  strings the pointers point to and \<open>argc\<close> its length.  The commands call only the functions of
  the connector.  \<open>prog_desktop\<close> calls \<open>desktop_run\<close>, whose source is not in the repository: it is
  an argument of the functions that can reach it.  The function pointers of the command table are
  the constructors of \<open>prog_main\<close>.
\<close>

type_synonym 'd command = "cbuf list \<Rightarrow> 'd kernel \<Rightarrow> (int \<times> 'd kernel) option"

text \<open>\<open>kc_println(msg); return r;\<close>\<close>

definition kc_say :: "'d ports \<Rightarrow> string \<Rightarrow> int \<Rightarrow> 'd kernel \<Rightarrow> (int \<times> 'd kernel) option" where
  "kc_say hw msg r k = do { k' \<leftarrow> kc_println hw (Some (lit msg)) k; Some (r, k') }"

definition kc_put :: "'d ports \<Rightarrow> string \<Rightarrow> 'd kernel \<Rightarrow> 'd kernel option" where
  "kc_put hw msg k = kc_print hw (Some (lit msg)) k"

subsection \<open>Files and directories\<close>

definition prog_cat :: "'d ports \<Rightarrow> 'd command" where
  "prog_cat hw argv k =
     (if length argv < 2 then kc_say hw ''Usage: cat <file>'' 1 k
      else do {
        a1 \<leftarrow> rd argv 1;
        (read, buffer, k1) \<leftarrow> kc_fs_read hw (Some a1) (fresh 4097) 4096 k;
        (if read < 0 then kc_say hw ''File not found'' 1 k1
         else do {
           buffer1 \<leftarrow> wr buffer (nat read) 0;
           k2 \<leftarrow> kc_print hw (Some buffer1) k1;
           newline \<leftarrow> (if read = 0 then Some True
                       else do { c \<leftarrow> rd buffer1 (nat read - 1); Some (c \<noteq> 0x0A) });
           (if newline then kc_say hw [] 0 k2 else Some (0, k2)) }) })"

definition prog_cd :: "'d ports \<Rightarrow> 'd command" where
  "prog_cd hw argv k =
     (if length argv < 2 then kc_fs_cd hw (Some (lit ''/'')) k
      else do { a1 \<leftarrow> rd argv 1; kc_fs_cd hw (Some a1) k })"

definition prog_copy :: "'d ports \<Rightarrow> 'd command" where
  "prog_copy hw argv k =
     (if length argv < 3 then kc_say hw ''Usage: copy <source> <destination>'' 1 k
      else do { a1 \<leftarrow> rd argv 1; a2 \<leftarrow> rd argv 2; kc_fs_copy hw (Some a1) (Some a2) k })"

definition prog_del :: "'d ports \<Rightarrow> 'd command" where
  "prog_del hw argv k =
     (if length argv < 2 then kc_say hw ''Usage: del <path>'' 1 k
      else do { a1 \<leftarrow> rd argv 1; kc_fs_delete hw (Some a1) k })"

definition prog_ls :: "'d ports \<Rightarrow> 'd command" where
  "prog_ls hw argv k = do {
     (path, k1) \<leftarrow> (if length argv > 1 then do { a1 \<leftarrow> rd argv 1; Some (a1, k) }
                    else kc_fs_current_dir hw k);
     kc_fs_list hw (Some path) k1 }"

definition prog_mkdir :: "'d ports \<Rightarrow> 'd command" where
  "prog_mkdir hw argv k =
     (if length argv < 2 then kc_say hw ''Usage: mkdir <folder>'' 1 k
      else do { a1 \<leftarrow> rd argv 1; kc_fs_mkdir hw (Some a1) k })"

definition prog_move :: "'d ports \<Rightarrow> 'd command" where
  "prog_move hw argv k =
     (if length argv < 3 then kc_say hw ''Usage: move <source> <destination>'' 1 k
      else do { a1 \<leftarrow> rd argv 1; a2 \<leftarrow> rd argv 2; kc_fs_move hw (Some a1) (Some a2) k })"

definition prog_pwd :: "'d ports \<Rightarrow> 'd command" where
  "prog_pwd hw argv k = do {
     (cwd, k1) \<leftarrow> kc_fs_current_dir hw k;
     k2 \<leftarrow> kc_println hw (Some cwd) k1;
     Some (0, k2) }"

definition prog_touch :: "'d ports \<Rightarrow> 'd command" where
  "prog_touch hw argv k =
     (if length argv < 2 then kc_say hw ''Usage: touch <file>'' 1 k
      else do { a1 \<leftarrow> rd argv 1; kc_fs_touch hw (Some a1) k })"

text \<open>The loop of \<open>prog_write\<close> over the words of the text; \<open>ws\<close> are \<open>argv[i]\<close> to \<open>argv[argc - 1]\<close>.\<close>

fun write_words_loop ::
    "'d ports \<Rightarrow> cbuf list \<Rightarrow> cbuf \<Rightarrow> 'd kernel \<Rightarrow> (cbuf \<times> 'd kernel) option" where
  "write_words_loop hw [] txt k = Some (txt, k)"
| "write_words_loop hw (w # ws) txt k = do {
     (txt1, k1) \<leftarrow> kc_strcat hw txt (Some w) k;
     (txt2, k2) \<leftarrow> (if ws \<noteq> [] then kc_strcat hw txt1 (Some (lit '' '')) k1 else Some (txt1, k1));
     write_words_loop hw ws txt2 k2 }"

definition prog_write :: "'d ports \<Rightarrow> 'd command" where
  "prog_write hw argv k = do {
     txt0 \<leftarrow> wr (fresh 4096) 0 0;
     (if length argv < 3 then kc_say hw ''Usage: write <file> <text>'' 1 k
      else do {
        a1 \<leftarrow> rd argv 1;
        (e, k1) \<leftarrow> kc_fs_exists hw (Some a1) k;
        (rc, k2) \<leftarrow> (if e = 0 then kc_fs_touch hw (Some a1) k1 else Some (0, k1));
        (if rc \<noteq> 0 then Some (rc, k2)
         else do {
           (txt1, k3) \<leftarrow> write_words_loop hw (drop 2 argv) txt0 k2;
           (txt2, k4) \<leftarrow> kc_strcat hw txt1 (Some (lit [CHR 0x0A])) k3;
           (n, k5) \<leftarrow> kc_strlen hw (Some txt2) k4;
           kc_fs_write hw (Some a1) txt2 n k5 }) }) }"

subsection \<open>Messages and the terminal\<close>

definition prog_about :: "'d ports \<Rightarrow> 'd command" where
  "prog_about hw argv k = do {
     (_, k1) \<leftarrow> kc_say hw ''plDOS 0.1.0'' 0 k;
     (_, k2) \<leftarrow> kc_say hw ''A tiny terminal-first DOS-style OS booting from a real ISO.'' 0 k1;
     kc_say hw ''Kernel services: VGA I/O, keyboard input, strings, memory, RAM filesystem.'' 0 k2 }"

definition prog_clear :: "'d ports \<Rightarrow> 'd command" where
  "prog_clear hw argv k = do { k' \<leftarrow> kc_clear hw k; Some (0, k') }"

fun echo_loop :: "'d ports \<Rightarrow> cbuf list \<Rightarrow> 'd kernel \<Rightarrow> 'd kernel option" where
  "echo_loop hw [] k = Some k"
| "echo_loop hw (w # ws) k = do {
     k1 \<leftarrow> kc_print hw (Some w) k;
     k2 \<leftarrow> (if ws \<noteq> [] then kc_put hw '' '' k1 else Some k1);
     echo_loop hw ws k2 }"

definition prog_echo :: "'d ports \<Rightarrow> 'd command" where
  "prog_echo hw argv k = do {
     k1 \<leftarrow> echo_loop hw (drop 1 argv) k;
     kc_say hw [] 0 k1 }"

subsection \<open>Users\<close>

definition prog_useradd :: "'d ports \<Rightarrow> 'd command" where
  "prog_useradd hw argv k = do {
     (adm, k0) \<leftarrow> kc_users_current_is_admin hw k;
     (if adm = 0 then kc_say hw ''Only an admin can add users'' 1 k0
      else if length argv < 2 then kc_say hw ''Usage: useradd <name> [admin]'' 1 k0
      else do {
        (admin, k1) \<leftarrow> (if length argv > 2 then do {
                         a2 \<leftarrow> rd argv 2;
                         (r, k1) \<leftarrow> kc_strcmp hw a2 (lit ''admin'') k0;
                         Some (if r = 0 then 1 else 0, k1) }
                       else Some (0, k0));
        a1 \<leftarrow> rd argv 1;
        (rc, k2) \<leftarrow> kc_users_add hw (Some a1) admin k1;
        (_, k3) \<leftarrow> (if rc = 1 then kc_say hw ''Invalid user name'' 0 k2
                   else if rc = 2 then kc_say hw ''User already exists'' 0 k2
                   else if rc = 3 then kc_say hw ''User table full'' 0 k2
                   else Some (0, k2));
        Some (if rc = 0 then 0 else 1, k3) }) }"

definition prog_userdel :: "'d ports \<Rightarrow> 'd command" where
  "prog_userdel hw argv k = do {
     (adm, k0) \<leftarrow> kc_users_current_is_admin hw k;
     (if adm = 0 then kc_say hw ''Only an admin can delete users'' 1 k0
      else if length argv < 2 then kc_say hw ''Usage: userdel <name>'' 1 k0
      else do {
        a1 \<leftarrow> rd argv 1;
        (rc, k1) \<leftarrow> kc_users_remove hw (Some a1) k0;
        (_, k2) \<leftarrow> (if rc = 1 then kc_say hw ''User not found or protected'' 0 k1
                   else if rc = 2 then kc_say hw ''Cannot delete the logged-in user'' 0 k1
                   else Some (0, k1));
        Some (if rc = 0 then 0 else 1, k2) }) }"

text \<open>The loop of \<open>prog_users\<close>: \<open>i\<close> is the index, \<open>n\<close> the number of rounds left, \<open>user\<close> the local
  structure that each round overwrites.\<close>

fun users_loop :: "'d ports \<Rightarrow> nat \<Rightarrow> int \<Rightarrow> kc_user \<Rightarrow> 'd kernel \<Rightarrow> 'd kernel option" where
  "users_loop hw 0 i user k = Some k"
| "users_loop hw (Suc n) i user k = do {
     (found, user1, k0) \<leftarrow> kc_users_get hw i user k;
     k9 \<leftarrow> (if found \<noteq> 0 then do {
        k1 \<leftarrow> kc_print hw (Some (kcu_name user1)) k0;
        k2 \<leftarrow> (if kcu_admin user1 \<noteq> 0 then kc_put hw ''  admin'' k1 else Some k1);
        (cur, k3) \<leftarrow> kc_users_current_name hw k2;
        (r, k4) \<leftarrow> kc_strcmp hw (kcu_name user1) cur k3;
        k5 \<leftarrow> (if r = 0 then kc_put hw ''  current'' k4 else Some k4);
        kc_println hw (Some (lit [])) k5 }
      else Some k0);
     users_loop hw n (i + 1) user1 k9 }"

definition fresh_user :: kc_user where
  "fresh_user = \<lparr>kcu_name = fresh 24, kcu_active = 0, kcu_admin = 0\<rparr>"

definition prog_users :: "'d ports \<Rightarrow> 'd command" where
  "prog_users hw argv k = do {
     (count, k1) \<leftarrow> kc_users_count hw k;
     k2 \<leftarrow> users_loop hw (nat count) 0 fresh_user k1;
     Some (0, k2) }"

definition prog_login :: "'d ports \<Rightarrow> 'd command" where
  "prog_login hw argv k =
     (if length argv < 2 then kc_say hw ''Usage: login <name>'' 1 k
      else do {
        a1 \<leftarrow> rd argv 1;
        (r, k1) \<leftarrow> kc_users_login hw (Some a1) k;
        (if r \<noteq> 0 then kc_say hw ''User not found'' 1 k1 else Some (0, k1)) })"

definition prog_logout :: "'d ports \<Rightarrow> 'd command" where
  "prog_logout hw argv k = kc_users_logout hw k"

definition prog_whoami :: "'d ports \<Rightarrow> 'd command" where
  "prog_whoami hw argv k = do {
     (nm, k1) \<leftarrow> kc_users_current_name hw k;
     k2 \<leftarrow> kc_println hw (Some nm) k1;
     Some (0, k2) }"

subsection \<open>The disk\<close>

definition prog_disk :: "'d ports \<Rightarrow> 'd command" where
  "prog_disk hw argv k = do {
     k1 \<leftarrow> kc_put hw ''ATA: '' k;
     (status, k2) \<leftarrow> kc_disk_status hw k1;
     k3 \<leftarrow> kc_println hw (Some status) k2;
     k4 \<leftarrow> kc_put hw ''Persistence: '' k3;
     (on, k5) \<leftarrow> kc_fs_disk_enabled hw k4;
     k6 \<leftarrow> kc_println hw (Some (lit (if on \<noteq> 0 then ''enabled'' else ''not initialized''))) k5;
     (on2, k7) \<leftarrow> kc_fs_disk_enabled hw k6;
     (if on2 = 0 then kc_say hw ''Attach a writable ATA disk and reboot to enable auto-save.'' 0 k7
      else Some (0, k7)) }"

definition prog_initdisk :: "'d ports \<Rightarrow> 'd command" where
  "prog_initdisk hw argv k = do {
     (avail, k1) \<leftarrow> kc_fs_disk_available hw k;
     (if avail = 0 then kc_say hw ''No writable ATA disk found'' 1 k1
      else do {
        (_, k2) \<leftarrow> kc_say hw ''Initializing plDOS storage area...'' 0 k1;
        (r, k3) \<leftarrow> kc_fs_disk_format hw k2;
        (if r \<noteq> 0 then kc_say hw ''Disk init failed'' 1 k3
         else kc_say hw ''Persistence enabled. File changes auto-save to disk.'' 0 k3) }) }"

definition prog_save :: "'d ports \<Rightarrow> 'd command" where
  "prog_save hw argv k = do {
     (r, k1) \<leftarrow> kc_fs_disk_save hw k;
     (if r \<noteq> 0 then kc_say hw ''Save failed'' 1 k1 else kc_say hw ''Filesystem saved'' 0 k1) }"

definition prog_load :: "'d ports \<Rightarrow> 'd command" where
  "prog_load hw argv k = do {
     (r, k1) \<leftarrow> kc_fs_disk_load hw k;
     (if r \<noteq> 0 then kc_say hw ''No plDOS filesystem found on disk'' 1 k1
      else kc_say hw ''Filesystem loaded'' 0 k1) }"

subsection \<open>The table of the commands\<close>

datatype prog_main =
    Prog_About | Prog_Cat | Prog_Cd | Prog_Clear | Prog_Copy | Prog_Del | Prog_Desktop | Prog_Disk
  | Prog_Echo | Prog_Help | Prog_Initdisk | Prog_Load | Prog_Ls | Prog_Login | Prog_Logout | Prog_Mkdir
  | Prog_Move | Prog_Pwd | Prog_Save | Prog_Touch | Prog_Useradd | Prog_Userdel | Prog_Users
  | Prog_Whoami | Prog_Write

record program =
  pr_name :: cbuf
  pr_help :: cbuf
  pr_main :: prog_main
  pr_visible :: bool

definition program_entry :: "string \<Rightarrow> string \<Rightarrow> prog_main \<Rightarrow> bool \<Rightarrow> program" where
  "program_entry nm hlp m vis = \<lparr>pr_name = lit nm, pr_help = lit hlp, pr_main = m, pr_visible = vis\<rparr>"

definition programs :: "program list" where
  "programs = [
     program_entry ''about'' ''show system information'' Prog_About True,
     program_entry ''cat'' ''view a file'' Prog_Cat True,
     program_entry ''cd'' ''change directory'' Prog_Cd True,
     program_entry ''clear'' ''clear the terminal'' Prog_Clear True,
     program_entry ''cls'' ''clear the terminal'' Prog_Clear True,
     program_entry ''copy'' ''copy a file'' Prog_Copy True,
     program_entry ''cp'' ''copy a file'' Prog_Copy True,
     program_entry ''del'' ''delete a file or empty folder'' Prog_Del True,
     program_entry ''rm'' ''delete a file or empty folder'' Prog_Del True,
     program_entry ''desktop'' ''developer desktop experiment'' Prog_Desktop False,
     program_entry ''disk'' ''show disk persistence status'' Prog_Disk True,
     program_entry ''echo'' ''print text'' Prog_Echo True,
     program_entry ''help'' ''list commands'' Prog_Help True,
     program_entry ''initdisk'' ''initialize persistent storage'' Prog_Initdisk True,
     program_entry ''load'' ''load filesystem from disk'' Prog_Load True,
     program_entry ''ls'' ''list a directory'' Prog_Ls True,
     program_entry ''dir'' ''list a directory'' Prog_Ls True,
     program_entry ''login'' ''switch to a user'' Prog_Login True,
     program_entry ''logout'' ''return to guest'' Prog_Logout True,
     program_entry ''mkdir'' ''create a folder'' Prog_Mkdir True,
     program_entry ''md'' ''create a folder'' Prog_Mkdir True,
     program_entry ''move'' ''move or rename a file/folder'' Prog_Move True,
     program_entry ''mv'' ''move or rename a file/folder'' Prog_Move True,
     program_entry ''pwd'' ''print working directory'' Prog_Pwd True,
     program_entry ''save'' ''save filesystem to disk'' Prog_Save True,
     program_entry ''touch'' ''create an empty file'' Prog_Touch True,
     program_entry ''mkf'' ''create an empty file'' Prog_Touch True,
     program_entry ''useradd'' ''add a user'' Prog_Useradd True,
     program_entry ''userdel'' ''delete a user'' Prog_Userdel True,
     program_entry ''users'' ''list users'' Prog_Users True,
     program_entry ''whoami'' ''print current user'' Prog_Whoami True,
     program_entry ''write'' ''write text to a file'' Prog_Write True,
     program_entry ''wri'' ''write text to a file'' Prog_Write True]"

definition programs_all :: "program list \<times> nat" where
  "programs_all = (programs, length programs)"

fun help_loop :: "'d ports \<Rightarrow> program list \<Rightarrow> 'd kernel \<Rightarrow> 'd kernel option" where
  "help_loop hw [] k = Some k"
| "help_loop hw (p # ps) k =
     (if \<not> pr_visible p then help_loop hw ps k
      else do {
        k1 \<leftarrow> kc_put hw ''  '' k;
        k2 \<leftarrow> kc_print hw (Some (pr_name p)) k1;
        k3 \<leftarrow> kc_put hw '' - '' k2;
        k4 \<leftarrow> kc_println hw (Some (pr_help p)) k3;
        help_loop hw ps k4 })"

definition prog_help :: "'d ports \<Rightarrow> 'd command" where
  "prog_help hw argv k = do {
     (_, k1) \<leftarrow> kc_say hw ''Commands in /progs:'' 0 k;
     k2 \<leftarrow> help_loop hw (take (snd programs_all) (fst programs_all)) k1;
     (_, k3) \<leftarrow> kc_say hw [] 0 k2;
     kc_say hw ''Add a new C command in progs/, declare it in progs/programs.c, then rebuild the ISO.'' 0 k3 }"

text \<open>The first entry with the name.\<close>

fun find_program_loop ::
    "'d ports \<Rightarrow> program list \<Rightarrow> cbuf \<Rightarrow> 'd kernel \<Rightarrow> (program option \<times> 'd kernel) option" where
  "find_program_loop hw [] name k = Some (None, k)"
| "find_program_loop hw (p # ps) name k = do {
     (r, k1) \<leftarrow> kc_strcmp hw (pr_name p) name k;
     (if r = 0 then Some (Some p, k1) else find_program_loop hw ps name k1) }"

definition programs_find :: "'d ports \<Rightarrow> cbuf \<Rightarrow> 'd kernel \<Rightarrow> (program option \<times> 'd kernel) option" where
  "programs_find hw name k = find_program_loop hw programs name k"

fun programs_init_loop :: "'d ports \<Rightarrow> program list \<Rightarrow> 'd kernel \<Rightarrow> 'd kernel option" where
  "programs_init_loop hw [] k = Some k"
| "programs_init_loop hw (p # ps) k =
     (if \<not> pr_visible p then programs_init_loop hw ps k
      else do {
        (path0, k1) \<leftarrow> kc_strcpy hw (fresh 128) (Some (lit ''/progs/'')) k;
        (path, k2) \<leftarrow> kc_strcat hw path0 (Some (pr_name p)) k1;
        (e, k3) \<leftarrow> kc_fs_exists hw (Some path) k2;
        k9 \<leftarrow> (if e = 0 then do {
           (_, k4) \<leftarrow> kc_fs_touch hw (Some path) k3;
           (n, k5) \<leftarrow> kc_strlen hw (Some (pr_help p)) k4;
           (_, k6) \<leftarrow> kc_fs_write hw (Some path) (pr_help p) n k5;
           Some k6 } else Some k3);
        programs_init_loop hw ps k9 })"

definition programs_init :: "'d ports \<Rightarrow> 'd kernel \<Rightarrow> 'd kernel option" where
  "programs_init hw k = programs_init_loop hw programs k"

text \<open>The command of the desktop module only calls that module, the parameter \<open>desktop_run\<close>.\<close>

definition prog_desktop :: "'d command \<Rightarrow> 'd command" where
  "prog_desktop desktop_run argv k = desktop_run argv k"

text \<open>The command behind a function pointer.\<close>

definition run_command :: "'d ports \<Rightarrow> 'd command \<Rightarrow> prog_main \<Rightarrow> 'd command" where
  "run_command hw desktop_run m =
     (case m of
        Prog_About \<Rightarrow> prog_about hw | Prog_Cat \<Rightarrow> prog_cat hw | Prog_Cd \<Rightarrow> prog_cd hw
      | Prog_Clear \<Rightarrow> prog_clear hw | Prog_Copy \<Rightarrow> prog_copy hw | Prog_Del \<Rightarrow> prog_del hw
      | Prog_Desktop \<Rightarrow> prog_desktop desktop_run | Prog_Disk \<Rightarrow> prog_disk hw | Prog_Echo \<Rightarrow> prog_echo hw
      | Prog_Help \<Rightarrow> prog_help hw | Prog_Initdisk \<Rightarrow> prog_initdisk hw | Prog_Load \<Rightarrow> prog_load hw
      | Prog_Ls \<Rightarrow> prog_ls hw | Prog_Login \<Rightarrow> prog_login hw | Prog_Logout \<Rightarrow> prog_logout hw
      | Prog_Mkdir \<Rightarrow> prog_mkdir hw | Prog_Move \<Rightarrow> prog_move hw | Prog_Pwd \<Rightarrow> prog_pwd hw
      | Prog_Save \<Rightarrow> prog_save hw | Prog_Touch \<Rightarrow> prog_touch hw | Prog_Useradd \<Rightarrow> prog_useradd hw
      | Prog_Userdel \<Rightarrow> prog_userdel hw | Prog_Users \<Rightarrow> prog_users hw | Prog_Whoami \<Rightarrow> prog_whoami hw
      | Prog_Write \<Rightarrow> prog_write hw)"

end
