(* ===== verification/Kernel_Shell.thy ===== *)
theory Kernel_Shell
  imports Kernel_Programs
begin

section \<open>kernel/kernel.c: start-up and the command loop\<close>

text \<open>
  \<open>kernel_init\<close> and the part of \<open>kmain\<close> before the loop, and one round of the endless loop of
  \<open>shell_run\<close> as a step on its state: the local array \<open>line[256]\<close> and the kernel.  Of \<open>argv\<close> the
  model keeps the offsets of its pointers into \<open>line\<close>.  A step that waits for a key that never comes
  has no result.
\<close>

subsection \<open>Splitting a line\<close>

text \<open>\<open>while (P(*cursor)) cursor++;\<close>\<close>

function scan_while :: "(byte \<Rightarrow> bool) \<Rightarrow> cbuf \<Rightarrow> nat \<Rightarrow> nat option" where
  "scan_while P line cursor = do {
     c \<leftarrow> rd line cursor;
     (if P c then scan_while P line (cursor + 1) else Some cursor) }"
  by pat_completeness auto
termination
  by (relation "measure (\<lambda>(P, line, cursor). length line - cursor)") (auto simp: rd_def split: if_splits)

declare scan_while.simps [simp del]

definition is_sep :: "byte \<Rightarrow> bool" where
  "is_sep c \<longleftrightarrow> c = 0x20 \<or> c = 0x09"

abbreviation quote :: byte where
  "quote \<equiv> 0x22"

text \<open>The word at \<open>cursor\<close>: where it starts and where the scan ends.\<close>

definition parse_word :: "cbuf \<Rightarrow> nat \<Rightarrow> (nat \<times> nat) option" where
  "parse_word line cursor = do {
     c \<leftarrow> rd line cursor;
     (if c = quote then do {
        e \<leftarrow> scan_while (\<lambda>c. c \<noteq> 0 \<and> c \<noteq> quote) line (cursor + 1);
        Some (cursor + 1, e) }
      else do {
        e \<leftarrow> scan_while (\<lambda>c. c \<noteq> 0 \<and> \<not> is_sep c) line cursor;
        Some (cursor, e) }) }"

function parse_loop :: "cbuf \<Rightarrow> nat \<Rightarrow> nat list \<Rightarrow> nat \<Rightarrow> (cbuf \<times> nat list) option" where
  "parse_loop line cursor argv max_args = do {
     c \<leftarrow> rd line cursor;
     (if c \<noteq> 0 \<and> length argv < max_args then do {
        cursor1 \<leftarrow> scan_while is_sep line cursor;
        c1 \<leftarrow> rd line cursor1;
        (if c1 = 0 then Some (line, argv)
         else do {
           (start, cursor2) \<leftarrow> parse_word line cursor1;
           c2 \<leftarrow> rd line cursor2;
           (if c2 \<noteq> 0 then do {
              line' \<leftarrow> wr line cursor2 0;
              parse_loop line' (cursor2 + 1) (argv @ [start]) max_args }
            else parse_loop line cursor2 (argv @ [start]) max_args) }) }
      else Some (line, argv)) }"
  by pat_completeness auto
termination
  by (relation "measure (\<lambda>(line, cursor, argv, max_args). max_args - length argv)") auto

declare parse_loop.simps [simp del]

definition shell_parse :: "cbuf \<Rightarrow> nat \<Rightarrow> (cbuf \<times> nat list) option" where
  "shell_parse line max_args = parse_loop line 0 [] max_args"

subsection \<open>The loop\<close>

definition shell_prompt :: "'d kernel \<Rightarrow> 'd kernel option" where
  "shell_prompt k = do {
     let k0 = k\<lparr>k_term := io_set_color VGA_COLOR_LIGHT_GREEN VGA_COLOR_BLACK (k_term k)\<rparr>;
     nm \<leftarrow> users_current_name (k_users k0);
     k1 \<leftarrow> kprint (Some nm) k0;
     k2 \<leftarrow> kprint (Some (lit ''@'')) k1;
     k3 \<leftarrow> kprint (Some (fs_get_current_dir k2)) k2;
     k4 \<leftarrow> kprint (Some (lit ''> '')) k3;
     Some (k4\<lparr>k_term := io_set_color VGA_COLOR_LIGHT_GREY VGA_COLOR_BLACK (k_term k4)\<rparr>) }"

definition report_code :: "int \<Rightarrow> 'd kernel \<Rightarrow> 'd kernel option" where
  "report_code rc k =
     (if rc \<noteq> 0 then do {
        k1 \<leftarrow> kprint (Some (lit ''Command returned '')) k;
        k2 \<leftarrow> kprint_int (word_of_int rc) k1;
        kprintln (Some (lit [])) k2 }
      else Some k)"

text \<open>The rest of a round once the line has been split.\<close>

definition shell_exec ::
    "'d ports \<Rightarrow> 'd command \<Rightarrow> cbuf list \<Rightarrow> 'd kernel \<Rightarrow> 'd kernel option" where
  "shell_exec hw desktop_run argv k = do {
     a0 \<leftarrow> rd argv 0;
     (program, k1) \<leftarrow> programs_find hw a0 k;
     (case program of
        None \<Rightarrow> do {
          k2 \<leftarrow> kprint (Some (lit ''Unknown command: '')) k1;
          kprintln (Some a0) k2 }
      | Some p \<Rightarrow> do {
          (rc, k2) \<leftarrow> run_command hw desktop_run (pr_main p) argv k1;
          report_code rc k2 }) }"

definition shell_line ::
    "'d ports \<Rightarrow> 'd command \<Rightarrow> cbuf \<Rightarrow> 'd kernel \<Rightarrow> (cbuf \<times> 'd kernel) option" where
  "shell_line hw desktop_run line k = do {
     line1 \<leftarrow> str_trim line;
     c \<leftarrow> rd line1 0;
     (if c = 0 then Some (line1, k)
      else do {
        (line2, argv) \<leftarrow> shell_parse line1 16;
        (if argv = [] then Some (line2, k)
         else do {
           k' \<leftarrow> shell_exec hw desktop_run (map (\<lambda>i. drop i line2) argv) k;
           Some (line2, k') }) }) }"

text \<open>The prompt and the input of a line.\<close>

definition shell_read :: "cbuf \<Rightarrow> 'd kernel \<Rightarrow> (cbuf \<times> 'd kernel) option" where
  "shell_read line k = do {
     k1 \<leftarrow> shell_prompt k;
     (line1, keys, t) \<leftarrow> io_read_line line 256 (k_keys k1) (k_term k1);
     Some (line1, k1\<lparr>k_keys := keys, k_term := t\<rparr>) }"

definition shell_step ::
    "'d ports \<Rightarrow> 'd command \<Rightarrow> cbuf \<Rightarrow> 'd kernel \<Rightarrow> (cbuf \<times> 'd kernel) option" where
  "shell_step hw desktop_run line k = do {
     (line1, k1) \<leftarrow> shell_read line k;
     shell_line hw desktop_run line1 k1 }"

text \<open>\<open>n\<close> rounds of \<open>shell_run\<close>.\<close>

fun shell_run ::
    "'d ports \<Rightarrow> 'd command \<Rightarrow> nat \<Rightarrow> cbuf \<Rightarrow> 'd kernel \<Rightarrow> (cbuf \<times> 'd kernel) option" where
  "shell_run hw desktop_run 0 line k = Some (line, k)"
| "shell_run hw desktop_run (Suc n) line k = do {
     (line', k') \<leftarrow> shell_step hw desktop_run line k;
     shell_run hw desktop_run n line' k' }"

subsection \<open>Start-up\<close>

definition kernel_init :: "'d ports \<Rightarrow> 'd kernel \<Rightarrow> 'd kernel option" where
  "kernel_init hw k = do {
     let k1 = k\<lparr>k_term := io_init (k_term k), k_heap := memory_init (k_heap k)\<rparr>;
     s \<leftarrow> users_init (k_users k1);
     let (ds, d) = disk_init hw (k_dev k1);
     k2 \<leftarrow> fs_init hw (k1\<lparr>k_users := s, k_disk := ds, k_dev := d\<rparr>);
     programs_init hw k2 }"

text \<open>\<open>kmain\<close> up to the call of \<open>shell_run\<close>.\<close>

definition kmain :: "'d ports \<Rightarrow> 'd kernel \<Rightarrow> 'd kernel option" where
  "kmain hw k = do {
     k1 \<leftarrow> kernel_init hw k;
     let k2 = k1\<lparr>k_term := io_set_color VGA_COLOR_LIGHT_CYAN VGA_COLOR_BLACK (io_clear_screen (k_term k1))\<rparr>;
     k3 \<leftarrow> kprintln (Some (lit ''plDOS 0.1.0'')) k2;
     let k4 = k3\<lparr>k_term := io_set_color VGA_COLOR_LIGHT_GREY VGA_COLOR_BLACK (k_term k3)\<rparr>;
     k5 \<leftarrow> kprintln (Some (lit (''Terminal-first DOS-style OS. Type '' @ [CHR 0x27] @ ''help'' @ [CHR 0x27] @
             '' to begin.''))) k4;
     kprintln (Some (lit [])) k5 }"

text \<open>The state in which \<open>kernel_panic\<close> halts the machine.\<close>

definition kernel_panic :: "cptr \<Rightarrow> 'd kernel \<Rightarrow> 'd kernel option" where
  "kernel_panic message k = do {
     let k1 = k\<lparr>k_term := io_set_color VGA_COLOR_LIGHT_RED VGA_COLOR_BLACK (k_term k)\<rparr>;
     k2 \<leftarrow> kprintln (Some (lit ''KERNEL PANIC'')) k1;
     kprintln message k2 }"

end
