(* ===== verification/Shell_Parse.thy ===== *)
theory Shell_Parse
  imports Kernel_Shell
begin

section \<open>Splitting a line into words\<close>

text \<open>
  \<open>shell_parse\<close> cuts the line in place by writing terminators into it and returns pointers.  The
  specification \<open>tokens\<close> is a function on the bytes alone; the proof carries the pointers that were
  made earlier through the later writes.
\<close>

function tokens :: "byte list \<Rightarrow> byte list list" where
  "tokens xs =
     (let ys = dropWhile is_sep xs in
      if ys = [] then []
      else if hd ys = quote
      then let w = takeWhile (\<lambda>c. c \<noteq> quote) (tl ys) in w # tokens (drop (length w + 1) (tl ys))
      else let w = takeWhile (\<lambda>c. \<not> is_sep c) ys in w # tokens (drop (length w + 1) ys))"
  by pat_completeness auto
termination
proof (relation "measure length")
  fix xs ys w :: "byte list"
  have "length (drop (length w + 1) (tl ys)) < length xs \<and> length (drop (length w + 1) ys) < length xs"
    if "ys = dropWhile is_sep xs" "ys \<noteq> []"
  proof -
    have "length ys \<le> length xs" using that(1) by (simp add: length_dropWhile_le)
    then show ?thesis using that(2) by (cases ys) auto
  qed
  then show "ys = dropWhile is_sep xs \<Longrightarrow> ys \<noteq> [] \<Longrightarrow> (drop (length w + 1) (tl ys), xs) \<in> measure length"
    "ys = dropWhile is_sep xs \<Longrightarrow> ys \<noteq> [] \<Longrightarrow> (drop (length w + 1) ys, xs) \<in> measure length"
    by simp_all
qed simp

declare tokens.simps [simp del]

lemma tokens_Nil [simp]: "tokens [] = []"
  by (simp add: tokens.simps [of "[]"])

lemma scan_while_eq:
  assumes "terminated (drop i line)" "\<not> P 0"
  shows "scan_while P line i = Some (i + length (takeWhile P (cstr (drop i line))))"
  using assms(1)
proof (induction "length line - i" arbitrary: i)
  case 0
  then show ?case by (simp add: terminated_def)
next
  case (Suc n)
  then have i: "i < length line" by simp
  then have d: "drop i line = line ! i # drop (Suc i) line" by (simp add: Cons_nth_drop_Suc)
  show ?case
  proof (cases "P (line ! i)")
    case True
    then have nz: "line ! i \<noteq> 0" using assms(2) by auto
    then have "terminated (drop (Suc i) line)" using Suc.prems d by simp
    then have "scan_while P line (Suc i) = Some (Suc i + length (takeWhile P (cstr (drop (Suc i) line))))"
      using Suc.hyps by simp
    then show ?thesis using True i d nz by (subst scan_while.simps) simp
  next
    case False
    then show ?thesis using i d by (subst scan_while.simps) simp
  qed
qed

text \<open>Where a scan from \<open>i\<close> ends.\<close>

lemma scan_end:
  assumes "terminated (drop i line)" "n \<le> length (cstr (drop i line))"
  shows "i + n < length line" "terminated (drop (i + n) line)"
    "cstr (drop (i + n) line) = drop n (cstr (drop i line))"
    "line ! (i + n) = 0 \<longleftrightarrow> n = length (cstr (drop i line))"
    "n < length (cstr (drop i line)) \<Longrightarrow> line ! (i + n) = cstr (drop i line) ! n"
proof -
  have dd: "drop (i + n) line = drop n (drop i line)" by (simp add: add.commute)
  show t: "terminated (drop (i + n) line)" unfolding dd using assms by (rule terminated_drop)
  show c: "cstr (drop (i + n) line) = drop n (cstr (drop i line))" unfolding dd using assms(2) by (rule cstr_drop)
  show l: "i + n < length line" using t by (metis drop_all linorder_not_less terminated_def in_set_conv_nth length_0_conv list.size(3) not_less_zero)
  have d: "drop (i + n) line = line ! (i + n) # drop (Suc (i + n)) line" using l by (simp add: Cons_nth_drop_Suc)
  show "line ! (i + n) = 0 \<longleftrightarrow> n = length (cstr (drop i line))"
    using c assms(2) unfolding d by (auto split: if_splits)
  show "n < length (cstr (drop i line)) \<Longrightarrow> line ! (i + n) = cstr (drop i line) ! n"
  proof -
    assume n: "n < length (cstr (drop i line))"
    then have "drop n (cstr (drop i line)) = cstr (drop i line) ! n # drop (Suc n) (cstr (drop i line))"
      by (simp add: Cons_nth_drop_Suc)
    then show ?thesis using c unfolding d by (auto split: if_splits)
  qed
qed


text \<open>The next word of the specification: where it starts in the rest of the line, and the word.\<close>

definition next_word :: "byte list \<Rightarrow> (nat \<times> byte list) option" where
  "next_word xs =
     (let ys = dropWhile is_sep xs; s = length (takeWhile is_sep xs) in
      if ys = [] then None
      else if hd ys = quote then Some (s + 1, takeWhile (\<lambda>c. c \<noteq> quote) (tl ys))
      else Some (s, takeWhile (\<lambda>c. \<not> is_sep c) ys))"

lemma dropWhile_as_drop: "dropWhile P xs = drop (length (takeWhile P xs)) xs"
  by (metis append_eq_conv_conj takeWhile_dropWhile_id)

lemma tokens_step:
  "tokens xs = (case next_word xs of None \<Rightarrow> [] | Some (s, w) \<Rightarrow> w # tokens (drop (s + length w + 1) xs))"
proof -
  have "drop (Suc n) (tl ys) = drop (length (takeWhile is_sep xs) + 1 + n + 1) xs"
    "drop (Suc n) ys = drop (length (takeWhile is_sep xs) + n + 1) xs" if "ys = dropWhile is_sep xs" for n ys
    using that by (simp_all add: dropWhile_as_drop drop_Suc add_ac flip: drop_drop tl_drop)
  then show ?thesis
    by (subst tokens.simps) (simp add: next_word_def Let_def)
qed

lemma not_sep_0 [simp]: "\<not> is_sep 0"
  by (simp add: is_sep_def)

lemma takeWhile_nonzero: "0 \<notin> set xs \<Longrightarrow> takeWhile (\<lambda>c. c \<noteq> 0 \<and> P c) xs = takeWhile P xs"
  by (rule takeWhile_cong) auto

text \<open>One round of the loop finds the next word.\<close>

lemma scan_word:
  fixes P :: "byte \<Rightarrow> bool"
  assumes "terminated (drop i line)" "s \<le> length (cstr (drop i line))"
  defines "w \<equiv> takeWhile P (drop s (cstr (drop i line)))"
  shows "scan_while (\<lambda>c. c \<noteq> 0 \<and> P c) line (i + s) = Some (i + s + length w)"
    "s + length w \<le> length (cstr (drop i line))" "w = take (length w) (drop s (cstr (drop i line)))"
proof -
  note e = scan_end [OF assms(1,2)]
  have "0 \<notin> set (drop s (cstr (drop i line)))" by (meson in_set_dropD zero_notin_cstr)
  then show "scan_while (\<lambda>c. c \<noteq> 0 \<and> P c) line (i + s) = Some (i + s + length w)"
    using scan_while_eq [OF e(2), of "\<lambda>c. c \<noteq> 0 \<and> P c"] by (simp add: e(3) takeWhile_nonzero w_def)
  have "length w \<le> length (drop s (cstr (drop i line)))" unfolding w_def by (rule length_takeWhile_le)
  then show "s + length w \<le> length (cstr (drop i line))" using assms(2) by simp
  show "w = take (length w) (drop s (cstr (drop i line)))" unfolding w_def by (rule takeWhile_eq_take)
qed

lemma parse_word_eq:
  assumes "terminated (drop i line)"
  defines "xs \<equiv> cstr (drop i line)"
  defines "i1 \<equiv> i + length (takeWhile is_sep xs)"
  shows "scan_while is_sep line i = Some i1"
    and "rd line i1 = Some (line ! i1)"
    and "line ! i1 = 0 \<longleftrightarrow> next_word xs = None"
    and "next_word xs = Some (s, w) \<Longrightarrow> parse_word line i1 = Some (i + s, i + s + length w) \<and>
       s + length w \<le> length xs \<and> w = take (length w) (drop s xs) \<and> 0 < s + length w"
proof -
  let ?n = "length (takeWhile is_sep xs)"
  have n: "?n \<le> length xs" by (simp add: length_takeWhile_le)
  show scan: "scan_while is_sep line i = Some i1"
    using scan_while_eq [OF assms(1), of is_sep] by (simp add: xs_def i1_def)
  note e = scan_end [OF assms(1), of ?n, folded xs_def i1_def, OF n]
  show "rd line i1 = Some (line ! i1)" using e(1) by simp
  have ys: "dropWhile is_sep xs = drop ?n xs" by (rule dropWhile_as_drop)
  show "line ! i1 = 0 \<longleftrightarrow> next_word xs = None"
    using e(4) n unfolding next_word_def Let_def ys by auto
  assume w: "next_word xs = Some (s, w)"
  then have ne: "drop ?n xs \<noteq> []" unfolding next_word_def Let_def ys by (auto split: if_splits)
  then have lt: "?n < length xs" by simp
  have hd: "hd (drop ?n xs) = line ! i1" using e(5) [OF lt] lt by (simp add: hd_drop_conv_nth)
  show "parse_word line i1 = Some (i + s, i + s + length w) \<and>
       s + length w \<le> length xs \<and> w = take (length w) (drop s xs) \<and> 0 < s + length w"
  proof (cases "line ! i1 = quote")
    case True
    then have sw: "s = ?n + 1" "w = takeWhile (\<lambda>c. c \<noteq> quote) (drop s xs)"
      using w ne hd unfolding next_word_def Let_def ys by (auto simp: drop_Suc tl_drop)
    then have "s \<le> length xs" using lt by simp
    note sc = scan_word [OF assms(1) this [unfolded xs_def], of "\<lambda>c. c \<noteq> quote", folded xs_def]
    then show ?thesis using True e(1) sw by (simp add: parse_word_def i1_def)
  next
    case False
    then have sw: "s = ?n" "w = takeWhile (\<lambda>c. \<not> is_sep c) (drop s xs)"
      using w ne hd unfolding next_word_def Let_def ys by auto
    then have "s \<le> length xs" using lt by simp
    note sc = scan_word [OF assms(1) this [unfolded xs_def], of "\<lambda>c. \<not> is_sep c", folded xs_def]
    have "\<not> is_sep (hd (drop ?n xs))" using hd_dropWhile [of is_sep xs] ne unfolding ys by simp
    then have "0 < length w" using sw ne by (cases "drop ?n xs") auto
    then show ?thesis using False e(1) sw sc by (simp add: parse_word_def i1_def)
  qed
qed


lemma take_cstr: "n \<le> length (cstr b) \<Longrightarrow> take n (cstr b) = take n b"
proof (induction b arbitrary: n)
  case (Cons c b)
  then show ?case by (cases n) (auto split: if_splits)
qed simp

text \<open>A word cut out by a terminator stays what it is when only later bytes change.\<close>

lemma cut_word:
  assumes "terminated (drop j line)" "n < length (cstr (drop j line))" "e = j + n"
    and "take (Suc e) line' = take (Suc e) (line[e := 0])"
  shows "cstr (drop j line') = take n (cstr (drop j line))" "terminated (drop j line')"
proof -
  have e: "e < length line" using scan_end(1) [OF assms(1), of n] assms(2,3) by simp
  have "take (Suc n) (drop j line') = drop j (take (Suc e) line')"
    using assms(3) by (simp add: drop_take Suc_diff_le)
  also have "\<dots> = drop j (take e line @ [0])"
    using assms(4) e by (simp add: take_Suc_conv_app_nth)
  also have "\<dots> = take n (drop j line) @ [0]"
    using assms(3) e by (simp add: drop_take)
  also have "take n (drop j line) = take n (cstr (drop j line))" using take_cstr assms(2) by simp
  finally have "take (Suc n) (drop j line') = take n (cstr (drop j line)) @ [0]" .
  then have d: "drop j line' = take n (cstr (drop j line)) @ 0 # drop (Suc n) (drop j line')"
    by (metis append_take_drop_id append_Cons append_Nil append_assoc)
  have "0 \<notin> set (take n (cstr (drop j line)))" by (meson in_set_takeD zero_notin_cstr)
  then show "cstr (drop j line') = take n (cstr (drop j line))" "terminated (drop j line')"
    using d by (metis cstr_append_zero, metis terminated_append_zero)
qed

text \<open>A round of the loop stops, takes the last word, or takes a word and cuts the line behind it.\<close>

lemma parse_round:
  assumes "terminated (drop i line)"
  defines "xs \<equiv> cstr (drop i line)"
  obtains (stop) "parse_loop line i argv m = Some (line, argv)" "take (m - length argv) (tokens xs) = []"
  | (last) j where "parse_loop line i argv m = Some (line, argv @ [j])" "length argv < m"
      "tokens xs = [cstr (drop j line)]" "terminated (drop j line)"
  | (more) j w e where "parse_loop line i argv m = parse_loop (line[e := 0]) (Suc e) (argv @ [j]) m" "length argv < m"
      "tokens xs = w # tokens (cstr (drop (Suc e) line))" "terminated (drop (Suc e) line)" "i \<le> e" "e = j + length w"
      "terminated (drop j line)" "w = take (length w) (cstr (drop j line))" "length w < length (cstr (drop j line))"
proof -
  have i: "i < length line" "line ! i = 0 \<longleftrightarrow> xs = []"
    using scan_end(1,4) [OF assms(1), of 0] by (simp_all add: xs_def)
  note pw = parse_word_eq [OF assms(1), folded xs_def]
  show ?thesis
  proof (cases "line ! i \<noteq> 0 \<and> length argv < m \<and> next_word xs \<noteq> None")
    case False
    have "parse_loop line i argv m = Some (line, argv)"
      using False i(1) pw(1-3) by (subst parse_loop.simps) auto
    moreover have "next_word xs = None \<Longrightarrow> tokens xs = []" by (subst tokens_step) simp
    then have "take (m - length argv) (tokens xs) = []"
      using False i(2) by (cases "xs = []"; cases "next_word xs") simp_all
    ultimately show ?thesis by (rule that(1))
  next
    case True
    then obtain s w where sw: "next_word xs = Some (s, w)" by auto
    let ?e = "i + s + length w"
    note w = pw(4) [OF sw]
    have s: "s \<le> length xs" "s + length w \<le> length xs" using w by auto
    note es = scan_end [OF assms(1), of s, folded xs_def, OF s(1)]
    note ee = scan_end [OF assms(1), of "s + length w", folded xs_def, OF s(2), unfolded add.assoc [symmetric]]
    have toks: "tokens xs = w # tokens (drop (s + length w + 1) xs)" by (subst tokens_step) (simp add: sw)
    have "line ! (i + length (takeWhile is_sep xs)) \<noteq> 0" using pw(3) sw by simp
    then have step: "parse_loop line i argv m =
        (if line ! ?e \<noteq> 0 then parse_loop (line[?e := 0]) (?e + 1) (argv @ [i + s]) m
         else parse_loop line ?e (argv @ [i + s]) m)"
      using True i(1) pw(1,2) w ee(1) by (subst parse_loop.simps) simp
    show ?thesis
    proof (cases "line ! ?e = 0")
      case zero: True
      have "parse_loop line ?e (argv @ [i + s]) m = Some (line, argv @ [i + s])"
        using zero ee(1) by (subst parse_loop.simps) simp
      moreover have "s + length w = length xs" using ee(4) zero by simp
      then have "w = drop s xs" "tokens (drop (s + length w + 1) xs) = []" using w by simp_all
      ultimately show ?thesis using that(2) [of "i + s"] step zero toks es(2,3) True by simp
    next
      case False
      then have lt: "s + length w < length xs" using ee(4) s(2) by linarith
      then have "cstr (drop (Suc ?e) line) = drop (s + length w + 1) xs" "terminated (drop (Suc ?e) line)"
        using scan_end [OF assms(1), of "s + length w + 1"] by (simp_all add: xs_def add_ac)
      then show ?thesis using that(3) [of ?e "i + s" w] step False toks True es(2,3) w lt by simp
    qed
  qed
qed

lemma parse_loop_eq:
  "terminated (drop i line) \<Longrightarrow>
   \<exists>line' new. parse_loop line i argv m = Some (line', argv @ new) \<and> length line' = length line \<and>
     take i line' = take i line \<and>
     map (\<lambda>j. cstr (drop j line')) new = take (m - length argv) (tokens (cstr (drop i line))) \<and>
     (\<forall>j \<in> set new. terminated (drop j line'))"
proof (induction "m - length argv" arbitrary: i line argv rule: less_induct)
  case less
  from less.prems show ?case
  proof (cases rule: parse_round [where argv = argv and m = m])
    case stop
    then show ?thesis by (intro exI [of _ line] exI [of _ "[]"]) simp
  next
    case (last j)
    then show ?thesis by (intro exI [of _ line] exI [of _ "[j]"]) (simp add: take_Cons')
  next
    case (more j w e)
    have fewer: "m - length (argv @ [j]) < m - length argv" "m - length argv = Suc (m - length (argv @ [j]))"
      using more(2) by simp_all
    obtain line' new where IH: "parse_loop (line[e := 0]) (Suc e) (argv @ [j]) m = Some (line', (argv @ [j]) @ new)"
      "length line' = length line" "take (Suc e) line' = take (Suc e) (line[e := 0])"
      "map (\<lambda>j. cstr (drop j line')) new = take (m - length (argv @ [j])) (tokens (cstr (drop (Suc e) line)))"
      "\<forall>j \<in> set new. terminated (drop j line')"
      using less.hyps [OF fewer(1), of "Suc e" "line[e := 0]"] more(4) by auto
    note cut = cut_word [OF more(7,9,6) IH(3)]
    have "take i line' = take i (take (Suc e) line')" using more(5) by (simp add: min_def)
    also have "\<dots> = take i line" unfolding IH(3) using more(5) by (simp add: min_def)
    finally have "take i line' = take i line" .
    moreover have "cstr (drop j line') = w" using cut(1) more(8) by simp
    ultimately show ?thesis
      using more(1,3) IH cut(2) fewer(2) by (intro exI [of _ line'] exI [of _ "j # new"]) simp
  qed
qed

lemma shell_parse_eq:
  assumes "terminated line"
  obtains line' argv where "shell_parse line m = Some (line', argv)" "length line' = length line"
    "map (\<lambda>j. cstr (drop j line')) argv = take m (tokens (cstr line))"
    "\<forall>j \<in> set argv. terminated (drop j line')"
  using parse_loop_eq [of 0 line "[]" m] assms by (auto simp: shell_parse_def)

text \<open>
  C15: Splitting a line.  On every terminated line \<open>shell_parse\<close> returns without an access outside the
  line, and the strings behind the pointers it returns are the words of the line, at most
  \<open>max_args\<close> of them: maximal runs of bytes other than blanks and tabs, or, after a double quote, the
  bytes up to the next one.
\<close>

theorem shell_parse_spec:
  assumes "terminated line"
  shows "\<exists>line' argv. shell_parse line m = Some (line', argv) \<and> length line' = length line \<and>
     length argv \<le> m \<and> map (\<lambda>j. cstr (drop j line')) argv = take m (tokens (cstr line)) \<and>
     list_all (\<lambda>j. terminated (drop j line')) argv"
proof -
  obtain line' argv where p: "shell_parse line m = Some (line', argv)" "length line' = length line"
    "map (\<lambda>j. cstr (drop j line')) argv = take m (tokens (cstr line))"
    "\<forall>j \<in> set argv. terminated (drop j line')"
    using shell_parse_eq [OF assms] .
  have "length argv = length (take m (tokens (cstr line)))" using p(3) by (metis length_map)
  then show ?thesis using p by (auto simp: list_all_iff)
qed

lemma shell_parse_spec_witness:
  "\<exists>line' argv. shell_parse (lit (''write  /home/a '' @ [CHR 0x22] @ ''two words'' @ [CHR 0x22] @ '' x'')) 16 =
       Some (line', argv) \<and>
     map (\<lambda>j. cstr (drop j line')) argv =
       [bytes_of ''write'', bytes_of ''/home/a'', bytes_of ''two words'', bytes_of ''x'']"
proof -
  let ?line = "lit (''write  /home/a '' @ [CHR 0x22] @ ''two words'' @ [CHR 0x22] @ '' x'')"
  have "take 16 (tokens (cstr ?line)) =
      [bytes_of ''write'', bytes_of ''/home/a'', bytes_of ''two words'', bytes_of ''x'']"
    by code_simp
  then show ?thesis using shell_parse_spec [OF terminated_lit, of _ 16] by fastforce
qed

end
