(* ===== verification/Kernel_Machine.thy ===== *)
theory Kernel_Machine
  imports Shell_Parse Fs_Boot Fs_Move_Limits
begin

section \<open>The commands on a well-formed machine\<close>

text \<open>
  The state of the machine between two commands (\<open>kernel_wf\<close>: tree, users, terminal; \<open>synced\<close>: the
  drive, when there is one, holds the node table), and what each command does to it: which text it
  prints (\<open>printed\<close>), how it changes tree and users, and that it returns and keeps the machine
  well-formed.
\<close>

subsection \<open>Printing\<close>

definition printed :: "byte list \<Rightarrow> 'd kernel \<Rightarrow> 'd kernel" where
  "printed xs k = k\<lparr>k_term := fold io_print_char xs (k_term k)\<rparr>"

lemma printed_fields [simp]:
  "k_keys (printed xs k) = k_keys k" "k_users (printed xs k) = k_users k" "k_heap (printed xs k) = k_heap k"
  "k_disk (printed xs k) = k_disk k" "k_dev (printed xs k) = k_dev k" "nodes (printed xs k) = nodes k"
  "current_dir (printed xs k) = current_dir k" "persistence_enabled (printed xs k) = persistence_enabled k"
  "fs_booting (printed xs k) = fs_booting k"
  "k_term (printed xs k) = fold io_print_char xs (k_term k)"
  by (simp_all add: printed_def)

lemma printed_printed [simp]: "printed ys (printed xs k) = printed (xs @ ys) k"
  by (simp add: printed_def)

lemma printed_Nil [simp]: "printed [] k = k"
  by (simp add: printed_def)

lemma kprint_printed: "terminated b \<Longrightarrow> kprint (Some b) k = Some (printed (cstr b) k)"
  by (simp add: kprint_eq printed_def)

lemma kprintln_printed: "terminated b \<Longrightarrow> kprintln (Some b) k = Some (printed (cstr b @ [0x0A]) k)"
  by (simp add: kprintln_eq printed_def)

lemma shown_printed: "shown msg k = printed (cstr (lit msg) @ [0x0A]) k"
  by (simp add: shown_def printed_def)

lemma kc_say_eq: "kc_say hw msg r k = Some (r, shown msg k)"
  by (simp add: kc_say_def kc_terminal kprintln_printed shown_printed)

lemma kc_put_eq: "kc_put hw msg k = Some (printed (cstr (lit msg)) k)"
  by (simp add: kc_put_def kc_terminal kprint_printed)

lemmas print_eqs = kc_say_eq kc_put_eq kprint_printed kprintln_printed kc_terminal

subsection \<open>The machine between two commands\<close>

definition kernel_wf :: "'d kernel \<Rightarrow> bool" where
  "kernel_wf k \<longleftrightarrow> fs_ok k \<and> users_wf (k_users k) \<and> term_wf (k_term k) \<and>
     terminated (status_text (k_disk k))"

text \<open>The disk's part of the state is as after start-up: without a drive nothing is persistent, with one
  everything is, and the drive is a tolerant one.\<close>

definition disk_on :: "'d ports \<Rightarrow> ('d \<Rightarrow> ata_view) \<Rightarrow> nat \<Rightarrow> 'd kernel \<Rightarrow> bool" where
  "disk_on hw view capacity k \<longleftrightarrow> \<not> fs_booting k \<and>
     (if has_disk (k_disk k)
      then tolerant_drive hw view capacity \<and> 3117 \<le> capacity \<and> drive_ready view (k_dev k) \<and> persistence_enabled k
      else \<not> persistence_enabled k)"

definition synced :: "'d ports \<Rightarrow> ('d \<Rightarrow> ata_view) \<Rightarrow> nat \<Rightarrow> 'd kernel \<Rightarrow> bool" where
  "synced hw view capacity k \<longleftrightarrow> disk_on hw view capacity k \<and>
     (has_disk (k_disk k) \<longrightarrow> image_at (drive_sector view (k_dev k)) (raw_of_nodes (nodes k)))"

definition machine_ok :: "'d ports \<Rightarrow> ('d \<Rightarrow> ata_view) \<Rightarrow> nat \<Rightarrow> 'd kernel \<Rightarrow> bool" where
  "machine_ok hw view capacity k \<longleftrightarrow> kernel_wf k \<and> synced hw view capacity k"

lemma kernel_wf_term: "kernel_wf k \<Longrightarrow> term_wf t \<Longrightarrow> kernel_wf (k\<lparr>k_term := t\<rparr>)"
  by (simp add: kernel_wf_def fs_ok_def)

lemma machine_ok_term: "machine_ok hw view capacity k \<Longrightarrow> term_wf t \<Longrightarrow>
    machine_ok hw view capacity (k\<lparr>k_term := t\<rparr>)"
  by (simp add: machine_ok_def kernel_wf_term synced_def disk_on_def)

lemma machine_ok_keys: "machine_ok hw view capacity k \<Longrightarrow> machine_ok hw view capacity (k\<lparr>k_keys := keys\<rparr>)"
  by (simp add: machine_ok_def kernel_wf_def fs_ok_def synced_def disk_on_def)

lemma machine_ok_printed [simp]: "machine_ok hw view capacity k \<Longrightarrow> machine_ok hw view capacity (printed xs k)"
  unfolding printed_def
  by (rule machine_ok_term) (simp_all add: machine_ok_def kernel_wf_def term_wf_fold_print)

lemma machine_ok_shown [simp]: "machine_ok hw view capacity k \<Longrightarrow> machine_ok hw view capacity (shown msg k)"
  by (simp add: shown_printed)

lemma machine_ok_users: "machine_ok hw view capacity k \<Longrightarrow> users_wf s \<Longrightarrow>
    machine_ok hw view capacity (k\<lparr>k_users := s\<rparr>)"
  by (simp add: machine_ok_def kernel_wf_def fs_ok_def synced_def disk_on_def)

lemma machine_okD:
  assumes "machine_ok hw view capacity k"
  shows "kernel_wf k" "fs_ok k" "fs_wf (nodes k)" "users_wf (k_users k)" "term_wf (k_term k)"
    "terminated (status_text (k_disk k))" "synced hw view capacity k" "terminated (current_dir k)"
  using assms by (auto simp: machine_ok_def kernel_wf_def fs_ok_def)

text \<open>A step that stays inside the machine, prints or changes the node table, and saves what it changed.\<close>

definition saves :: "'d ports \<Rightarrow> 'd kernel \<Rightarrow> 'd kernel \<Rightarrow> bool" where
  "saves hw k k' \<longleftrightarrow> (\<exists>xs. k' = printed xs k) \<or> (\<exists>ns. persist_if_enabled hw (k\<lparr>nodes := ns\<rparr>) = Some k')"

lemma saves_shown [simp]: "saves hw k (shown msg k)"
  unfolding saves_def shown_printed by blast

lemma save_nodes: "fs_disk_save hw k = Some (r, k') \<Longrightarrow> nodes k' = nodes k"
proof -
  have bind: "(\<And>x. pred_option P (f x)) \<Longrightarrow> pred_option P (Option.bind m f)" for P f and m :: "'x option"
    by (cases m) simp_all
  have "pred_option (\<lambda>(r, k'). nodes k' = nodes k) (fs_disk_save hw k)"
    unfolding fs_disk_save_def Let_def by (auto intro!: bind split: prod.split)
  then show "fs_disk_save hw k = Some (r, k') \<Longrightarrow> nodes k' = nodes k" by simp
qed

lemma persist_nodes: "persist_if_enabled hw k = Some k' \<Longrightarrow> nodes k' = nodes k"
  using save_nodes by (auto simp: persist_if_enabled_def split: if_splits)

lemma persist_synced:
  assumes "disk_on hw view capacity k" "table_shape (nodes k)" "persist_if_enabled hw k = Some k'"
  shows "synced hw view capacity k'"
proof (cases "has_disk (k_disk k)")
  case True
  then have on: "tolerant_drive hw view capacity" "3117 \<le> capacity" "drive_ready view (k_dev k)"
    "persistence_enabled k" "\<not> fs_booting k"
    using assms(1) by (auto simp: disk_on_def)
  obtain d where d: "fs_disk_save hw k = Some (0, k\<lparr>k_dev := d, persistence_enabled := True\<rparr>)"
    "drive_ready view d" "image_at (drive_sector view d) (raw_of_nodes (nodes k))"
    using disk_save_ok [OF on(1,2) True on(3) assms(2)] by blast
  then show ?thesis
    using assms(3) on True by (auto simp: persist_if_enabled_def synced_def disk_on_def)
next
  case False
  then show ?thesis using assms by (auto simp: disk_on_def persist_if_enabled_def synced_def)
qed

lemma saves_synced:
  assumes "synced hw view capacity k" "saves hw k k'" "fs_wf (nodes k')"
  shows "synced hw view capacity k'"
  using assms(2) unfolding saves_def
proof (elim disjE exE)
  fix xs assume "k' = printed xs k"
  then show ?thesis using assms(1) by (simp add: synced_def disk_on_def)
next
  fix ns assume p: "persist_if_enabled hw (k\<lparr>nodes := ns\<rparr>) = Some k'"
  have "disk_on hw view capacity (k\<lparr>nodes := ns\<rparr>)" using assms(1) by (simp add: synced_def disk_on_def)
  moreover have "table_shape ns" using persist_nodes [OF p] assms(3) fs_wf_table_shape by simp
  ultimately show ?thesis using persist_synced [OF _ _ p] by simp
qed

lemma saves_persist: "persist_if_enabled hw (k\<lparr>nodes := ns\<rparr>) = Some k' \<Longrightarrow> saves hw k k'"
  unfolding saves_def by blast

definition result_saves :: "'d ports \<Rightarrow> 'd kernel \<Rightarrow> ('a \<times> 'd kernel) option \<Rightarrow> bool" where
  "result_saves hw k m \<longleftrightarrow> (\<forall>r k'. m = Some (r, k') \<longrightarrow> saves hw k k')"

lemma result_saves_simps [simp]:
  "result_saves hw k None" "result_saves hw k (Some (r, k')) \<longleftrightarrow> saves hw k k'" "result_saves hw k (say msg r k)"
  by (simp_all add: result_saves_def say_eq)

lemma result_saves_bind [intro]:
  "(\<And>x. m = Some x \<Longrightarrow> result_saves hw k (f x)) \<Longrightarrow> result_saves hw k (Option.bind m f)"
  by (cases m) simp_all

lemma result_saves_if [intro]:
  "(b \<Longrightarrow> result_saves hw k m) \<Longrightarrow> (\<not> b \<Longrightarrow> result_saves hw k m') \<Longrightarrow> result_saves hw k (if b then m else m')"
  by simp

lemma result_saves_persist [intro]:
  "result_saves hw k (Option.bind (persist_if_enabled hw (k\<lparr>nodes := ns\<rparr>)) (\<lambda>k'. Some (r :: int, k')))"
  by (rule result_saves_bind) (auto elim: saves_persist)

lemma saves_ops:
  "result_saves hw k (create_node t msg hw path k)" "result_saves hw k (fs_delete hw path k)"
  "result_saves hw k (fs_move hw src dest k)" "result_saves hw k (fs_write_file hw path data sz k)"
  unfolding create_node_def fs_delete_def fs_move_def fs_write_file_def Let_def
  by (rule result_saves_persist result_saves_simps(3) result_saves_if result_saves_bind)+

subsection \<open>The filesystem operations on the machine\<close>

text \<open>An operation that refines the tree and saves what it changed keeps the machine well-formed.\<close>

definition refines_to ::
    "'d ports \<Rightarrow> ('d \<Rightarrow> ata_view) \<Rightarrow> nat \<Rightarrow> 'd kernel \<Rightarrow> (int \<times> 'd kernel) option \<Rightarrow> int \<times> fs_tree \<Rightarrow> bool" where
  "refines_to hw view capacity k m spec \<longleftrightarrow>
     (\<exists>r k'. m = Some (r, k') \<and> machine_ok hw view capacity k' \<and> kept k k' \<and> spec = (r, fs_view (nodes k')))"

lemma refines_toI:
  assumes "machine_ok hw view capacity k" "result_saves hw k m"
    and "\<exists>r k'. m = Some (r, k') \<and> fs_ok k' \<and> kept k k' \<and> spec = (r, fs_view (nodes k'))"
  shows "refines_to hw view capacity k m spec"
proof -
  obtain r k' where m: "m = Some (r, k')" "fs_ok k'" "kept k k'" "spec = (r, fs_view (nodes k'))"
    using assms(3) by blast
  have "saves hw k k'" using assms(2) m(1) by (simp add: result_saves_def)
  then have "synced hw view capacity k'"
    using saves_synced machine_okD(7) [OF assms(1)] fs_ok_wf [OF m(2)] by blast
  moreover have "kernel_wf k'"
    using machine_okD [OF assms(1)] m(2,3) by (simp add: kernel_wf_def kept_def)
  ultimately show ?thesis using m unfolding refines_to_def machine_ok_def by blast
qed

lemma create_ok:
  assumes "machine_ok hw view capacity k" "arg_ok path" "target k path = Some cs"
  shows "refines_to hw view capacity k (fs_create_file hw path k) (tree_create (File []) cs (fs_view (nodes k)))"
    and "refines_to hw view capacity k (fs_create_dir hw path k) (tree_create Dir cs (fs_view (nodes k)))"
proof -
  note ok = machine_okD(2) [OF assms(1)]
  show "refines_to hw view capacity k (fs_create_file hw path k) (tree_create (File []) cs (fs_view (nodes k)))"
    using refines_toI [OF assms(1) saves_ops(1) [of hw k FS_FILE "''File already exists''" path]]
      create_node_refines [OF ok assms(2,3), of FS_FILE "''File already exists''" hw]
    unfolding fs_create_file_def entry_of_type_def by auto
  show "refines_to hw view capacity k (fs_create_dir hw path k) (tree_create Dir cs (fs_view (nodes k)))"
    using refines_toI [OF assms(1) saves_ops(1) [of hw k FS_DIR "''Directory already exists''" path]]
      create_node_refines [OF ok assms(2,3), of FS_DIR "''Directory already exists''" hw]
    unfolding fs_create_dir_def entry_of_type_def by auto
qed

lemma write_ok:
  assumes "machine_ok hw view capacity k" "arg_ok path" "target k path = Some cs" "unat sz \<le> length data"
  shows "refines_to hw view capacity k (fs_write_file hw path data sz k)
     (tree_write (take (unat sz) data) cs (fs_view (nodes k)))"
  by (rule refines_toI [OF assms(1) saves_ops(4)])
    (rule fs_write_file_refines [OF machine_okD(2) [OF assms(1)] assms(2-4)])

lemma delete_ok:
  assumes "machine_ok hw view capacity k" "arg_ok path" "target k path = Some cs"
  shows "refines_to hw view capacity k (fs_delete hw path k) (tree_delete cs (fs_view (nodes k)))"
  by (rule refines_toI [OF assms(1) saves_ops(2)])
    (rule fs_delete_refines [OF machine_okD(2) [OF assms(1)] assms(2,3)])

lemma move_ok:
  assumes "machine_ok hw view capacity k" "arg_ok src" "arg_ok dest" "target k src = Some cs"
    "target k dest = Some ds"
    and "fst (tree_move cs ds (fs_view (nodes k))) = 0 \<Longrightarrow> movable cs ds (fs_view (nodes k))"
  shows "refines_to hw view capacity k (fs_move hw src dest k) (tree_move cs ds (fs_view (nodes k)))"
  by (rule refines_toI [OF assms(1) saves_ops(3)])
    (rule fs_move_refines [OF machine_okD(2) [OF assms(1)] assms(2-6)])

lemma copy_ok:
  assumes "machine_ok hw view capacity k" "arg_ok src" "arg_ok dest" "target k src = Some cs"
    "target k dest = Some ds"
  shows "refines_to hw view capacity k (fs_copy hw src dest k) (tree_copy cs ds (fs_view (nodes k)))"
proof -
  obtain r k' where r: "fs_copy hw src dest k = Some (r, k')" "fs_ok k'" "kept k k'"
    "tree_copy cs ds (fs_view (nodes k)) = (r, fs_view (nodes k'))"
    using fs_copy_refines [OF machine_okD(2) [OF assms(1)] assms(2-5)] by blast
  obtain c k1 where c: "fs_create_file hw dest k = Some (c, k1)" "machine_ok hw view capacity k1"
    using create_ok(1) [OF assms(1,3,5)] unfolding refines_to_def by blast
  have "k' = shown ''Source file not found'' k \<or> k' = k1 \<or>
      (\<exists>data sz. fs_write_file hw dest data sz k1 = Some (r, k'))"
    using r(1) c(1) by (auto simp: fs_copy_def bind_Some_iff say_eq split: if_splits)
  then have "synced hw view capacity k'"
  proof (elim disjE exE)
    assume "k' = shown ''Source file not found'' k"
    then show ?thesis using machine_ok_shown [OF assms(1)] by (simp add: machine_ok_def)
  next
    assume "k' = k1" then show ?thesis using c(2) by (simp add: machine_ok_def)
  next
    fix data sz assume "fs_write_file hw dest data sz k1 = Some (r, k')"
    then have "saves hw k1 k'" using saves_ops(4) [of hw k1 dest data sz] by (simp add: result_saves_def)
    then show ?thesis using saves_synced c(2) fs_ok_wf [OF r(2)] unfolding machine_ok_def by blast
  qed
  moreover have "kernel_wf k'"
    using machine_okD [OF assms(1)] r(2,3) by (simp add: kernel_wf_def kept_def)
  ultimately show ?thesis using r unfolding refines_to_def machine_ok_def by blast
qed

text \<open>The current directory, and listing.\<close>

lemma chdir_ok:
  assumes "machine_ok hw view capacity k" "arg_ok path" "target k path = Some cs"
  shows "\<exists>k'. fs_change_dir path k = Some (tree_chdir cs (fs_view (nodes k)), k') \<and>
     machine_ok hw view capacity k' \<and> nodes k' = nodes k \<and> k_users k' = k_users k \<and> k_keys k' = k_keys k \<and>
     cstr (current_dir k') = (if fs_view (nodes k) cs = Some Dir then path_of cs else cstr (current_dir k))"
proof -
  obtain k' where k': "fs_change_dir path k = Some (tree_chdir cs (fs_view (nodes k)), k')" "fs_ok k'"
    "nodes k' = nodes k"
    "cstr (current_dir k') = (if fs_view (nodes k) cs = Some Dir then path_of cs else cstr (current_dir k))"
    using fs_change_dir_refines [OF machine_okD(2) [OF assms(1)] assms(2,3)] by blast
  have "k' = shown ''Directory not found'' k \<or> (\<exists>c. k' = k\<lparr>current_dir := c\<rparr>)"
    using k'(1) by (auto simp: fs_change_dir_def bind_Some_iff say_eq split: if_splits)
  then show ?thesis
  proof (elim disjE exE)
    assume "k' = shown ''Directory not found'' k"
    then show ?thesis using k' machine_ok_shown [OF assms(1)] by (simp add: shown_printed)
  next
    fix c assume c: "k' = k\<lparr>current_dir := c\<rparr>"
    then have "machine_ok hw view capacity k'"
      using assms(1) k'(2) by (simp add: machine_ok_def kernel_wf_def synced_def disk_on_def)
    then show ?thesis using k' c by simp
  qed
qed

lemma list_ok:
  assumes "machine_ok hw view capacity k" "arg_ok path" "target k path = Some cs"
  shows "fs_list_dir path k = Some (if fs_view (nodes k) cs = Some Dir then (0, printed (listing (nodes k) cs) k)
     else (1, shown ''Directory not found'' k))"
  using fs_list_dir_eq [OF machine_okD(2) [OF assms(1)] assms(2,3)] by (simp add: printed_def)

text \<open>Saving and loading.\<close>

lemma save_ok:
  assumes "machine_ok hw view capacity k"
  shows "\<exists>d. fs_disk_save hw k = Some (if has_disk (k_disk k) then 0 else 1, k\<lparr>k_dev := d\<rparr>) \<and>
     machine_ok hw view capacity (k\<lparr>k_dev := d\<rparr>)"
proof (cases "has_disk (k_disk k)")
  case False
  then show ?thesis using assms by (intro exI [of _ "k_dev k"]) (simp add: fs_disk_save_def disk_present_def)
next
  case True
  have on: "tolerant_drive hw view capacity" "3117 \<le> capacity" "drive_ready view (k_dev k)" "persistence_enabled k"
    "\<not> fs_booting k"
    using True machine_okD(7) [OF assms] by (auto simp: synced_def disk_on_def)
  obtain d where d: "fs_disk_save hw k = Some (0, k\<lparr>k_dev := d, persistence_enabled := True\<rparr>)"
    "drive_ready view d" "image_at (drive_sector view d) (raw_of_nodes (nodes k))"
    using disk_save_ok [OF on(1,2) True on(3)] fs_wf_table_shape [OF machine_okD(3) [OF assms]] by blast
  have "k\<lparr>k_dev := d, persistence_enabled := True\<rparr> = k\<lparr>k_dev := d\<rparr>" using on(4) by (cases k) simp
  moreover have "machine_ok hw view capacity (k\<lparr>k_dev := d\<rparr>)"
    using assms on d True by (simp add: machine_ok_def kernel_wf_def fs_ok_def synced_def disk_on_def)
  ultimately show ?thesis using d(1) True by auto
qed

lemma load_ok:
  assumes "machine_ok hw view capacity k"
  shows "\<exists>k'. fs_disk_load hw k = Some (if has_disk (k_disk k) then 0 else 1, k') \<and> machine_ok hw view capacity k' \<and> nodes k' = nodes k \<and>
     k_keys k' = k_keys k \<and> k_users k' = k_users k \<and>
     cstr (current_dir k') = (if has_disk (k_disk k) then path_of [] else cstr (current_dir k))"
proof (cases "has_disk (k_disk k)")
  case False
  then show ?thesis using assms by (simp add: fs_disk_load_def disk_present_def)
next
  case True
  have on: "tolerant_drive hw view capacity" "3117 \<le> capacity" "drive_ready view (k_dev k)" "persistence_enabled k"
    "\<not> fs_booting k" "image_at (drive_sector view (k_dev k)) (raw_of_nodes (nodes k))"
    using True machine_okD(7) [OF assms] by (auto simp: synced_def disk_on_def)
  note shape = fs_wf_table_shape [OF machine_okD(3) [OF assms]]
  have len: "length (current_dir k) = 128"
    using machine_okD(2) [OF assms] by (simp add: fs_ok_def FS_MAX_PATH_def)
  obtain d where d: "fs_disk_load hw k = Some (0, k\<lparr>k_dev := d, nodes := nodes k,
       current_dir := slash # 0 # drop 2 (current_dir k), persistence_enabled := True\<rparr>)"
    "drive_ready view d" "drive_sector view d = drive_sector view (k_dev k)"
    using disk_load_ok [OF on(1,2) True on(3) shape _ shape on(6)] len by auto
  have "comps_ok []" "path_of [] = [slash]" by (simp_all add: comps_ok_def)
  then have "fs_ok (k\<lparr>k_dev := d, nodes := nodes k, current_dir := slash # 0 # drop 2 (current_dir k),
      persistence_enabled := True\<rparr>)"
    using machine_okD(3) [OF assms] len by (auto simp: fs_ok_def FS_MAX_PATH_def)
  then show ?thesis
    using d on True machine_okD [OF assms]
    by (auto simp: machine_ok_def kernel_wf_def synced_def disk_on_def)
qed

end
