(* ===== verification/Kernel_Commands.thy ===== *)
theory Kernel_Commands
  imports Kernel_Machine
begin

section \<open>What the commands do\<close>

text \<open>
  Every command on a well-formed machine, as an equation or a refinement of the tree: the text it
  prints, its return code, its effect on tree and users.  \<open>returns\<close> says that a command comes back
  with 0 or 1 to a machine that is well-formed again, has read no keys, and has changed the accounts
  only if an administrator was logged in (\<open>accounts_guarded\<close>).
\<close>

definition accounts_guarded :: "users_state \<Rightarrow> users_state \<Rightarrow> bool" where
  "accounts_guarded s s' \<longleftrightarrow> users_view s' = users_view s \<or> users_current_is_admin s \<noteq> Some 0"

lemma accounts_guarded_refl [simp]: "accounts_guarded s s"
  by (simp add: accounts_guarded_def)

definition returns :: "'d ports \<Rightarrow> ('d \<Rightarrow> ata_view) \<Rightarrow> nat \<Rightarrow> 'd kernel \<Rightarrow> (int \<times> 'd kernel) option \<Rightarrow> bool" where
  "returns hw view capacity k m \<longleftrightarrow>
     (\<exists>r k'. m = Some (r, k') \<and> r \<in> {0, 1} \<and> machine_ok hw view capacity k' \<and> k_keys k' = k_keys k \<and>
        accounts_guarded (k_users k) (k_users k'))"

lemma returns_refines:
  assumes "refines_to hw view capacity k m spec" "fst spec \<in> {0, 1}"
  shows "returns hw view capacity k m"
  using assms unfolding refines_to_def returns_def by (auto simp: kept_def)

lemma returns_shown [simp]:
  "machine_ok hw view capacity k \<Longrightarrow> r \<in> {0, 1} \<Longrightarrow> returns hw view capacity k (Some (r, shown msg k))"
  by (simp add: returns_def shown_printed)

lemma returns_printed [simp]:
  "machine_ok hw view capacity k \<Longrightarrow> r \<in> {0, 1} \<Longrightarrow> returns hw view capacity k (Some (r, printed xs k))"
  by (simp add: returns_def)

lemma returns_cong_keys:
  "k_keys k = k_keys k2 \<Longrightarrow> k_users k = k_users k2 \<Longrightarrow> returns hw view capacity k m = returns hw view capacity k2 m"
  by (simp add: returns_def)

lemma tree_codes [simp]:
  "fst (tree_create e cs v) \<in> {0, 1}" "fst (tree_write c cs v) \<in> {0, 1}" "fst (tree_delete cs v) \<in> {0, 1}"
  "fst (tree_move cs ds v) \<in> {0, 1}" "fst (tree_copy cs ds v) \<in> {0, 1}" "tree_chdir cs v \<in> {0, 1}"
  by (simp_all add: tree_create_def tree_write_def tree_delete_def tree_move_def tree_copy_def tree_chdir_def
      Let_def split: option.splits fs_entry.splits prod.splits)

subsection \<open>The arguments of a command\<close>

definition args_ok :: "cbuf list \<Rightarrow> bool" where
  "args_ok argv \<longleftrightarrow> argv \<noteq> [] \<and> (\<forall>a \<in> set argv. terminated a)"

lemma args_ok_nth: "args_ok argv \<Longrightarrow> i < length argv \<Longrightarrow> terminated (argv ! i)"
  by (simp add: args_ok_def)

text \<open>The calls within the limits of the kernel's arrays: every path that is resolved fits the arrays of
  \<open>fs_resolve_path\<close>, a move that is carried out is \<open>movable\<close>, and the text of a write that gets as far as
  its text fits the array.\<close>

fun join_words :: "byte list list \<Rightarrow> byte list" where
  "join_words [] = []"
| "join_words [w] = w"
| "join_words (w # ws) = w @ 0x20 # join_words ws"

definition is_file_at :: "fs_tree \<Rightarrow> byte list list \<Rightarrow> bool" where
  "is_file_at v cs \<longleftrightarrow> (case v cs of Some (File _) \<Rightarrow> True | _ \<Rightarrow> False)"

definition write_reaches :: "byte list list \<Rightarrow> fs_tree \<Rightarrow> bool" where
  "write_reaches cs v \<longleftrightarrow> v cs \<noteq> None \<or> fst (tree_create (File []) cs v) = 0"

definition copy_limits :: "cbuf \<Rightarrow> cbuf \<Rightarrow> 'd kernel \<Rightarrow> bool" where
  "copy_limits a b k \<longleftrightarrow> (case target k (Some a) of
     None \<Rightarrow> False
   | Some cs \<Rightarrow> is_file_at (fs_view (nodes k)) cs \<longrightarrow> target k (Some b) \<noteq> None)"

definition move_limits :: "cbuf \<Rightarrow> cbuf \<Rightarrow> 'd kernel \<Rightarrow> bool" where
  "move_limits a b k \<longleftrightarrow> (case (target k (Some a), target k (Some b)) of
     (Some cs, Some ds) \<Rightarrow>
       fst (tree_move cs ds (fs_view (nodes k))) = 0 \<longrightarrow> movable cs ds (fs_view (nodes k))
   | _ \<Rightarrow> False)"

definition write_limits :: "cbuf \<Rightarrow> byte list \<Rightarrow> 'd kernel \<Rightarrow> bool" where
  "write_limits a content k \<longleftrightarrow> (case target k (Some a) of
     None \<Rightarrow> False
   | Some cs \<Rightarrow> write_reaches cs (fs_view (nodes k)) \<longrightarrow> length content < 4095)"

definition in_limits :: "prog_main \<Rightarrow> cbuf list \<Rightarrow> 'd kernel \<Rightarrow> bool" where
  "in_limits m argv k \<longleftrightarrow>
     (if m \<in> {Prog_Cat, Prog_Cd, Prog_Del, Prog_Ls, Prog_Mkdir, Prog_Touch}
      then length argv < 2 \<or> target k (Some (argv ! 1)) \<noteq> None
      else if m = Prog_Copy then length argv < 3 \<or> copy_limits (argv ! 1) (argv ! 2) k
      else if m = Prog_Move then length argv < 3 \<or> move_limits (argv ! 1) (argv ! 2) k
      else if m = Prog_Write then length argv < 3 \<or> write_limits (argv ! 1) (join_words (map cstr (drop 2 argv))) k
      else True)"

lemma one_path:
  assumes "in_limits m argv k" "2 \<le> length argv" "m \<in> {Prog_Cat, Prog_Cd, Prog_Del, Prog_Ls, Prog_Mkdir, Prog_Touch}"
  obtains cs where "target k (Some (argv ! 1)) = Some cs"
  using assms by (auto simp: in_limits_def split: if_splits)

subsection \<open>Files and directories\<close>

lemma fs_copy_no_source:
  assumes "fs_ok k" "arg_ok src" "target k src = Some cs" "\<not> is_file_at (fs_view (nodes k)) cs"
  shows "fs_copy hw src dest k = Some (1, shown ''Source file not found'' k)"
proof -
  obtain r where r: "resolve src k = Some r" "find_node (nodes k) r = Some (index_or_minus1 (slot_of (nodes k) cs))"
    using path_query [OF assms(1-3)] by metis
  have "\<nexists>d. fs_view (nodes k) cs = Some (File d)" using assms(4) by (auto simp: is_file_at_def)
  then show ?thesis using r found_type_eq(2) [OF fs_ok_wf [OF assms(1)], of cs] by (simp add: fs_copy_def say_eq)
qed

lemma path_op_returns:
  assumes "machine_ok hw view capacity k" "arg_ok path" "target k path = Some cs"
  shows "returns hw view capacity k (fs_create_file hw path k)"
    and "returns hw view capacity k (fs_create_dir hw path k)"
    and "returns hw view capacity k (fs_delete hw path k)"
    and "returns hw view capacity k (fs_change_dir path k)"
    and "returns hw view capacity k (fs_list_dir path k)"
proof -
  note r = returns_refines
  show "returns hw view capacity k (fs_create_file hw path k)" "returns hw view capacity k (fs_create_dir hw path k)"
    "returns hw view capacity k (fs_delete hw path k)"
    by (rule r [OF create_ok(1) [OF assms] tree_codes(1)] r [OF create_ok(2) [OF assms] tree_codes(1)]
        r [OF delete_ok [OF assms] tree_codes(3)])+
  show "returns hw view capacity k (fs_change_dir path k)"
    using chdir_ok [OF assms] tree_codes(6) unfolding returns_def by (metis accounts_guarded_refl)
  show "returns hw view capacity k (fs_list_dir path k)" using list_ok [OF assms] assms(1) by simp
qed

lemmas op_returns = path_op_returns [where path = "Some a" for a, unfolded arg_simps]

lemma copy_returns:
  assumes ok: "machine_ok hw view capacity k" and ab: "terminated a" "terminated b" "copy_limits a b k"
  shows "returns hw view capacity k (fs_copy hw (Some a) (Some b) k)"
proof -
  obtain cs where cs: "target k (Some a) = Some cs" "is_file_at (fs_view (nodes k)) cs \<Longrightarrow> target k (Some b) \<noteq> None"
    using ab(3) by (auto simp: copy_limits_def split: option.splits)
  show ?thesis
  proof (cases "is_file_at (fs_view (nodes k)) cs")
    case True
    then obtain ds where "target k (Some b) = Some ds" using cs(2) by auto
    then show ?thesis using returns_refines [OF copy_ok [OF ok _ _ cs(1)] tree_codes(5)] ab(1,2) by simp
  next
    case False
    then have "fs_copy hw (Some a) (Some b) k = Some (1, shown ''Source file not found'' k)"
      by (rule fs_copy_no_source [OF machine_okD(2) [OF ok] _ cs(1), rotated]) (use ab(1) in simp)
    then show ?thesis using ok by simp
  qed
qed

lemma move_returns:
  assumes ok: "machine_ok hw view capacity k" and ab: "terminated a" "terminated b" "move_limits a b k"
  shows "returns hw view capacity k (fs_move hw (Some a) (Some b) k)"
proof -
  obtain cs ds where cs: "target k (Some a) = Some cs" "target k (Some b) = Some ds"
    "fst (tree_move cs ds (fs_view (nodes k))) = 0 \<Longrightarrow> movable cs ds (fs_view (nodes k))"
    using ab(3) by (auto simp: move_limits_def split: option.splits)
  show ?thesis using returns_refines [OF move_ok [OF ok _ _ cs(1,2,3)] tree_codes(4)] ab(1,2) by simp
qed

lemma file_commands_return:
  assumes ok: "machine_ok hw view capacity k" and args: "args_ok argv"
  shows "in_limits Prog_Del argv k \<Longrightarrow> returns hw view capacity k (prog_del hw argv k)"
    and "in_limits Prog_Mkdir argv k \<Longrightarrow> returns hw view capacity k (prog_mkdir hw argv k)"
    and "in_limits Prog_Touch argv k \<Longrightarrow> returns hw view capacity k (prog_touch hw argv k)"
proof -
  have one: "\<exists>cs. terminated (argv ! 1) \<and> target k (Some (argv ! 1)) = Some cs"
    if "in_limits m argv k" "\<not> length argv < 2" "m \<in> {Prog_Del, Prog_Mkdir, Prog_Touch}" for m
    using one_path [OF that(1)] that(2,3) args_ok_nth [OF args, of 1] by auto
  show "in_limits Prog_Del argv k \<Longrightarrow> returns hw view capacity k (prog_del hw argv k)"
    using op_returns(3) [OF ok] one [of Prog_Del] by (auto simp: prog_del_def kc_eqs kc_say_eq ok)
  show "in_limits Prog_Mkdir argv k \<Longrightarrow> returns hw view capacity k (prog_mkdir hw argv k)"
    using op_returns(2) [OF ok] one [of Prog_Mkdir] by (auto simp: prog_mkdir_def kc_eqs kc_say_eq ok)
  show "in_limits Prog_Touch argv k \<Longrightarrow> returns hw view capacity k (prog_touch hw argv k)"
    using op_returns(1) [OF ok] one [of Prog_Touch] by (auto simp: prog_touch_def kc_eqs kc_say_eq ok)
qed

lemma slash_target: "target k (Some (lit ''/'')) = Some []" "terminated (lit ''/'')"
proof -
  have "comps_ok []" "cstr (lit ''/'') = path_of []" "length (cstr (lit ''/'')) < 128"
    by (simp_all add: comps_ok_def)
  then show "target k (Some (lit ''/'')) = Some []" by (rule target_path_of)
qed simp

lemma cwd_target:
  assumes "fs_ok k"
  shows "\<exists>cs. target k (Some (current_dir k)) = Some cs"
proof -
  obtain cwd where "comps_ok cwd" "cstr (current_dir k) = path_of cwd" "terminated (current_dir k)"
    "length (current_dir k) = 128"
    using assms by (auto simp: fs_ok_def FS_MAX_PATH_def)
  then show ?thesis using target_path_of [of cwd "current_dir k" k] terminated_iff_length by auto
qed

lemma dir_commands_return:
  assumes ok: "machine_ok hw view capacity k" and args: "args_ok argv"
  shows "in_limits Prog_Cd argv k \<Longrightarrow> returns hw view capacity k (prog_cd hw argv k)"
    and "in_limits Prog_Ls argv k \<Longrightarrow> returns hw view capacity k (prog_ls hw argv k)"
    and "returns hw view capacity k (prog_pwd hw argv k)"
proof -
  have one: "\<exists>cs. terminated (argv ! 1) \<and> target k (Some (argv ! 1)) = Some cs"
    if "in_limits m argv k" "\<not> length argv < 2" "m \<in> {Prog_Cd, Prog_Ls}" for m
    using one_path [OF that(1)] that(2,3) args_ok_nth [OF args, of 1] by auto
  show "in_limits Prog_Cd argv k \<Longrightarrow> returns hw view capacity k (prog_cd hw argv k)"
    using op_returns(4) [OF ok] one [of Prog_Cd] op_returns(4) [OF ok slash_target(2,1)]
    by (auto simp: prog_cd_def kc_eqs)
  obtain cs where "target k (Some (current_dir k)) = Some cs" using cwd_target [OF machine_okD(2) [OF ok]] by blast
  then show "in_limits Prog_Ls argv k \<Longrightarrow> returns hw view capacity k (prog_ls hw argv k)"
    using op_returns(5) [OF ok] one [of Prog_Ls] machine_okD(8) [OF ok]
    by (auto simp: prog_ls_def kc_eqs)
  show "returns hw view capacity k (prog_pwd hw argv k)"
    using machine_okD(8) [OF ok] by (simp add: prog_pwd_def kc_eqs kprintln_printed ok)
qed

lemma two_path_commands_return:
  assumes ok: "machine_ok hw view capacity k" and args: "args_ok argv"
  shows "in_limits Prog_Copy argv k \<Longrightarrow> returns hw view capacity k (prog_copy hw argv k)"
    and "in_limits Prog_Move argv k \<Longrightarrow> returns hw view capacity k (prog_move hw argv k)"
proof -
  have two: "terminated (argv ! 1) \<and> terminated (argv ! 2)" if "\<not> length argv < 3"
    using that args_ok_nth [OF args, of 1] args_ok_nth [OF args, of 2] by auto
  show "in_limits Prog_Copy argv k \<Longrightarrow> returns hw view capacity k (prog_copy hw argv k)"
    using copy_returns [OF ok] two
    by (auto simp: prog_copy_def kc_eqs kc_say_eq ok in_limits_def numeral_2_eq_2 numeral_3_eq_3)
  show "in_limits Prog_Move argv k \<Longrightarrow> returns hw view capacity k (prog_move hw argv k)"
    using move_returns [OF ok] two
    by (auto simp: prog_move_def kc_eqs kc_say_eq ok in_limits_def numeral_2_eq_2 numeral_3_eq_3)
qed

subsection \<open>Showing and writing files\<close>

definition cat_text :: "byte list \<Rightarrow> byte list" where
  "cat_text content =
     takeWhile (\<lambda>c. c \<noteq> 0) content @ (if content = [] \<or> last content \<noteq> 0x0A then [0x0A] else [])"

lemma view_file_length:
  assumes "fs_wf ns" "fs_view ns cs = Some (File content)"
  shows "length content \<le> 4096"
proof -
  obtain i where "content = take (unat (nd_size (ns ! i))) (nd_data (ns ! i))"
    "unat (nd_size (ns ! i)) \<le> FS_MAX_FILE_SIZE"
    using file_slot [OF assms] by metis
  then show ?thesis by (simp add: FS_MAX_FILE_SIZE_def)
qed

lemma prog_cat_eq:
  assumes ok: "machine_ok hw view capacity k" and args: "args_ok argv" "2 \<le> length argv"
    and cs: "target k (Some (argv ! 1)) = Some cs"
  shows "prog_cat hw argv k = Some
     (case fs_view (nodes k) cs of
        Some (File content) \<Rightarrow> (0, printed (cat_text content) k)
      | _ \<Rightarrow> (1, shown ''File not found'' k))"
proof -
  have a: "terminated (argv ! 1)" "rd argv 1 = Some (argv ! 1)"
    using args args_ok_nth [OF args(1), of 1] by auto
  note read = fs_read_file_eq [OF machine_okD(2) [OF ok] _ cs, of 4096 "fresh 4097"]
  show ?thesis
  proof (cases "\<exists>content. fs_view (nodes k) cs = Some (File content)")
    case False
    then have "fs_read_file (Some (argv ! 1)) (fresh 4097) 4096 k = Some (- 1, fresh 4097)"
      using read a(1) by (auto simp: length_fresh split: option.splits fs_entry.splits)
    then have "prog_cat hw argv k = Some (1, shown ''File not found'' k)"
      using a args(2) by (simp add: prog_cat_def kc_eqs kc_say_eq)
    then show ?thesis using False by (auto split: option.splits fs_entry.splits)
  next
    case True
    then obtain content where v: "fs_view (nodes k) cs = Some (File content)" by blast
    have len: "length content \<le> 4096" using view_file_length [OF machine_okD(3) [OF ok] v] .
    let ?b = "content @ drop (length content) (fresh 4097)"
    have r: "fs_read_file (Some (argv ! 1)) (fresh 4097) 4096 k = Some (int (length content), ?b)"
      using read a(1) v len by (simp add: length_fresh Let_def)
    let ?b1 = "content @ 0 # drop (Suc (length content)) (fresh 4097)"
    have w: "wr ?b (length content) 0 = Some ?b1"
      using len by (simp add: wr_def length_fresh list_update_append Cons_nth_drop_Suc [symmetric])
    have t: "terminated ?b1" by (rule terminated_append_zero)
    have "cstr (content @ 0 # ys) = takeWhile (\<lambda>c. c \<noteq> 0) content" for ys
      by (induction content) auto
    then have c: "cstr ?b1 = takeWhile (\<lambda>c. c \<noteq> 0) content" .
    have last: "rd ?b1 (nat (int (length content)) - 1) = Some (last content)" if "content \<noteq> []"
      using that by (simp add: rd_def nth_append last_conv_nth)
    show ?thesis
    proof (cases "content = []")
      case True
      then show ?thesis
        using a args(2) r w t c v
        by (simp add: prog_cat_def kc_eqs kc_say_eq kprint_printed cat_text_def shown_printed list_literals)
    next
      case False
      then show ?thesis
        using a args(2) r w t c v last
        by (simp add: prog_cat_def kc_eqs kc_say_eq kprint_printed cat_text_def shown_printed list_literals)
    qed
  qed
qed

lemma strcat_ok:
  assumes "terminated buf" "terminated w" "length (cstr buf) + length (cstr w) < length buf"
  obtains buf' where "str_concat buf (Some w) = Some buf'" "terminated buf'" "length buf' = length buf"
    "cstr buf' = cstr buf @ cstr w"
proof -
  obtain t where t: "put_str buf (cstr buf @ cstr w) = Some t"
    using assms(3) by (simp add: put_str_def)
  have "0 \<notin> set (cstr buf @ cstr w)" by simp
  then show ?thesis
    using that [of t] assms t put_str_cstr [OF t] put_str_terminated [OF t] put_str_length [OF t]
    by (simp add: str_concat_eq)
qed

lemma write_words_eq:
  "\<forall>w \<in> set ws. terminated w \<Longrightarrow> terminated buf \<Longrightarrow> length buf = 4096 \<Longrightarrow>
   length (cstr buf) + length (join_words (map cstr ws)) < 4096 \<Longrightarrow>
   \<exists>buf'. (\<forall>k. write_words_loop hw ws buf k = Some (buf', k)) \<and> terminated buf' \<and> length buf' = 4096 \<and>
     cstr buf' = cstr buf @ join_words (map cstr ws)"
proof (induction ws arbitrary: buf)
  case (Cons w ws)
  have bl: "cstr (lit '' '') = [0x20]" by (simp add: lit_def bytes_of_def)
  show ?case
  proof (cases "ws = []")
    case True
    obtain t where "str_concat buf (Some w) = Some t" "terminated t" "length t = 4096"
      "cstr t = cstr buf @ cstr w"
      using strcat_ok [of buf w] Cons.prems True by auto
    then show ?thesis using True by (simp add: kc_strings)
  next
    case False
    then obtain v vs where vs: "ws = v # vs" by (cases ws) auto
    have len: "length (cstr buf) + (length (cstr w) + Suc (length (join_words (map cstr ws)))) < 4096"
      using Cons.prems(4) by (simp add: vs)
    obtain t where t: "str_concat buf (Some w) = Some t" "terminated t" "length t = 4096"
      "cstr t = cstr buf @ cstr w"
      using strcat_ok [of buf w] Cons.prems len by auto
    obtain t' where t': "str_concat t (Some (lit '' '')) = Some t'" "terminated t'" "length t' = 4096"
      "cstr t' = cstr t @ [0x20]"
      using strcat_ok [of t "lit '' ''"] t len bl by auto
    obtain t'' where "\<forall>k. write_words_loop hw ws t' k = Some (t'', k)" "terminated t''" "length t'' = 4096"
      "cstr t'' = cstr t' @ join_words (map cstr ws)"
      using Cons.IH [of t'] Cons.prems(1) t t' len by auto
    then show ?thesis using False t t' vs by (simp add: kc_strings)
  qed
qed simp

definition tree_write_text :: "byte list \<Rightarrow> byte list list \<Rightarrow> fs_tree \<Rightarrow> int \<times> fs_tree" where
  "tree_write_text content cs v =
     (if v cs = None
      then (let (r, v1) = tree_create (File []) cs v in if r \<noteq> 0 then (r, v1) else tree_write content cs v1)
      else tree_write content cs v)"

text \<open>The command starts from an empty text, and a text that fits is handed over with its length.\<close>

lemma write_start:
  obtains t0 where "wr (fresh 4096) 0 0 = Some t0" "terminated t0" "length t0 = 4096" "cstr t0 = []"
proof -
  have "wr (fresh 4096) 0 0 = Some ((fresh 4096)[0 := 0])" "terminated ((fresh 4096)[0 := 0])"
    "length ((fresh 4096)[0 := 0]) = 4096" "cstr ((fresh 4096)[0 := 0]) = []"
    by (simp_all add: fresh_def cstr_def terminated_def numeral_eq_Suc)
  then show ?thesis by (rule that)
qed

lemma write_text:
  assumes ws: "\<forall>w \<in> set ws. terminated w" and fits: "length (join_words (map cstr ws)) < 4095"
    and t0: "terminated t0" "length t0 = 4096" "cstr t0 = []"
  obtains t2 n where "take (unat n) t2 = join_words (map cstr ws) @ [0x0A]" "unat n \<le> length t2"
    "\<And>k. do { (txt1, k3) \<leftarrow> write_words_loop hw ws t0 k;
         (txt2, k4) \<leftarrow> kc_strcat hw txt1 (Some (lit [CHR 0x0A])) k3;
         (m, k5) \<leftarrow> kc_strlen hw (Some txt2) k4;
         kc_fs_write hw path txt2 m k5 } = fs_write_file hw path t2 n k"
proof -
  let ?text = "join_words (map cstr ws) @ [0x0A]"
  have nl: "cstr (lit [CHR 0x0A]) = [0x0A]" by (simp add: lit_def bytes_of_def)
  obtain t1 where t1: "\<forall>k. write_words_loop hw ws t0 k = Some (t1, k)" "terminated t1"
    "length t1 = 4096" "cstr t1 = join_words (map cstr ws)"
    using write_words_eq [OF ws t0(1,2)] t0(3) fits by auto
  obtain t2 where t2: "str_concat t1 (Some (lit [CHR 0x0A])) = Some t2" "terminated t2" "length t2 = 4096"
    "cstr t2 = ?text"
    using strcat_ok [of t1 "lit [CHR 0x0A]"] t1 nl fits by auto
  define n :: "32 word" where "n = of_nat (length ?text)"
  have u: "x < 2 ^ 32 \<Longrightarrow> unat (of_nat x :: 32 word) = x" for x by (simp add: unat_of_nat)
  have n: "unat n = length ?text" unfolding n_def by (rule u) (use fits in simp)
  have "take (unat n) t2 = ?text"
    unfolding n using take_cstr [of "length ?text" t2] t2(4) by (metis order_refl take_all)
  moreover have "unat n \<le> length t2" using n t2(3) fits by simp
  moreover have "str_len (Some t2) = Some (length ?text)" using t2 by (simp add: str_len_Some)
  ultimately show ?thesis using that [of n t2] t1(1) t2(1) by (simp add: kc_eqs n_def)
qed

lemma prog_write_refines:
  assumes ok: "machine_ok hw view capacity k" and args: "args_ok argv" "3 \<le> length argv"
    and cs: "target k (Some (argv ! 1)) = Some cs"
    and fits: "length (join_words (map cstr (drop 2 argv))) < 4095"
  shows "refines_to hw view capacity k (prog_write hw argv k)
     (tree_write_text (join_words (map cstr (drop 2 argv)) @ [0x0A]) cs (fs_view (nodes k)))"
proof -
  let ?text = "join_words (map cstr (drop 2 argv)) @ [0x0A]"
  have a: "rd argv 1 = Some (argv ! 1)" and ao: "arg_ok (Some (argv ! 1))"
    using args args_ok_nth [OF args(1), of 1] by auto
  obtain t0 where t0: "wr (fresh 4096) 0 0 = Some t0" "terminated t0" "length t0 = 4096" "cstr t0 = []"
    by (rule write_start)
  have ws: "\<forall>w \<in> set (drop 2 argv). terminated w"
    using args(1) unfolding args_ok_def by (meson in_set_dropD)
  obtain t2 n where data: "take (unat n) t2 = ?text" "unat n \<le> length t2"
    and fin: "\<And>k'. do { (txt1, k3) \<leftarrow> write_words_loop hw (drop 2 argv) t0 k';
         (txt2, k4) \<leftarrow> kc_strcat hw txt1 (Some (lit [CHR 0x0A])) k3;
         (m, k5) \<leftarrow> kc_strlen hw (Some txt2) k4;
         kc_fs_write hw (Some (argv ! 1)) txt2 m k5 } = fs_write_file hw (Some (argv ! 1)) t2 n k'"
    by (rule write_text [OF ws fits t0(2-4)]) blast
  note run = prog_write_def kc_fs_exists_eq
  show ?thesis
  proof (cases "fs_view (nodes k) cs = None")
    case False
    have "prog_write hw argv k = fs_write_file hw (Some (argv ! 1)) t2 n k"
      using args(2) a t0(1) fs_exists_eq [OF machine_okD(2) [OF ok] ao cs] False fin by (simp add: run)
    moreover have "tree_write_text ?text cs (fs_view (nodes k)) = tree_write ?text cs (fs_view (nodes k))"
      using False by (simp only: tree_write_text_def if_False)
    ultimately show ?thesis using write_ok [OF ok ao cs data(2)] data(1) by simp
  next
    case True
    obtain r k1 where c: "fs_create_file hw (Some (argv ! 1)) k = Some (r, k1)" "machine_ok hw view capacity k1"
      "kept k k1" "tree_create (File []) cs (fs_view (nodes k)) = (r, fs_view (nodes k1))"
      using create_ok(1) [OF ok ao cs] unfolding refines_to_def by blast
    have pw: "prog_write hw argv k = (if r \<noteq> 0 then Some (r, k1) else fs_write_file hw (Some (argv ! 1)) t2 n k1)"
      using args(2) a t0(1) fs_exists_eq [OF machine_okD(2) [OF ok] ao cs] True fin c(1)
      by (simp add: run kc_fs(5))
    have "target k1 (Some (argv ! 1)) = Some cs" using target_cong [OF c(3)] cs by simp
    then have "refines_to hw view capacity k1 (fs_write_file hw (Some (argv ! 1)) t2 n k1)
        (tree_write ?text cs (fs_view (nodes k1)))"
      using write_ok [OF c(2) ao _ data(2)] data(1) by simp
    then show ?thesis
      using pw c True kept_trans unfolding refines_to_def
      by (cases "r = 0") (auto simp: tree_write_text_def)
  qed
qed


text \<open>When the file cannot be created, the text is not built.\<close>

lemma prog_write_refused:
  assumes ok: "machine_ok hw view capacity k" and args: "args_ok argv" "3 \<le> length argv"
    and cs: "target k (Some (argv ! 1)) = Some cs" "\<not> write_reaches cs (fs_view (nodes k))"
  shows "refines_to hw view capacity k (prog_write hw argv k) (tree_create (File []) cs (fs_view (nodes k)))"
proof -
  have a: "arg_ok (Some (argv ! 1))" "rd argv 1 = Some (argv ! 1)" using args args_ok_nth [OF args(1), of 1] by auto
  have c: "refines_to hw view capacity k (fs_create_file hw (Some (argv ! 1)) k) (tree_create (File []) cs (fs_view (nodes k)))"
    by (rule create_ok(1) [OF ok a(1) cs(1)])
  obtain r k1 where r: "fs_create_file hw (Some (argv ! 1)) k = Some (r, k1)" "r \<noteq> 0"
    using c cs(2) unfolding refines_to_def write_reaches_def by fastforce
  have "fs_exists (Some (argv ! 1)) k = Some False"
    using fs_exists_eq [OF machine_okD(2) [OF ok] a(1) cs(1)] cs(2) by (simp add: write_reaches_def)
  moreover have "wr (fresh 4096) 0 0 = Some ((fresh 4096)[0 := 0])" by (simp add: length_fresh)
  ultimately have "prog_write hw argv k = fs_create_file hw (Some (argv ! 1)) k"
    using args(2) a(2) r by (simp add: prog_write_def kc_fs_exists_eq kc_fs(5))
  then show ?thesis using c by simp
qed

lemma tree_write_text_code: "fst (tree_write_text c cs v) \<in> {0, 1}"
  using tree_codes(1) [of "File []" cs v] tree_codes(2)
  by (auto simp: tree_write_text_def Let_def split: prod.split)

lemma text_commands_return:
  assumes ok: "machine_ok hw view capacity k" and args: "args_ok argv"
  shows "in_limits Prog_Cat argv k \<Longrightarrow> returns hw view capacity k (prog_cat hw argv k)"
    and "in_limits Prog_Write argv k \<Longrightarrow> returns hw view capacity k (prog_write hw argv k)"
proof -
  show "returns hw view capacity k (prog_cat hw argv k)" if lim: "in_limits Prog_Cat argv k"
  proof (cases "length argv < 2")
    case True
    then show ?thesis using ok by (simp add: prog_cat_def kc_say_eq)
  next
    case False
    then obtain cs where "target k (Some (argv ! 1)) = Some cs" using one_path [OF lim] by auto
    then show ?thesis
      using prog_cat_eq [OF ok args] False ok by (simp split: option.split fs_entry.split)
  qed
  show "returns hw view capacity k (prog_write hw argv k)" if lim: "in_limits Prog_Write argv k"
  proof (cases "length argv < 3")
    case True
    then show ?thesis using ok by (simp add: prog_write_def kc_say_eq length_fresh)
  next
    case False
    then obtain cs where cs: "target k (Some (argv ! 1)) = Some cs"
      "write_reaches cs (fs_view (nodes k)) \<Longrightarrow> length (join_words (map cstr (drop 2 argv))) < 4095"
      using lim by (auto simp: in_limits_def write_limits_def split: option.splits)
    show ?thesis
    proof (cases "write_reaches cs (fs_view (nodes k))")
      case True
      then show ?thesis
        using returns_refines [OF prog_write_refines [OF ok args _ cs(1)] tree_write_text_code] cs(2) False by simp
    next
      case no: False
      show ?thesis using returns_refines [OF prog_write_refused [OF ok args _ cs(1) no] tree_codes(1)] False by simp
    qed
  qed
qed

subsection \<open>Messages\<close>

lemma join_words_Cons: "ws \<noteq> [] \<Longrightarrow> join_words (w # ws) = w @ 0x20 # join_words ws"
  by (cases ws) simp_all

lemma echo_loop_eq:
  "\<forall>w \<in> set ws. terminated w \<Longrightarrow> echo_loop hw ws k = Some (printed (join_words (map cstr ws)) k)"
proof (induction ws arbitrary: k)
  case (Cons w ws)
  have bl: "cstr (lit '' '') = [0x20]" by (simp add: lit_def bytes_of_def)
  show ?case
  proof (cases "ws = []")
    case True
    then show ?thesis using Cons.prems by (simp add: print_eqs)
  next
    case False
    then show ?thesis using Cons bl by (simp add: print_eqs join_words_Cons)
  qed
qed simp

lemma prog_echo_eq:
  assumes "args_ok argv"
  shows "prog_echo hw argv k = Some (0, printed (join_words (map cstr (tl argv)) @ [0x0A]) k)"
proof -
  have "\<forall>w \<in> set (tl argv). terminated w" using assms by (cases argv) (auto simp: args_ok_def)
  then show ?thesis
    by (simp add: prog_echo_def echo_loop_eq kc_say_eq shown_printed list_literals drop_Suc)
qed

definition help_line :: "program \<Rightarrow> byte list" where
  "help_line p = bytes_of ''  '' @ cstr (pr_name p) @ bytes_of '' - '' @ cstr (pr_help p) @ [0x0A]"

lemma help_loop_eq:
  "\<forall>p \<in> set ps. terminated (pr_name p) \<and> terminated (pr_help p) \<Longrightarrow>
   help_loop hw ps k = Some (printed (concat (map help_line (filter pr_visible ps))) k)"
proof (induction ps arbitrary: k)
  case (Cons p ps)
  have l: "cstr (lit ''  '') = bytes_of ''  ''" "cstr (lit '' - '') = bytes_of '' - ''"
    by (simp_all add: lit_def bytes_of_def)
  show ?case using Cons l by (simp add: print_eqs help_line_def)
qed simp

lemma programs_terminated: "p \<in> set programs \<Longrightarrow> terminated (pr_name p) \<and> terminated (pr_help p)"
  by (auto simp: programs_def program_entry_def)

lemma message_commands_return:
  assumes ok: "machine_ok hw view capacity k" and args: "args_ok argv"
  shows "returns hw view capacity k (prog_echo hw argv k)" "returns hw view capacity k (prog_about hw argv k)"
    "returns hw view capacity k (prog_help hw argv k)" "returns hw view capacity k (prog_clear hw argv k)"
proof -
  show "returns hw view capacity k (prog_echo hw argv k)" using ok by (simp add: prog_echo_eq [OF args])
  show "returns hw view capacity k (prog_about hw argv k)"
    using ok by (simp add: prog_about_def kc_say_eq shown_printed)
  have "\<forall>p \<in> set programs. terminated (pr_name p) \<and> terminated (pr_help p)" using programs_terminated by blast
  note h = help_loop_eq [OF this]
  show "returns hw view capacity k (prog_help hw argv k)"
    using ok by (simp add: prog_help_def kc_say_eq shown_printed programs_all_def h)
  show "returns hw view capacity k (prog_clear hw argv k)"
    using machine_ok_term [OF ok term_wf_io_clear_screen [OF machine_okD(5) [OF ok]]]
    by (simp add: prog_clear_def kc_terminal returns_def)
qed

subsection \<open>Users\<close>

lemma current_user_ok:
  assumes "users_wf s"
  obtains u where "rd (users s) (current_user s) = Some u" "user_ok u"
    "users_current_name s = Some (u_name u)" "users_current_is_admin s = Some (u_admin u)"
    "terminated (u_name u)" "u_admin u \<in> {0, 1}"
proof -
  have "rd (users s) (current_user s) = Some (users s ! current_user s)" "user_ok (users s ! current_user s)"
    using assms users_wf_slot [OF assms] by (auto simp: users_wf_def)
  then show ?thesis
    using that by (simp add: users_current_name_def users_current_is_admin_def user_ok_def)
qed

lemma users_add_total:
  assumes "terminated nm" "users_wf s"
  obtains rc s' where "users_add (Some nm) admin s = Some (rc, s')" "rc \<in> {0, 1, 2, 3}" "users_wf s'"
proof (cases "cstr nm = [] \<or> USER_MAX_NAME \<le> length (cstr nm)")
  case True
  then show ?thesis using that [of 1 s] users_add_invalid [OF assms(1) True, of admin s] assms(2) by simp
next
  case False
  then have nm: "cstr nm \<noteq> []" "length (cstr nm) < USER_MAX_NAME" by auto
  show ?thesis
  proof (cases "users_view s (cstr nm)")
    case (Some a)
    then show ?thesis
      using that [of 2 s] users_add_valid [OF assms(1) nm assms(2), of admin] assms(2) by simp
  next
    case None
    show ?thesis
      using users_add_new [OF assms(1) nm assms(2) None, of admin] that assms(2)
      by (auto split: option.splits)
  qed
qed

lemma users_remove_total:
  assumes "terminated nm" "users_wf s"
  obtains rc s' where "users_remove nm s = Some (rc, s')" "rc \<in> {0, 1, 2}" "users_wf s'"
  using users_remove_cases [OF assms] that assms(2) by (auto split: option.splits if_splits)

lemma users_login_total:
  assumes "terminated nm" "users_wf s"
  obtains rc s' where "users_login nm s = Some (rc, s')" "rc \<in> {0, 1}" "users_wf s'"
    "users_view s' = users_view s"
  using users_login_cases [OF assms] that assms(2) by (auto simp: users_view_def fun_eq_iff split: option.splits)


definition user_line :: "byte list \<Rightarrow> user \<Rightarrow> byte list" where
  "user_line cur u = cstr (u_name u) @ (if u_admin u \<noteq> 0 then bytes_of ''  admin'' else []) @
     (if cstr (u_name u) = cur then bytes_of ''  current'' else []) @ [0x0A]"

definition active_users :: "users_state \<Rightarrow> user list" where
  "active_users s = filter u_live (users s)"

lemma users_enumerate:
  "users_count s = int (length (active_users s))"
  "users_get (int i) s = (if i < length (active_users s) then Some (active_users s ! i) else None)"
  using users_get_loop_eq [of "users s" 0 i]
  by (simp_all add: users_get_def users_count_def users_count_loop_eq active_users_def)

lemma user_literals:
  "cstr (lit ''  admin'') = bytes_of ''  admin''" "cstr (lit ''  current'') = bytes_of ''  current''"
  by (simp_all add: lit_def bytes_of_def)

lemma users_loop_eq:
  assumes wf: "users_wf (k_users k)" and cur: "users_current_name (k_users k) = Some cname" "terminated cname"
  shows "i + n \<le> length (active_users (k_users k)) \<Longrightarrow> length (kcu_name user) = 24 \<Longrightarrow>
    users_loop hw n (int i) user (printed xs k) = Some (printed (xs @ concat (map (user_line (cstr cname))
      (take n (drop i (active_users (k_users k)))))) k)"
proof (induction n arbitrary: i user xs)
  case (Suc n)
  let ?us = "active_users (k_users k)"
  let ?u = "?us ! i"
  have i: "i < length ?us" using Suc.prems(1) by simp
  then have "?u \<in> set (users (k_users k))" unfolding active_users_def by (meson filter_is_subset nth_mem subsetD)
  then have u: "terminated (u_name ?u)" "length (u_name ?u) = 24"
    using wf by (auto simp: users_wf_def user_ok_def USER_MAX_NAME_def)
  have "length (cstr (u_name ?u)) < 24" using u terminated_iff_length by metis
  then obtain nm where nm: "put_str (kcu_name user) (cstr (u_name ?u)) = Some nm"
    using Suc.prems(2) by (simp add: put_str_def)
  note n3 = put_str_cstr [OF nm zero_notin_cstr] put_str_terminated [OF nm] put_str_length [OF nm]
  obtain r where r: "str_compare nm cname = Some r" "r = 0 \<longleftrightarrow> cstr (u_name ?u) = cstr cname"
    using str_compareE [OF n3(2) cur(2)] n3(1) by metis
  have wf': "users_wf (k_users (printed ys k))" for ys using wf by simp
  define user' where "user' = user\<lparr>kcu_name := nm, kcu_active := u_active ?u, kcu_admin := u_admin ?u\<rparr>"
  have step: "users_loop hw (Suc n) (int i) user (printed xs k) =
      users_loop hw n (int i + 1) user' (printed (xs @ user_line (cstr cname) ?u) k)"
    using i u(1) nm n3(1,2) r cur
    by (simp add: kc_users_get_eq users_enumerate str_copy_eq kc_users_ask(1) [OF wf'] print_eqs kc_strings
        user_line_def user'_def user_literals list_literals)
  have d: "take (Suc n) (drop i ?us) = ?u # take n (drop (Suc i) ?us)"
    using i by (simp add: Cons_nth_drop_Suc [symmetric])
  have "length (kcu_name user') = 24" using n3(3) Suc.prems(2) by (simp add: user'_def)
  then show ?case
    unfolding step d using Suc.IH [of "Suc i" user' "xs @ user_line (cstr cname) ?u"] Suc.prems(1)
    by (simp add: add.commute)
qed simp

lemma prog_users_eq:
  assumes wf: "users_wf (k_users k)"
  obtains cname where "users_current_name (k_users k) = Some cname"
    "prog_users hw argv k = Some (0, printed (concat (map (user_line (cstr cname)) (active_users (k_users k)))) k)"
proof -
  obtain u :: user where u: "users_current_name (k_users k) = Some (u_name u)" "terminated (u_name u)"
    by (rule current_user_ok [OF wf]) blast
  have "length (kcu_name fresh_user) = 24" by (simp add: fresh_user_def length_fresh)
  then have "users_loop hw (length (active_users (k_users k))) 0 fresh_user k =
      Some (printed (concat (map (user_line (cstr (u_name u))) (active_users (k_users k)))) k)"
    using users_loop_eq [OF wf u, of 0 "length (active_users (k_users k))" fresh_user hw "[]"] by simp
  then show ?thesis
    using that u(1) by (simp add: prog_users_def kc_users_ask(3) [OF wf] users_enumerate)
qed

lemma returns_say:
  "machine_ok hw view capacity k \<Longrightarrow> k_keys k = keys \<Longrightarrow> r \<in> {0, 1} \<Longrightarrow> k_keys k0 = keys \<Longrightarrow>
     accounts_guarded (k_users k0) (k_users k) \<Longrightarrow> returns hw view capacity k0 (Some (r, shown msg k))"
  by (simp add: returns_def shown_printed)

text \<open>The commands that change the accounts: a new user table, perhaps a message, and a code.\<close>

lemma returns_users:
  assumes "machine_ok hw view capacity k" "users_wf s'" "accounts_guarded (k_users k) s'"
  shows "returns hw view capacity k (Some (if rc = (0 :: int) then 0 else 1, k\<lparr>k_users := s'\<rparr>))"
    "returns hw view capacity k (Some (if rc = (0 :: int) then 0 else 1, shown msg (k\<lparr>k_users := s'\<rparr>)))"
    "returns hw view capacity k (Some (1, shown msg (k\<lparr>k_users := s'\<rparr>)))"
  using machine_ok_users [OF assms(1,2)] assms(3) by (simp_all add: returns_def shown_printed)

lemma useradd_admin:
  assumes "args_ok argv"
  obtains admin where "(if length argv > 2 then do {
       a2 \<leftarrow> rd argv 2;
       (r, k1) \<leftarrow> kc_strcmp hw a2 (lit ''admin'') k;
       Some (if r = 0 then 1 else 0, k1) }
     else Some (0, k)) = Some (admin :: int, k)"
proof (cases "length argv > 2")
  case True
  then obtain r where "str_compare (argv ! 2) (lit ''admin'') = Some r"
    using str_compareE [OF args_ok_nth [OF assms, of 2] terminated_lit] by auto
  then show ?thesis using that True by (simp add: kc_strings)
qed (use that in simp)

lemma useradd_returns:
  assumes ok: "machine_ok hw view capacity k" and args: "args_ok argv"
  shows "returns hw view capacity k (prog_useradd hw argv k)"
proof -
  have wf: "users_wf (k_users k)" using machine_okD(4) [OF ok] .
  obtain u :: user where u: "users_current_is_admin (k_users k) = Some (u_admin u)"
    by (rule current_user_ok [OF wf]) blast
  note ask = kc_users_ask [OF wf]
  show ?thesis
  proof (cases "u_admin u = 0 \<or> length argv < 2")
    case True
    then show ?thesis using u ask ok by (auto simp: prog_useradd_def kc_say_eq)
  next
    case False
    obtain admin where adm: "(if length argv > 2 then do {
           a2 \<leftarrow> rd argv 2;
           (r, k1) \<leftarrow> kc_strcmp hw a2 (lit ''admin'') k;
           Some (if r = 0 then 1 else 0, k1) }
         else Some (0, k)) = Some (admin :: int, k)"
      by (rule useradd_admin [OF args])
    obtain rc s' where r: "users_add (Some (argv ! 1)) admin (k_users k) = Some (rc, s')"
      "rc \<in> {0, 1, 2, 3}" "users_wf s'"
      using users_add_total [OF args_ok_nth [OF args, of 1] wf, of admin] False by auto
    show ?thesis
      unfolding prog_useradd_def
      using False u ask adm r returns_users [OF ok r(3)] by (auto simp: accounts_guarded_def kc_say_eq kc_users_change)
  qed
qed

lemma userdel_returns:
  assumes ok: "machine_ok hw view capacity k" and args: "args_ok argv"
  shows "returns hw view capacity k (prog_userdel hw argv k)"
proof -
  have wf: "users_wf (k_users k)" using machine_okD(4) [OF ok] .
  obtain u :: user where u: "users_current_is_admin (k_users k) = Some (u_admin u)"
    by (rule current_user_ok [OF wf]) blast
  note ask = kc_users_ask [OF wf]
  show ?thesis
  proof (cases "u_admin u = 0 \<or> length argv < 2")
    case True
    then show ?thesis using u ask ok by (auto simp: prog_userdel_def kc_say_eq)
  next
    case False
    then obtain rc s' where r: "users_remove (argv ! 1) (k_users k) = Some (rc, s')" "rc \<in> {0, 1, 2}" "users_wf s'"
      using users_remove_total [OF args_ok_nth [OF args, of 1] wf] by auto
    then show ?thesis
      using False u ask returns_users [OF ok r(3)]
      by (auto simp: accounts_guarded_def prog_userdel_def kc_say_eq kc_users_change)
  qed
qed

lemma login_returns:
  assumes ok: "machine_ok hw view capacity k" and args: "args_ok argv"
  shows "returns hw view capacity k (prog_login hw argv k)"
proof (cases "length argv < 2")
  case True
  then show ?thesis using ok by (auto simp: prog_login_def kc_say_eq)
next
  case False
  then obtain rc s' where r: "users_login (argv ! 1) (k_users k) = Some (rc, s')" "rc \<in> {0, 1}" "users_wf s'"
    "users_view s' = users_view (k_users k)"
    using users_login_total [OF args_ok_nth [OF args, of 1] machine_okD(4) [OF ok]] by auto
  then show ?thesis
    using False returns_users [OF ok r(3)] returns_users(1) [OF ok r(3), where rc = 0] r(4)
    by (auto simp: accounts_guarded_def prog_login_def kc_say_eq kc_users_change)
qed

lemma user_commands_return:
  assumes ok: "machine_ok hw view capacity k" and args: "args_ok argv"
  shows "returns hw view capacity k (prog_useradd hw argv k)" "returns hw view capacity k (prog_userdel hw argv k)"
    "returns hw view capacity k (prog_users hw argv k)" "returns hw view capacity k (prog_login hw argv k)"
    "returns hw view capacity k (prog_logout hw argv k)" "returns hw view capacity k (prog_whoami hw argv k)"
proof -
  have wf: "users_wf (k_users k)" using machine_okD(4) [OF ok] .
  obtain u :: user where u: "users_current_name (k_users k) = Some (u_name u)" "terminated (u_name u)"
    by (rule current_user_ok [OF wf]) blast
  show "returns hw view capacity k (prog_users hw argv k)"
    using prog_users_eq [OF wf] ok by (metis insertI1 returns_printed)
  show "returns hw view capacity k (prog_logout hw argv k)"
    using machine_ok_users [OF ok users_logout_wf [OF wf]]
    by (simp add: prog_logout_def kc_users_change returns_def accounts_guarded_def users_logout_def users_view_def fun_eq_iff)
  show "returns hw view capacity k (prog_whoami hw argv k)"
    using ok u kc_users_ask [OF wf] by (simp add: prog_whoami_def print_eqs)
qed (rule useradd_returns [OF assms] userdel_returns [OF assms] login_returns [OF assms])+


subsection \<open>The disk\<close>

lemma disk_commands_return:
  assumes ok: "machine_ok hw view capacity k"
  shows "returns hw view capacity k (prog_disk hw argv k)" "returns hw view capacity k (prog_initdisk hw argv k)"
    "returns hw view capacity k (prog_save hw argv k)" "returns hw view capacity k (prog_load hw argv k)"
proof -
  have st: "terminated (status_text (k_disk k))" using machine_okD(6) [OF ok] .
  show "returns hw view capacity k (prog_disk hw argv k)"
    using ok st by (simp add: prog_disk_def print_eqs kc_disk disk_status_def fs_disk_enabled_def shown_printed)
  obtain d where d: "fs_disk_save hw k = Some (if has_disk (k_disk k) then 0 else 1, k\<lparr>k_dev := d\<rparr>)"
    "machine_ok hw view capacity (k\<lparr>k_dev := d\<rparr>)"
    using save_ok [OF ok] by blast
  show "returns hw view capacity k (prog_save hw argv k)"
    using d by (simp add: prog_save_def kc_disk kc_say_eq returns_say)
  obtain k' where l: "fs_disk_load hw k = Some (if has_disk (k_disk k) then 0 else 1, k')" "machine_ok hw view capacity k'" "k_keys k' = k_keys k"
    "k_users k' = k_users k"
    using load_ok [OF ok] by blast
  then show "returns hw view capacity k (prog_load hw argv k)"
    by (simp add: prog_load_def kc_disk kc_say_eq returns_say)
  show "returns hw view capacity k (prog_initdisk hw argv k)"
  proof (cases "has_disk (k_disk k)")
    case False
    then show ?thesis
      using ok by (simp add: prog_initdisk_def kc_disk fs_disk_available_def disk_present_def kc_say_eq)
  next
    case True
    let ?k = "shown ''Initializing plDOS storage area...'' k"
    have ok1: "machine_ok hw view capacity ?k" using ok by simp
    have "persistence_enabled ?k" "has_disk (k_disk ?k)"
      using True machine_okD(7) [OF ok1] by (auto simp: synced_def disk_on_def)
    then have same: "?k\<lparr>persistence_enabled := True\<rparr> = ?k" by (cases ?k) simp
    obtain d where d: "fs_disk_save hw ?k = Some (0, ?k\<lparr>k_dev := d\<rparr>)" "machine_ok hw view capacity (?k\<lparr>k_dev := d\<rparr>)"
      using save_ok [OF ok1] \<open>has_disk (k_disk ?k)\<close> by auto
    have "prog_initdisk hw argv k =
        Some (0, shown ''Persistence enabled. File changes auto-save to disk.'' (?k\<lparr>k_dev := d\<rparr>))"
      using True d(1) same
      by (simp add: prog_initdisk_def kc_disk fs_disk_available_def disk_present_def kc_say_eq fs_disk_format_def)
    then show ?thesis using d(2) by (simp add: returns_def shown_printed)
  qed
qed

subsection \<open>Every command\<close>

text \<open>Every command whose code is in the repository; nothing is said of \<open>desktop_run\<close>.\<close>

lemma run_command_returns:
  assumes "machine_ok hw view capacity k" "args_ok argv" "in_limits m argv k"
    and "m \<noteq> Prog_Desktop"
  shows "returns hw view capacity k (run_command hw desktop_run m argv k)"
  using assms(3,4) file_commands_return [OF assms(1,2)] dir_commands_return [OF assms(1,2)]
    two_path_commands_return [OF assms(1,2)] text_commands_return [OF assms(1,2)]
    message_commands_return [OF assms(1,2)] user_commands_return [OF assms(1,2)]
    disk_commands_return [OF assms(1)] assms(1,2)
  unfolding run_command_def by (cases m) simp_all

subsection \<open>Beyond the limits\<close>

text \<open>Conversely, a call outside the limits reads or writes outside an array: no result.\<close>

lemma resolve_None:
  assumes "fs_ok k" "arg_ok path" "target k path = None"
  shows "resolve path k = None"
  using fs_resolve_path_eq [of "current_dir k" path FS_MAX_PATH "fresh FS_MAX_PATH"] assms
  by (auto simp: resolve_def target_def fs_ok_def FS_MAX_PATH_def)

lemma unresolved_ops:
  assumes "resolve path k = None"
  shows "fs_create_file hw path k = None" "fs_create_dir hw path k = None" "fs_delete hw path k = None"
    "fs_change_dir path k = None" "fs_list_dir path k = None" "fs_read_file path buf sz k = None"
    "fs_exists path k = None" "fs_copy hw path dest k = None" "fs_move hw path dest k = None"
  using assms by (simp_all add: fs_create_file_def fs_create_dir_def create_node_def fs_delete_def
      fs_change_dir_def fs_list_dir_def fs_read_file_def fs_exists_def fs_copy_def fs_move_def)

lemma copy_beyond:
  assumes "fs_ok k" "terminated a" "terminated b" "\<not> copy_limits a b k"
  shows "fs_copy hw (Some a) (Some b) k = None"
proof (cases "target k (Some a)")
  case None
  then show ?thesis using unresolved_ops(8) resolve_None [OF assms(1), of "Some a"] assms(2) by simp
next
  case (Some cs)
  then have f: "is_file_at (fs_view (nodes k)) cs" "target k (Some b) = None"
    using assms(4) by (auto simp: copy_limits_def)
  have a: "arg_ok (Some a)" using assms(2) by simp
  obtain r where r: "resolve (Some a) k = Some r" "find_node (nodes k) r = Some (index_or_minus1 (slot_of (nodes k) cs))"
    using path_query [OF assms(1) a Some] by metis
  have "\<exists>d. fs_view (nodes k) cs = Some (File d)"
    using f(1) by (auto simp: is_file_at_def split: option.splits fs_entry.splits)
  then have "found_type (index_or_minus1 (slot_of (nodes k) cs)) FS_FILE k = Some True"
    using found_type_eq(2) [OF fs_ok_wf [OF assms(1)], of cs] by simp
  moreover have "fs_create_file hw (Some b) k = None"
    using unresolved_ops(1) resolve_None [OF assms(1), of "Some b"] assms(3) f(2) by simp
  ultimately show ?thesis using r by (simp add: fs_copy_def)
qed

lemma move_beyond:
  assumes "fs_ok k" "terminated a" "terminated b" "\<not> move_limits a b k"
  shows "fs_move hw (Some a) (Some b) k = None"
proof (cases "target k (Some a) = None \<or> target k (Some b) = None")
  case True
  then have "resolve (Some a) k = None \<or> resolve (Some b) k = None"
    using resolve_None [OF assms(1)] assms(2,3) by auto
  then show ?thesis by (auto simp: fs_move_def split: option.splits)
next
  case False
  then obtain cs ds where "target k (Some a) = Some cs" "target k (Some b) = Some ds" by auto
  then show ?thesis using fs_move_overruns [OF assms(1)] assms(2-4) by (simp add: move_limits_def)
qed

lemma strcat_overflow:
  "terminated buf \<Longrightarrow> terminated w \<Longrightarrow> length buf \<le> length (cstr buf) + length (cstr w) \<Longrightarrow>
     str_concat buf (Some w) = None"
  by (simp add: str_concat_eq put_str_def)

lemma write_words_overflow:
  "\<forall>w \<in> set ws. terminated w \<Longrightarrow> terminated buf \<Longrightarrow> length buf = 4096 \<Longrightarrow>
   4096 \<le> length (cstr buf) + length (join_words (map cstr ws)) \<Longrightarrow> write_words_loop hw ws buf k = None"
proof (induction ws arbitrary: buf)
  case Nil
  then show ?case using terminated_iff_length [of buf] by simp
next
  case (Cons w ws)
  have bl: "cstr (lit '' '') = [0x20]" by (simp add: lit_def bytes_of_def)
  show ?case
  proof (cases "length (cstr buf) + length (cstr w) < 4096")
    case False
    then show ?thesis using Cons.prems strcat_overflow [of buf w] by (simp add: kc_strings)
  next
    case True
    then have ws: "ws \<noteq> []" using Cons.prems(4) by auto
    obtain t where t: "str_concat buf (Some w) = Some t" "terminated t" "length t = 4096" "cstr t = cstr buf @ cstr w"
      using strcat_ok [of buf w] Cons.prems True by auto
    show ?thesis
    proof (cases "length (cstr t) + 1 < 4096")
      case False
      then show ?thesis using t ws bl strcat_overflow [of t "lit '' ''"] by (simp add: kc_strings)
    next
      case True
      obtain t' where t': "str_concat t (Some (lit '' '')) = Some t'" "terminated t'" "length t' = 4096"
        "cstr t' = cstr t @ [0x20]"
        using strcat_ok [of t "lit '' ''"] t True bl by auto
      have "write_words_loop hw ws t' k = None"
        using Cons.IH [of t'] Cons.prems(1,4) t(4) t' ws by (simp add: join_words_Cons)
      then show ?thesis using t(1) t'(1) ws by (simp add: kc_strings)
    qed
  qed
qed

lemma write_beyond:
  assumes ok: "machine_ok hw view capacity k" and args: "args_ok argv" "3 \<le> length argv"
    and "\<not> write_limits (argv ! 1) (join_words (map cstr (drop 2 argv))) k"
  shows "prog_write hw argv k = None"
proof -
  have a: "arg_ok (Some (argv ! 1))" "rd argv 1 = Some (argv ! 1)" using args args_ok_nth [OF args(1), of 1] by auto
  note fs = machine_okD(2) [OF ok]
  obtain t0 where t0: "wr (fresh 4096) 0 0 = Some t0" "terminated t0" "length t0 = 4096" "cstr t0 = []"
    by (rule write_start)
  show ?thesis
  proof (cases "target k (Some (argv ! 1))")
    case None
    have "fs_exists (Some (argv ! 1)) k = None" by (rule unresolved_ops(7) [OF resolve_None [OF fs a(1) None]])
    then show ?thesis using a(2) args(2) t0(1) by (simp add: prog_write_def kc_fs_exists_eq)
  next
    case (Some cs)
    let ?ws = "drop 2 argv"
    have long: "write_reaches cs (fs_view (nodes k))" "4095 \<le> length (join_words (map cstr ?ws))"
      using assms(4) Some by (auto simp: write_limits_def)
    have ws: "\<forall>w \<in> set ?ws. terminated w" using args(1) unfolding args_ok_def by (meson in_set_dropD)
    have stuck: "(do { (txt1, k3) \<leftarrow> write_words_loop hw ?ws t0 k2;
        (txt2, k4) \<leftarrow> kc_strcat hw txt1 (Some (lit [CHR 0x0A])) k3;
        (n, k5) \<leftarrow> kc_strlen hw (Some txt2) k4;
        kc_fs_write hw (Some (argv ! 1)) txt2 n k5 }) = None" for k2
    proof (cases "4096 \<le> length (join_words (map cstr ?ws))")
      case True
      then have "write_words_loop hw ?ws t0 k2 = None"
        by (intro write_words_overflow [OF ws t0(2,3)]) (simp add: t0(4))
      then show ?thesis by simp
    next
      case False
      obtain t1 where t1: "\<forall>k. write_words_loop hw ?ws t0 k = Some (t1, k)" "terminated t1"
        "length t1 = 4096" "cstr t1 = join_words (map cstr ?ws)"
        using write_words_eq [OF ws t0(2,3)] t0(4) False by auto
      have "cstr (lit [CHR 0x0A]) = [0x0A]" by (simp add: lit_def bytes_of_def)
      then show ?thesis
        using t1 long(2) strcat_overflow [of t1 "lit [CHR 0x0A]"] by (simp add: kc_strings)
    qed
    obtain r k1 where c: "fs_create_file hw (Some (argv ! 1)) k = Some (r, k1)"
      "tree_create (File []) cs (fs_view (nodes k)) = (r, fs_view (nodes k1))"
      using create_ok(1) [OF ok a(1) Some] unfolding refines_to_def by blast
    have "r = 0" if "fs_view (nodes k) cs = None" using that long(1) c(2) by (simp add: write_reaches_def)
    then show ?thesis
      using args(2) a(2) t0(1) fs_exists_eq [OF fs a(1) Some] stuck c(1)
      by (simp add: prog_write_def kc_fs_exists_eq kc_fs(5))
  qed
qed

lemma prog_write_fits:
  assumes ok: "machine_ok hw view capacity k" and args: "args_ok argv" "3 \<le> length argv"
    and cs: "target k (Some (argv ! 1)) = Some cs" and "prog_write hw argv k = Some (0, k1)"
  shows "length (join_words (map cstr (drop 2 argv))) < 4095"
proof -
  have "write_limits (argv ! 1) (join_words (map cstr (drop 2 argv))) k"
    using write_beyond [OF ok args, of] assms(5) by (metis option.distinct(1))
  moreover have "write_reaches cs (fs_view (nodes k))"
  proof (rule ccontr)
    assume no: "\<not> write_reaches cs (fs_view (nodes k))"
    then show False
      using prog_write_refused [OF ok args cs no] assms(5) unfolding refines_to_def write_reaches_def by auto
  qed
  ultimately show ?thesis using cs by (simp add: write_limits_def)
qed

text \<open>A command has a result exactly within its limits.\<close>

lemma run_command_beyond:
  assumes ok: "machine_ok hw view capacity k" and args: "args_ok argv"
    and m: "\<not> in_limits m argv k"
  shows "run_command hw desktop_run m argv k = None"
proof -
  note fs = machine_okD(2) [OF ok]
  have t1: "terminated (argv ! 1)" if "2 \<le> length argv" using args_ok_nth [OF args, of 1] that by simp
  have t2: "terminated (argv ! 2)" if "3 \<le> length argv" using args_ok_nth [OF args, of 2] that by simp
  show ?thesis
  proof (cases "m \<in> {Prog_Cat, Prog_Cd, Prog_Del, Prog_Ls, Prog_Mkdir, Prog_Touch}")
    case True
    then have l: "2 \<le> length argv" "target k (Some (argv ! 1)) = None" using m by (auto simp: in_limits_def)
    then have r: "resolve (Some (argv ! 1)) k = None" using resolve_None [OF fs] t1 by simp
    show ?thesis
      using True l(1) unresolved_ops [OF r]
      by (auto simp: run_command_def prog_cat_def prog_cd_def prog_del_def prog_ls_def prog_mkdir_def prog_touch_def kc_eqs)
  next
    case False
    consider "m = Prog_Copy" "3 \<le> length argv" "\<not> copy_limits (argv ! 1) (argv ! 2) k"
      | "m = Prog_Move" "3 \<le> length argv" "\<not> move_limits (argv ! 1) (argv ! 2) k"
      | "m = Prog_Write" "3 \<le> length argv" "\<not> write_limits (argv ! 1) (join_words (map cstr (drop 2 argv))) k"
      using False m by (auto simp: in_limits_def split: if_splits)
    then show ?thesis
    proof cases
      case 1
      then show ?thesis using copy_beyond [OF fs] t1 t2 by (simp add: run_command_def prog_copy_def kc_eqs)
    next
      case 2
      then show ?thesis using move_beyond [OF fs] t1 t2 by (simp add: run_command_def prog_move_def kc_eqs)
    next
      case 3
      then show ?thesis using write_beyond [OF ok args] by (simp add: run_command_def)
    qed
  qed
qed

end
