(* ===== verification/Shell_Session.thy ===== *)
theory Shell_Session
  imports Kernel_Commands
begin

section \<open>The shell\<close>

text \<open>
  One round of the command loop on a well-formed machine: the typed keys become a line, the line
  becomes words, the first word selects a command, and within the limits of the kernel's arrays the
  command returns to a well-formed machine; beyond them it has no result.
\<close>

subsection \<open>Finding a command\<close>

definition command_of :: "byte list \<Rightarrow> program option" where
  "command_of w = List.find (\<lambda>p. cstr (pr_name p) = w) programs"

text \<open>The command \<open>desktop\<close> is the only one that calls \<open>desktop_run\<close>, whose code is not in the repository.\<close>

lemma command_of_desktop: "command_of w = Some p \<Longrightarrow> pr_main p = Prog_Desktop \<Longrightarrow> w = bytes_of ''desktop''"
proof -
  have "list_all (\<lambda>p. pr_main p = Prog_Desktop \<longrightarrow> cstr (pr_name p) = bytes_of ''desktop'') programs" by code_simp
  then show "command_of w = Some p \<Longrightarrow> pr_main p = Prog_Desktop \<Longrightarrow> w = bytes_of ''desktop''"
    by (auto simp: command_of_def find_Some_iff list_all_iff)
qed

lemma find_program_loop_eq:
  "\<forall>p \<in> set ps. terminated (pr_name p) \<Longrightarrow> terminated a \<Longrightarrow>
     find_program_loop hw ps a k = Some (List.find (\<lambda>p. cstr (pr_name p) = cstr a) ps, k)"
proof (induction ps)
  case (Cons p ps)
  then obtain r where "str_compare (pr_name p) a = Some r" "r = 0 \<longleftrightarrow> cstr (pr_name p) = cstr a"
    using str_compareE [of "pr_name p" a] by auto
  then show ?case using Cons by (simp add: kc_strings)
qed simp

lemma programs_find_eq: "terminated a \<Longrightarrow> programs_find hw a k = Some (command_of (cstr a), k)"
  unfolding programs_find_def command_of_def using programs_terminated by (intro find_program_loop_eq) auto

lemma command_of_terminated: "command_of w = Some p \<Longrightarrow> p \<in> set programs \<and> cstr (pr_name p) = w"
  by (auto simp: command_of_def find_Some_iff)

subsection \<open>One round\<close>

lemma in_limits_cong:
  assumes "map cstr argv = map cstr argv'"
  shows "in_limits m argv k = in_limits m argv' k"
proof -
  have len: "length argv = length argv'" using assms by (rule map_eq_imp_length_eq)
  have t: "target k (Some (argv ! i)) = target k (Some (argv' ! i))" if "i < length argv" for i
    using that assms len by (simp add: target_def) (metis nth_map)
  have d: "map cstr (drop 2 argv) = map cstr (drop 2 argv')" using assms by (simp add: drop_map [symmetric])
  show ?thesis
  proof (cases "length argv < 3")
    case True
    then show ?thesis using t [of 1] len by (cases "length argv < 2") (simp_all add: in_limits_def)
  next
    case False
    then have "target k (Some (argv ! 1)) = target k (Some (argv' ! 1))"
      "target k (Some (argv ! 2)) = target k (Some (argv' ! 2))" using t by simp_all
    then show ?thesis
      using len d by (simp add: in_limits_def copy_limits_def move_limits_def write_limits_def split: option.split)
  qed
qed

text \<open>The words of a typed line, and a line whose command stays within the limits of the kernel's
  arrays.\<close>

definition words_of :: "byte list \<Rightarrow> byte list list" where
  "words_of typed = take 16 (tokens (trim_spec typed))"

text \<open>The line calls the command \<open>desktop\<close>.\<close>

definition calls_desktop :: "byte list \<Rightarrow> bool" where
  "calls_desktop typed \<longleftrightarrow> words_of typed \<noteq> [] \<and> hd (words_of typed) = bytes_of ''desktop''"

definition line_fits :: "byte list \<Rightarrow> 'd kernel \<Rightarrow> bool" where
  "line_fits typed k \<longleftrightarrow>
     (case words_of typed of
        [] \<Rightarrow> True
      | w # ws \<Rightarrow> (case command_of w of
            None \<Rightarrow> True
          | Some p \<Rightarrow> in_limits (pr_main p) (map (\<lambda>x. x @ [0]) (w # ws)) k))"

lemma report_code_ok: "rc \<in> {0, 1} \<Longrightarrow> \<exists>xs. report_code rc k = Some (printed xs k)"
proof -
  have "kprint_int 1 k' = Some (printed (decimal 1) k')" for k' :: "'a kernel"
    using kprint_int_nat [of 1 1 k'] by (simp add: printed_def)
  then show "rc \<in> {0, 1} \<Longrightarrow> \<exists>xs. report_code rc k = Some (printed xs k)"
    by (auto simp: report_code_def kprint_printed kprintln_printed intro: exI [of _ "[]"])
qed

lemma shell_exec_ok:
  assumes ok: "machine_ok hw view capacity k" and args: "args_ok argv"
    and desk: "cstr (argv ! 0) \<noteq> bytes_of ''desktop''"
    and fits: "\<And>p. command_of (cstr (argv ! 0)) = Some p \<Longrightarrow> in_limits (pr_main p) argv k"
  shows "\<exists>k'. shell_exec hw desktop_run argv k = Some k' \<and> machine_ok hw view capacity k' \<and> k_keys k' = k_keys k \<and>
     accounts_guarded (k_users k) (k_users k')"
proof -
  have a: "rd argv 0 = Some (argv ! 0)" "terminated (argv ! 0)"
    using args args_ok_nth [OF args, of 0] by (auto simp: args_ok_def)
  show ?thesis
  proof (cases "command_of (cstr (argv ! 0))")
    case None
    then show ?thesis
      using a ok by (simp add: shell_exec_def programs_find_eq kprint_printed kprintln_printed)
  next
    case (Some p)
    obtain r k' where r: "run_command hw desktop_run (pr_main p) argv k = Some (r, k')" "r \<in> {0, 1}"
      "machine_ok hw view capacity k'" "k_keys k' = k_keys k" "accounts_guarded (k_users k) (k_users k')"
      using run_command_returns [OF ok args fits [OF Some]] command_of_desktop [OF Some] desk unfolding returns_def by blast
    obtain xs where "report_code r k' = Some (printed xs k')" using report_code_ok [OF r(2)] by blast
    then show ?thesis using a Some r by (simp add: shell_exec_def programs_find_eq)
  qed
qed

lemma shell_exec_beyond:
  assumes "machine_ok hw view capacity k" "args_ok argv" "command_of (cstr (argv ! 0)) = Some p"
    and "\<not> in_limits (pr_main p) argv k"
  shows "shell_exec hw desktop_run argv k = None"
proof -
  have "rd argv 0 = Some (argv ! 0)" "terminated (argv ! 0)"
    using assms(2) args_ok_nth [OF assms(2), of 0] by (auto simp: args_ok_def)
  then show ?thesis
    using assms(3) run_command_beyond [OF assms(1,2,4)] by (simp add: shell_exec_def programs_find_eq)
qed

text \<open>A line is its words.\<close>

lemma shell_line_words:
  assumes "terminated line" "length line = 256"
  obtains line' args where "length line' = 256" "map cstr args = words_of (cstr line)" "\<forall>a \<in> set args. terminated a"
    "shell_line hw desktop_run line k = (if args = [] then Some (line', k)
       else map_option (\<lambda>k'. (line', k')) (shell_exec hw desktop_run args k))"
proof -
  obtain l1 where l1: "str_trim line = Some l1" "terminated l1" "length l1 = 256" "cstr l1 = trim_spec (cstr line)"
    using str_trim_eq [OF assms(1)] assms(2) by auto
  have c: "rd l1 0 = Some (l1 ! 0)" using l1(3) by simp
  obtain l2 argv where l2: "shell_parse l1 16 = Some (l2, argv)" "length l2 = 256"
    "map (\<lambda>j. cstr (drop j l2)) argv = words_of (cstr line)" "\<forall>j \<in> set argv. terminated (drop j l2)"
    using shell_parse_eq [OF l1(2), of 16] l1(3,4) unfolding words_of_def by metis
  show ?thesis
  proof (cases "l1 ! 0 = 0")
    case True
    then have "cstr l1 = []" using l1(2,3) cstr_eq_Nil_iff [of l1] by (metis hd_conv_nth terminated_Nil)
    then have "words_of (cstr line) = []" using l1(4) by (simp add: words_of_def)
    then show ?thesis using that [of l1 "[]"] True l1(1,3) c by (simp add: shell_line_def)
  next
    case False
    have "shell_line hw desktop_run line k = (if map (\<lambda>i. drop i l2) argv = [] then Some (l2, k)
       else map_option (\<lambda>k'. (l2, k')) (shell_exec hw desktop_run (map (\<lambda>i. drop i l2) argv) k))"
      using False l1(1) c l2(1) by (auto simp: shell_line_def map_option_case split: option.split)
    then show ?thesis using that [of l2 "map (\<lambda>i. drop i l2) argv"] l2(2-4) by (simp add: comp_def)
  qed
qed

lemma line_fits_args:
  assumes "map cstr args = words_of typed" "args \<noteq> []"
  shows "line_fits typed k \<longleftrightarrow> (\<forall>p. command_of (cstr (args ! 0)) = Some p \<longrightarrow> in_limits (pr_main p) args k)"
proof -
  obtain w ws where w: "words_of typed = w # ws" using assms by (cases "words_of typed") auto
  then have w0: "cstr (args ! 0) = w" using assms by (metis length_greater_0_conv nth_Cons_0 nth_map)
  have "0 \<notin> set x" if "x \<in> set (w # ws)" for x
  proof -
    have "x \<in> set (map cstr args)" using that w assms(1) by simp
    then show ?thesis by auto
  qed
  then have "map cstr (map (\<lambda>x. x @ [0]) (w # ws)) = w # ws" by (auto simp: map_idI)
  then have "in_limits m (map (\<lambda>x. x @ [0]) (w # ws)) k = in_limits m args k" for m
    using assms(1) w by (intro in_limits_cong) simp
  then show ?thesis using w w0 by (simp add: line_fits_def split: option.split)
qed

lemma shell_line_ok:
  assumes ok: "machine_ok hw view capacity k" and line: "terminated line" "length line = 256"
    and desk: "\<not> calls_desktop (cstr line)" and fits: "line_fits (cstr line) k"
  shows "\<exists>line' k'. shell_line hw desktop_run line k = Some (line', k') \<and> length line' = 256 \<and>
     machine_ok hw view capacity k' \<and> k_keys k' = k_keys k \<and> accounts_guarded (k_users k) (k_users k')"
proof -
  obtain line' args where l: "length line' = 256" "map cstr args = words_of (cstr line)" "\<forall>a \<in> set args. terminated a"
    "shell_line hw desktop_run line k = (if args = [] then Some (line', k)
       else map_option (\<lambda>k'. (line', k')) (shell_exec hw desktop_run args k))"
    using shell_line_words [OF line] .
  show ?thesis
  proof (cases "args = []")
    case True
    then show ?thesis using ok l by simp
  next
    case False
    then have "args_ok args" using l(3) by (simp add: args_ok_def)
    moreover have "cstr (args ! 0) \<noteq> bytes_of ''desktop''"
      using desk False by (simp add: calls_desktop_def hd_map hd_conv_nth flip: l(2))
    ultimately show ?thesis
      using shell_exec_ok [OF ok] fits line_fits_args [OF l(2) False, of k] l(1,4) False by fastforce
  qed
qed

lemma shell_line_beyond:
  assumes ok: "machine_ok hw view capacity k" and line: "terminated line" "length line = 256"
    and "\<not> line_fits (cstr line) k"
  shows "shell_line hw desktop_run line k = None"
proof -
  obtain line' args where l: "map cstr args = words_of (cstr line)" "\<forall>a \<in> set args. terminated a"
    "shell_line hw desktop_run line k = (if args = [] then Some (line', k)
       else map_option (\<lambda>k'. (line', k')) (shell_exec hw desktop_run args k))"
    using shell_line_words [OF line] by metis
  have ne: "args \<noteq> []" using assms(4) l(1) by (auto simp: line_fits_def)
  then have "args_ok args" using l(2) by (simp add: args_ok_def)
  moreover obtain p where "command_of (cstr (args ! 0)) = Some p" "\<not> in_limits (pr_main p) args k"
    using assms(4) line_fits_args [OF l(1) ne, of k] by blast
  ultimately show ?thesis using shell_exec_beyond [OF ok] l(3) ne by simp
qed

lemma shell_prompt_ok:
  assumes "machine_ok hw view capacity k"
  obtains t where "shell_prompt k = Some (k\<lparr>k_term := t\<rparr>)" "term_wf t"
    "extended_scancode t = extended_scancode (k_term k)"
proof -
  obtain u :: user where u: "users_current_name (k_users k) = Some (u_name u)" "terminated (u_name u)"
    by (rule current_user_ok [OF machine_okD(4) [OF assms]]) blast
  have ext: "extended_scancode (fold io_print_char xs t) = extended_scancode t" for xs t
    by (induction xs arbitrary: t) simp_all
  let ?t0 = "io_set_color VGA_COLOR_LIGHT_GREEN VGA_COLOR_BLACK (k_term k)"
  let ?text = "cstr (u_name u) @ cstr (lit ''@'') @ cstr (current_dir k) @ cstr (lit ''> '')"
  let ?t = "io_set_color VGA_COLOR_LIGHT_GREY VGA_COLOR_BLACK (fold io_print_char ?text ?t0)"
  have "shell_prompt k = Some (k\<lparr>k_term := ?t\<rparr>)"
    using u machine_okD(8) [OF assms]
    by (simp add: shell_prompt_def Let_def kprint_printed fs_get_current_dir_def printed_def)
  moreover have "term_wf ?t"
    using machine_okD(5) [OF assms] by (intro term_wf_io_set_color term_wf_fold_print)
  moreover have "extended_scancode ?t = extended_scancode (k_term k)"
    by (simp add: ext io_set_color_def del: fold_append)
  ultimately show ?thesis by (rule that)
qed

text \<open>The line that the pending keys type, once they contain the Enter key.\<close>

definition typed_line :: "'d kernel \<Rightarrow> byte list option" where
  "typed_line k = edit_line 256 [] (key_chars (extended_scancode (k_term k)) (k_keys k))"

lemma shell_read_ok:
  assumes ok: "machine_ok hw view capacity k" and len: "length line = 256" and typed: "typed_line k = Some typed"
  obtains line' keys t where "shell_read line k = Some (line', k\<lparr>k_term := t, k_keys := keys\<rparr>)"
    "machine_ok hw view capacity (k\<lparr>k_term := t, k_keys := keys\<rparr>)"
    "terminated line'" "length line' = 256" "cstr line' = typed"
proof -
  obtain t where t: "shell_prompt k = Some (k\<lparr>k_term := t\<rparr>)" "term_wf t"
    "extended_scancode t = extended_scancode (k_term k)"
    using shell_prompt_ok [OF ok] .
  have "edit_line 256 [] (key_chars (extended_scancode t) (k_keys k)) = Some typed"
    using typed t(3) by (simp add: typed_line_def)
  then obtain l rest t' where l: "io_read_line line 256 (k_keys k) t = Some (l, rest, t')" "length l = 256"
    "terminated l" "cstr l = typed" "term_wf t'"
    using read_line_loop_eq [of 0 256 line, where t = t and keys = "k_keys k"] len t(2)
    by (auto simp: io_read_line_def line_read_def)
  have "machine_ok hw view capacity (k\<lparr>k_term := t', k_keys := rest\<rparr>)"
    using machine_ok_keys [OF machine_ok_term [OF ok l(5)]] by simp
  moreover have "shell_read line k = Some (l, k\<lparr>k_term := t', k_keys := rest\<rparr>)"
    using t(1) l(1) by (simp add: shell_read_def)
  ultimately show ?thesis using that l by blast
qed

lemma shell_read_None:
  assumes ok: "machine_ok hw view capacity k" and len: "length line = 256" and typed: "typed_line k = None"
  shows "shell_read line k = None"
proof -
  obtain t where t: "shell_prompt k = Some (k\<lparr>k_term := t\<rparr>)" "term_wf t"
    "extended_scancode t = extended_scancode (k_term k)"
    using shell_prompt_ok [OF ok] .
  have "edit_line 256 [] (key_chars (extended_scancode t) (k_keys k)) = None"
    using typed t(3) by (simp add: typed_line_def)
  then have "io_read_line line 256 (k_keys k) t = None"
    using read_line_loop_eq [of 0 256 line, where t = t and keys = "k_keys k"] len
    by (auto simp: io_read_line_def line_read_def)
  then show ?thesis using t(1) by (simp add: shell_read_def)
qed

lemma line_fits_cong: "current_dir k' = current_dir k \<Longrightarrow> nodes k' = nodes k \<Longrightarrow> line_fits w k' = line_fits w k"
  by (simp add: line_fits_def in_limits_def copy_limits_def move_limits_def write_limits_def target_def
      split: list.split option.split)

lemma shell_step_ok:
  assumes ok: "machine_ok hw view capacity k" and len: "length line = 256"
    and typed: "typed_line k = Some typed" "\<not> calls_desktop typed" "line_fits typed k"
  shows "\<exists>line' k'. shell_step hw desktop_run line k = Some (line', k') \<and> length line' = 256 \<and>
     machine_ok hw view capacity k' \<and> accounts_guarded (k_users k) (k_users k')"
proof -
  obtain l keys t where r: "shell_read line k = Some (l, k\<lparr>k_term := t, k_keys := keys\<rparr>)"
    "machine_ok hw view capacity (k\<lparr>k_term := t, k_keys := keys\<rparr>)"
    "terminated l" "length l = 256" "cstr l = typed"
    using shell_read_ok [OF ok len typed(1)] .
  have "line_fits (cstr l) (k\<lparr>k_term := t, k_keys := keys\<rparr>)" 
    using typed(3) r(5) line_fits_cong [of "k\<lparr>k_term := t, k_keys := keys\<rparr>" k typed] by simp
  then show ?thesis using shell_line_ok [OF r(2,3,4)] typed(2) r(1,5) by (fastforce simp: shell_step_def)
qed

lemma shell_step_beyond:
  assumes ok: "machine_ok hw view capacity k" and len: "length line = 256"
    and typed: "typed_line k = Some typed" "\<not> line_fits typed k"
  shows "shell_step hw desktop_run line k = None"
proof -
  obtain l keys t where r: "shell_read line k = Some (l, k\<lparr>k_term := t, k_keys := keys\<rparr>)"
    "machine_ok hw view capacity (k\<lparr>k_term := t, k_keys := keys\<rparr>)"
    "terminated l" "length l = 256" "cstr l = typed"
    using shell_read_ok [OF ok len typed(1)] .
  have "\<not> line_fits (cstr l) (k\<lparr>k_term := t, k_keys := keys\<rparr>)"
    using typed(2) r(5) line_fits_cong [of "k\<lparr>k_term := t, k_keys := keys\<rparr>" k typed] by simp
  then show ?thesis using shell_line_beyond [OF r(2,3,4)] r(1,5) by (simp add: shell_step_def)
qed

lemma shell_step_fits:
  assumes "machine_ok hw view capacity k" "length line = 256" "typed_line k = Some typed"
    and "shell_step hw desktop_run line k \<noteq> None"
  shows "line_fits typed k"
  using shell_step_beyond [OF assms(1-3), of desktop_run] assms(4) by blast

end
