(* ===== verification/Kernel_Boot.thy ===== *)
theory Kernel_Boot
  imports Shell_Session
begin

section \<open>Start-up\<close>

text \<open>
  \<open>kernel_init\<close> and \<open>kmain\<close> from the state of a machine that has just been switched on, without a
  drive, with an empty one and with one that holds a saved table: they reach a well-formed machine,
  and \<open>/progs\<close> holds a help file for every command that is listed.
\<close>

subsection \<open>The help files\<close>

text \<open>\<open>programs_init\<close> on the tree: an entry that is there already is left alone.\<close>

definition prog_path :: "program \<Rightarrow> byte list list" where
  "prog_path p = [bytes_of ''progs'', cstr (pr_name p)]"

definition tree_install :: "program \<Rightarrow> fs_tree \<Rightarrow> fs_tree" where
  "tree_install p v =
     (if v (prog_path p) = None
      then snd (tree_write (cstr (pr_help p)) (prog_path p) (snd (tree_create (File []) (prog_path p) v)))
      else v)"

definition listed_programs :: "program list" where
  "listed_programs = filter pr_visible programs"

definition help_file_ok :: "program \<Rightarrow> bool" where
  "help_file_ok p \<longleftrightarrow> terminated (pr_name p) \<and> terminated (pr_help p) \<and> length (cstr (pr_help p)) < 256 \<and>
     length (cstr (pr_name p)) < 32 \<and> comps_ok (prog_path p)"

lemma programs_help_file_ok: "p \<in> set programs \<Longrightarrow> help_file_ok p"
proof -
  have "list_all (\<lambda>p. length (cstr (pr_help p)) < 256 \<and> length (cstr (pr_name p)) < 32 \<and> comps_ok (prog_path p)) programs"
    by code_simp
  then show "p \<in> set programs \<Longrightarrow> help_file_ok p"
    using programs_terminated by (auto simp: list_all_iff help_file_ok_def)
qed

lemma install_path:
  fixes k :: "'d kernel"
  assumes "help_file_ok p"
  obtains path0 path where "str_copy (fresh 128) (Some (lit ''/progs/'')) = Some path0"
    "str_concat path0 (Some (pr_name p)) = Some path" "terminated path" "target k (Some path) = Some (prog_path p)"
proof -
  let ?dir = "bytes_of ''/progs/''"
  have dir: "cstr (lit ''/progs/'') = ?dir" "length ?dir = 7" "0 \<notin> set ?dir" "?dir = slash # bytes_of ''progs'' @ [slash]"
    by (simp_all add: lit_def bytes_of_def)
  obtain path0 where p0: "put_str (fresh 128) ?dir = Some path0"
    using dir(2) by (simp add: put_str_def)
  then have p0': "str_copy (fresh 128) (Some (lit ''/progs/'')) = Some path0" "terminated path0" "length path0 = 128"
    "cstr path0 = ?dir"
    using dir put_str_cstr [OF p0] put_str_terminated [OF p0] put_str_length [OF p0] by (simp_all add: str_copy_eq)
  obtain path where path: "str_concat path0 (Some (pr_name p)) = Some path" "terminated path"
    "cstr path = ?dir @ cstr (pr_name p)"
    using strcat_ok [of path0 "pr_name p"] assms p0' dir(2) by (auto simp: help_file_ok_def)
  have "cstr path = path_of (prog_path p)" using path(3) dir(4) by (simp add: prog_path_def path_of_def)
  moreover have "length (cstr path) < 128" using path(3) dir(2) assms by (simp add: help_file_ok_def)
  ultimately have "target k (Some path) = Some (prog_path p)"
    using assms by (intro target_path_of) (simp_all add: help_file_ok_def)
  then show ?thesis using that p0'(1) path by blast
qed

text \<open>One round of the loop.\<close>

lemma install_ok:
  assumes ok: "machine_ok hw view capacity k" and p: "help_file_ok p" "pr_visible p"
  obtains k' where "\<And>ps. programs_init_loop hw (p # ps) k = programs_init_loop hw ps k'"
    "machine_ok hw view capacity k'" "kept k k'" "fs_view (nodes k') = tree_install p (fs_view (nodes k))"
proof -
  obtain path0 path where path: "str_copy (fresh 128) (Some (lit ''/progs/'')) = Some path0"
    "str_concat path0 (Some (pr_name p)) = Some path" "terminated path" "target k (Some path) = Some (prog_path p)"
    using install_path [OF p(1)] .
  have arg: "arg_ok (Some path)" using path(3) by simp
  have ex: "fs_exists (Some path) k = Some (fs_view (nodes k) (prog_path p) \<noteq> None)"
    using fs_exists_eq [OF machine_okD(2) [OF ok] arg path(4)] .
  show ?thesis
  proof (cases "fs_view (nodes k) (prog_path p) = None")
    case False
    then have "fs_view (nodes k) = tree_install p (fs_view (nodes k))" by (simp only: tree_install_def if_False)
    moreover have "programs_init_loop hw (p # ps) k = programs_init_loop hw ps k" for ps
      using False p path ex by (simp add: kc_eqs)
    ultimately show ?thesis using that [of k] ok by simp
  next
    case True
    obtain r1 k1 where k1: "fs_create_file hw (Some path) k = Some (r1, k1)" "machine_ok hw view capacity k1"
      "kept k k1" "tree_create (File []) (prog_path p) (fs_view (nodes k)) = (r1, fs_view (nodes k1))"
      using create_ok(1) [OF ok arg path(4)] unfolding refines_to_def by blast
    have hlp: "terminated (pr_help p)" "length (cstr (pr_help p)) < 256"
      using p(1) by (simp_all add: help_file_ok_def)
    let ?n = "of_nat (length (cstr (pr_help p))) :: 32 word"
    have n: "unat ?n = length (cstr (pr_help p))"
      using hlp(2) by (simp add: unsigned_of_nat take_bit_nat_eq_self_iff)
    have data: "take (unat ?n) (pr_help p) = cstr (pr_help p)" "unat ?n \<le> length (pr_help p)"
      unfolding n using takeWhile_eq_take [of "\<lambda>c. c \<noteq> 0" "pr_help p"] length_cstr_le [of "pr_help p"]
      by (simp_all only: flip: cstr_def)
    have "target k1 (Some path) = Some (prog_path p)" using target_cong [OF k1(3)] path(4) by metis
    then obtain r2 k2 where k2: "fs_write_file hw (Some path) (pr_help p) ?n k1 = Some (r2, k2)"
      "machine_ok hw view capacity k2" "kept k1 k2"
      "tree_write (cstr (pr_help p)) (prog_path p) (fs_view (nodes k1)) = (r2, fs_view (nodes k2))"
      using write_ok [OF k1(2) arg _ data(2)] unfolding refines_to_def data(1) by blast
    have len: "str_len (Some (pr_help p)) = Some (length (cstr (pr_help p)))"
      using hlp(1) by (simp add: str_len_Some)
    have "programs_init_loop hw (p # ps) k = programs_init_loop hw ps k2" for ps
      using True p(2) path(1,2) ex k1(1) k2(1) len by (simp add: kc_eqs)
    moreover have "fs_view (nodes k2) = tree_install p (fs_view (nodes k))"
      using True k1(4) k2(4) by (simp add: tree_install_def)
    ultimately show ?thesis using that k2(2) kept_trans [OF k1(3) k2(3)] by blast
  qed
qed

lemma programs_init_loop_ok:
  "machine_ok hw view capacity k \<Longrightarrow> \<forall>p \<in> set ps. help_file_ok p \<Longrightarrow>
   \<exists>k'. programs_init_loop hw ps k = Some k' \<and> machine_ok hw view capacity k' \<and> kept k k' \<and>
     fs_view (nodes k') = fold tree_install (filter pr_visible ps) (fs_view (nodes k))"
proof (induction ps arbitrary: k)
  case (Cons p ps)
  show ?case
  proof (cases "pr_visible p")
    case False
    then show ?thesis using Cons.IH [OF Cons.prems(1)] Cons.prems(2) by simp
  next
    case True
    obtain k1 where k1: "\<And>ps. programs_init_loop hw (p # ps) k = programs_init_loop hw ps k1"
      "machine_ok hw view capacity k1" "kept k k1" "fs_view (nodes k1) = tree_install p (fs_view (nodes k))"
      using install_ok [OF Cons.prems(1) _ True] Cons.prems(2) by auto
    show ?thesis using Cons.IH [OF k1(2)] Cons.prems(2) k1(1,3,4) True kept_trans by (auto simp del: programs_init_loop.simps)
  qed
qed simp

lemma programs_init_ok:
  assumes "machine_ok hw view capacity k"
  obtains k' where "programs_init hw k = Some k'" "machine_ok hw view capacity k'" "kept k k'"
    "fs_view (nodes k') = fold tree_install listed_programs (fs_view (nodes k))"
  using programs_init_loop_ok [OF assms, of programs] programs_help_file_ok
  unfolding programs_init_def listed_programs_def by blast


lemma tree_install_new:
  assumes "v [bytes_of ''progs''] = Some Dir" "v (prog_path p) = None" "card (dom v) < FS_MAX_FILES"
    and "length (cstr (pr_help p)) \<le> FS_MAX_FILE_SIZE"
  shows "tree_install p v = v(prog_path p \<mapsto> File (cstr (pr_help p)))"
  using assms small_tree_not_full [OF assms(3)]
  by (simp add: tree_install_def tree_create_def tree_write_def prog_path_def)

lemma install_new:
  "finite (dom v) \<Longrightarrow> v [bytes_of ''progs''] = Some Dir \<Longrightarrow> card (dom v) + length ps \<le> FS_MAX_FILES \<Longrightarrow>
   distinct (map prog_path ps) \<Longrightarrow>
   \<forall>p \<in> set ps. v (prog_path p) = None \<and> length (cstr (pr_help p)) \<le> FS_MAX_FILE_SIZE \<Longrightarrow>
   fold tree_install ps v = v ++ map_of (map (\<lambda>p. (prog_path p, File (cstr (pr_help p)))) ps)"
proof (induction ps arbitrary: v)
  case (Cons p ps)
  let ?v = "v(prog_path p \<mapsto> File (cstr (pr_help p)))"
  have new: "tree_install p v = ?v" using Cons.prems by (intro tree_install_new) simp_all
  have "map_of (map (\<lambda>p. (prog_path p, File (cstr (pr_help p)))) ps) (prog_path p) = None"
    using Cons.prems(4) by (simp add: map_of_eq_None_iff image_image)
  then have "?v ++ map_of (map (\<lambda>p. (prog_path p, File (cstr (pr_help p)))) ps) =
      v ++ map_of (map (\<lambda>p. (prog_path p, File (cstr (pr_help p)))) (p # ps))"
    by (auto simp: map_add_def fun_eq_iff split: option.split)
  moreover have "fold tree_install ps ?v = ?v ++ map_of (map (\<lambda>p. (prog_path p, File (cstr (pr_help p)))) ps)"
  proof (rule Cons.IH)
    have "dom ?v = insert (prog_path p) (dom v)" "prog_path p \<notin> dom v" using Cons.prems(5) by auto
    then show "finite (dom ?v)" "card (dom ?v) + length ps \<le> FS_MAX_FILES" using Cons.prems(1,3) by simp_all
    show "?v [bytes_of ''progs''] = Some Dir" using Cons.prems(2) by (simp add: prog_path_def)
    show "distinct (map prog_path ps)" using Cons.prems(4) by simp
    have "prog_path q \<noteq> prog_path p" if "q \<in> set ps" for q using Cons.prems(4) that by (auto simp: image_iff)
    then show "\<forall>q \<in> set ps. ?v (prog_path q) = None \<and> length (cstr (pr_help q)) \<le> FS_MAX_FILE_SIZE"
      using Cons.prems(5) by simp
  qed
  ultimately show ?case using new by (simp only: fold_simps)
qed simp

text \<open>The files of a fresh machine: the default tree and a help file for every listed command.\<close>

definition boot_tree :: fs_tree where
  "boot_tree = default_view ++ map_of (map (\<lambda>p. (prog_path p, File (cstr (pr_help p)))) listed_programs)"

lemma install_default: "fold tree_install listed_programs default_view = boot_tree"
proof -
  have d: "dom default_view = {[], [bytes_of ''progs''], [bytes_of ''home''],
      [bytes_of ''home'', bytes_of ''readme.txt'']}"
    by (auto simp: default_view_def)
  have "card (dom default_view) \<le> 4" unfolding d by (rule card_insert_le_m1, simp)+ simp
  moreover have "length listed_programs = 32" "distinct (map prog_path listed_programs)"
    by code_simp+
  moreover have "default_view (prog_path p) = None \<and> length (cstr (pr_help p)) \<le> FS_MAX_FILE_SIZE"
    if "p \<in> set listed_programs" for p
  proof -
    have "help_file_ok p" using that programs_help_file_ok by (simp add: listed_programs_def)
    then show ?thesis using names_differ
      by (simp add: help_file_ok_def FS_MAX_FILE_SIZE_def default_view_def prog_path_def)
  qed
  moreover have "default_view [bytes_of ''progs''] = Some Dir" by (simp add: default_view_def)
  ultimately show ?thesis unfolding boot_tree_def using d by (intro install_new) (simp_all add: FS_MAX_FILES_def)
qed

subsection \<open>From the power-on state\<close>

text \<open>The static variables of the modules: tables and strings of their declared sizes, otherwise
  arbitrary.\<close>

definition power_on :: "'d kernel \<Rightarrow> bool" where
  "power_on k \<longleftrightarrow> table_shape (nodes k) \<and> length (current_dir k) = FS_MAX_PATH \<and> users_raw (k_users k) \<and>
     ring_ok (k_term k)"

text \<open>What \<open>disk_init\<close> may find: no drive, or a tolerant one whose sector 2048 is not
  a header of this filesystem, or one that holds the image of a well-formed table.\<close>

definition drive_empty :: "('d \<Rightarrow> ata_view) \<Rightarrow> 'd \<Rightarrow> bool" where
  "drive_empty view d \<longleftrightarrow> header_matches (drive_sector view d 2048) = Some False"

definition drive_usable :: "'d ports \<Rightarrow> ('d \<Rightarrow> ata_view) \<Rightarrow> nat \<Rightarrow> 'd \<Rightarrow> bool" where
  "drive_usable hw view capacity d \<longleftrightarrow> tolerant_drive hw view capacity \<and> 3117 \<le> capacity \<and> drive_ready view d \<and>
     (drive_empty view d \<or> (\<exists>ns. fs_wf ns \<and> image_at (drive_sector view d) (raw_of_nodes ns)))"

text \<open>A machine that can be switched on.\<close>

definition can_boot :: "'d ports \<Rightarrow> ('d \<Rightarrow> ata_view) \<Rightarrow> nat \<Rightarrow> 'd kernel \<Rightarrow> bool" where
  "can_boot hw view capacity k \<longleftrightarrow> power_on k \<and>
     (case disk_init hw (k_dev k) of (ds, d) \<Rightarrow> has_disk ds \<longrightarrow> drive_usable hw view capacity d)"

lemma disk_init_status: "terminated (status_text (fst (disk_init hw d)))"
  by (simp add: disk_init_def split: prod.split)

text \<open>The tree the kernel starts with.\<close>

definition boot_view :: "('d \<Rightarrow> ata_view) \<Rightarrow> disk_state \<Rightarrow> 'd \<Rightarrow> fs_tree \<Rightarrow> bool" where
  "boot_view view ds d v \<longleftrightarrow>
     (if has_disk ds \<and> \<not> drive_empty view d
      then \<forall>ns. fs_wf ns \<longrightarrow> image_at (drive_sector view d) (raw_of_nodes ns) \<longrightarrow> v = fs_view ns
      else v = default_view)"

lemma fs_init_machine:
  assumes "table_shape (nodes k)" "length (current_dir k) = FS_MAX_PATH"
    and "users_wf (k_users k)" "term_wf (k_term k)" "terminated (status_text (k_disk k))"
    and "has_disk (k_disk k) \<Longrightarrow> drive_usable hw view capacity (k_dev k)"
  shows "\<exists>k'. fs_init hw k = Some k' \<and> machine_ok hw view capacity k' \<and> fs_keeps k k' \<and>
     cstr (current_dir k') = path_of [] \<and> boot_view view (k_disk k) (k_dev k) (fs_view (nodes k'))"
proof -
  have wf: "kernel_wf k'" if "fs_ok k'" "fs_keeps k k'" for k'
    using that assms(3-5) by (simp add: kernel_wf_def fs_keeps_def)
  show ?thesis
  proof (cases "has_disk (k_disk k)")
    case False
    obtain k' where k': "fs_init hw k = Some k'" "fs_ok k'" "fs_view (nodes k') = default_view"
      "cstr (current_dir k') = path_of []" "\<not> persistence_enabled k'" "\<not> fs_booting k'" "fs_keeps k k'"
      using fs_init_without_disk [OF assms(1,2) False] by blast
    then show ?thesis using wf False
      by (auto simp: machine_ok_def synced_def disk_on_def fs_keeps_def boot_view_def)
  next
    case True
    then have use: "tolerant_drive hw view capacity" "3117 \<le> capacity" "drive_ready view (k_dev k)"
      "drive_empty view (k_dev k) \<or> (\<exists>ns. fs_wf ns \<and> image_at (drive_sector view (k_dev k)) (raw_of_nodes ns))"
      using assms(6) by (auto simp: drive_usable_def)
    show ?thesis
    proof (cases "drive_empty view (k_dev k)")
      case emp: True
      obtain k' where k': "fs_init hw k = Some k'" "fs_ok k'" "fs_view (nodes k') = default_view"
        "persistence_enabled k'" "\<not> fs_booting k'" "drive_ready view (k_dev k')"
        "image_at (drive_sector view (k_dev k')) (raw_of_nodes (nodes k'))" "cstr (current_dir k') = path_of []"
        "fs_keeps k k'"
        using fs_init_formats [OF assms(1,2) use(1,2) True use(3) emp [unfolded drive_empty_def]] by blast
      then show ?thesis using wf True use emp
        by (auto simp: machine_ok_def synced_def disk_on_def fs_keeps_def boot_view_def)
    next
      case full: False
      then obtain ns where ns: "fs_wf ns" "image_at (drive_sector view (k_dev k)) (raw_of_nodes ns)"
        using use(4) by blast
      obtain k' where k': "fs_init hw k = Some k'" "fs_ok k'" "nodes k' = ns" "cstr (current_dir k') = path_of []"
        "persistence_enabled k'" "\<not> fs_booting k'" "drive_ready view (k_dev k')"
        "drive_sector view (k_dev k') = drive_sector view (k_dev k)" "fs_keeps k k'"
        using fs_init_loads [OF assms(1,2) use(1,2) True use(3) ns] by blast
      have "nodes k' = ns'" if "fs_wf ns'" "image_at (drive_sector view (k_dev k)) (raw_of_nodes ns')" for ns'
        using fs_init_loads [OF assms(1,2) use(1,2) True use(3) that] k'(1) by auto
      then have "boot_view view (k_disk k) (k_dev k) (fs_view (nodes k'))" using True full by (auto simp: boot_view_def)
      then show ?thesis using k' wf True use ns
        by (auto simp: machine_ok_def synced_def disk_on_def fs_keeps_def)
    qed
  qed
qed

lemma kernel_init_ok:
  fixes k :: "'d kernel"
  assumes boot: "can_boot hw view capacity k" and d: "disk_init hw (k_dev k) = (ds, d)"
  shows "\<exists>k' v. kernel_init hw k = Some k' \<and> machine_ok hw view capacity k' \<and> k_keys k' = k_keys k \<and>
     k_disk k' = ds \<and> cstr (current_dir k') = path_of [] \<and>
     users_view (k_users k') = [bytes_of ''root'' \<mapsto> True, bytes_of ''guest'' \<mapsto> False] \<and>
     current_user (k_users k') = 0 \<and>
     boot_view view ds d v \<and> fs_view (nodes k') = fold tree_install listed_programs v"
proof -
  have on: "power_on k" and use: "has_disk ds \<Longrightarrow> drive_usable hw view capacity d"
    using assms by (simp_all add: can_boot_def)
  let ?k1 = "k\<lparr>k_term := io_init (k_term k), k_heap := memory_init (k_heap k)\<rparr>"
  obtain s where s: "users_init (k_users k) = Some s" "users_wf s" "current_user s = 0"
    "users_view s = [bytes_of ''root'' \<mapsto> True, bytes_of ''guest'' \<mapsto> False]"
    using users_init_wf [of "k_users k"] on by (auto simp: power_on_def)
  let ?k2 = "?k1\<lparr>k_users := s, k_disk := ds, k_dev := d\<rparr>"
  have "terminated (status_text ds)" using disk_init_status [of hw "k_dev k"] d by simp
  then obtain k3 where k3: "fs_init hw ?k2 = Some k3" "machine_ok hw view capacity k3" "fs_keeps ?k2 k3"
    "cstr (current_dir k3) = path_of []" "boot_view view (k_disk ?k2) (k_dev ?k2) (fs_view (nodes k3))"
    using fs_init_machine [of ?k2 hw view capacity] on s(2) use term_wf_io_init
    by (auto simp: power_on_def)
  obtain k4 where k4: "programs_init hw k3 = Some k4" "machine_ok hw view capacity k4" "kept k3 k4"
    "fs_view (nodes k4) = fold tree_install listed_programs (fs_view (nodes k3))"
    using programs_init_ok [OF k3(2)] .
  have "kernel_init hw k = Some k4"
    using s(1) d k3(1) k4(1) by (simp add: kernel_init_def Let_def)
  moreover have "boot_view view ds d (fs_view (nodes k3))" using k3(5) by simp
  ultimately show ?thesis
    using k3(3,4) k4(2-4) s(3,4) by (auto simp: kept_def fs_keeps_def)
qed

lemma kmain_ok:
  fixes k :: "'d kernel"
  assumes "can_boot hw view capacity k" and "disk_init hw (k_dev k) = (ds, d)"
  shows "\<exists>k' v. kmain hw k = Some k' \<and> machine_ok hw view capacity k' \<and> k_keys k' = k_keys k \<and>
     k_disk k' = ds \<and> cstr (current_dir k') = path_of [] \<and>
     users_view (k_users k') = [bytes_of ''root'' \<mapsto> True, bytes_of ''guest'' \<mapsto> False] \<and>
     current_user (k_users k') = 0 \<and>
     boot_view view ds d v \<and> fs_view (nodes k') = fold tree_install listed_programs v"
proof -
  obtain k1 v where k1: "kernel_init hw k = Some k1" "machine_ok hw view capacity k1" "k_keys k1 = k_keys k"
    "k_disk k1 = ds" "cstr (current_dir k1) = path_of []"
    "users_view (k_users k1) = [bytes_of ''root'' \<mapsto> True, bytes_of ''guest'' \<mapsto> False]"
    "current_user (k_users k1) = 0"
    "boot_view view ds d v" "fs_view (nodes k1) = fold tree_install listed_programs v"
    using kernel_init_ok [OF assms] by blast
  let ?k2 = "k1\<lparr>k_term := io_set_color VGA_COLOR_LIGHT_CYAN VGA_COLOR_BLACK (io_clear_screen (k_term k1))\<rparr>"
  let ?k3 = "\<lambda>xs. printed xs ?k2"
  let ?k4 = "\<lambda>xs. (?k3 xs)\<lparr>k_term := io_set_color VGA_COLOR_LIGHT_GREY VGA_COLOR_BLACK (k_term (?k3 xs))\<rparr>"
  have "\<exists>xs ys. kmain hw k = Some (printed ys (?k4 xs))"
    unfolding kmain_def Let_def k1(1) by (simp add: kprintln_printed del: printed_fields) blast
  then obtain xs ys where m: "kmain hw k = Some (printed ys (?k4 xs))" by blast
  have "term_wf (k_term (?k4 xs))"
    using machine_okD(5) [OF k1(2)]
    by (simp add: term_wf_fold_print term_wf_io_set_color term_wf_io_clear_screen)
  then have "machine_ok hw view capacity (k1\<lparr>k_term := k_term (?k4 xs)\<rparr>)"
    by (rule machine_ok_term [OF k1(2)])
  then have "machine_ok hw view capacity (printed ys (?k4 xs))" by (intro machine_ok_printed) (simp add: printed_def)
  then show ?thesis using m k1 by auto
qed

text \<open>Probing a drive that follows the protocol does not change its sectors.\<close>

lemma disk_init_drive:
  assumes "tolerant_drive hw view capacity" "drive_ready view d" "disk_init hw d = (ds, d')"
  shows "drive_ready view d' \<and> drive_sector view d' = drive_sector view d"
proof -
  have ata: "ata_device hw view capacity" using assms(1) by (simp add: tolerant_drive_def clean_drive_def)
  obtain s d1 where p: "p_inb hw ATA_STATUS d = (s, d1)" by (cases "p_inb hw ATA_STATUS d")
  then have "d' = d1" using assms(3) by (simp add: disk_init_def split: if_splits)
  moreover have "view d1 = (view d)\<lparr>av_busy := av_busy (view d) - 1\<rparr>"
  proof (cases "0 < av_busy (view d)")
    case True
    then show ?thesis using ata_device.status_busy [OF ata _ p] by simp
  next
    case False
    then show ?thesis using ata_device.status_ready [OF ata _ p] by simp
  qed
  ultimately show ?thesis
    using assms(2) unfolding drive_ready_def drive_sector_def media_ok_def
    by (simp add: fun_eq_iff less_imp_diff_less)
qed

text \<open>A drive that holds the image of a well-formed table is not empty.\<close>

lemma image_not_empty: "image_at (drive_sector view d) raw \<Longrightarrow> \<not> drive_empty view d"
  by (simp add: image_at_def drive_empty_def header_matches_image)

text \<open>Switching the machine off and on again.\<close>

lemma reboot:
  assumes ok: "machine_ok hw view capacity k" and disk: "has_disk (k_disk k)"
    and k1: "power_on k1" "k_dev k1 = k_dev k" and found: "has_disk (fst (disk_init hw (k_dev k1)))"
  shows "\<exists>k2. kmain hw k1 = Some k2 \<and> machine_ok hw view capacity k2 \<and>
     fs_view (nodes k2) = fold tree_install listed_programs (fs_view (nodes k))"
proof -
  obtain ds d where d: "disk_init hw (k_dev k1) = (ds, d)" by fastforce
  have on: "tolerant_drive hw view capacity" "3117 \<le> capacity" "drive_ready view (k_dev k)"
    "image_at (drive_sector view (k_dev k)) (raw_of_nodes (nodes k))"
    using disk machine_okD(7) [OF ok] by (auto simp: synced_def disk_on_def)
  have d': "drive_ready view d" "drive_sector view d = drive_sector view (k_dev k)"
    using disk_init_drive [OF on(1) _ d] on(3) k1(2) by auto
  have img: "image_at (drive_sector view d) (raw_of_nodes (nodes k))" using on(4) d'(2) by simp
  note wf = machine_okD(3) [OF ok]
  have boot: "can_boot hw view capacity k1"
    using k1(1) d on(1,2) d'(1) img wf by (auto simp: can_boot_def drive_usable_def)
  obtain k2 v where k2: "kmain hw k1 = Some k2" "machine_ok hw view capacity k2" "boot_view view ds d v"
    "fs_view (nodes k2) = fold tree_install listed_programs v"
    using kmain_ok [OF boot d] by blast
  have "v = fs_view (nodes k)"
    using k2(3) found d image_not_empty [OF img] wf img by (simp add: boot_view_def)
  then show ?thesis using k2 by blast
qed

end
