(* ===== verification/Kernel_Properties.thy ===== *)
theory Kernel_Properties
  imports Kernel_Boot Fs_Properties
begin

section \<open>The running system\<close>

text \<open>
  Boot, the command loop and a reboot, as one story: \<open>session\<close> is the step relation of a machine that
  has been switched on.  The keyboard delivers a scan code, or the shell completes a round: it reads
  the typed line, splits it, finds the command and runs it.  A round that would read or write outside
  an array has no result.  The rounds of the command \<open>desktop\<close> are left out: the code of \<open>desktop_run\<close> is
  not in the repository, and the theorems about sessions assume nothing of it.
\<close>

inductive session :: "'d ports \<Rightarrow> 'd command \<Rightarrow> 'd kernel \<Rightarrow> cbuf \<Rightarrow> 'd kernel \<Rightarrow> bool"
  for hw desktop_run k0 where
  session_start: "kmain hw k0 = Some k \<Longrightarrow> length line = 256 \<Longrightarrow> session hw desktop_run k0 line k"
| session_key: "session hw desktop_run k0 line k \<Longrightarrow>
    session hw desktop_run k0 line (k\<lparr>k_keys := k_keys k @ [code]\<rparr>)"
| session_round: "session hw desktop_run k0 line k \<Longrightarrow> typed_line k = Some typed \<Longrightarrow>
    \<not> calls_desktop typed \<Longrightarrow> shell_step hw desktop_run line k = Some (line', k') \<Longrightarrow> session hw desktop_run k0 line' k'"

lemma session_ok:
  assumes "session hw desktop_run k0 line k" "can_boot hw view capacity k0"
  shows "length line = 256 \<and> machine_ok hw view capacity k"
  using assms(1)
proof (induction rule: session.induct)
  case (session_start k line)
  obtain ds d where "disk_init hw (k_dev k0) = (ds, d)" by fastforce
  then show ?case using kmain_ok [OF assms(2)] session_start by fastforce
next
  case (session_key line k code)
  then show ?case using machine_ok_keys by blast
next
  case (session_round line k typed line' k')
  then have ok: "machine_ok hw view capacity k" "length line = 256" by simp_all
  have "line_fits typed k" using shell_step_fits [OF ok session_round.hyps(2)] session_round.hyps(4) by blast
  then show ?case using shell_step_ok [OF ok session_round.hyps(2,3), where desktop_run = desktop_run] session_round.hyps(4) by auto
qed

subsection \<open>A concrete machine\<close>

definition no_desktop :: "'d command" where
  "no_desktop argv k = Some (0, k)"

lemma sim_blank_empty: "drive_empty id sim_blank"
proof -
  have "bytes_of_words (replicate n 0) = replicate (2 * n) 0" for n
    by (induction n) (simp_all add: word_lo_def word_hi_def)
  from this [of 256] show ?thesis
    by (simp add: drive_empty_def drive_sector_def sim_blank_def header_matches_def read_u32_eq
        u32_of_bytes_def FS_DISK_VERSION_def)
qed

lemma sim_detected: "disk_init sim_ports sim_blank = (\<lparr>has_disk = True, status_text = lit ''primary ATA disk detected''\<rparr>, sim_blank)"
  by (simp add: disk_init_def sim_ports_def sim_inb_def sim_blank_def)

lemma kernel_off_boots: "can_boot sim_ports id (2 ^ 28) kernel_off"
proof -
  have "power_on kernel_off"
    using kernel_off_shape users_raw_zero
    by (simp add: power_on_def kernel_off_def ring_ok_def term_zero_def SCROLLBACK_LINES_def VGA_WIDTH_def)
  moreover have "k_dev kernel_off = sim_blank" by (simp add: kernel_off_def)
  ultimately show ?thesis
    using sim_drive.tolerant_drive_axioms sim_blank_ready sim_blank_empty
    by (simp add: can_boot_def sim_detected drive_usable_def)
qed

definition kernel_on :: "ata_view kernel" where
  "kernel_on = the (kmain sim_ports kernel_off)"

lemma kernel_on:
  "kmain sim_ports kernel_off = Some kernel_on" "machine_ok sim_ports id (2 ^ 28) kernel_on"
  "has_disk (k_disk kernel_on)" "fs_view (nodes kernel_on) = boot_tree" "k_keys kernel_on = []"
  "cstr (current_dir kernel_on) = path_of []"
  "users_view (k_users kernel_on) = [bytes_of ''root'' \<mapsto> True, bytes_of ''guest'' \<mapsto> False]"
proof -
  have dev: "disk_init sim_ports (k_dev kernel_off) =
      (\<lparr>has_disk = True, status_text = lit ''primary ATA disk detected''\<rparr>, sim_blank)"
    using sim_detected by (simp add: kernel_off_def)
  obtain k v where k: "kmain sim_ports kernel_off = Some k" "machine_ok sim_ports id (2 ^ 28) k"
    "k_keys k = k_keys kernel_off" "has_disk (k_disk k)" "cstr (current_dir k) = path_of []"
    "users_view (k_users k) = [bytes_of ''root'' \<mapsto> True, bytes_of ''guest'' \<mapsto> False]"
    "v = default_view" "fs_view (nodes k) = fold tree_install listed_programs v"
    using kmain_ok [OF kernel_off_boots dev] sim_blank_empty by (auto simp: boot_view_def)
  then have on: "kernel_on = k" by (simp add: kernel_on_def)
  show "kmain sim_ports kernel_off = Some kernel_on" "machine_ok sim_ports id (2 ^ 28) kernel_on"
    "has_disk (k_disk kernel_on)" "fs_view (nodes kernel_on) = boot_tree" "k_keys kernel_on = []"
    "cstr (current_dir kernel_on) = path_of []"
    "users_view (k_users kernel_on) = [bytes_of ''root'' \<mapsto> True, bytes_of ''guest'' \<mapsto> False]"
    using k install_default unfolding on by (simp_all add: kernel_off_def)
qed

lemma sim_always_detected: "has_disk (fst (disk_init sim_ports d))"
proof -
  have "ATA_SR_BSY \<noteq> 0xFF" "ATA_SR_BSY \<noteq> 0" by (simp_all add: ATA_SR_BSY_def)
  then show ?thesis by (simp add: disk_init_def sim_ports_def sim_inb_def)
qed

text \<open>Keys that type \<open>ls\<close>; the first code is the release of a key.\<close>

definition keys_ls :: "byte list" where
  "keys_ls = [0x9C, 38, 31, 28]"

lemma typed_ls: "k_keys k = keys_ls \<Longrightarrow> typed_line k = Some (bytes_of ''ls'')"
proof -
  have k: "key_chars ext keys_ls = key_chars False [38, 31, 28]" for ext
    by (simp add: keys_ls_def)
  have "edit_line 256 [] (key_chars False [38, 31, 28]) = Some (bytes_of ''ls'')" by code_simp
  then show "k_keys k = keys_ls \<Longrightarrow> typed_line k = Some (bytes_of ''ls'')" by (simp add: typed_line_def k)
qed

lemma words_ls: "words_of (bytes_of ''ls'') = [bytes_of ''ls'']"
  by code_simp

lemma command_ls: "map_option pr_main (command_of (bytes_of ''ls'')) = Some Prog_Ls"
  by code_simp

lemma fits_ls: "line_fits (bytes_of ''ls'') k"
  using command_ls
  by (auto simp: line_fits_def words_ls in_limits_def)

subsection \<open>Properties\<close>

text \<open>
  C5: The machine boots.  From static memory of any content, without a drive, with an empty tolerant one
  or with one that holds a saved table, \<open>kmain\<close> reaches the command loop with a well-formed machine:
  \<open>root\<close> logged in, the users \<open>root\<close> and \<open>guest\<close>, current directory \<open>/\<close>; the files are the default
  tree and a help file for every listed command, or, with a saved table, the saved tree with the
  missing help files added.
\<close>

theorem kernel_boots:
  assumes "can_boot hw view capacity k" "disk_init hw (k_dev k) = (ds, d)"
  shows "\<exists>k'. kmain hw k = Some k' \<and> machine_ok hw view capacity k' \<and> k_keys k' = k_keys k \<and>
     cstr (current_dir k') = path_of [] \<and>
     users_view (k_users k') = [bytes_of ''root'' \<mapsto> True, bytes_of ''guest'' \<mapsto> False] \<and>
     (\<exists>nm. users_current_name (k_users k') = Some nm \<and> cstr nm = bytes_of ''root'') \<and>
     (\<not> has_disk ds \<or> drive_empty view d \<longrightarrow> fs_view (nodes k') = boot_tree) \<and>
     (\<forall>ns. has_disk ds \<and> fs_wf ns \<and> image_at (drive_sector view d) (raw_of_nodes ns) \<longrightarrow>
        fs_view (nodes k') = fold tree_install listed_programs (fs_view ns))"
proof -
  obtain k' v where k: "kmain hw k = Some k'" "machine_ok hw view capacity k'" "k_keys k' = k_keys k"
    "cstr (current_dir k') = path_of []"
    "users_view (k_users k') = [bytes_of ''root'' \<mapsto> True, bytes_of ''guest'' \<mapsto> False]"
    "current_user (k_users k') = 0" "boot_view view ds d v" "fs_view (nodes k') = fold tree_install listed_programs v"
    using kmain_ok [OF assms] by blast
  have "\<exists>nm. users_current_name (k_users k') = Some nm \<and> cstr nm = bytes_of ''root''"
    using machine_okD(4) [OF k(2)] k(6)
    by (simp add: users_wf_def root_ok_def users_current_name_def rd_def USER_MAX_COUNT_def)
  moreover have "fs_view (nodes k') = boot_tree" if "\<not> has_disk ds \<or> drive_empty view d"
    using that k(7,8) install_default by (auto simp: boot_view_def)
  moreover have "fs_view (nodes k') = fold tree_install listed_programs (fs_view ns)"
    if "has_disk ds" "fs_wf ns" "image_at (drive_sector view d) (raw_of_nodes ns)" for ns
    using that k(7,8) image_not_empty [OF that(3)] by (simp add: boot_view_def)
  ultimately show ?thesis using k(1-5) by blast
qed

lemma kernel_boots_witness:
  "\<exists>k'. kmain sim_ports kernel_off = Some k' \<and> fs_view (nodes k') = boot_tree"
proof -
  have "disk_init sim_ports (k_dev kernel_off) =
      (\<lparr>has_disk = True, status_text = lit ''primary ATA disk detected''\<rparr>, sim_blank)"
    using sim_detected by (simp add: kernel_off_def)
  from kernel_boots [OF kernel_off_boots this] show ?thesis using sim_blank_empty by auto
qed

text \<open>
  C4: The machine stays well-formed.  In every state a session can reach, whatever is typed within the
  limits of the kernel's arrays and except the command \<open>desktop\<close>, the node table represents a tree
  (unique absolute paths, existing parent directories, bounded sizes) and the current directory is a
  normal path, the user table has unique names and \<open>root\<close> as an administrator, the terminal's cursor
  and ring buffer are in range and the VGA memory shows its rows, and, with a drive, the drive holds the image of the node table as it is: every change has been
  saved.  The drive, here and below, is a \<open>tolerant_drive\<close>: it follows the PIO protocol without errors,
  shows no ERR while busy and ignores a flush command while busy.
\<close>

theorem session_invariant:
  assumes "can_boot hw view capacity k0"
    and "session hw desktop_run k0 line k"
  shows "length line = 256 \<and> fs_ok k \<and> tree_ok (fs_view (nodes k)) \<and> users_wf (k_users k) \<and>
     users_view (k_users k) (bytes_of ''root'') = Some True \<and> term_wf (k_term k) \<and>
     synced hw view capacity k"
proof -
  have "length line = 256" "machine_ok hw view capacity k" using session_ok [OF assms(2,1)] by auto
  then show ?thesis
    using machine_okD [of hw view capacity k] fs_view_tree users_wf_root by simp
qed

lemma session_invariant_witness:
  "\<exists>line k. session sim_ports no_desktop kernel_off line k \<and> k_keys k = [] \<and>
     image_at (drive_sector id (k_dev k)) (raw_of_nodes (nodes k))"
proof -
  have s: "session sim_ports no_desktop kernel_off (fresh 256) kernel_on"
    using kernel_on(1) by (intro session_start) simp_all
  then show ?thesis
    using session_invariant [OF kernel_off_boots s] kernel_on(3,5) by (auto simp: synced_def)
qed

text \<open>
  C1: A session survives a reboot.  After any session without the command \<open>desktop\<close> on a machine with a
  tolerant drive, switching the machine off, without any command to save, and on again with the same
  drive, from whose memory nothing is lost meanwhile, brings back the tree of files as the session left
  it, up to deleted help files, which start-up restores.
\<close>

theorem session_survives_reboot:
  assumes "can_boot hw view capacity k0"
    and "session hw desktop_run k0 line k" "has_disk (k_disk k)"
    and "power_on k1" "k_dev k1 = k_dev k" "has_disk (fst (disk_init hw (k_dev k1)))"
  shows "\<exists>k2. kmain hw k1 = Some k2 \<and> machine_ok hw view capacity k2 \<and>
     fs_view (nodes k2) = fold tree_install listed_programs (fs_view (nodes k))"
  using reboot [OF _ assms(3-6)] session_ok [OF assms(2,1)] by blast

lemma session_survives_reboot_witness:
  "\<exists>k2. kmain sim_ports (kernel_off\<lparr>k_dev := k_dev kernel_on\<rparr>) = Some k2 \<and>
     fs_view (nodes k2) = fold tree_install listed_programs boot_tree"
proof -
  have s: "session sim_ports no_desktop kernel_off (fresh 256) kernel_on"
    using kernel_on(1) by (intro session_start) simp_all
  have "power_on (kernel_off\<lparr>k_dev := k_dev kernel_on\<rparr>)"
    using kernel_off_boots by (simp add: can_boot_def power_on_def)
  from session_survives_reboot [OF kernel_off_boots s kernel_on(3) this] show ?thesis
    using sim_always_detected kernel_on(4) by auto
qed

text \<open>
  C6: When a round of the command loop ends.  On a well-formed machine the shell waits while the pending
  keys do not contain a complete line; once they do, and the line does not call \<open>desktop\<close> (whose code is
  not in the repository), the round returns exactly when the line stays within the limits of the
  kernel's arrays (beyond them an array is overrun, or a directory is moved into itself), and then,
  whatever the command and its errors, to a well-formed machine that is ready for the next one.
\<close>

theorem shell_round_returns:
  assumes "machine_ok hw view capacity k" "length line = 256"
    and desk: "\<And>typed. typed_line k = Some typed \<Longrightarrow> \<not> calls_desktop typed"
  shows "(shell_step hw desktop_run line k \<noteq> None \<longleftrightarrow> (\<exists>typed. typed_line k = Some typed \<and> line_fits typed k)) \<and>
     pred_option (\<lambda>(line', k'). length line' = 256 \<and> machine_ok hw view capacity k')
       (shell_step hw desktop_run line k)"
proof (cases "typed_line k")
  case None
  then show ?thesis using shell_read_None [OF assms(1,2)] by (simp add: shell_step_def)
next
  case (Some typed)
  then show ?thesis
    using shell_step_ok [OF assms(1,2) Some desk [OF Some], where desktop_run = desktop_run] shell_step_fits [OF assms(1,2) Some, of desktop_run]
    by (cases "shell_step hw desktop_run line k") auto
qed

lemma shell_round_returns_witness:
  "\<exists>line' k'. shell_step sim_ports no_desktop (fresh 256) (kernel_on\<lparr>k_keys := keys_ls\<rparr>) = Some (line', k') \<and>
     machine_ok sim_ports id (2 ^ 28) k'"
proof -
  let ?k = "kernel_on\<lparr>k_keys := keys_ls\<rparr>"
  have t: "typed_line ?k = Some (bytes_of ''ls'')" by (rule typed_ls) simp
  have len: "length (fresh 256) = 256" by simp
  have desk: "\<not> calls_desktop typed" if "typed_line ?k = Some typed" for typed
    using that t words_ls by (auto simp: calls_desktop_def bytes_of_def)
  from shell_round_returns [OF machine_ok_keys [OF kernel_on(2), where keys = keys_ls] len desk, where desktop_run = no_desktop]
  show ?thesis using t fits_ls [of ?k] by (cases "shell_step sim_ports no_desktop (fresh 256) ?k") auto
qed

text \<open>
  C7: Only an administrator changes the accounts.  A round whose command is typed while a user without
  the admin flag is logged in leaves the set of users and their admin flags as they were, whatever
  the line, other than one that calls \<open>desktop\<close> (whose code is not in the repository).
\<close>

theorem accounts_need_admin:
  assumes "machine_ok hw view capacity k" "length line = 256"
    and "typed_line k = Some typed" "\<not> calls_desktop typed" "users_current_is_admin (k_users k) = Some 0"
    and "shell_step hw desktop_run line k = Some (line', k')"
  shows "users_view (k_users k') = users_view (k_users k)"
  using shell_step_ok [OF assms(1-4) shell_step_fits [OF assms(1-3)], where desktop_run = desktop_run] assms(5,6)
  by (auto simp: accounts_guarded_def)

text \<open>The same machine with \<open>guest\<close> logged in, and the keys of \<open>userdel x\<close>.\<close>

definition guest_users :: users_state where
  "guest_users = snd (the (users_login (lit ''guest'') (k_users kernel_on)))"

lemma guest_users: "users_wf guest_users" "users_current_is_admin guest_users = Some 0"
    "users_view guest_users = users_view (k_users kernel_on)"
proof -
  note wf = machine_okD(4) [OF kernel_on(2)]
  have g: "cstr (lit ''guest'') = bytes_of ''guest''" "bytes_of ''guest'' \<noteq> bytes_of ''root''"
    using bytes_of_literals by auto
  have v: "users_view (k_users kernel_on) (bytes_of ''guest'') = Some False"
    using kernel_on(7) g(2) by simp
  then obtain i where i: "slot_lookup u_live u_name (users (k_users kernel_on)) (cstr (lit ''guest'')) = Some i"
    "\<not> u_admin (users (k_users kernel_on) ! i) \<noteq> 0"
    by (auto simp: users_view_def g(1))
  then have l: "guest_users = (k_users kernel_on)\<lparr>current_user := i\<rparr>" "users_wf guest_users"
    using users_login_cases [OF terminated_lit wf, of "''guest''"] by (auto simp: guest_users_def)
  show "users_wf guest_users" by (rule l(2))
  show "users_view guest_users = users_view (k_users kernel_on)"
    unfolding l(1) by (simp add: users_view_def fun_eq_iff)
  have "i < length (users (k_users kernel_on))" using slot_lookup_SomeD [OF i(1)] by simp
  then show "users_current_is_admin guest_users = Some 0"
    using i(2) unfolding l(1) by (simp add: users_current_is_admin_def)
qed

definition keys_userdel :: "byte list" where
  "keys_userdel = [0x9C, 22, 31, 18, 19, 32, 18, 38, 57, 45, 28]"

lemma typed_userdel: "k_keys k = keys_userdel \<Longrightarrow> typed_line k = Some (bytes_of ''userdel x'')"
proof -
  have k: "key_chars ext keys_userdel = key_chars False (tl keys_userdel)" for ext
    by (simp add: keys_userdel_def)
  have "edit_line 256 [] (key_chars False (tl keys_userdel)) = Some (bytes_of ''userdel x'')" by code_simp
  then show "k_keys k = keys_userdel \<Longrightarrow> typed_line k = Some (bytes_of ''userdel x'')" by (simp add: typed_line_def k)
qed

lemma fits_userdel: "line_fits (bytes_of ''userdel x'') k" "\<not> calls_desktop (bytes_of ''userdel x'')"
proof -
  have w: "words_of (bytes_of ''userdel x'') = [bytes_of ''userdel'', bytes_of ''x'']"
    "map_option pr_main (command_of (bytes_of ''userdel'')) = Some Prog_Userdel"
    by code_simp+
  from w show "line_fits (bytes_of ''userdel x'') k" by (auto simp: line_fits_def in_limits_def)
  show "\<not> calls_desktop (bytes_of ''userdel x'')" using w(1) by (auto simp: calls_desktop_def bytes_of_def)
qed

lemma accounts_need_admin_witness:
  "\<exists>line' k'. shell_step sim_ports no_desktop (fresh 256)
       (kernel_on\<lparr>k_users := guest_users, k_keys := keys_userdel\<rparr>) = Some (line', k') \<and>
     users_view (k_users k') = [bytes_of ''root'' \<mapsto> True, bytes_of ''guest'' \<mapsto> False]"
proof -
  let ?k = "kernel_on\<lparr>k_users := guest_users, k_keys := keys_userdel\<rparr>"
  have ok: "machine_ok sim_ports id (2 ^ 28) ?k"
    using machine_ok_keys [OF machine_ok_users [OF kernel_on(2) guest_users(1)]] by simp
  have t: "typed_line ?k = Some (bytes_of ''userdel x'')" by (rule typed_userdel) simp
  have len: "length (fresh 256) = 256" by simp
  obtain line' k' where r: "shell_step sim_ports no_desktop (fresh 256) ?k = Some (line', k')"
    using shell_step_ok [OF ok len t fits_userdel(2,1)] by blast
  have "users_current_is_admin (k_users ?k) = Some 0" using guest_users(2) by simp
  from accounts_need_admin [OF ok len t fits_userdel(2) this r] show ?thesis
    using r guest_users(3) kernel_on(7) by simp
qed

text \<open>
  C14: What \<open>write\<close> stores, \<open>cat\<close> shows.  When \<open>write <path> <words>\<close> returns 0, the file holds the words
  joined by blanks and a newline, no other entry of the tree has changed, and \<open>cat\<close> of a path that
  means the same file prints exactly this text and returns 0.
\<close>

theorem write_cat_roundtrip:
  assumes "machine_ok hw view capacity k" "args_ok argv" "3 \<le> length argv"
    and "target k (Some (argv ! 1)) = Some cs" "prog_write hw argv k = Some (0, k1)"
    and "args_ok argv2" "2 \<le> length argv2" "target k (Some (argv2 ! 1)) = Some cs"
  shows "fs_view (nodes k1) =
      (fs_view (nodes k))(cs \<mapsto> File (join_words (map cstr (drop 2 argv)) @ [0x0A])) \<and>
    prog_cat hw argv2 k1 = Some (0, printed (join_words (map cstr (drop 2 argv)) @ [0x0A]) k1)"
proof -
  let ?text = "join_words (map cstr (drop 2 argv)) @ [0x0A]"
  have r: "machine_ok hw view capacity k1" "kept k k1"
    "tree_write_text ?text cs (fs_view (nodes k)) = (0, fs_view (nodes k1))"
    using prog_write_refines [OF assms(1-4) prog_write_fits [OF assms(1-5)]] assms(5) by (auto simp: refines_to_def)
  then have v: "fs_view (nodes k1) = (fs_view (nodes k))(cs \<mapsto> File ?text)"
    by (auto simp: tree_write_text_def tree_create_def tree_write_def Let_def split: if_splits option.splits
        fs_entry.splits)
  have "0 \<notin> set (join_words ws)" if "\<forall>w \<in> set ws. 0 \<notin> set w" for ws :: "byte list list"
    using that by (induction ws rule: join_words.induct) auto
  then have "0 \<notin> set ?text" by (auto simp: ball_Un)
  then have "cat_text ?text = ?text" by (auto simp: cat_text_def takeWhile_eq_all_conv)
  moreover have "target k1 (Some (argv2 ! 1)) = Some cs" using target_cong [OF r(2)] assms(8) by simp
  ultimately show ?thesis using prog_cat_eq [OF r(1) assms(6,7)] v by simp
qed

lemma boot_tree_readme: "\<exists>tx. boot_tree [bytes_of ''home'', bytes_of ''readme.txt''] = Some (File tx)"
proof -
  have "map_of (map (\<lambda>p. (prog_path p, File (cstr (pr_help p)))) ps)
      [bytes_of ''home'', bytes_of ''readme.txt''] = None" for ps
    using names_differ by (induction ps) (simp_all add: prog_path_def)
  then show ?thesis by (simp add: boot_tree_def map_add_def default_view_def)
qed

lemma write_cat_roundtrip_witness:
  "\<exists>k1. prog_write sim_ports [lit ''write'', readme, lit ''hello'', lit ''world''] kernel_on = Some (0, k1) \<and>
     prog_cat sim_ports [lit ''cat'', readme] k1 = Some (0, printed (bytes_of ''hello world'' @ [0x0A]) k1)"
proof -
  let ?argv = "[lit ''write'', readme, lit ''hello'', lit ''world'']"
  let ?argv2 = "[lit ''cat'', readme]"
  let ?cs = "[bytes_of ''home'', bytes_of ''readme.txt'']"
  have args: "args_ok ?argv" "3 \<le> length ?argv" "args_ok ?argv2" "2 \<le> length ?argv2"
    using sample_targets(4) by (auto simp: args_ok_def)
  have t: "target kernel_on (Some (?argv ! 1)) = Some ?cs" "target kernel_on (Some (?argv2 ! 1)) = Some ?cs"
    using sample_targets(2) by simp_all
  have w: "join_words (map cstr (drop 2 ?argv)) = bytes_of ''hello world''" by code_simp
  have len: "length (join_words (map cstr (drop 2 ?argv))) < 4095" unfolding w by code_simp
  obtain tx where "fs_view (nodes kernel_on) ?cs = Some (File tx)"
    using boot_tree_readme kernel_on(4) by auto
  moreover have "length (bytes_of ''hello world'' @ [0x0A]) \<le> FS_MAX_FILE_SIZE" by code_simp
  ultimately have "fst (tree_write_text (bytes_of ''hello world'' @ [0x0A]) ?cs (fs_view (nodes kernel_on))) = 0"
    by (simp add: tree_write_text_def tree_write_def)
  then obtain k1 where k1: "prog_write sim_ports ?argv kernel_on = Some (0, k1)"
    using prog_write_refines [OF kernel_on(2) args(1,2) t(1) len] unfolding w refines_to_def by auto
  from write_cat_roundtrip [OF kernel_on(2) args(1,2) t(1) k1 args(3,4) t(2)] show ?thesis
    using k1 unfolding w by blast
qed

text \<open>
  C16: Lines that name no command.  A line without words changes nothing; a line whose first word is
  not the name of a command prints \<open>Unknown command: \<close> and the word, and changes nothing else.  The
  first entry of the table with the name is the command that runs.
\<close>

theorem unknown_command_reported:
  assumes "terminated line" "length line = 256" "words_of (cstr line) = ws"
    and "ws \<noteq> [] \<Longrightarrow> command_of (hd ws) = None"
  shows "\<exists>line'. shell_line hw desktop_run line k = Some (line',
     if ws = [] then k else printed (bytes_of ''Unknown command: '' @ hd ws @ [0x0A]) k)"
proof -
  obtain line' args where l: "map cstr args = ws" "\<forall>a \<in> set args. terminated a"
    "shell_line hw desktop_run line k = (if args = [] then Some (line', k)
       else map_option (\<lambda>k'. (line', k')) (shell_exec hw desktop_run args k))"
    using shell_line_words [OF assms(1,2)] assms(3) by metis
  show ?thesis
  proof (cases "ws = []")
    case True
    then show ?thesis using l by simp
  next
    case False
    then obtain a as where args: "args = a # as" "terminated a" "cstr a = hd ws" using l(1,2) by (cases args) auto
    have "cstr (lit ''Unknown command: '') = bytes_of ''Unknown command: ''" by (simp add: lit_def bytes_of_def)
    then show ?thesis
      using l(3) args False assms(4) by (simp add: shell_exec_def programs_find_eq kprint_printed kprintln_printed)
  qed
qed

lemma unknown_command_reported_witness:
  "\<exists>line'. shell_line sim_ports no_desktop (lit ''  format c:'' @ replicate 244 0) kernel_on = Some (line',
     printed (bytes_of ''Unknown command: '' @ bytes_of ''format'' @ [0x0A]) kernel_on)"
proof -
  let ?line = "lit ''  format c:'' @ replicate 244 0"
  have l: "terminated ?line" "length ?line = 256" by code_simp+
  have w: "words_of (cstr ?line) = [bytes_of ''format'', bytes_of ''c:'']" by code_simp
  have "command_of (bytes_of ''format'') = None" by code_simp
  then show ?thesis using unknown_command_reported [OF l w, of sim_ports no_desktop kernel_on] by simp
qed

end
