(* ===== verification/Connector_Types.thy ===== *)
theory Connector_Types
  imports Kernel_Properties
begin

section \<open>The requests of the connector as an abstract machine\<close>

text \<open>
  The dispatcher of kernel/kernel_connector.c takes a \<open>void *\<close> and returns a \<open>uintptr_t\<close>; which structure
  must be behind the first and which type the second has depends on the request number alone
  (\<open>accepts\<close>, \<open>replies\<close>).  The casts are not checked; nothing is said of a request with another structure.
  What a request does to the kernel is stated on the abstract state a command can observe: the tree of
  files, the current directory, the accounts and who is logged in (\<open>kernel_view\<close>).  On a well-formed
  machine each request with a structure of its type and valid arguments is served, its effect on the
  abstract state is \<open>request_effect\<close>, and it is answered with \<open>request_answer\<close>.
\<close>

datatype arg_type =
    Ty_None | Ty_Int | Ty_Text | Ty_Str | Ty_Cmp | Ty_Path | Ty_Two_Paths | Ty_Write | Ty_Read | Ty_User_Add | Ty_User_Get

fun type_of_args :: "kc_args \<Rightarrow> arg_type" where
  "type_of_args No_Args = Ty_None"
| "type_of_args (Int_Arg v) = Ty_Int"
| "type_of_args (Text_Args text) = Ty_Text"
| "type_of_args (Str_Args dest src) = Ty_Str"
| "type_of_args (Cmp_Args a b) = Ty_Cmp"
| "type_of_args (Path_Args path) = Ty_Path"
| "type_of_args (Two_Path_Args src dest) = Ty_Two_Paths"
| "type_of_args (Write_Args path data sz) = Ty_Write"
| "type_of_args (Read_Args path buffer max_size) = Ty_Read"
| "type_of_args (User_Add_Args name admin) = Ty_User_Add"
| "type_of_args (User_Get_Args index out) = Ty_User_Get"

definition request_type :: "kc_request \<Rightarrow> arg_type" where
  "request_type r =
     (if r = KC_REQ_PRINT_INT then Ty_Int
      else if r \<in> {KC_REQ_PRINT, KC_REQ_PRINTLN, KC_REQ_STRLEN, KC_REQ_USERS_REMOVE, KC_REQ_USERS_LOGIN} then Ty_Text
      else if r \<in> {KC_REQ_STRCPY, KC_REQ_STRCAT} then Ty_Str
      else if r = KC_REQ_STRCMP then Ty_Cmp
      else if r \<in> {KC_REQ_FS_CD, KC_REQ_FS_LIST, KC_REQ_FS_MKDIR, KC_REQ_FS_TOUCH, KC_REQ_FS_DELETE, KC_REQ_FS_EXISTS} then Ty_Path
      else if r \<in> {KC_REQ_FS_MOVE, KC_REQ_FS_COPY} then Ty_Two_Paths
      else if r = KC_REQ_FS_WRITE then Ty_Write
      else if r = KC_REQ_FS_READ then Ty_Read
      else if r = KC_REQ_USERS_ADD then Ty_User_Add
      else if r = KC_REQ_USERS_GET then Ty_User_Get
      else Ty_None)"

inductive accepts :: "kc_request \<Rightarrow> kc_args \<Rightarrow> bool" where
  accepts_any: "request_type r = Ty_None \<Longrightarrow> accepts r args"
| accepts_typed: "request_type r = type_of_args args \<Longrightarrow> accepts r args"

inductive_simps accepts_iff: "accepts r args"

inductive replies :: "kc_request \<Rightarrow> kc_value \<Rightarrow> bool" where
  replies_string: "r \<in> {KC_REQ_FS_CURRENT_DIR, KC_REQ_DISK_STATUS, KC_REQ_USERS_CURRENT_NAME} \<Longrightarrow> replies r (Pointer s)"
| replies_word: "r \<notin> {KC_REQ_FS_CURRENT_DIR, KC_REQ_DISK_STATUS, KC_REQ_USERS_CURRENT_NAME} \<Longrightarrow> replies r (Value w)"

inductive_cases replies_PointerE: "replies r (Pointer s)"
inductive_cases replies_ValueE: "replies r (Value w)"
inductive_simps replies_simps [simp]: "replies r (Pointer s)" "replies r (Value w)"

subsection \<open>The effect of a request\<close>

record kernel_view =
  kv_tree :: fs_tree
  kv_dir :: "byte list"
  kv_accounts :: "byte list \<Rightarrow> bool option"
  kv_user :: "byte list option"

definition view_of :: "'d kernel \<Rightarrow> kernel_view" where
  "view_of k = \<lparr>kv_tree = fs_view (nodes k), kv_dir = cstr (current_dir k),
     kv_accounts = users_view (k_users k), kv_user = logged_in (k_users k)\<rparr>"

lemma view_of_update [simp]:
  "view_of (k\<lparr>k_term := t\<rparr>) = view_of k" "view_of (k\<lparr>k_keys := keys\<rparr>) = view_of k"
  "view_of (k\<lparr>k_dev := d\<rparr>) = view_of k" "view_of (printed xs k) = view_of k"
  by (simp_all add: view_of_def)

definition on_path ::
    "cptr \<Rightarrow> 'd kernel \<Rightarrow> (byte list list \<Rightarrow> fs_tree \<Rightarrow> int \<times> fs_tree) \<Rightarrow> int \<times> fs_tree" where
  "on_path path k f = (case target k path of
     Some cs \<Rightarrow> f cs (fs_view (nodes k)) | None \<Rightarrow> (1, fs_view (nodes k)))"

definition on_paths ::
    "cptr \<Rightarrow> cptr \<Rightarrow> 'd kernel \<Rightarrow> (byte list list \<Rightarrow> byte list list \<Rightarrow> fs_tree \<Rightarrow> int \<times> fs_tree) \<Rightarrow>
     int \<times> fs_tree" where
  "on_paths src dest k f = (case (target k src, target k dest) of
     (Some cs, Some ds) \<Rightarrow> f cs ds (fs_view (nodes k)) | _ \<Rightarrow> (1, fs_view (nodes k)))"

text \<open>The code and the tree of a request that may change the tree.\<close>

definition tree_step :: "kc_request \<Rightarrow> kc_args \<Rightarrow> 'd kernel \<Rightarrow> int \<times> fs_tree" where
  "tree_step r args k = (case args of
     Path_Args path \<Rightarrow>
       (if r = KC_REQ_FS_MKDIR then on_path path k (tree_create Dir)
        else if r = KC_REQ_FS_TOUCH then on_path path k (tree_create (File []))
        else if r = KC_REQ_FS_DELETE then on_path path k tree_delete
        else (0, fs_view (nodes k)))
   | Two_Path_Args src dest \<Rightarrow>
       (if r = KC_REQ_FS_MOVE then on_paths src dest k tree_move
        else if r = KC_REQ_FS_COPY then on_paths src dest k tree_copy
        else (0, fs_view (nodes k)))
   | Write_Args path data sz \<Rightarrow>
       (if r = KC_REQ_FS_WRITE then on_path path k (tree_write (take (unat sz) data))
        else (0, fs_view (nodes k)))
   | _ \<Rightarrow> (0, fs_view (nodes k)))"

definition dir_effect :: "kc_request \<Rightarrow> kc_args \<Rightarrow> 'd kernel \<Rightarrow> byte list" where
  "dir_effect r args k =
     (if r = KC_REQ_FS_CD then
        (case args of
           Path_Args path \<Rightarrow> (case target k path of
              Some cs \<Rightarrow> if fs_view (nodes k) cs = Some Dir then path_of cs else cstr (current_dir k)
            | None \<Rightarrow> cstr (current_dir k))
         | _ \<Rightarrow> cstr (current_dir k))
      else if r = KC_REQ_FS_DISK_LOAD \<and> has_disk (k_disk k) then path_of []
      else cstr (current_dir k))"

text \<open>A name that \<open>users_add\<close> accepts, and one that \<open>users_remove\<close> does.\<close>

definition can_add :: "byte list \<Rightarrow> users_state \<Rightarrow> bool" where
  "can_add nm s \<longleftrightarrow> nm \<noteq> [] \<and> length nm < 24 \<and> users_view s nm = None \<and> first_free s \<noteq> None"

definition can_remove :: "byte list \<Rightarrow> users_state \<Rightarrow> bool" where
  "can_remove nm s \<longleftrightarrow> users_view s nm \<noteq> None \<and> nm \<noteq> bytes_of ''root'' \<and> logged_in s \<noteq> Some nm"

definition account_effect :: "kc_request \<Rightarrow> kc_args \<Rightarrow> users_state \<Rightarrow> byte list \<Rightarrow> bool option" where
  "account_effect r args s = (case args of
     User_Add_Args (Some nm) admin \<Rightarrow>
       (if r = KC_REQ_USERS_ADD \<and> can_add (cstr nm) s then (users_view s)(cstr nm \<mapsto> admin \<noteq> 0) else users_view s)
   | Text_Args (Some nm) \<Rightarrow>
       (if r = KC_REQ_USERS_REMOVE \<and> can_remove (cstr nm) s then (users_view s)(cstr nm := None) else users_view s)
   | _ \<Rightarrow> users_view s)"

definition login_effect :: "kc_request \<Rightarrow> kc_args \<Rightarrow> users_state \<Rightarrow> byte list option" where
  "login_effect r args s =
     (if r = KC_REQ_USERS_LOGOUT then seat s 1
      else case args of
        User_Add_Args (Some nm) admin \<Rightarrow>
          (if r = KC_REQ_USERS_ADD \<and> can_add (cstr nm) s \<and> first_free s = Some (current_user s)
           then Some (cstr nm) else logged_in s)
      | Text_Args (Some nm) \<Rightarrow>
          (if r = KC_REQ_USERS_LOGIN \<and> users_view s (cstr nm) \<noteq> None then Some (cstr nm) else logged_in s)
      | _ \<Rightarrow> logged_in s)"

lemmas effect_defs = tree_step_def dir_effect_def account_effect_def login_effect_def

definition request_effect :: "kc_request \<Rightarrow> kc_args \<Rightarrow> 'd kernel \<Rightarrow> kernel_view" where
  "request_effect r args k = \<lparr>kv_tree = snd (tree_step r args k), kv_dir = dir_effect r args k,
     kv_accounts = account_effect r args (k_users k), kv_user = login_effect r args (k_users k)\<rparr>"

text \<open>The number or the string a request is answered with, where the abstract state determines it: the codes of
  the operations, and what the queries ask for.  Only \<open>KC_REQ_STRCMP\<close> is left out.\<close>

datatype answer = Number int | Characters "byte list"

fun answers :: "kc_value \<Rightarrow> answer \<Rightarrow> bool" where
  "answers (Value w) (Number n) \<longleftrightarrow> w = word_of_int n"
| "answers (Pointer s) (Characters b) \<longleftrightarrow> cstr s = b"
| "answers v a \<longleftrightarrow> False"

definition account_code :: "kc_request \<Rightarrow> kc_args \<Rightarrow> users_state \<Rightarrow> int" where
  "account_code r args s = (case args of
     User_Add_Args None admin \<Rightarrow> (if r = KC_REQ_USERS_ADD then 1 else 0)
   | User_Add_Args (Some nm) admin \<Rightarrow>
       (if r \<noteq> KC_REQ_USERS_ADD then 0
        else if cstr nm = [] \<or> 24 \<le> length (cstr nm) then 1
        else if users_view s (cstr nm) \<noteq> None then 2
        else if first_free s = None then 3 else 0)
   | Text_Args (Some nm) \<Rightarrow>
       (if r = KC_REQ_USERS_REMOVE then
          (if users_view s (cstr nm) = None \<or> cstr nm = bytes_of ''root'' then 1
           else if logged_in s = Some (cstr nm) then 2 else 0)
        else if r = KC_REQ_USERS_LOGIN \<and> users_view s (cstr nm) = None then 1 else 0)
   | _ \<Rightarrow> 0)"

definition path_answer :: "kc_args \<Rightarrow> 'd kernel \<Rightarrow> (fs_entry option \<Rightarrow> int) \<Rightarrow> answer option" where
  "path_answer args k f =
     (case args of
        Path_Args path \<Rightarrow> map_option (\<lambda>cs. Number (f (fs_view (nodes k) cs))) (target k path)
      | Read_Args path buffer max_size \<Rightarrow> map_option (\<lambda>cs. Number (f (fs_view (nodes k) cs))) (target k path)
      | _ \<Rightarrow> None)"

fun size_answer :: "kc_args \<Rightarrow> fs_entry option \<Rightarrow> int" where
  "size_answer (Read_Args path buffer max_size) (Some (File content)) = int (length (take (unat max_size) content))"
| "size_answer args e = - 1"

definition request_answer :: "kc_request \<Rightarrow> kc_args \<Rightarrow> 'd kernel \<Rightarrow> answer option" where
  "request_answer r args k = (case r of
       KC_REQ_STRLEN \<Rightarrow> Some (Number (case args of Text_Args (Some s) \<Rightarrow> int (length (cstr s)) | _ \<Rightarrow> 0))
     | KC_REQ_STRCMP \<Rightarrow> None
     | KC_REQ_READ_CHAR \<Rightarrow>
         (case key_chars (extended_scancode (k_term k)) (k_keys k) of [] \<Rightarrow> None | c # cs \<Rightarrow> Some (Number (sint c)))
     | KC_REQ_FS_CURRENT_DIR \<Rightarrow> Some (Characters (cstr (current_dir k)))
     | KC_REQ_FS_CD \<Rightarrow> path_answer args k (\<lambda>e. if e = Some Dir then 0 else 1)
     | KC_REQ_FS_LIST \<Rightarrow> path_answer args k (\<lambda>e. if e = Some Dir then 0 else 1)
     | KC_REQ_FS_EXISTS \<Rightarrow> path_answer args k (\<lambda>e. if e = None then 0 else 1)
     | KC_REQ_FS_READ \<Rightarrow> path_answer args k (size_answer args)
     | KC_REQ_FS_DISK_AVAILABLE \<Rightarrow> Some (Number (if has_disk (k_disk k) then 1 else 0))
     | KC_REQ_FS_DISK_ENABLED \<Rightarrow> Some (Number (if persistence_enabled k then 1 else 0))
     | KC_REQ_FS_DISK_FORMAT \<Rightarrow> Some (Number (if has_disk (k_disk k) then 0 else 1))
     | KC_REQ_FS_DISK_SAVE \<Rightarrow> Some (Number (if has_disk (k_disk k) then 0 else 1))
     | KC_REQ_FS_DISK_LOAD \<Rightarrow> Some (Number (if has_disk (k_disk k) then 0 else 1))
     | KC_REQ_DISK_STATUS \<Rightarrow> Some (Characters (cstr (status_text (k_disk k))))
     | KC_REQ_USERS_CURRENT_NAME \<Rightarrow> map_option Characters (logged_in (k_users k))
     | KC_REQ_USERS_CURRENT_IS_ADMIN \<Rightarrow>
         map_option (\<lambda>a. Number (if a then 1 else 0)) (Option.bind (logged_in (k_users k)) (users_view (k_users k)))
     | KC_REQ_USERS_COUNT \<Rightarrow> Some (Number (int (length (active_users (k_users k)))))
     | KC_REQ_USERS_GET \<Rightarrow>
         (case args of
            User_Get_Args i out \<Rightarrow> Some (Number (if i < int (length (active_users (k_users k))) then 1 else 0))
          | _ \<Rightarrow> None)
     | _ \<Rightarrow> Some (Number (
         if r \<in> {KC_REQ_USERS_ADD, KC_REQ_USERS_REMOVE, KC_REQ_USERS_LOGIN, KC_REQ_USERS_LOGOUT}
         then account_code r args (k_users k) else fst (tree_step r args k))))"

definition answered :: "kc_request \<Rightarrow> kc_args \<Rightarrow> 'd kernel \<Rightarrow> kc_value \<Rightarrow> bool" where
  "answered r args k v \<longleftrightarrow> replies r v \<and> pred_option (answers v) (request_answer r args k)"

lemmas answer_defs = answered_def request_answer_def path_answer_def

subsection \<open>Every request is served\<close>

text \<open>Valid arguments: the strings are terminated, what is written fits where it goes, and a path, a move or
  a copy stays within the limits of the kernel's arrays.  A key can be read only when one is pending.\<close>

definition path_valid :: "cptr \<Rightarrow> 'd kernel \<Rightarrow> bool" where
  "path_valid path k \<longleftrightarrow> arg_ok path \<and> target k path \<noteq> None"

fun valid_args :: "kc_request \<Rightarrow> kc_args \<Rightarrow> 'd kernel \<Rightarrow> bool" where
  "valid_args r (Int_Arg v) k \<longleftrightarrow> r = KC_REQ_PRINT_INT \<longrightarrow> sint v \<noteq> - (2 ^ 31)"
| "valid_args r (Text_Args text) k \<longleftrightarrow>
     arg_ok text \<and> (r \<in> {KC_REQ_USERS_REMOVE, KC_REQ_USERS_LOGIN} \<longrightarrow> text \<noteq> None)"
| "valid_args r (Str_Args dest src) k \<longleftrightarrow>
     (case src of None \<Rightarrow> False | Some s \<Rightarrow> terminated s \<and>
        (if r = KC_REQ_STRCAT then terminated dest \<and> length (cstr dest) + length (cstr s) < length dest
         else length (cstr s) < length dest))"
| "valid_args r (Cmp_Args a b) k \<longleftrightarrow> terminated a \<and> terminated b"
| "valid_args r (Path_Args path) k \<longleftrightarrow> path_valid path k"
| "valid_args r (Two_Path_Args src dest) k \<longleftrightarrow>
     (case (src, dest) of
        (Some a, Some b) \<Rightarrow> terminated a \<and> terminated b \<and>
          (if r = KC_REQ_FS_MOVE then move_limits a b k else copy_limits a b k)
      | _ \<Rightarrow> False)"
| "valid_args r (Write_Args path data sz) k \<longleftrightarrow> path_valid path k \<and> unat sz \<le> length data"
| "valid_args r (Read_Args path buffer max_size) k \<longleftrightarrow> path_valid path k \<and> unat max_size \<le> length buffer"
| "valid_args r (User_Add_Args name admin) k \<longleftrightarrow> arg_ok name"
| "valid_args r (User_Get_Args index out) k \<longleftrightarrow> 0 \<le> index \<and> length (kcu_name out) = USER_MAX_NAME"
| "valid_args r No_Args k \<longleftrightarrow> True"

definition serves ::
    "'d ports \<Rightarrow> ('d \<Rightarrow> ata_view) \<Rightarrow> nat \<Rightarrow> kc_request \<Rightarrow> kc_args \<Rightarrow> 'd kernel \<Rightarrow>
     (kc_value \<times> kc_args \<times> 'd kernel) option \<Rightarrow> bool" where
  "serves hw view capacity r args k m \<longleftrightarrow> (\<exists>v args' k'. m = Some (v, args', k') \<and> machine_ok hw view capacity k' \<and>
     answered r args k v \<and> view_of k' = request_effect r args k)"

lemma serves_Some [simp]: "serves hw view capacity r args k (Some (v, args', k')) \<longleftrightarrow>
    machine_ok hw view capacity k' \<and> answered r args k v \<and> view_of k' = request_effect r args k"
  by (simp add: serves_def)

text \<open>The requests without an effect on the abstract state.\<close>

definition asks :: "kc_request \<Rightarrow> bool" where
  "asks r \<longleftrightarrow> r \<notin> {KC_REQ_FS_CD, KC_REQ_FS_MKDIR, KC_REQ_FS_TOUCH, KC_REQ_FS_DELETE, KC_REQ_FS_MOVE, KC_REQ_FS_COPY,
     KC_REQ_FS_WRITE, KC_REQ_FS_DISK_LOAD, KC_REQ_USERS_ADD, KC_REQ_USERS_REMOVE, KC_REQ_USERS_LOGIN, KC_REQ_USERS_LOGOUT}"

lemma asks_effect: "asks r \<Longrightarrow> request_effect r args k = view_of k"
  by (auto simp: asks_def request_effect_def view_of_def effect_defs split: kc_args.splits option.splits)

lemma asks_simps [simp]: "asks KC_REQ_CLEAR" "asks KC_REQ_PRINT" "asks KC_REQ_PRINTLN" "asks KC_REQ_PRINT_INT"
  "asks KC_REQ_READ_CHAR" "asks KC_REQ_STRLEN" "asks KC_REQ_STRCPY" "asks KC_REQ_STRCAT" "asks KC_REQ_STRCMP"
  "asks KC_REQ_FS_CURRENT_DIR" "asks KC_REQ_FS_LIST" "asks KC_REQ_FS_READ" "asks KC_REQ_FS_EXISTS"
  "asks KC_REQ_FS_DISK_AVAILABLE" "asks KC_REQ_FS_DISK_ENABLED" "asks KC_REQ_FS_DISK_FORMAT" "asks KC_REQ_FS_DISK_SAVE"
  "asks KC_REQ_DISK_STATUS" "asks KC_REQ_USERS_CURRENT_NAME" "asks KC_REQ_USERS_CURRENT_IS_ADMIN"
  "asks KC_REQ_USERS_COUNT" "asks KC_REQ_USERS_GET"
  by (simp_all add: asks_def)

lemma serves_tree:
  assumes "refines_to hw view capacity k m spec" "tree_step r args k = spec"
    and "r \<in> {KC_REQ_FS_MKDIR, KC_REQ_FS_TOUCH, KC_REQ_FS_DELETE, KC_REQ_FS_MOVE, KC_REQ_FS_COPY, KC_REQ_FS_WRITE}"
  shows "serves hw view capacity r args k (reply_of args m)"
proof -
  obtain c k' where m: "m = Some (c, k')" "machine_ok hw view capacity k'" "kept k k'" "spec = (c, fs_view (nodes k'))"
    using assms(1) by (auto simp: refines_to_def)
  have "view_of k' = request_effect r args k"
    using m(3,4) assms(2,3) by (auto simp: view_of_def request_effect_def kept_def dir_effect_def account_effect_def
        login_effect_def split: kc_args.splits option.splits)
  moreover have "answered r args k (Value (word_of_int c))" using m(4) assms(2,3) by (auto simp: answer_defs)
  ultimately show ?thesis using m(1,2) by (simp add: reply_of_def reply_def)
qed

lemma serves_users:
  assumes "machine_ok hw view capacity k" "m = Some (rc, s)" "users_wf s"
    and "users_view s = account_effect r args (k_users k)" "logged_in s = login_effect r args (k_users k)"
    and "rc = account_code r args (k_users k)"
    and "r \<in> {KC_REQ_USERS_ADD, KC_REQ_USERS_REMOVE, KC_REQ_USERS_LOGIN, KC_REQ_USERS_LOGOUT}"
  shows "serves hw view capacity r args k (users_reply args k m)"
proof -
  have "answered r args k (Value (word_of_int rc))" using assms(6,7) by (auto simp: answer_defs)
  moreover have "view_of (k\<lparr>k_users := s\<rparr>) = request_effect r args k"
    using assms(4,5,7) by (auto simp: view_of_def request_effect_def tree_step_def dir_effect_def split: kc_args.splits)
  ultimately show ?thesis using assms(1-3) machine_ok_users by (simp add: users_reply_def reply_def)
qed

lemma text_requests_served:
  assumes ok: "machine_ok hw view capacity k" and "arg_ok str"
    and r: "r \<in> {KC_REQ_PRINT, KC_REQ_PRINTLN, KC_REQ_STRLEN}"
  shows "serves hw view capacity r (Text_Args str) k (kernel_connector_request hw r (Text_Args str) k)"
proof (cases str)
  case None
  have "kprint None k = Some k" "kprintln None k = Some (printed [0x0A] k)" "str_len None = Some 0"
    by (simp_all add: kprint_def kprintln_def io_print_def io_println_def printed_def str_len_def)
  then show ?thesis using ok r None by (auto simp: request reply_def asks_effect answer_defs tree_step_def)
next
  case (Some s)
  then show ?thesis using assms by (auto simp: request reply_def kprint_printed kprintln_printed str_len_Some asks_effect answer_defs tree_step_def)
qed

lemma path_requests_served:
  assumes ok: "machine_ok hw view capacity k" and path: "path_valid path k"
    and r: "r \<in> {KC_REQ_FS_CD, KC_REQ_FS_LIST, KC_REQ_FS_MKDIR, KC_REQ_FS_TOUCH, KC_REQ_FS_DELETE, KC_REQ_FS_EXISTS}"
  shows "serves hw view capacity r (Path_Args path) k (kernel_connector_request hw r (Path_Args path) k)"
proof -
  obtain cs where a: "arg_ok path" "target k path = Some cs" using path by (auto simp: path_valid_def)
  obtain k1 where cd: "fs_change_dir path k = Some (tree_chdir cs (fs_view (nodes k)), k1)" "machine_ok hw view capacity k1"
    "nodes k1 = nodes k" "k_users k1 = k_users k"
    "cstr (current_dir k1) = (if fs_view (nodes k) cs = Some Dir then path_of cs else cstr (current_dir k))"
    using chdir_ok [OF ok a] by blast
  have "view_of k1 = request_effect KC_REQ_FS_CD (Path_Args path) k"
    using cd(3-5) a(2) by (simp add: view_of_def request_effect_def effect_defs)
  then have "serves hw view capacity KC_REQ_FS_CD (Path_Args path) k (reply_of args (fs_change_dir path k))" for args
    using cd(1,2) a(2) by (simp add: reply_of_def reply_def answer_defs tree_chdir_def)
  moreover have "serves hw view capacity KC_REQ_FS_LIST (Path_Args path) k (reply_of args (fs_list_dir path k))" for args
    using list_ok [OF ok a] ok a(2) by (simp add: reply_of_def reply_def shown_printed asks_effect answer_defs)
  moreover have "serves hw view capacity KC_REQ_FS_EXISTS (Path_Args path) k
      (kernel_connector_request hw KC_REQ_FS_EXISTS (Path_Args path) k)"
    using fs_exists_eq [OF machine_okD(2) [OF ok] a] ok a(2)
    by (simp add: request reply_bool_def reply_def asks_effect answer_defs)
  moreover note serves_tree [OF create_ok(2) [OF ok a], of KC_REQ_FS_MKDIR "Path_Args path"]
    serves_tree [OF create_ok(1) [OF ok a], of KC_REQ_FS_TOUCH "Path_Args path"]
    serves_tree [OF delete_ok [OF ok a], of KC_REQ_FS_DELETE "Path_Args path"]
  ultimately show ?thesis using r a(2) by (auto simp: request on_path_def tree_step_def)
qed

lemma data_requests_served:
  assumes ok: "machine_ok hw view capacity k" and path: "path_valid path k"
  shows "unat sz \<le> length data \<Longrightarrow> serves hw view capacity KC_REQ_FS_WRITE (Write_Args path data sz) k
      (kernel_connector_request hw KC_REQ_FS_WRITE (Write_Args path data sz) k)"
    and "unat sz \<le> length data \<Longrightarrow> serves hw view capacity KC_REQ_FS_READ (Read_Args path data sz) k
      (kernel_connector_request hw KC_REQ_FS_READ (Read_Args path data sz) k)"
proof -
  obtain cs where a: "arg_ok path" "target k path = Some cs" using path by (auto simp: path_valid_def)
  show "serves hw view capacity KC_REQ_FS_WRITE (Write_Args path data sz) k
      (kernel_connector_request hw KC_REQ_FS_WRITE (Write_Args path data sz) k)"
    if "unat sz \<le> length data"
    using serves_tree [OF write_ok [OF ok a that], of KC_REQ_FS_WRITE "Write_Args path data sz"] a(2)
    by (simp add: request on_path_def tree_step_def)
  show "serves hw view capacity KC_REQ_FS_READ (Read_Args path data sz) k
      (kernel_connector_request hw KC_REQ_FS_READ (Read_Args path data sz) k)"
    if "unat sz \<le> length data"
    using fs_read_file_eq [OF machine_okD(2) [OF ok] a that] ok a(2)
    by (auto simp: request reply_def Let_def asks_effect answer_defs split: option.splits fs_entry.splits)
qed

lemma disk_requests_served:
  assumes ok: "machine_ok hw view capacity k"
    and r: "r \<in> {KC_REQ_FS_DISK_AVAILABLE, KC_REQ_FS_DISK_ENABLED, KC_REQ_FS_DISK_FORMAT, KC_REQ_FS_DISK_SAVE,
      KC_REQ_FS_DISK_LOAD, KC_REQ_DISK_STATUS}"
  shows "serves hw view capacity r args k (kernel_connector_request hw r args k)"
proof -
  obtain d where d: "fs_disk_save hw k = Some (if has_disk (k_disk k) then 0 else 1, k\<lparr>k_dev := d\<rparr>)"
    "machine_ok hw view capacity (k\<lparr>k_dev := d\<rparr>)"
    using save_ok [OF ok] by blast
  have "k\<lparr>persistence_enabled := True\<rparr> = k" if "has_disk (k_disk k)"
    using machine_okD(7) [OF ok] that by (simp add: synced_def disk_on_def)
  then have f: "fs_disk_format hw k = Some (if has_disk (k_disk k) then (0, k\<lparr>k_dev := d\<rparr>) else (1, k))"
    using d(1) by (simp add: fs_disk_format_def disk_present_def)
  obtain k' where l: "fs_disk_load hw k = Some (if has_disk (k_disk k) then 0 else 1, k')" "machine_ok hw view capacity k'" "nodes k' = nodes k"
    "k_users k' = k_users k" "cstr (current_dir k') = (if has_disk (k_disk k) then path_of [] else cstr (current_dir k))"
    using load_ok [OF ok] by blast
  have "view_of k' = request_effect KC_REQ_FS_DISK_LOAD args k" using l(3-5) by (auto simp: view_of_def request_effect_def effect_defs split: kc_args.split option.split)
  then show ?thesis
    using r d f l(1,2) ok by (auto simp: request reply_of_def reply_bool_def reply_def reply_str_def asks_effect
        answer_defs disk_status_def fs_disk_available_def fs_disk_enabled_def disk_present_def)
qed

lemma users_requests_served:
  assumes ok: "machine_ok hw view capacity k"
  shows "arg_ok name \<Longrightarrow> serves hw view capacity KC_REQ_USERS_ADD (User_Add_Args name admin) k
      (kernel_connector_request hw KC_REQ_USERS_ADD (User_Add_Args name admin) k)"
    and "terminated nm \<Longrightarrow> serves hw view capacity KC_REQ_USERS_REMOVE (Text_Args (Some nm)) k
      (kernel_connector_request hw KC_REQ_USERS_REMOVE (Text_Args (Some nm)) k)"
    and "terminated nm \<Longrightarrow> serves hw view capacity KC_REQ_USERS_LOGIN (Text_Args (Some nm)) k
      (kernel_connector_request hw KC_REQ_USERS_LOGIN (Text_Args (Some nm)) k)"
    and "r \<in> {KC_REQ_USERS_LOGOUT, KC_REQ_USERS_CURRENT_NAME, KC_REQ_USERS_CURRENT_IS_ADMIN, KC_REQ_USERS_COUNT} \<Longrightarrow>
      serves hw view capacity r args k (kernel_connector_request hw r args k)"
proof -
  have wf: "users_wf (k_users k)" using machine_okD(4) [OF ok] .
  obtain u :: user where u: "users_current_name (k_users k) = Some (u_name u)"
    "users_current_is_admin (k_users k) = Some (u_admin u)"
    by (rule current_user_ok [OF wf]) blast
  have name: "cstr (u_name u) = nm" if "logged_in (k_users k) = Some nm" for nm
    using u(1) that by (auto simp: users_current_name_def logged_in_def seat_def rd_def split: if_splits)
  have admin: "u_admin u = (if a then 1 else 0)"
    if "logged_in (k_users k) = Some nm" "users_view (k_users k) nm = Some a" for nm a
    using current_admin [OF wf that] u(2) by simp
  have full: "(\<forall>u \<in> set (users s). u_active u \<noteq> 0) \<longleftrightarrow> first_free s = None" for s
    by (simp add: first_free_def first_index_None u_live_def)
  show "serves hw view capacity KC_REQ_USERS_ADD (User_Add_Args name admin) k
      (kernel_connector_request hw KC_REQ_USERS_ADD (User_Add_Args name admin) k)" if "arg_ok name"
  proof (cases name)
    case None
    then show ?thesis
      using ok by (simp add: request users_add_def users_reply_def reply_def request_effect_def view_of_def effect_defs
          answer_defs account_code_def)
  next
    case (Some nm)
    then have nm: "terminated nm" using that by simp
    let ?s = "k_users k"
    obtain rc s' where r: "users_add (Some nm) admin ?s = Some (rc, s')"
      "rc = (if cstr nm = [] \<or> 24 \<le> length (cstr nm) then 1 else if users_view ?s (cstr nm) \<noteq> None then 2
             else if \<forall>u \<in> set (users ?s). u_active u \<noteq> 0 then 3 else 0)"
      "users_view s' = (if rc = 0 then (users_view ?s)(cstr nm \<mapsto> admin \<noteq> 0) else users_view ?s)"
      "logged_in s' = (if rc = 0 \<and> first_free ?s = Some (current_user ?s) then Some (cstr nm) else logged_in ?s)"
      "if rc = 0 then users_wf s' \<and> current_user s' = current_user ?s else s' = ?s"
      using users_add_refines [OF wf nm, of admin] by blast
    have "rc = 0 \<longleftrightarrow> can_add (cstr nm) ?s" using r(2) by (simp add: can_add_def full not_le)
    then have "users_view s' = account_effect KC_REQ_USERS_ADD (User_Add_Args name admin) ?s"
      "logged_in s' = login_effect KC_REQ_USERS_ADD (User_Add_Args name admin) ?s"
      using r(3,4) Some by (simp_all add: account_effect_def login_effect_def)
    moreover have "users_wf s'" using r(5) wf by (simp split: if_splits)
    moreover have "rc = account_code KC_REQ_USERS_ADD (User_Add_Args name admin) ?s"
      using r(2) Some by (simp add: account_code_def full)
    ultimately show ?thesis using serves_users [OF ok r(1)] r(1) Some by (simp add: request)
  qed
  show "serves hw view capacity KC_REQ_USERS_REMOVE (Text_Args (Some nm)) k
      (kernel_connector_request hw KC_REQ_USERS_REMOVE (Text_Args (Some nm)) k)" if nm: "terminated nm"
  proof -
    let ?s = "k_users k"
    obtain rc s' where r: "users_remove nm ?s = Some (rc, s')"
      "rc = (if users_view ?s (cstr nm) = None \<or> cstr nm = bytes_of ''root'' then 1
             else if logged_in ?s = Some (cstr nm) then 2 else 0)"
      "users_view s' = (if rc = 0 then (users_view ?s)(cstr nm := None) else users_view ?s)"
      "logged_in s' = logged_in ?s" "if rc = 0 then users_wf s' \<and> current_user s' = current_user ?s else s' = ?s"
      using users_remove_refines [OF wf nm] by blast
    have "rc = 0 \<longleftrightarrow> can_remove (cstr nm) ?s" using r(2) by (simp add: can_remove_def)
    then have "users_view s' = account_effect KC_REQ_USERS_REMOVE (Text_Args (Some nm)) ?s"
      "logged_in s' = login_effect KC_REQ_USERS_REMOVE (Text_Args (Some nm)) ?s"
      using r(3,4) by (simp_all add: account_effect_def login_effect_def)
    moreover have "users_wf s'" using r(5) wf by (simp split: if_splits)
    moreover have "rc = account_code KC_REQ_USERS_REMOVE (Text_Args (Some nm)) ?s"
      using r(2) by (simp add: account_code_def)
    ultimately show ?thesis using serves_users [OF ok r(1)] r(1) by (simp add: request)
  qed
  show "serves hw view capacity KC_REQ_USERS_LOGIN (Text_Args (Some nm)) k
      (kernel_connector_request hw KC_REQ_USERS_LOGIN (Text_Args (Some nm)) k)" if nm: "terminated nm"
  proof -
    let ?s = "k_users k"
    obtain rc s' where r: "users_login nm ?s = Some (rc, s')" "rc = (if users_view ?s (cstr nm) = None then 1 else 0)"
      "users_wf s'" "users_view s' = users_view ?s"
      "logged_in s' = (if rc = 0 then Some (cstr nm) else logged_in ?s)"
      using users_login_refines [OF wf nm] by blast
    have "users_view s' = account_effect KC_REQ_USERS_LOGIN (Text_Args (Some nm)) ?s"
      "logged_in s' = login_effect KC_REQ_USERS_LOGIN (Text_Args (Some nm)) ?s"
      "rc = account_code KC_REQ_USERS_LOGIN (Text_Args (Some nm)) ?s"
      using r(2,4,5) by (simp_all add: account_effect_def login_effect_def account_code_def)
    then show ?thesis using serves_users [OF ok r(1,3)] r(1) by (simp add: request)
  qed
  have "serves hw view capacity KC_REQ_USERS_LOGOUT args k (users_reply args k (Some (users_logout (k_users k))))"
    using users_logout_wf [OF wf]
    by (intro serves_users [OF ok, where rc = 0 and s = "(k_users k)\<lparr>current_user := 1\<rparr>"])
      (simp_all add: users_logout_def users_view_current logged_in_def seat_current account_effect_def login_effect_def
        account_code_def split: kc_args.split option.split)
  then show "r \<in> {KC_REQ_USERS_LOGOUT, KC_REQ_USERS_CURRENT_NAME, KC_REQ_USERS_CURRENT_IS_ADMIN, KC_REQ_USERS_COUNT} \<Longrightarrow>
      serves hw view capacity r args k (kernel_connector_request hw r args k)"
    using ok u name admin by (auto simp: request reply_def reply_str_def asks_effect answer_defs users_enumerate(1)
        option.pred_set bind_Some_iff)
qed

text \<open>The remaining requests need only the machine or only their arguments.\<close>

lemma plain_requests_served:
  assumes ok: "machine_ok hw view capacity k"
  shows "r \<in> {KC_REQ_CLEAR, KC_REQ_FS_CURRENT_DIR} \<Longrightarrow> serves hw view capacity r args k (kernel_connector_request hw r args k)"
    and "sint v \<noteq> - (2 ^ 31) \<Longrightarrow> serves hw view capacity KC_REQ_PRINT_INT (Int_Arg v) k (kernel_connector_request hw KC_REQ_PRINT_INT (Int_Arg v) k)"
    and "key_chars (extended_scancode (k_term k)) (k_keys k) \<noteq> [] \<Longrightarrow>
      serves hw view capacity KC_REQ_READ_CHAR args k (kernel_connector_request hw KC_REQ_READ_CHAR args k)"
    and "valid_args KC_REQ_STRCPY (Str_Args dest src) k \<Longrightarrow>
      serves hw view capacity KC_REQ_STRCPY (Str_Args dest src) k (kernel_connector_request hw KC_REQ_STRCPY (Str_Args dest src) k)"
    and "valid_args KC_REQ_STRCAT (Str_Args dest src) k \<Longrightarrow>
      serves hw view capacity KC_REQ_STRCAT (Str_Args dest src) k (kernel_connector_request hw KC_REQ_STRCAT (Str_Args dest src) k)"
    and "terminated a \<Longrightarrow> terminated b \<Longrightarrow>
      serves hw view capacity KC_REQ_STRCMP (Cmp_Args a b) k (kernel_connector_request hw KC_REQ_STRCMP (Cmp_Args a b) k)"
    and "0 \<le> i \<Longrightarrow> length (kcu_name out) = USER_MAX_NAME \<Longrightarrow>
      serves hw view capacity KC_REQ_USERS_GET (User_Get_Args i out) k (kernel_connector_request hw KC_REQ_USERS_GET (User_Get_Args i out) k)"
proof -
  note t = machine_okD(5) [OF ok]
  show "r \<in> {KC_REQ_CLEAR, KC_REQ_FS_CURRENT_DIR} \<Longrightarrow> serves hw view capacity r args k (kernel_connector_request hw r args k)"
    using ok machine_ok_term [OF ok term_wf_io_clear_screen [OF t]]
    by (auto simp: request reply_def reply_str_def asks_effect answer_defs fs_get_current_dir_def tree_step_def
        split: kc_args.split)
  show "sint v \<noteq> - (2 ^ 31) \<Longrightarrow> serves hw view capacity KC_REQ_PRINT_INT (Int_Arg v) k (kernel_connector_request hw KC_REQ_PRINT_INT (Int_Arg v) k)"
    using machine_ok_term [OF ok term_wf_fold_print [OF t]]
    by (simp add: request reply_def kprint_int_def io_print_int_eq asks_effect answer_defs tree_step_def del: fold_simps fold_append)
  show "serves hw view capacity KC_REQ_READ_CHAR args k (kernel_connector_request hw KC_REQ_READ_CHAR args k)"
    if keys: "key_chars (extended_scancode (k_term k)) (k_keys k) \<noteq> []"
  proof -
    obtain c cs rest t' where c: "io_read_char (k_keys k) (k_term k) = Some (c, rest, t')" "term_wf t'"
      "key_chars (extended_scancode (k_term k)) (k_keys k) = c # cs"
      using keys io_read_char_eq [of "k_keys k" "k_term k"] t by (auto split: list.splits)
    have "machine_ok hw view capacity (k\<lparr>k_keys := rest, k_term := t'\<rparr>)"
      by (rule machine_ok_term [OF machine_ok_keys [OF ok] c(2)])
    then show ?thesis using c(1,3) by (simp add: request reply_def asks_effect answer_defs)
  qed
  show "valid_args KC_REQ_STRCPY (Str_Args dest src) k \<Longrightarrow>
      serves hw view capacity KC_REQ_STRCPY (Str_Args dest src) k (kernel_connector_request hw KC_REQ_STRCPY (Str_Args dest src) k)"
    "valid_args KC_REQ_STRCAT (Str_Args dest src) k \<Longrightarrow>
      serves hw view capacity KC_REQ_STRCAT (Str_Args dest src) k (kernel_connector_request hw KC_REQ_STRCAT (Str_Args dest src) k)"
    using ok by (auto simp: request reply_def str_copy_eq str_concat_eq put_str_def asks_effect answer_defs tree_step_def split: option.splits)
  show "serves hw view capacity KC_REQ_STRCMP (Cmp_Args a b) k (kernel_connector_request hw KC_REQ_STRCMP (Cmp_Args a b) k)" if ab: "terminated a" "terminated b"
  proof -
    obtain rc where "str_compare a b = Some rc" using str_compareE [OF ab] .
    then show ?thesis using ok by (simp add: request reply_def asks_effect answer_defs)
  qed
  show "serves hw view capacity KC_REQ_USERS_GET (User_Get_Args i out) k (kernel_connector_request hw KC_REQ_USERS_GET (User_Get_Args i out) k)"
    if "0 \<le> i" "length (kcu_name out) = USER_MAX_NAME"
  proof (cases "users_get i (k_users k)")
    case None
    then have "users_get (int (nat i)) (k_users k) = None" using that(1) by simp
    then have "\<not> i < int (length (active_users (k_users k)))"
      unfolding users_enumerate(2) using that(1) by (auto split: if_splits)
    then show ?thesis using ok None by (simp add: request users_get_request_def reply_def asks_effect answer_defs)
  next
    case (Some u)
    have "users_get (int (nat i)) (k_users k) = Some u" using that(1) Some by simp
    then have u: "u \<in> set (active_users (k_users k))" "i < int (length (active_users (k_users k)))"
      unfolding users_enumerate(2) using that(1) by (auto split: if_splits)
    then have "terminated (u_name u)" "length (u_name u) = USER_MAX_NAME"
      using u(1) machine_okD(4) [OF ok] by (auto simp: active_users_def users_wf_def user_ok_def)
    then have "str_copy (kcu_name out) (Some (u_name u)) \<noteq> None"
      using that(2) terminated_iff_length [of "u_name u"] by (simp add: str_copy_eq put_str_def)
    then show ?thesis using ok Some u(2) by (auto simp: request users_get_request_def reply_def asks_effect answer_defs)
  qed
qed

lemma two_path_requests_served:
  assumes ok: "machine_ok hw view capacity k" and ab: "terminated a" "terminated b"
  shows "move_limits a b k \<Longrightarrow> serves hw view capacity KC_REQ_FS_MOVE (Two_Path_Args (Some a) (Some b)) k
      (kernel_connector_request hw KC_REQ_FS_MOVE (Two_Path_Args (Some a) (Some b)) k)"
    and "copy_limits a b k \<Longrightarrow> serves hw view capacity KC_REQ_FS_COPY (Two_Path_Args (Some a) (Some b)) k
      (kernel_connector_request hw KC_REQ_FS_COPY (Two_Path_Args (Some a) (Some b)) k)"
proof -
  let ?args = "Two_Path_Args (Some a) (Some b)"
  have args: "arg_ok (Some a)" "arg_ok (Some b)" using ab by simp_all
  show "serves hw view capacity KC_REQ_FS_MOVE ?args k (kernel_connector_request hw KC_REQ_FS_MOVE ?args k)"
    if lim: "move_limits a b k"
  proof -
    obtain cs ds where cs: "target k (Some a) = Some cs" "target k (Some b) = Some ds"
      "fst (tree_move cs ds (fs_view (nodes k))) = 0 \<Longrightarrow> movable cs ds (fs_view (nodes k))"
      using lim by (auto simp: move_limits_def split: option.splits)
    show ?thesis
      using serves_tree [OF move_ok [OF ok args cs(1,2,3)], of KC_REQ_FS_MOVE ?args] cs(1,2)
      by (simp add: request on_paths_def tree_step_def)
  qed
  show "serves hw view capacity KC_REQ_FS_COPY ?args k (kernel_connector_request hw KC_REQ_FS_COPY ?args k)"
    if lim: "copy_limits a b k"
  proof -
    obtain cs where cs: "target k (Some a) = Some cs" "is_file_at (fs_view (nodes k)) cs \<Longrightarrow> target k (Some b) \<noteq> None"
      using lim by (auto simp: copy_limits_def split: option.splits)
    show ?thesis
    proof (cases "target k (Some b)")
      case (Some ds)
      then show ?thesis
        using serves_tree [OF copy_ok [OF ok args cs(1)], of ds KC_REQ_FS_COPY ?args] cs(1)
        by (simp add: request on_paths_def tree_step_def)
    next
      case None
      then have "fs_copy hw (Some a) (Some b) k = Some (1, shown ''Source file not found'' k)"
        using fs_copy_no_source [OF machine_okD(2) [OF ok] args(1) cs(1)] cs(2) by blast
      then show ?thesis
        using ok None by (simp add: request reply_of_def reply_def shown_printed request_effect_def view_of_def on_paths_def effect_defs
            answer_defs split: option.split)
    qed
  qed
qed

lemma request_served:
  assumes ok: "machine_ok hw view capacity k" and acc: "accepts r args" "valid_args r args k"
    and key: "r = KC_REQ_READ_CHAR \<Longrightarrow> key_chars (extended_scancode (k_term k)) (k_keys k) \<noteq> []"
  shows "serves hw view capacity r args k (kernel_connector_request hw r args k)"
proof (cases "request_type r = Ty_None")
  case True
  then show ?thesis
    using plain_requests_served(1,3) [OF ok] disk_requests_served [OF ok] users_requests_served(4) [OF ok] key
    by (cases r) (auto simp: request_type_def)
next
  case False
  then have "request_type r = type_of_args args" using acc(1) by (simp add: accepts_iff)
  then show ?thesis
    using acc(2) False text_requests_served [OF ok] path_requests_served [OF ok] data_requests_served [OF ok]
      users_requests_served(1-3) [OF ok] plain_requests_served(2,4-7) [OF ok] two_path_requests_served [OF ok]
    by (cases args; cases r) (auto simp: request_type_def split: option.splits)
qed

subsection \<open>The property\<close>

text \<open>
  C13: The connector implements an abstract machine.  On a well-formed machine every request, given a
  structure of its type (\<open>accepts\<close>) with arguments its function can handle (\<open>valid_args\<close>: terminated
  strings, buffers that are large enough, paths and moves within the kernel's arrays; a character is read
  when a key is pending), is served and leaves a well-formed machine.  The tree of files, the current
  directory, the accounts and who is logged in change exactly as \<open>request_effect\<close> says: the file requests
  act on the tree at the component lists their paths mean, \<open>cd\<close> and \<open>load\<close> on the current directory, the
  account requests on the accounts, and all others on nothing.  The answer has the type of the request and is
  the code or the number or the string that the abstract state determines (\<open>request_answer\<close>).
\<close>

theorem connector_requests_served:
  assumes "machine_ok hw view capacity k" "accepts r args" "valid_args r args k"
    and "r = KC_REQ_READ_CHAR \<Longrightarrow> key_chars (extended_scancode (k_term k)) (k_keys k) \<noteq> []"
  shows "\<exists>v args' k'. kernel_connector_request hw r args k = Some (v, args', k') \<and> machine_ok hw view capacity k' \<and>
     answered r args k v \<and> view_of k' = request_effect r args k"
  using request_served [OF assms] unfolding serves_def .

lemma connector_requests_served_witness:
  "\<exists>args k'. kernel_connector_request sim_ports KC_REQ_FS_DELETE (Path_Args (Some readme)) kernel_on =
       Some (Value 0, args, k') \<and>
     fs_view (nodes k') = boot_tree([bytes_of ''home'', bytes_of ''readme.txt''] := None)"
proof -
  let ?args = "Path_Args (Some readme)" and ?cs = "[bytes_of ''home'', bytes_of ''readme.txt'']"
  have "accepts KC_REQ_FS_DELETE ?args" by (simp add: accepts_iff request_type_def)
  moreover have t: "target kernel_on (Some readme) = Some ?cs" "terminated readme"
    using sample_targets(2) [of kernel_on] sample_targets(4) by simp_all
  then have "valid_args KC_REQ_FS_DELETE ?args kernel_on" by (simp add: path_valid_def)
  ultimately obtain v args k' where r: "kernel_connector_request sim_ports KC_REQ_FS_DELETE ?args kernel_on = Some (v, args, k')"
    "view_of k' = request_effect KC_REQ_FS_DELETE ?args kernel_on" "answered KC_REQ_FS_DELETE ?args kernel_on v"
    using connector_requests_served [OF kernel_on(2), of KC_REQ_FS_DELETE ?args] by auto
  then have "fs_view (nodes k') = snd (tree_delete ?cs boot_tree)"
    using t kernel_on(4) by (simp add: view_of_def request_effect_def on_path_def tree_step_def)
  moreover have "boot_tree ?cs \<noteq> None" "boot_tree ?cs \<noteq> Some Dir" by code_simp+
  then have del: "tree_delete ?cs boot_tree = (0, boot_tree(?cs := None))" by (simp add: tree_delete_def)
  moreover have "v = Value 0"
    using r(3) del t kernel_on(4) by (cases v) (simp_all add: answer_defs on_path_def tree_step_def)
  ultimately show ?thesis using r(1) by auto
qed

text \<open>An instance of the transparency of the connector (theory \<open>Kernel_Connector\<close>).\<close>

lemma connector_transparent_witness:
  "kc_users_count sim_ports kernel_on = Some (users_count (k_users kernel_on), kernel_on) \<and>
   kc_fs_touch sim_ports (Some memo) kernel_on = fs_create_file sim_ports (Some memo) kernel_on"
  using connector_transparent [where hw = sim_ports and k = kernel_on and path = "Some memo"]
    machine_okD(4) [OF kernel_on(2)] by blast

end
