(* ===== verification/File_Store.thy ===== *)
theory File_Store
  imports Kernel_Prelude
begin

section \<open>The contract of a store of files\<close>

text \<open>
  What both filesystems of the repository promise to whoever writes and reads existing files, stated once
  as the locale \<open>file_store\<close>: a write to a file that exists, of a text that fits, returns, is what reading
  that file gives from then on, and changes no other file.  Theory \<open>Kernel_Store\<close> interprets it on
  kernel/filesystem.c, theory \<open>Hosted_Store\<close> on src/filesystem.c.
\<close>

primrec run_writes :: "('n \<Rightarrow> byte list \<Rightarrow> 's \<Rightarrow> 's option) \<Rightarrow> ('n \<times> byte list) list \<Rightarrow> 's \<Rightarrow> 's option" where
  "run_writes put [] s = Some s"
| "run_writes put (w # ws) s = Option.bind (put (fst w) (snd w) s) (run_writes put ws)"

text \<open>\<open>has s n\<close>: the file \<open>n\<close> exists; \<open>page d\<close>: what reading a file with the text \<open>d\<close> shows.\<close>

locale file_store =
  fixes ok :: "'s \<Rightarrow> bool"
    and has :: "'s \<Rightarrow> 'n \<Rightarrow> bool"
    and fits :: "byte list \<Rightarrow> bool"
    and put :: "'n \<Rightarrow> byte list \<Rightarrow> 's \<Rightarrow> 's option"
    and get :: "'n \<Rightarrow> 's \<Rightarrow> 'r option"
    and page :: "byte list \<Rightarrow> 'r"
  assumes put_ok: "ok s \<Longrightarrow> has s n \<Longrightarrow> fits d \<Longrightarrow> \<exists>s'. put n d s = Some s' \<and> ok s' \<and> has s' = has s"
    and put_get: "ok s \<Longrightarrow> has s n \<Longrightarrow> fits d \<Longrightarrow> put n d s = Some s' \<Longrightarrow> get n s' = Some (page d)"
    and put_other: "ok s \<Longrightarrow> has s n \<Longrightarrow> fits d \<Longrightarrow> put n d s = Some s' \<Longrightarrow> has s m \<Longrightarrow> m \<noteq> n \<Longrightarrow>
      get m s' = get m s"
begin

text \<open>After any sequence of writes every file shows the last text written to it, or what it showed before.\<close>

lemma remembers:
  "ok s \<Longrightarrow> \<forall>(n, d) \<in> set ws. has s n \<and> fits d \<Longrightarrow>
    \<exists>s'. run_writes put ws s = Some s' \<and> ok s' \<and> has s' = has s \<and>
      (\<forall>n. has s n \<longrightarrow> get n s' = (case map_of (rev ws) n of Some d \<Rightarrow> Some (page d) | None \<Rightarrow> get n s))"
proof (induction ws arbitrary: s)
  case (Cons w ws)
  obtain n d where w: "w = (n, d)" by (cases w)
  have nd: "has s n" "fits d" using Cons.prems(2) w by auto
  obtain s1 where s1: "put n d s = Some s1" "ok s1" "has s1 = has s" using put_ok [OF Cons.prems(1) nd] by blast
  have r1: "get m s1 = (if m = n then Some (page d) else get m s)" if "has s m" for m
    using put_get [OF Cons.prems(1) nd s1(1)] put_other [OF Cons.prems(1) nd s1(1) that] by simp
  obtain s' where s': "run_writes put ws s1 = Some s'" "ok s'" "has s' = has s1"
    "\<forall>m. has s1 m \<longrightarrow> get m s' = (case map_of (rev ws) m of Some d \<Rightarrow> Some (page d) | None \<Rightarrow> get m s1)"
    using Cons.IH [OF s1(2)] Cons.prems(2) s1(3) by auto
  have "map_of (rev (w # ws)) m = (case map_of (rev ws) m of Some e \<Rightarrow> Some e | None \<Rightarrow> if m = n then Some d else None)" for m
    by (simp add: w map_add_def split: option.split)
  then show ?case using s' s1 r1 w by (auto split: option.split)
qed simp

end

end
