(* ===== verification/Kernel_Store.thy ===== *)
theory Kernel_Store
  imports Fs_Properties File_Store
begin

section \<open>The kernel's filesystem as a store of files\<close>

text \<open>
  \<open>fs_write_file\<close> and \<open>fs_read_file\<close> of kernel/filesystem.c, called with the absolute path of a file, as the
  operations of the locale \<open>file_store\<close>: \<open>store_write\<close> succeeds when the code returns 0, \<open>store_read\<close> gives the
  bytes the code has put in a buffer of 4096.
\<close>

definition path_arg :: "byte list list \<Rightarrow> cptr" where
  "path_arg cs = Some (path_of cs @ [0])"

definition store_has :: "'d kernel \<Rightarrow> byte list list \<Rightarrow> bool" where
  "store_has k cs \<longleftrightarrow> comps_ok cs \<and> length (path_of cs) < 128 \<and> (\<exists>d. fs_view (nodes k) cs = Some (File d))"

definition store_fits :: "byte list \<Rightarrow> bool" where
  "store_fits d \<longleftrightarrow> length d \<le> FS_MAX_FILE_SIZE"

definition store_write :: "'d ports \<Rightarrow> byte list list \<Rightarrow> byte list \<Rightarrow> 'd kernel \<Rightarrow> 'd kernel option" where
  "store_write hw cs d k = (case fs_write_file hw (path_arg cs) d (of_nat (length d)) k of
     Some (r, k') \<Rightarrow> if r = 0 then Some k' else None
   | None \<Rightarrow> None)"

definition store_read :: "byte list list \<Rightarrow> 'd kernel \<Rightarrow> byte list option" where
  "store_read cs k = (case fs_read_file (path_arg cs) (fresh 4096) 4096 k of
     Some (n, buf) \<Rightarrow> if n < 0 then None else Some (take (nat n) buf)
   | None \<Rightarrow> None)"

lemma path_arg:
  assumes "comps_ok cs" "length (path_of cs) < 128"
  shows "arg_ok (path_arg cs)" "target k (path_arg cs) = Some cs"
proof -
  have "cstr (path_of cs @ [0]) = path_of cs" using path_of_zero [OF comps_ok_parts [OF assms(1)]] by simp
  then show "arg_ok (path_arg cs)" "target k (path_arg cs) = Some cs"
    using target_path_of [OF assms(1), of "path_of cs @ [0]" k] assms(2) by (simp_all add: path_arg_def)
qed

lemma store_read_eq:
  assumes "fs_ok k" "comps_ok cs" "length (path_of cs) < 128"
  shows "store_read cs k = (case fs_view (nodes k) cs of Some (File d) \<Rightarrow> Some (take 4096 d) | _ \<Rightarrow> None)"
proof -
  have "unat (4096 :: 32 word) \<le> length (fresh 4096)" by simp
  from fs_read_file_eq [OF assms(1) path_arg [OF assms(2,3)] this] show ?thesis
    by (auto simp: store_read_def Let_def min_def split: option.split fs_entry.split)
qed

lemma store_write_eq:
  assumes "fs_ok k" "store_has k cs" "store_fits d"
  obtains k' where "store_write hw cs d k = Some k'" "fs_ok k'"
    "fs_view (nodes k') = (fs_view (nodes k))(cs \<mapsto> File d)"
proof -
  have cs: "comps_ok cs" "length (path_of cs) < 128" using assms(2) by (auto simp: store_has_def)
  have n: "unat (of_nat (length d) :: 32 word) = length d"
    using assms(3) by (simp add: store_fits_def FS_MAX_FILE_SIZE_def unsigned_of_nat take_bit_nat_eq_self_iff)
  have "unat (of_nat (length d) :: 32 word) \<le> length d" by (simp add: n)
  from fs_write_file_refines [OF assms(1) path_arg [OF cs] this, of hw]
  obtain r k' where "fs_write_file hw (path_arg cs) d (of_nat (length d)) k = Some (r, k')" "fs_ok k'"
    "tree_write d cs (fs_view (nodes k)) = (r, fs_view (nodes k'))"
    by (auto simp: n)
  then show ?thesis
    using that assms(2,3) by (auto simp: store_write_def store_has_def store_fits_def tree_write_def)
qed

interpretation kernel_store: file_store fs_ok store_has store_fits "store_write hw" store_read "\<lambda>d. d"
proof
  fix k :: "'a kernel" and cs d
  assume pre: "fs_ok k" "store_has k cs" "store_fits d"
  obtain k' where k': "store_write hw cs d k = Some k'" "fs_ok k'"
    "fs_view (nodes k') = (fs_view (nodes k))(cs \<mapsto> File d)"
    using store_write_eq [OF pre] .
  have has: "store_has k' = store_has k" using pre(2) by (auto simp: store_has_def k'(3) fun_eq_iff)
  show "\<exists>k'. store_write hw cs d k = Some k' \<and> fs_ok k' \<and> store_has k' = store_has k" using k' has by blast
  fix k2 assume k2: "store_write hw cs d k = Some k2"
  then have [simp]: "k2 = k'" using k'(1) by simp
  show "store_read cs k2 = Some d"
    using store_read_eq [OF k'(2), of cs] pre(2,3) by (simp add: k'(3) store_has_def store_fits_def FS_MAX_FILE_SIZE_def)
  fix ds assume "store_has k ds" "ds \<noteq> cs"
  then show "store_read ds k2 = store_read ds k"
    using store_read_eq [OF k'(2), of ds] store_read_eq [OF pre(1), of ds] by (simp add: k'(3) store_has_def)
qed

end
