(* ===== verification/Hosted_String.thy ===== *)
theory Hosted_String
  imports Kernel_String
begin

section \<open>src/string.c: the string library of the hosted program\<close>

text \<open>
  The functions of src/string.c, in the style of \<open>Kernel_String\<close>: recursions over the bytes the
  loops visit, with every access checked.  They have no test for \<open>NULL\<close>, so their arguments are
  buffers.  Characters are signed where they are compared or subtracted.  The second part relates
  them to the kernel's library and gives closed forms of the functions the kernel does not have.
\<close>

subsection \<open>The functions\<close>

fun h_str_len :: "cbuf \<Rightarrow> nat option" where
  "h_str_len [] = None"
| "h_str_len (c # str) = (if c \<noteq> 0 then map_option Suc (h_str_len str) else Some 0)"

fun h_str_copy :: "cbuf \<Rightarrow> cbuf \<Rightarrow> cbuf option" where
  "h_str_copy dest [] = None"
| "h_str_copy dest (c # src) =
     (if c \<noteq> 0
      then (case dest of [] \<Rightarrow> None | _ # dest' \<Rightarrow> map_option (\<lambda>r. c # r) (h_str_copy dest' src))
      else wr dest 0 0)"

fun h_str_concat_loop :: "cbuf \<Rightarrow> nat \<Rightarrow> nat \<Rightarrow> cbuf \<Rightarrow> cbuf option" where
  "h_str_concat_loop dest dest_len i [] = None"
| "h_str_concat_loop dest dest_len i (c # src) =
     (if c \<noteq> 0 then do { dest' \<leftarrow> wr dest (dest_len + i) c; h_str_concat_loop dest' dest_len (i + 1) src }
      else wr dest (dest_len + i) 0)"

definition h_str_concat :: "cbuf \<Rightarrow> cbuf \<Rightarrow> cbuf option" where
  "h_str_concat dest src = do { dest_len \<leftarrow> h_str_len dest; h_str_concat_loop dest dest_len 0 src }"

fun h_str_compare :: "cbuf \<Rightarrow> cbuf \<Rightarrow> int option" where
  "h_str_compare (a # s1) (b # s2) =
     (if a \<noteq> 0 \<and> a = b then h_str_compare s1 s2 else Some (sint a - sint b))"
| "h_str_compare s1 s2 = None"

text \<open>\<open>n\<close> counts the rounds that are left; a negative \<open>n\<close> is 0 rounds.\<close>

fun h_str_compare_n :: "cbuf \<Rightarrow> cbuf \<Rightarrow> nat \<Rightarrow> int option" where
  "h_str_compare_n s1 s2 0 = Some 0"
| "h_str_compare_n (a # s1) (b # s2) (Suc n) =
     (if a \<noteq> b \<or> a = 0 \<or> b = 0 then Some (sint a - sint b) else h_str_compare_n s1 s2 n)"
| "h_str_compare_n s1 s2 (Suc n) = None"

definition upper_char :: "byte \<Rightarrow> byte" where
  "upper_char c = (if 0x61 \<le> sint c \<and> sint c \<le> 0x7A then c - 32 else c)"

definition lower_char :: "byte \<Rightarrow> byte" where
  "lower_char c = (if 0x41 \<le> sint c \<and> sint c \<le> 0x5A then c + 32 else c)"

fun h_str_to_upper :: "cbuf \<Rightarrow> cbuf option" where
  "h_str_to_upper [] = None"
| "h_str_to_upper (c # str) =
     (if c \<noteq> 0 then map_option (\<lambda>r. upper_char c # r) (h_str_to_upper str) else Some (c # str))"

fun h_str_to_lower :: "cbuf \<Rightarrow> cbuf option" where
  "h_str_to_lower [] = None"
| "h_str_to_lower (c # str) =
     (if c \<noteq> 0 then map_option (\<lambda>r. lower_char c # r) (h_str_to_lower str) else Some (c # str))"

fun h_str_index_of :: "cbuf \<Rightarrow> byte \<Rightarrow> int option" where
  "h_str_index_of [] c = None"
| "h_str_index_of (x # str) c =
     (if x = 0 then Some (- 1)
      else if x = c then Some 0
      else map_option (\<lambda>i. if i < 0 then i else i + 1) (h_str_index_of str c))"

text \<open>An access with a C \<open>int\<close> as the index.\<close>

definition rd_int :: "'a list \<Rightarrow> int \<Rightarrow> 'a option" where
  "rd_int xs i = (if 0 \<le> i then rd xs (nat i) else None)"

function h_substring_loop :: "cbuf \<Rightarrow> cbuf \<Rightarrow> int \<Rightarrow> int \<Rightarrow> nat \<Rightarrow> cbuf option" where
  "h_substring_loop dest src start n i =
     (if int i < n then do {
        c \<leftarrow> rd_int src (start + int i);
        (if c \<noteq> 0 then do {
           dest' \<leftarrow> wr dest i c;
           h_substring_loop dest' src start n (i + 1) }
         else wr dest i 0) }
      else wr dest i 0)"
  by pat_completeness auto
termination
  by (relation "measure (\<lambda>(dest, src, start, n, i). nat (n - int i))") auto

declare h_substring_loop.simps [simp del]

definition h_str_substring :: "cbuf \<Rightarrow> cbuf \<Rightarrow> int \<Rightarrow> int \<Rightarrow> cbuf option" where
  "h_str_substring dest src start n = h_substring_loop dest src start n 0"

fun h_trim_start :: "cbuf \<Rightarrow> nat option" where
  "h_trim_start [] = None"
| "h_trim_start (c # str) = (if is_blank c then map_option Suc (h_trim_start str) else Some 0)"

function h_trim_end :: "cbuf \<Rightarrow> nat \<Rightarrow> int \<Rightarrow> int option" where
  "h_trim_end str start e =
     (if int start < e then do {
        c \<leftarrow> rd_int str e;
        (if is_blank c then h_trim_end str start (e - 1) else Some e) }
      else Some e)"
  by pat_completeness auto
termination
  by (relation "measure (\<lambda>(str, start, e). nat (e - int start))") auto

function h_trim_shift :: "cbuf \<Rightarrow> nat \<Rightarrow> nat \<Rightarrow> int \<Rightarrow> cbuf option" where
  "h_trim_shift str i start e =
     (if int start \<le> e then do {
        c \<leftarrow> rd str start;
        str' \<leftarrow> wr str i c;
        h_trim_shift str' (i + 1) (start + 1) e }
      else wr str i 0)"
  by pat_completeness auto
termination
  by (relation "measure (\<lambda>(str, i, start, e). nat (e + 1 - int start))") auto

declare h_trim_end.simps [simp del] h_trim_shift.simps [simp del]

definition h_str_trim :: "cbuf \<Rightarrow> cbuf option" where
  "h_str_trim str = do {
     n \<leftarrow> h_str_len str;
     start \<leftarrow> h_trim_start str;
     e \<leftarrow> h_trim_end str start (int n - 1);
     h_trim_shift str 0 start e }"

text \<open>The state of the loop of \<open>str_split\<close>: the buffers \<open>parts\<close> points to, how many are filled, the
  local array and the length of the word in it.\<close>

fun h_split_loop ::
    "cbuf \<Rightarrow> byte \<Rightarrow> int \<Rightarrow> cbuf list \<Rightarrow> nat \<Rightarrow> cbuf \<Rightarrow> nat \<Rightarrow> (cbuf list \<times> nat \<times> cbuf \<times> nat) option" where
  "h_split_loop [] delimiter max_parts parts count cur len = None"
| "h_split_loop (c # str) delimiter max_parts parts count cur len =
     (if c \<noteq> 0 \<and> int count < max_parts then
        (if c = delimiter \<or> c = 0 then
           (if 0 < len then do {
              cur' \<leftarrow> wr cur len 0;
              p \<leftarrow> rd parts count;
              p' \<leftarrow> h_str_copy p cur';
              h_split_loop str delimiter max_parts (parts[count := p']) (count + 1) cur' 0 }
            else h_split_loop str delimiter max_parts parts count cur len)
         else
           (if len < 63 then do {
              cur' \<leftarrow> wr cur len c;
              h_split_loop str delimiter max_parts parts count cur' (len + 1) }
            else h_split_loop str delimiter max_parts parts count cur len))
      else Some (parts, count, cur, len))"

definition h_str_split :: "cbuf \<Rightarrow> byte \<Rightarrow> cbuf list \<Rightarrow> int \<Rightarrow> (cbuf list \<times> nat) option" where
  "h_str_split str delimiter parts max_parts = do {
     (parts1, count, cur, len) \<leftarrow> h_split_loop str delimiter max_parts parts 0 (replicate 64 0) 0;
     (if 0 < len \<and> int count < max_parts then do {
        cur' \<leftarrow> wr cur len 0;
        p \<leftarrow> rd parts1 count;
        p' \<leftarrow> h_str_copy p cur';
        Some (parts1[count := p'], count + 1) }
      else Some (parts1, count)) }"

subsection \<open>The functions the kernel's library has too\<close>

lemma h_str_len_eq: "h_str_len str = str_len (Some str)"
  unfolding str_len_def by (induction str) simp_all

lemma h_str_copy_eq: "h_str_copy dest src = str_copy dest (Some src)"
  unfolding str_copy_def by (induction dest src rule: h_str_copy.induct) (simp_all split: list.split)

lemma h_str_concat_loop_eq: "h_str_concat_loop dest n i src = str_concat_loop dest (n + i) src"
  by (induction dest n i src rule: h_str_concat_loop.induct) (simp_all cong: Option.bind_cong)

lemma h_str_concat_eq: "h_str_concat dest src = str_concat dest (Some src)"
  by (simp add: h_str_concat_def str_concat_def h_str_len_eq h_str_concat_loop_eq)

lemma byte_sint_eq: "sint a = sint b \<longleftrightarrow> a = b" "sint a = 0 \<longleftrightarrow> a = 0" for a b :: byte
  by (auto intro: signed_word_eqI)

text \<open>The comparisons agree on what is equal; the sign may differ on bytes from 128 on.\<close>

lemma h_str_compare_eq:
  "map_option (\<lambda>r. r = 0) (h_str_compare s1 s2) = map_option (\<lambda>r. r = 0) (str_compare s1 s2)"
  by (induction s1 s2 rule: h_str_compare.induct) (auto simp: byte_uint_eq byte_sint_eq)

lemma h_str_compare_n_eq:
  "map_option (\<lambda>r. r = 0) (h_str_compare_n s1 s2 n) = map_option (\<lambda>r. r = 0) (str_compare_n s1 s2 n)"
  by (induction s1 s2 n rule: h_str_compare_n.induct) (auto simp: byte_uint_eq byte_sint_eq)

text \<open>The hosted library gives the contract of \<open>C_Strings\<close> too, so the two agree.\<close>

interpretation hstr: c_strings h_str_len h_str_copy h_str_concat h_str_compare
proof unfold_locales
  show "\<exists>r. h_str_compare a b = Some r \<and> (r = 0 \<longleftrightarrow> cstr a = cstr b)" if "terminated a" "terminated b" for a b
    using str_compare_terminated [OF that] h_str_compare_eq [of a b] by (cases "h_str_compare a b") auto
qed (simp_all add: h_str_len_eq h_str_copy_eq h_str_concat_eq kstr.len_law kstr.copy_law kstr.append_law)

interpretation both_strings: c_strings_pair h_str_len h_str_copy h_str_concat h_str_compare
    "\<lambda>s. str_len (Some s)" "\<lambda>d s. str_copy d (Some s)" "\<lambda>d s. str_concat d (Some s)" str_compare ..

lemma h_trim_start_eq: "h_trim_start str = trim_start str"
  by (induction str) simp_all

lemma h_trim_shift_eq: "h_trim_shift str i start (int (start + n) - 1) = trim_shift str i start n"
proof (induction n arbitrary: str i start)
  case 0
  then show ?case by (simp add: h_trim_shift.simps)
next
  case (Suc n)
  have "int (start + Suc n) - 1 = int (Suc start + n) - 1" by simp
  moreover have "h_trim_shift s' (i + 1) (start + 1) (int (Suc start + n) - 1) = trim_shift s' (Suc i) (Suc start) n" for s'
    using Suc [of s' "i + 1" "Suc start"] by simp
  ultimately show ?case
    by (subst h_trim_shift.simps) (simp del: of_nat_add of_nat_Suc)
qed

lemma h_trim_end_eq:
  "start < e \<Longrightarrow> e \<le> length str \<Longrightarrow> \<not> is_blank (str ! start) \<Longrightarrow>
     h_trim_end str start (int e - 1) = map_option (\<lambda>e. int e - 1) (trim_end str start e)"
proof (induction e)
  case (Suc e)
  show ?case
  proof (cases "start = e")
    case True
    then show ?thesis using Suc.prems by (simp add: h_trim_end.simps)
  next
    case False
    then have "h_trim_end str start (int (Suc e) - 1) =
        (if is_blank (str ! e) then h_trim_end str start (int e - 1) else Some (int e))"
      using Suc.prems by (subst h_trim_end.simps) (simp add: rd_int_def)
    then show ?thesis using Suc False by simp
  qed
qed simp

lemma h_str_trim_eq:
  assumes "terminated str"
  shows "h_str_trim str = str_trim str"
proof -
  let ?n = "length (cstr str)" and ?s = "length (takeWhile is_blank (cstr str))"
  have n: "h_str_len str = Some ?n" "str_len (Some str) = Some ?n" and s: "trim_start str = Some ?s"
    using assms by (simp_all add: h_str_len_eq str_len_Some trim_start_eq)
  have le: "?s \<le> ?n" "?n < length str"
    using assms by (simp_all add: length_takeWhile_le terminated_iff_length [symmetric])
  show ?thesis
  proof (cases "?s = ?n")
    case True
    have "h_trim_end str ?s (int ?n - 1) = Some (int (?s + 0) - 1)" using True by (simp add: h_trim_end.simps)
    moreover have "trim_end str ?s ?n = Some ?n"
      using True by (cases ?n) simp_all
    ultimately show ?thesis
      using n s True h_trim_shift_eq [of str 0 ?s 0] by (simp add: h_str_trim_def str_trim_def h_trim_start_eq)
  next
    case False
    then have lt: "?s < ?n" using le by simp
    then have "\<not> is_blank (cstr str ! ?s)" using nth_length_takeWhile by blast
    moreover have "cstr str ! ?s = str ! ?s" using lt by (metis nth_append terminated_split assms)
    ultimately have e: "h_trim_end str ?s (int ?n - 1) = map_option (\<lambda>e. int e - 1) (trim_end str ?s ?n)"
      using lt le by (intro h_trim_end_eq) simp_all
    obtain e' where e': "trim_end str ?s ?n = Some e'" "?s \<le> e'" using trim_end_eq [of ?s ?n str] le by auto
    then obtain m where "e' = ?s + m" using le_Suc_ex by blast
    then show ?thesis
      using n s e e' h_trim_shift_eq [of str 0 ?s m] by (simp add: h_str_trim_def str_trim_def h_trim_start_eq)
  qed
qed

subsection \<open>The other functions\<close>

lemma char_case_zero [simp]: "upper_char c = 0 \<longleftrightarrow> c = 0" "lower_char c = 0 \<longleftrightarrow> c = 0"
proof -
  have "c = 32 \<Longrightarrow> sint c = 32" "c = - 32 \<Longrightarrow> sint c = - 32" by simp_all
  moreover have "c - 32 = 0 \<longleftrightarrow> c = 32" "c + 32 = 0 \<longleftrightarrow> c = - 32"
    by (simp_all add: eq_neg_iff_add_eq_0)
  ultimately show "upper_char c = 0 \<longleftrightarrow> c = 0" "lower_char c = 0 \<longleftrightarrow> c = 0"
    by (auto simp: upper_char_def lower_char_def)
qed

lemma h_str_to_upper_eq:
  "terminated str \<Longrightarrow> \<exists>str'. h_str_to_upper str = Some str' \<and> length str' = length str \<and> terminated str' \<and>
     cstr str' = map upper_char (cstr str)"
  by (induction str) auto

lemma h_str_to_lower_eq:
  "terminated str \<Longrightarrow> \<exists>str'. h_str_to_lower str = Some str' \<and> length str' = length str \<and> terminated str' \<and>
     cstr str' = map lower_char (cstr str)"
  by (induction str) auto

lemma h_str_index_of_eq:
  "terminated str \<Longrightarrow> h_str_index_of str c = Some (index_or_minus1 (first_index (\<lambda>x. x = c) (cstr str)))"
proof (induction str)
  case (Cons x str)
  show ?case
  proof (cases "x = 0 \<or> x = c")
    case True
    then show ?thesis by auto
  next
    case False
    then show ?thesis using Cons by (simp add: index_or_minus1_def split: option.split)
  qed
qed simp

text \<open>One round inside the string: the byte is stored, or the buffer is full.\<close>

lemma h_substring_round:
  assumes "terminated src" "start + i < length (cstr src)" "int i < n" "i \<le> length dest"
    and IH: "\<And>dest. Suc i \<le> length dest \<Longrightarrow> h_substring_loop dest src (int start) n (Suc i) =
      put_str dest (take (Suc i) dest @ take (nat n - Suc i) (drop (start + Suc i) (cstr src)))"
  shows "h_substring_loop dest src (int start) n i =
     put_str dest (take i dest @ take (nat n - i) (drop (start + i) (cstr src)))"
proof -
  let ?c = "src ! (start + i)" and ?d = "dest[i := src ! (start + i)]"
  let ?r = "take i dest @ take (nat n - i) (drop (start + i) (cstr src))"
  have c: "?c = cstr src ! (start + i)" using assms(1,2) by (metis nth_append terminated_split)
  then have nz: "?c \<noteq> 0" using nth_mem [OF assms(2)] zero_notin_cstr by metis
  have "rd_int src (int start + int i) = Some ?c"
    using assms(1,2) terminated_iff_length [of src] by (simp add: rd_int_def nat_add_distrib)
  then have step: "h_substring_loop dest src (int start) n i =
      Option.bind (wr dest i ?c) (\<lambda>dest'. h_substring_loop dest' src (int start) n (i + 1))"
    using assms(3) nz by (subst h_substring_loop.simps) simp
  have r: "?r = take i dest @ [?c] @ take (nat n - Suc i) (drop (start + Suc i) (cstr src))"
  proof -
    have "nat n - i = Suc (nat n - Suc i)" using assms(3) by linarith
    then show ?thesis using assms(2) c by (simp add: Cons_nth_drop_Suc [symmetric])
  qed
  show ?thesis
  proof (cases "i < length dest")
    case False
    then show ?thesis using step r by (simp add: wr_def put_str_def)
  next
    case True
    have "h_substring_loop ?d src (int start) n (Suc i) =
        put_str ?d (take (Suc i) ?d @ take (nat n - Suc i) (drop (start + Suc i) (cstr src)))"
      using IH [of ?d] True by simp
    also have "take (Suc i) ?d = take i dest @ [?c]" using True by (simp add: take_Suc_conv_app_nth)
    also have "put_str ?d ((take i dest @ [?c]) @ take (nat n - Suc i) (drop (start + Suc i) (cstr src))) = put_str dest ?r"
      using True unfolding r by (simp add: put_str_def)
    finally show ?thesis using step True by simp
  qed
qed

lemma h_substring_loop_eq:
  assumes "terminated src"
  shows "start + i \<le> length (cstr src) \<Longrightarrow> i \<le> length dest \<Longrightarrow>
     h_substring_loop dest src (int start) n i =
       put_str dest (take i dest @ take (nat n - i) (drop (start + i) (cstr src)))"
proof (induction "nat n - i" arbitrary: i dest)
  case 0
  then show ?case
    by (subst h_substring_loop.simps) (auto simp: put_str_def wr_def upd_conv_take_nth_drop)
next
  case (Suc m)
  have lt: "int i < n" and m: "m = nat n - Suc i" using Suc.hyps(2) by linarith+
  show ?case
  proof (cases "start + i = length (cstr src)")
    case True
    then have "src ! (start + i) = 0" by (metis assms nth_append_length terminated_split)
    moreover have "rd_int src (int start + int i) = Some (src ! (start + i))"
      using True assms terminated_iff_length [of src] by (simp add: rd_int_def nat_add_distrib)
    ultimately show ?thesis
      using True Suc.prems(2) lt by (subst h_substring_loop.simps) (auto simp: put_str_def wr_def upd_conv_take_nth_drop)
  next
    case False
    then show ?thesis
      using h_substring_round [OF assms _ lt Suc.prems(2)] Suc.hyps(1) [OF m] Suc.prems(1) by simp
  qed
qed

lemma h_str_substring_eq:
  assumes "terminated src" "start \<le> length (cstr src)"
  shows "h_str_substring dest src (int start) n = put_str dest (take (nat n) (drop start (cstr src)))"
  using h_substring_loop_eq [OF assms(1), of start 0] assms(2) by (simp add: h_str_substring_def)

text \<open>Splitting: the non-empty words between the delimiters, \<open>acc\<close> the word so far.\<close>

fun pieces :: "byte \<Rightarrow> byte list \<Rightarrow> byte list \<Rightarrow> byte list list" where
  "pieces d acc [] = (if acc = [] then [] else [acc])"
| "pieces d acc (c # xs) =
     (if c = d then (if acc = [] then pieces d [] xs else acc # pieces d [] xs) else pieces d (acc @ [c]) xs)"

text \<open>The end of \<open>str_split\<close>, after the loop.\<close>

definition h_split_end :: "int \<Rightarrow> cbuf list \<times> nat \<times> cbuf \<times> nat \<Rightarrow> (cbuf list \<times> nat) option" where
  "h_split_end max_parts = (\<lambda>(parts, count, cur, len).
     if 0 < len \<and> int count < max_parts then do {
        cur' \<leftarrow> wr cur len 0;
        p \<leftarrow> rd parts count;
        p' \<leftarrow> h_str_copy p cur';
        Some (parts[count := p'], count + 1) }
      else Some (parts, count))"

lemma h_str_split_end:
  "h_str_split str d parts m = Option.bind (h_split_loop str d m parts 0 (replicate 64 0) 0) (h_split_end m)"
  by (simp add: h_str_split_def h_split_end_def)

text \<open>The word in the local array: its first 63 bytes.\<close>

definition word_in :: "cbuf \<Rightarrow> nat \<Rightarrow> byte list \<Rightarrow> bool" where
  "word_in cur len acc \<longleftrightarrow> length cur = 64 \<and> len = min 63 (length acc) \<and> take len cur = take 63 acc \<and> 0 \<notin> set acc"

lemma word_in_add:
  assumes "word_in cur len acc" "c \<noteq> 0"
  shows "if len < 63 then word_in (cur[len := c]) (len + 1) (acc @ [c]) else word_in cur len (acc @ [c])"
  using assms by (auto simp: word_in_def min_def take_Suc_conv_app_nth split: if_splits)

lemma word_in_copy:
  assumes "word_in cur len acc" "64 \<le> length p"
  obtains p' where "wr cur len 0 = Some (cur[len := 0])" "h_str_copy p (cur[len := 0]) = Some p'"
    "terminated p'" "cstr p' = take 63 acc" "length p' = length p" "word_in (cur[len := 0]) 0 []"
proof -
  have len: "len < length cur" using assms(1) by (simp add: word_in_def)
  have c: "cur[len := 0] = take 63 acc @ 0 # drop (Suc len) cur"
    using upd_conv_take_nth_drop [OF len, of 0] assms(1) unfolding word_in_def by metis
  have z: "0 \<notin> set (take 63 acc)" using assms(1) by (auto simp: word_in_def dest: in_set_takeD)
  have s: "terminated (cur[len := 0])" "cstr (cur[len := 0]) = take 63 acc" using c z by simp_all
  have "length (take 63 acc) < length p" using assms(2) by simp
  then obtain p' where p': "put_str p (take 63 acc) = Some p'" by (simp add: put_str_def)
  then show ?thesis
    using that [of p'] len s put_str_terminated [OF p'] put_str_cstr [OF p' z] put_str_length [OF p'] assms(1)
    by (simp add: h_str_copy_eq str_copy_eq word_in_def)
qed

definition split_result :: "nat \<Rightarrow> nat \<Rightarrow> cbuf list \<Rightarrow> byte list list \<Rightarrow> (cbuf list \<times> nat) option \<Rightarrow> bool" where
  "split_result m count parts ws r \<longleftrightarrow>
     (\<exists>parts'. r = Some (parts', count + length (take (m - count) ws)) \<and> length parts' = length parts \<and>
        take count parts' = take count parts \<and>
        map cstr (take (length (take (m - count) ws)) (drop count parts')) = map (take 63) (take (m - count) ws))"

lemma split_result_stop: "m \<le> count \<or> ws = [] \<Longrightarrow> split_result m count parts ws (Some (parts, count))"
  by (auto simp: split_result_def)

lemma split_result_Cons:
  assumes "count < m" "count < length parts" "cstr p = take 63 w"
    and "split_result m (Suc count) (parts[count := p]) ws r"
  shows "split_result m count parts (w # ws) r"
proof -
  obtain parts' where p: "r = Some (parts', Suc count + length (take (m - Suc count) ws))"
    "length parts' = length parts" "take (Suc count) parts' = take (Suc count) (parts[count := p])"
    "map cstr (take (length (take (m - Suc count) ws)) (drop (Suc count) parts')) =
       map (take 63) (take (m - Suc count) ws)"
    using assms(4) by (auto simp: split_result_def)
  have m: "m - count = Suc (m - Suc count)" using assms(1) by simp
  have n: "parts' ! count = p"
    using p(3) assms(2) by (metis lessI nth_list_update_eq nth_take)
  have t: "take count parts' = take count parts"
    using p(3) assms(2) by (metis le_less lessI min.absorb1 order_refl take_take take_update_cancel)
  have d: "drop count parts' = p # drop (Suc count) parts'"
    using n p(2) assms(2) by (simp add: Cons_nth_drop_Suc [symmetric])
  show ?thesis
    using p t d assms(3) unfolding split_result_def by (simp add: m)
qed

lemma h_split_loop_eq:
  "terminated str \<Longrightarrow> word_in cur len acc \<Longrightarrow> \<forall>p \<in> set parts. 64 \<le> length p \<Longrightarrow> m \<le> length parts \<Longrightarrow>
   split_result m count parts (pieces d acc (cstr str))
     (Option.bind (h_split_loop str d (int m) parts count cur len) (h_split_end (int m)))"
proof (induction str arbitrary: parts count cur len acc)
  case (Cons c str)
  show ?case
  proof (cases "count < m")
    case False
    then show ?thesis by (simp add: h_split_end_def split_result_stop split: prod.split)
  next
    case lt: True
    then have cl: "count < length parts" "64 \<le> length (parts ! count)" using Cons.prems(3,4) by auto
    have acc: "0 < len \<longleftrightarrow> acc \<noteq> []" using Cons.prems(2) by (auto simp: word_in_def)
    obtain p' where p': "wr cur len 0 = Some (cur[len := 0])" "h_str_copy (parts ! count) (cur[len := 0]) = Some p'"
      "terminated p'" "cstr p' = take 63 acc" "length p' = length (parts ! count)" "word_in (cur[len := 0]) 0 []"
      using word_in_copy [OF Cons.prems(2) cl(2)] .
    have shape: "\<forall>p \<in> set (parts[count := p']). 64 \<le> length p" "m \<le> length (parts[count := p'])"
      using Cons.prems(3,4) cl p'(5) by (auto dest!: set_update_subset_insert [THEN subsetD])
    note one = split_result_Cons [OF lt cl(1) p'(4)]
    have t: "c \<noteq> 0 \<Longrightarrow> terminated str" using Cons.prems(1) by simp
    consider (zero) "c = 0" | (byte) "c \<noteq> 0" "c \<noteq> d" | (gap) "c \<noteq> 0" "c = d" "acc = []" | (piece) "c \<noteq> 0" "c = d" "acc \<noteq> []"
      by blast
    then show ?thesis
    proof cases
      case zero
      have "split_result m (Suc count) (parts[count := p']) [] (Some (parts[count := p'], Suc count))"
        by (simp add: split_result_stop)
      then show ?thesis
        using zero lt cl acc p'(1,2) one by (auto simp: h_split_end_def split_result_stop)
    next
      case byte
      have "len < length cur" using Cons.prems(2) by (simp add: word_in_def)
      then show ?thesis
        using byte lt word_in_add [OF Cons.prems(2) byte(1)] Cons.IH [OF t _ Cons.prems(3,4), of _ _ "acc @ [c]" count]
        by (auto split: if_splits)
    next
      case gap
      then show ?thesis using lt acc Cons.IH [OF t Cons.prems(2-4), of count] by simp
    next
      case piece
      from one [OF Cons.IH [OF t p'(6) shape, of "Suc count"]] show ?thesis
        using piece lt acc p'(1,2) cl(1) by simp
    qed
  qed
qed simp

lemma h_str_split_eq:
  assumes "terminated str" "\<forall>p \<in> set parts. 64 \<le> length p" "m \<le> length parts"
  shows "split_result m 0 parts (pieces d [] (cstr str)) (h_str_split str d parts (int m))"
proof -
  have "word_in (replicate 64 0) 0 []" by (simp add: word_in_def)
  from h_split_loop_eq [OF assms(1) this assms(2,3)] show ?thesis unfolding h_str_split_end .
qed

subsection \<open>Properties\<close>

text \<open>The two characters a comparison ends at.\<close>

lemma byte_signs:
  fixes a b :: byte
  shows "a < 128 \<Longrightarrow> sint a = uint a" and "a < 128 \<Longrightarrow> 128 \<le> b \<Longrightarrow> 0 < sint a - sint b \<and> uint a - uint b < 0"
proof -
  have s: "sint w = (if w < 128 then uint w else uint w - 256)" for w :: byte
  proof -
    have u: "0 \<le> uint w" "uint w < 256" using uint_lt2p [of w] by simp_all
    have "sint w = (uint w + 128) mod 256 - 128"
      by (simp add: sint_uint signed_take_bit_eq_take_bit_shift take_bit_eq_mod)
    moreover have "(uint w + 128) mod 256 = (if uint w < 128 then uint w + 128 else uint w - 128)"
      using u mod_pos_pos_trivial [of "uint w + 128" 256] mod_pos_pos_trivial [of "uint w - 128" 256]
        mod_add_self2 [of "uint w - 128" 256] by (auto simp: add.commute)
    ultimately show ?thesis by (simp add: word_less_def)
  qed
  show "a < 128 \<Longrightarrow> sint a = uint a" by (simp add: s)
  show "a < 128 \<Longrightarrow> 128 \<le> b \<Longrightarrow> 0 < sint a - sint b \<and> uint a - uint b < 0"
    using uint_lt2p [of b] less_le_trans [OF _ uint_ge_0 [of a], of "uint b - 256"]
    by (auto simp: s word_less_def word_le_def)
qed

lemma compare_chars:
  "terminated s \<Longrightarrow> terminated t \<Longrightarrow> \<exists>a b. h_str_compare s t = Some (sint a - sint b) \<and>
     str_compare s t = Some (uint a - uint b) \<and> a \<in> {0} \<union> set (cstr s) \<and> b \<in> {0} \<union> set (cstr t)"
proof (induction s t rule: str_compare.induct)
  case (1 a as b bs)
  show ?case
  proof (cases "a \<noteq> 0 \<and> a = b")
    case True
    then show ?thesis using 1 by auto
  next
    case False
    then show ?thesis by (intro exI [of _ a] exI [of _ b]) auto
  qed
qed simp_all

lemma compare_n_chars:
  "terminated s \<Longrightarrow> terminated t \<Longrightarrow> \<exists>a b. h_str_compare_n s t n = Some (sint a - sint b) \<and>
     str_compare_n s t n = Some (uint a - uint b) \<and> a \<in> {0} \<union> set (cstr s) \<and> b \<in> {0} \<union> set (cstr t)"
proof (induction s t n rule: str_compare_n.induct)
  case (1 as bs)
  show ?case by (intro exI [of _ 0]) simp
next
  case (2 a as b bs n)
  show ?case
  proof (cases "a \<noteq> b \<or> a = 0 \<or> b = 0")
    case True
    then show ?thesis by (intro exI [of _ a] exI [of _ b]) auto
  next
    case False
    then show ?thesis using 2 by auto
  qed
qed simp_all

text \<open>
  C34: One string library, written twice.  On terminated strings the functions that measure, copy, append
  and trim do the same in src/string.c and kernel/string.c: same result, same bytes written, undefined for
  the same arguments.  The comparisons stop at the same two characters, but one subtracts them as signed
  and the other as unsigned numbers: they agree on equality, and on the whole result for strings of ASCII
  characters, but order a character from 128 on and one below it in opposite ways.
\<close>

theorem hosted_strings_agree:
  assumes "terminated s" "terminated t"
  shows "h_str_len s = str_len (Some s) \<and> h_str_copy dest s = str_copy dest (Some s) \<and>
     h_str_concat dest s = str_concat dest (Some s) \<and> h_str_trim s = str_trim s \<and>
     (h_str_compare s t = Some 0 \<longleftrightarrow> str_compare s t = Some 0) \<and>
     (\<exists>a b. h_str_compare s t = Some (sint a - sint b) \<and> str_compare s t = Some (uint a - uint b) \<and>
        a \<in> {0} \<union> set (cstr s) \<and> b \<in> {0} \<union> set (cstr t) \<and>
        (a < 128 \<longrightarrow> 128 \<le> b \<longrightarrow> 0 < sint a - sint b \<and> uint a - uint b < 0) \<and>
        (b < 128 \<longrightarrow> 128 \<le> a \<longrightarrow> sint a - sint b < 0 \<and> 0 < uint a - uint b)) \<and>
     (h_str_compare_n s t n = Some 0 \<longleftrightarrow> str_compare_n s t n = Some 0) \<and>
     (\<exists>a b. h_str_compare_n s t n = Some (sint a - sint b) \<and> str_compare_n s t n = Some (uint a - uint b) \<and>
        a \<in> {0} \<union> set (cstr s) \<and> b \<in> {0} \<union> set (cstr t) \<and>
        (a < 128 \<longrightarrow> 128 \<le> b \<longrightarrow> 0 < sint a - sint b \<and> uint a - uint b < 0) \<and>
        (b < 128 \<longrightarrow> 128 \<le> a \<longrightarrow> sint a - sint b < 0 \<and> 0 < uint a - uint b)) \<and>
     ((\<forall>c \<in> set (cstr s) \<union> set (cstr t). c < 128) \<longrightarrow>
        h_str_compare s t = str_compare s t \<and> h_str_compare_n s t n = str_compare_n s t n)"
proof -
  have z: "h_str_compare_n s t n = Some 0 \<longleftrightarrow> str_compare_n s t n = Some 0"
    using h_str_compare_n_eq [of s t n] by (cases "h_str_compare_n s t n"; cases "str_compare_n s t n") auto
  obtain a b where c: "h_str_compare s t = Some (sint a - sint b)" "str_compare s t = Some (uint a - uint b)"
    "a \<in> {0} \<union> set (cstr s)" "b \<in> {0} \<union> set (cstr t)"
    using compare_chars [OF assms] by blast
  obtain a' b' where d: "h_str_compare_n s t n = Some (sint a' - sint b')"
    "str_compare_n s t n = Some (uint a' - uint b')" "a' \<in> {0} \<union> set (cstr s)" "b' \<in> {0} \<union> set (cstr t)"
    using compare_n_chars [OF assms] by blast
  have ascii: "h_str_compare s t = str_compare s t \<and> h_str_compare_n s t n = str_compare_n s t n"
    if "\<forall>c \<in> set (cstr s) \<union> set (cstr t). c < 128"
    using that c d byte_signs(1) by auto
  have same: "h_str_len s = str_len (Some s) \<and> h_str_copy dest s = str_copy dest (Some s) \<and>
      h_str_concat dest s = str_concat dest (Some s) \<and> h_str_trim s = str_trim s \<and>
      (h_str_compare s t = Some 0 \<longleftrightarrow> str_compare s t = Some 0)"
    using both_strings.agree [OF assms] h_str_trim_eq [OF assms(1)] by (simp add: h_str_copy_eq h_str_concat_eq)
  have "\<exists>a b. h_str_compare s t = Some (sint a - sint b) \<and> str_compare s t = Some (uint a - uint b) \<and>
      a \<in> {0} \<union> set (cstr s) \<and> b \<in> {0} \<union> set (cstr t) \<and>
      (a < 128 \<longrightarrow> 128 \<le> b \<longrightarrow> 0 < sint a - sint b \<and> uint a - uint b < 0) \<and>
        (b < 128 \<longrightarrow> 128 \<le> a \<longrightarrow> sint a - sint b < 0 \<and> 0 < uint a - uint b)"
    using c byte_signs(2) [of a b] byte_signs(2) [of b a] by (intro exI [of _ a] exI [of _ b]) simp
  moreover have "\<exists>a b. h_str_compare_n s t n = Some (sint a - sint b) \<and> str_compare_n s t n = Some (uint a - uint b) \<and>
      a \<in> {0} \<union> set (cstr s) \<and> b \<in> {0} \<union> set (cstr t) \<and>
      (a < 128 \<longrightarrow> 128 \<le> b \<longrightarrow> 0 < sint a - sint b \<and> uint a - uint b < 0) \<and>
        (b < 128 \<longrightarrow> 128 \<le> a \<longrightarrow> sint a - sint b < 0 \<and> 0 < uint a - uint b)"
    using d byte_signs(2) [of a' b'] byte_signs(2) [of b' a'] by (intro exI [of _ a'] exI [of _ b']) simp
  ultimately show ?thesis using same z ascii by (intro conjI impI) simp_all
qed

lemma hosted_strings_agree_witness:
  "h_str_trim (lit ''  two words '') = str_trim (lit ''  two words '') \<and>
   h_str_compare (lit ''ls'') (lit ''ls'') = Some 0 \<and> h_str_compare (lit ''ls'') (lit ''cd'') = str_compare (lit ''ls'') (lit ''cd'')"
proof -
  have t: "terminated (lit ''  two words '')" "terminated (lit ''ls'')" "terminated (lit ''cd'')" by simp_all
  have a: "\<forall>c \<in> set (cstr (lit ''ls'')) \<union> set (cstr (lit ''cd'')). c < 128" by code_simp
  have "str_compare (lit ''ls'') (lit ''ls'') = Some 0" by code_simp
  then have "h_str_compare (lit ''ls'') (lit ''ls'') = Some 0" using hosted_strings_agree [OF t(2) t(2)] by simp
  moreover have "h_str_compare (lit ''ls'') (lit ''cd'') = str_compare (lit ''ls'') (lit ''cd'')"
    using hosted_strings_agree [OF t(2,3)] a by simp
  ultimately show ?thesis using hosted_strings_agree [OF t(1) t(2)] by simp
qed

text \<open>
  Splitting into buffers.  \<open>str_split\<close> returns the number of non-empty pieces between the delimiters,
  at most \<open>max_parts\<close>, and writes their first 63 bytes as strings to the first buffers, in order,
  without an access outside its arrays when every buffer has 64 bytes.
\<close>

theorem hosted_split_pieces:
  assumes "terminated str" "\<forall>p \<in> set parts. 64 \<le> length p" "m \<le> length parts"
    and "ws = take m (pieces d [] (cstr str))"
  shows "\<exists>parts'. h_str_split str d parts (int m) = Some (parts', length ws) \<and> length parts' = length parts \<and>
     map cstr (take (length ws) parts') = map (take 63) ws"
  using h_str_split_eq [OF assms(1-3), of d] assms(4) by (auto simp: split_result_def)

lemma hosted_split_pieces_witness:
  "\<exists>parts'. h_str_split (lit ''/usr//bin'') 0x2F (replicate 4 (replicate 64 0)) (int 4) = Some (parts', 2) \<and>
     map cstr (take 2 parts') = [bytes_of ''usr'', bytes_of ''bin'']"
proof -
  have w: "take 4 (pieces 0x2F [] (cstr (lit ''/usr//bin''))) = [bytes_of ''usr'', bytes_of ''bin'']"
    by code_simp
  have "map (take 63) [bytes_of ''usr'', bytes_of ''bin''] = [bytes_of ''usr'', bytes_of ''bin'']"
    by code_simp
  then show ?thesis
    using hosted_split_pieces [of "lit ''/usr//bin''" "replicate 4 (replicate 64 0)" 4, OF _ _ _ w [symmetric]]
    by (auto simp: numeral_2_eq_2)
qed

end
