(* ===== verification/Hosted_Io.thy ===== *)
theory Hosted_Io
  imports Hosted_String
begin

section \<open>src/io.c: the standard streams\<close>

text \<open>
  The state of the hosted program: what it has written to its standard output, what its standard input
  still delivers, the heap object behind the static pointer of src/filesystem.c (\<open>None\<close> while it is
  \<open>NULL\<close>) with \<open>current_dir\<close>, and \<open>exit_flag\<close> of src/commands.c.  \<open>printf\<close>, \<open>fgets\<close> and \<open>getchar\<close> are
  those of the C library on these streams; \<open>system("clear")\<close> runs another program on the same
  output: the bytes \<open>clear\<close> it writes are a parameter.
\<close>

definition MAX_FILENAME :: nat where "MAX_FILENAME = 32"
definition MAX_PATH :: nat where "MAX_PATH = 128"
definition MAX_FILES :: nat where "MAX_FILES = 256"
definition FILE_SIZE :: nat where "FILE_SIZE = 4096"

definition FILE_TYPE_FILE :: "32 word" where "FILE_TYPE_FILE = 0"
definition FILE_TYPE_DIR :: "32 word" where "FILE_TYPE_DIR = 1"

record file_entry =
  fe_name :: cbuf
  fe_type :: "32 word"
  fe_size :: "32 word"
  fe_data :: cbuf
  fe_created :: "16 word"

record filesystem =
  hf_files :: "file_entry list"
  hf_count :: "16 word"

record hosted =
  h_out :: "byte list"
  h_in :: "byte list"
  h_fs :: "filesystem option"
  h_dir :: cbuf
  h_exit :: int

definition h_emit :: "byte list \<Rightarrow> hosted \<Rightarrow> hosted" where
  "h_emit bs k = k\<lparr>h_out := h_out k @ bs\<rparr>"

subsection \<open>The functions\<close>

definition h_io_clear_screen :: "byte list \<Rightarrow> hosted \<Rightarrow> hosted" where
  "h_io_clear_screen clear k = h_emit clear k"

text \<open>\<open>printf("%s", str)\<close> is undefined on an array without a terminator.\<close>

definition h_io_print :: "cptr \<Rightarrow> hosted \<Rightarrow> hosted option" where
  "h_io_print str k =
     (case str of
        Some s \<Rightarrow> if terminated s then Some (h_emit (cstr s) k) else None
      | None \<Rightarrow> Some k)"

definition h_io_println :: "cptr \<Rightarrow> hosted \<Rightarrow> hosted option" where
  "h_io_println str k =
     (case str of
        Some s \<Rightarrow> if terminated s then Some (h_emit (cstr s @ [0x0A]) k) else None
      | None \<Rightarrow> Some (h_emit [0x0A] k))"

definition h_io_print_char :: "byte \<Rightarrow> hosted \<Rightarrow> hosted" where
  "h_io_print_char c k = h_emit [c] k"

text \<open>\<open>printf("%d", num)\<close>.\<close>

function digits_of :: "nat \<Rightarrow> byte list" where
  "digits_of n = (if n < 10 then [of_nat (48 + n)] else digits_of (n div 10) @ [of_nat (48 + n mod 10)])"
  by pat_completeness auto
termination by (relation "measure id") auto

declare digits_of.simps [simp del]

definition h_io_print_int :: "int \<Rightarrow> hosted \<Rightarrow> hosted" where
  "h_io_print_int num k =
     h_emit (if num < 0 then 0x2D # digits_of (nat (- num)) else digits_of (nat num)) k"

text \<open>\<open>fgets\<close>: at most \<open>n\<close> bytes, up to and with the first newline.\<close>

fun fgets_bytes :: "nat \<Rightarrow> byte list \<Rightarrow> byte list \<times> byte list" where
  "fgets_bytes 0 xs = ([], xs)"
| "fgets_bytes (Suc n) [] = ([], [])"
| "fgets_bytes (Suc n) (c # xs) =
     (if c = 0x0A then ([c], xs) else (let (l, r) = fgets_bytes n xs in (c # l, r)))"

definition fgets :: "cbuf \<Rightarrow> nat \<Rightarrow> hosted \<Rightarrow> (bool \<times> cbuf \<times> hosted) option" where
  "fgets buffer max_len k =
     (if h_in k = [] then Some (False, buffer, k)
      else (let (l, r) = fgets_bytes (max_len - 1) (h_in k) in
        do { buffer' \<leftarrow> put_str buffer l; Some (True, buffer', k\<lparr>h_in := r\<rparr>) }))"

text \<open>The loop that removes the newline.\<close>

fun strip_newline :: "cbuf \<Rightarrow> cbuf option" where
  "strip_newline [] = None"
| "strip_newline (c # buffer) =
     (if c \<noteq> 0 then
        (if c = 0x0A then Some (0 # buffer) else map_option (\<lambda>r. c # r) (strip_newline buffer))
      else Some (c # buffer))"

definition h_io_get_string :: "cbuf \<Rightarrow> nat \<Rightarrow> hosted \<Rightarrow> (cbuf \<times> hosted) option" where
  "h_io_get_string buffer max_len k = do {
     (got, buffer1, k1) \<leftarrow> fgets buffer max_len k;
     (if got then do { buffer2 \<leftarrow> strip_newline buffer1; Some (buffer2, k1) }
      else Some (buffer1, k1)) }"

text \<open>\<open>getchar\<close> gives \<open>EOF\<close>, that is \<open>-1\<close>, at the end of the input, which is cut to a \<open>char\<close>.\<close>

definition h_io_get_char :: "hosted \<Rightarrow> byte \<times> hosted" where
  "h_io_get_char k = (case h_in k of [] \<Rightarrow> (- 1, k) | c # r \<Rightarrow> (c, k\<lparr>h_in := r\<rparr>))"

subsection \<open>Closed forms\<close>

lemma h_emit_fields [simp]:
  "h_in (h_emit bs k) = h_in k" "h_fs (h_emit bs k) = h_fs k" "h_dir (h_emit bs k) = h_dir k"
  "h_exit (h_emit bs k) = h_exit k" "h_out (h_emit bs k) = h_out k @ bs"
  by (simp_all add: h_emit_def)

lemma h_emit_emit [simp]: "h_emit cs (h_emit bs k) = h_emit (bs @ cs) k"
  by (simp add: h_emit_def)

lemma h_print_eq: "terminated s \<Longrightarrow> h_io_print (Some s) k = Some (h_emit (cstr s) k)"
  by (simp add: h_io_print_def)

lemma h_println_eq: "terminated s \<Longrightarrow> h_io_println (Some s) k = Some (h_emit (cstr s @ [0x0A]) k)"
  by (simp add: h_io_println_def)

lemmas h_print_eqs = h_print_eq h_println_eq

text \<open>A line of input: the bytes before the first newline, cut to the size of the buffer.\<close>

lemma fgets_bytes_eq:
  "fgets_bytes n xs =
     (if n \<le> length (takeWhile (\<lambda>c. c \<noteq> 0x0A) xs)
      then (take n xs, drop n xs)
      else (let l = takeWhile (\<lambda>c. c \<noteq> 0x0A) xs in
        if l = xs then (xs, []) else (l @ [0x0A], drop (Suc (length l)) xs)))"
proof (induction n xs rule: fgets_bytes.induct)
  case (3 n c xs)
  then show ?case by (cases "takeWhile (\<lambda>c. c \<noteq> 0x0A) xs = xs") (auto simp: Let_def)
qed simp_all

lemma strip_newline_eq:
  "terminated b \<Longrightarrow> \<exists>b'. strip_newline b = Some b' \<and> terminated b' \<and> length b' = length b \<and>
     cstr b' = takeWhile (\<lambda>c. c \<noteq> 0x0A) (cstr b)"
  by (induction b) auto

text \<open>Reading a line leaves a string in the buffer, whatever the input; at its end the buffer is as it
  was.\<close>

lemma h_get_string_ok:
  assumes "terminated buffer" "max_len \<le> length buffer" "0 < max_len"
  obtains b k' where "h_io_get_string buffer max_len k = Some (b, k')" "terminated b" "length b = length buffer"
    "\<exists>r. k' = k\<lparr>h_in := r\<rparr> \<and> length r \<le> length (h_in k)"
    "length (cstr b) < max_len \<or> h_in k = []"
    "h_in k = [] \<Longrightarrow> b = buffer"
proof (cases "h_in k = []")
  case True
  then have "h_io_get_string buffer max_len k = Some (buffer, k\<lparr>h_in := h_in k\<rparr>)"
    by (simp add: h_io_get_string_def fgets_def)
  then show ?thesis using that True assms(1) by blast
next
  case False
  obtain l r where lr: "fgets_bytes (max_len - 1) (h_in k) = (l, r)" by fastforce
  have "length (fst (fgets_bytes n xs)) \<le> n \<and> length (snd (fgets_bytes n xs)) \<le> length xs" for n xs
    by (induction n xs rule: fgets_bytes.induct) (auto split: prod.split)
  from this [of "max_len - 1" "h_in k"] have len: "length l \<le> max_len - 1" "length r \<le> length (h_in k)"
    using lr by auto
  then have "length l < length buffer" using assms(2,3) by linarith
  then obtain b1 where b1: "put_str buffer l = Some b1" by (simp add: put_str_def)
  obtain b2 where b2: "strip_newline b1 = Some b2" "terminated b2" "length b2 = length b1"
    "cstr b2 = takeWhile (\<lambda>c. c \<noteq> 0x0A) (cstr b1)"
    using strip_newline_eq [OF put_str_terminated [OF b1]] by blast
  have "b1 = l @ 0 # drop (Suc (length l)) buffer" using b1 by (auto simp: put_str_def split: if_splits)
  then have "length (cstr b1) \<le> length l" by (simp add: cstr_def takeWhile_append length_takeWhile_le)
  then have "length (cstr b2) < max_len"
    using b2(4) len(1) assms(3) length_takeWhile_le [of "\<lambda>c. c \<noteq> 0x0A" "cstr b1"] by simp
  moreover have "h_io_get_string buffer max_len k = Some (b2, k\<lparr>h_in := r\<rparr>)"
    using False lr b1 b2(1) by (simp add: h_io_get_string_def fgets_def)
  ultimately show ?thesis
    using that [of b2 "k\<lparr>h_in := r\<rparr>"] b2(2,3) put_str_length [OF b1] len(2) False by auto
qed

end
