(* ===== verification/Hosted_Fs.thy ===== *)
theory Hosted_Fs
  imports Hosted_Io
begin

section \<open>src/filesystem.c: the flat filesystem of the hosted program\<close>

text \<open>
  A table of entries without directories in the sense of paths: the first \<open>file_count\<close> slots are in
  use, an entry is found by its whole name, deleting shifts the rest.  A pointer to an entry is its
  index.  \<open>malloc\<close> is a parameter of \<open>fs_init\<close>: the array it returns, of any content.
\<close>

subsection \<open>The functions\<close>

definition h_fs_init :: "filesystem option \<Rightarrow> hosted \<Rightarrow> hosted option" where
  "h_fs_init mem k =
     (case h_fs k of
        Some _ \<Rightarrow> Some k
      | None \<Rightarrow> do {
          fs \<leftarrow> mem;
          f \<leftarrow> rd (hf_files fs) 0;
          nm \<leftarrow> h_str_copy (fe_name f) (lit ''/'');
          let f' = f\<lparr>fe_type := FILE_TYPE_DIR, fe_name := nm, fe_size := 0\<rparr>;
          Some (k\<lparr>h_fs := Some (fs\<lparr>hf_files := (hf_files fs)[0 := f'], hf_count := 1\<rparr>)\<rparr>) })"

text \<open>The loop over the entries that compares names; \<open>n\<close> rounds are left at index \<open>i\<close>.\<close>

fun h_find_loop :: "file_entry list \<Rightarrow> nat \<Rightarrow> nat \<Rightarrow> cbuf \<Rightarrow> nat option option" where
  "h_find_loop files 0 i name = Some None"
| "h_find_loop files (Suc n) i name = do {
     f \<leftarrow> rd files i;
     r \<leftarrow> h_str_compare (fe_name f) name;
     (if r = 0 then Some (Some i) else h_find_loop files n (i + 1) name) }"

definition h_fs_find :: "filesystem \<Rightarrow> cbuf \<Rightarrow> nat option option" where
  "h_fs_find fs name = h_find_loop (hf_files fs) (unat (hf_count fs)) 0 name"

definition h_fs_file_exists :: "cbuf \<Rightarrow> hosted \<Rightarrow> int option" where
  "h_fs_file_exists name k =
     (case h_fs k of
        None \<Rightarrow> Some 0
      | Some fs \<Rightarrow> map_option (\<lambda>r. if r = None then 0 else 1) (h_fs_find fs name))"

definition h_fs_get_file :: "cbuf \<Rightarrow> hosted \<Rightarrow> nat option option" where
  "h_fs_get_file name k = (case h_fs k of None \<Rightarrow> Some None | Some fs \<Rightarrow> h_fs_find fs name)"

text \<open>The body that \<open>fs_create_file\<close> and \<open>fs_create_dir\<close> have in common but for the type and two
  messages.\<close>

definition h_create_entry :: "32 word \<Rightarrow> string \<Rightarrow> string \<Rightarrow> cbuf \<Rightarrow> hosted \<Rightarrow> hosted option" where
  "h_create_entry t exists_msg created_msg name k =
     (case h_fs k of
        None \<Rightarrow> Some k
      | Some fs \<Rightarrow>
          if MAX_FILES \<le> unat (hf_count fs) then h_io_println (Some (lit ''Error: Maximum file limit reached'')) k
          else do {
            e \<leftarrow> h_fs_file_exists name k;
            (if e \<noteq> 0 then h_io_println (Some (lit exists_msg)) k
             else do {
               f \<leftarrow> rd (hf_files fs) (unat (hf_count fs));
               nm \<leftarrow> h_str_copy (fe_name f) name;
               let f' = f\<lparr>fe_name := nm, fe_type := t, fe_size := 0, fe_created := 0\<rparr>;
               let fs' = fs\<lparr>hf_files := (hf_files fs)[unat (hf_count fs) := f'], hf_count := hf_count fs + 1\<rparr>;
               k1 \<leftarrow> h_io_print (Some (lit created_msg)) (k\<lparr>h_fs := Some fs'\<rparr>);
               h_io_println (Some name) k1 }) })"

definition h_fs_create_file :: "cbuf \<Rightarrow> hosted \<Rightarrow> hosted option" where
  "h_fs_create_file = h_create_entry FILE_TYPE_FILE ''Error: File already exists'' ''Created file: ''"

definition h_fs_create_dir :: "cbuf \<Rightarrow> hosted \<Rightarrow> hosted option" where
  "h_fs_create_dir = h_create_entry FILE_TYPE_DIR ''Error: Directory already exists'' ''Created directory: ''"

fun h_list_loop :: "file_entry list \<Rightarrow> nat \<Rightarrow> nat \<Rightarrow> hosted \<Rightarrow> hosted option" where
  "h_list_loop files 0 i k = Some k"
| "h_list_loop files (Suc n) i k = do {
     f \<leftarrow> rd files i;
     k1 \<leftarrow> h_io_print (Some (lit (if fe_type f = FILE_TYPE_DIR then ''[DIR]  '' else ''[FILE] ''))) k;
     k2 \<leftarrow> h_io_print (Some (fe_name f)) k1;
     k3 \<leftarrow> h_io_print (Some (lit '' - Size: '')) k2;
     k4 \<leftarrow> h_io_println (Some (lit '' bytes'')) (h_io_print_int (sint (fe_size f)) k3);
     h_list_loop files n (i + 1) k4 }"

definition newline :: string where
  "newline = [CHR 0x0A]"

definition h_fs_list_files :: "hosted \<Rightarrow> hosted option" where
  "h_fs_list_files k =
     (case h_fs k of
        None \<Rightarrow> Some k
      | Some fs \<Rightarrow> do {
          k1 \<leftarrow> h_io_println (Some (lit (newline @ ''=== File Listing ===''))) k;
          k2 \<leftarrow> h_list_loop (hf_files fs) (unat (hf_count fs)) 0 k1;
          h_io_println (Some (lit (''===================='' @ newline))) k2 })"

text \<open>\<open>while (data[i] != '\0' && i < FILE_SIZE) file->data[i] = data[i++];\<close>: the array and the final
  index.\<close>

fun h_write_loop :: "cbuf \<Rightarrow> cbuf \<Rightarrow> nat \<Rightarrow> (cbuf \<times> nat) option" where
  "h_write_loop dest [] i = None"
| "h_write_loop dest (c # data) i =
     (if c \<noteq> 0 \<and> i < FILE_SIZE then do { dest' \<leftarrow> wr dest i c; h_write_loop dest' data (i + 1) }
      else Some (dest, i))"

definition h_fs_write_file :: "cbuf \<Rightarrow> cbuf \<Rightarrow> hosted \<Rightarrow> hosted option" where
  "h_fs_write_file name data k = do {
     file \<leftarrow> h_fs_get_file name k;
     (case (file, h_fs k) of
        (Some idx, Some fs) \<Rightarrow> do {
          f \<leftarrow> rd (hf_files fs) idx;
          (if fe_type f = FILE_TYPE_DIR then h_io_println (Some (lit ''Error: Cannot write to directory'')) k
           else do {
             data_len \<leftarrow> h_str_len data;
             (if FILE_SIZE < data_len then h_io_println (Some (lit ''Error: Data too large for file'')) k
              else do {
                (content, i) \<leftarrow> h_write_loop (fe_data f) data 0;
                content' \<leftarrow> wr content i 0;
                let f' = f\<lparr>fe_data := content', fe_size := of_nat i\<rparr>;
                h_io_println (Some (lit ''File written successfully''))
                  (k\<lparr>h_fs := Some (fs\<lparr>hf_files := (hf_files fs)[idx := f']\<rparr>)\<rparr>) }) }) }
      | _ \<Rightarrow> h_io_println (Some (lit ''Error: File not found'')) k) }"

definition h_fs_read_file :: "cbuf \<Rightarrow> hosted \<Rightarrow> hosted option" where
  "h_fs_read_file name k = do {
     file \<leftarrow> h_fs_get_file name k;
     (case (file, h_fs k) of
        (Some idx, Some fs) \<Rightarrow> do {
          f \<leftarrow> rd (hf_files fs) idx;
          (if fe_type f = FILE_TYPE_DIR then h_io_println (Some (lit ''Error: Cannot read directory'')) k
           else do {
             k1 \<leftarrow> h_io_println (Some (lit (newline @ ''=== File Contents ===''))) k;
             k2 \<leftarrow> h_io_println (Some (fe_data f)) k1;
             h_io_println (Some (lit (''===================='' @ newline))) k2 }) }
      | _ \<Rightarrow> h_io_println (Some (lit ''Error: File not found'')) k) }"

text \<open>\<open>fs->files[j] = fs->files[j + 1]\<close> for \<open>n\<close> rounds from \<open>j\<close> on.\<close>

fun h_shift_loop :: "file_entry list \<Rightarrow> nat \<Rightarrow> nat \<Rightarrow> file_entry list option" where
  "h_shift_loop files 0 j = Some files"
| "h_shift_loop files (Suc n) j = do {
     f \<leftarrow> rd files (j + 1);
     files' \<leftarrow> wr files j f;
     h_shift_loop files' n (j + 1) }"

definition h_fs_delete_file :: "cbuf \<Rightarrow> hosted \<Rightarrow> hosted option" where
  "h_fs_delete_file name k =
     (case h_fs k of
        None \<Rightarrow> Some k
      | Some fs \<Rightarrow> do {
          found \<leftarrow> h_fs_find fs name;
          (case found of
             None \<Rightarrow> h_io_println (Some (lit ''Error: File not found'')) k
           | Some i \<Rightarrow> do {
               files \<leftarrow> h_shift_loop (hf_files fs) (unat (hf_count fs) - 1 - i) i;
               k1 \<leftarrow> h_io_print (Some (lit ''Deleted: ''))
                 (k\<lparr>h_fs := Some (fs\<lparr>hf_files := files, hf_count := hf_count fs - 1\<rparr>)\<rparr>);
               h_io_println (Some name) k1 }) })"

definition h_fs_change_dir :: "cbuf \<Rightarrow> hosted \<Rightarrow> hosted option" where
  "h_fs_change_dir name k = do {
     r \<leftarrow> h_str_compare name (lit ''/'');
     (if r = 0 then do {
        d \<leftarrow> h_str_copy (h_dir k) (lit ''/'');
        h_io_println (Some (lit ''Changed to root directory'')) (k\<lparr>h_dir := d\<rparr>) }
      else do {
        e \<leftarrow> h_fs_file_exists name k;
        (if e \<noteq> 0 then do {
           file \<leftarrow> h_fs_get_file name k;
           (case (file, h_fs k) of
              (Some idx, Some fs) \<Rightarrow> do {
                f \<leftarrow> rd (hf_files fs) idx;
                (if fe_type f = FILE_TYPE_DIR then do {
                   d \<leftarrow> h_str_copy (h_dir k) name;
                   k1 \<leftarrow> h_io_print (Some (lit ''Changed to directory: '')) (k\<lparr>h_dir := d\<rparr>);
                   h_io_println (Some name) k1 }
                 else h_io_println (Some (lit ''Error: Not a directory'')) k) }
            | _ \<Rightarrow> None) }
         else h_io_println (Some (lit ''Error: Directory not found'')) k) }) }"

subsection \<open>The list of entries\<close>

datatype h_entry = HDir | HFile "byte list"

definition h_entry_of :: "file_entry \<Rightarrow> h_entry" where
  "h_entry_of f = (if fe_type f = FILE_TYPE_DIR then HDir else HFile (take (unat (fe_size f)) (fe_data f)))"

definition h_live :: "filesystem \<Rightarrow> file_entry list" where
  "h_live fs = take (unat (hf_count fs)) (hf_files fs)"

definition h_row :: "file_entry \<Rightarrow> byte list \<times> h_entry" where
  "h_row f = (cstr (fe_name f), h_entry_of f)"

definition h_rows :: "filesystem \<Rightarrow> (byte list \<times> h_entry) list" where
  "h_rows fs = map h_row (h_live fs)"

definition h_shape :: "file_entry \<Rightarrow> bool" where
  "h_shape f \<longleftrightarrow> length (fe_name f) = MAX_FILENAME \<and> length (fe_data f) = FILE_SIZE"

definition h_used_ok :: "file_entry \<Rightarrow> bool" where
  "h_used_ok f \<longleftrightarrow> terminated (fe_name f) \<and> fe_type f \<in> {FILE_TYPE_FILE, FILE_TYPE_DIR} \<and>
     unat (fe_size f) \<le> FILE_SIZE"

definition hfs_wf :: "filesystem \<Rightarrow> bool" where
  "hfs_wf fs \<longleftrightarrow> length (hf_files fs) = MAX_FILES \<and> unat (hf_count fs) \<le> MAX_FILES \<and>
     (\<forall>f \<in> set (hf_files fs). h_shape f) \<and> (\<forall>f \<in> set (h_live fs). h_used_ok f) \<and>
     distinct (map fst (h_rows fs))"

lemma h_row_simps [simp]: "fst (h_row f) = cstr (fe_name f)" "snd (h_row f) = h_entry_of f"
  by (simp_all add: h_row_def)

lemma length_h_live: "hfs_wf fs \<Longrightarrow> length (h_live fs) = unat (hf_count fs)"
  by (simp add: hfs_wf_def h_live_def)

lemma h_live_nth: "hfs_wf fs \<Longrightarrow> i < unat (hf_count fs) \<Longrightarrow> h_live fs ! i = hf_files fs ! i \<and> i < length (hf_files fs)"
  by (simp add: hfs_wf_def h_live_def)

text \<open>The search finds the first entry in use with the name.\<close>

lemma h_find_loop_eq:
  "i + n \<le> length files \<Longrightarrow> \<forall>f \<in> set (take n (drop i files)). terminated (fe_name f) \<Longrightarrow> terminated name \<Longrightarrow>
   h_find_loop files n i name =
     Some (map_option (\<lambda>j. j + i) (first_index (\<lambda>f. cstr (fe_name f) = cstr name) (take n (drop i files))))"
proof (induction n arbitrary: i)
  case (Suc n)
  have i: "i < length files" using Suc.prems(1) by simp
  then have d: "take (Suc n) (drop i files) = files ! i # take n (drop (i + 1) files)"
    by (simp add: Cons_nth_drop_Suc [symmetric])
  obtain r where "h_str_compare (fe_name (files ! i)) name = Some r"
    "r = 0 \<longleftrightarrow> cstr (fe_name (files ! i)) = cstr name"
    using hstr.compareE [of "fe_name (files ! i)" name] Suc.prems(2,3) d by auto
  then show ?case
    using Suc i d by (simp add: option.map_comp comp_def)
qed simp

lemma h_fs_find_eq:
  assumes "hfs_wf fs" "terminated name"
  shows "h_fs_find fs name = Some (first_index (\<lambda>f. cstr (fe_name f) = cstr name) (h_live fs))"
proof -
  have "map_option (\<lambda>j. j + 0) x = x" for x :: "nat option" by (cases x) simp_all
  then show ?thesis
    using h_find_loop_eq [of 0 "unat (hf_count fs)" "hf_files fs" name] assms
    by (auto simp: h_fs_find_def hfs_wf_def h_live_def h_used_ok_def)
qed

lemma h_rows_names: "map fst (h_rows fs) = map (\<lambda>f. cstr (fe_name f)) (h_live fs)"
  by (simp add: h_rows_def)

lemma first_index_rows:
  "first_index (\<lambda>f. cstr (fe_name f) = nm) (h_live fs) = None \<longleftrightarrow> nm \<notin> fst ` set (h_rows fs)"
  by (force simp: first_index_None h_rows_def)

subsection \<open>The operations on the list\<close>

definition rows_create :: "h_entry \<Rightarrow> byte list \<Rightarrow> (byte list \<times> h_entry) list \<Rightarrow> (byte list \<times> h_entry) list" where
  "rows_create e nm rows =
     (if MAX_FILES \<le> length rows \<or> nm \<in> fst ` set rows then rows else rows @ [(nm, e)])"

definition rows_delete :: "byte list \<Rightarrow> (byte list \<times> h_entry) list \<Rightarrow> (byte list \<times> h_entry) list" where
  "rows_delete nm rows = filter (\<lambda>p. fst p \<noteq> nm) rows"

definition rows_write :: "byte list \<Rightarrow> byte list \<Rightarrow> (byte list \<times> h_entry) list \<Rightarrow> (byte list \<times> h_entry) list" where
  "rows_write nm content rows =
     map (\<lambda>(n, e). if n = nm \<and> e \<noteq> HDir then (n, HFile content) else (n, e)) rows"

text \<open>The operation returns, keeps the table well-formed, leaves the rest of the state alone but for the
  output, and its table has these rows.\<close>

definition h_refines :: "hosted \<Rightarrow> hosted option \<Rightarrow> (byte list \<times> h_entry) list \<Rightarrow> bool" where
  "h_refines k m rows \<longleftrightarrow> (\<exists>fs out. m = Some (k\<lparr>h_fs := Some fs, h_out := h_out k @ out\<rparr>) \<and> hfs_wf fs \<and>
     h_rows fs = rows)"

lemma h_refinesI:
  "m = Some (h_emit out (k\<lparr>h_fs := Some fs\<rparr>)) \<Longrightarrow> hfs_wf fs \<Longrightarrow> h_rows fs = rows \<Longrightarrow> h_refines k m rows"
  unfolding h_refines_def h_emit_def by force

lemma h_refines_same:
  assumes "h_fs k = Some fs" "hfs_wf fs" "m = Some (h_emit out k)"
  shows "h_refines k m (h_rows fs)"
proof -
  have "k = k\<lparr>h_fs := Some fs\<rparr>" using assms(1) by (cases k) simp
  then show ?thesis using assms(2,3) by (intro h_refinesI [of _ out fs]) simp_all
qed

lemma put_name:
  assumes "terminated name" "length (cstr name) < length dest"
  obtains nm where "h_str_copy dest name = Some nm" "terminated nm" "length nm = length dest" "cstr nm = cstr name"
proof -
  obtain nm where nm: "put_str dest (cstr name) = Some nm" using assms(2) by (simp add: put_str_def)
  then show ?thesis
    using that [of nm] assms(1) put_str_terminated [OF nm] put_str_length [OF nm] put_str_cstr [OF nm]
    by (simp add: h_str_copy_eq str_copy_eq)
qed

text \<open>The table with the entry \<open>f\<close> in the first free slot.\<close>

definition add_slot :: "filesystem \<Rightarrow> file_entry \<Rightarrow> filesystem" where
  "add_slot fs f = fs\<lparr>hf_files := (hf_files fs)[unat (hf_count fs) := f], hf_count := hf_count fs + 1\<rparr>"

lemma count_Suc: "unat (hf_count fs) < MAX_FILES \<Longrightarrow> unat (hf_count fs + 1) = Suc (unat (hf_count fs))"
  by (simp add: MAX_FILES_def unat_word_ariths)

lemma add_slot_live:
  assumes "hfs_wf fs" "unat (hf_count fs) < MAX_FILES"
  shows "h_live (add_slot fs f) = h_live fs @ [f]"
  using assms count_Suc [OF assms(2)]
  by (simp add: hfs_wf_def h_live_def add_slot_def take_Suc_conv_app_nth)

lemma add_slot_wf:
  assumes "hfs_wf fs" "unat (hf_count fs) < MAX_FILES" "h_shape f" "h_used_ok f"
    and "cstr (fe_name f) \<notin> fst ` set (h_rows fs)"
  shows "hfs_wf (add_slot fs f)" "h_rows (add_slot fs f) = h_rows fs @ [h_row f]"
proof -
  show rows: "h_rows (add_slot fs f) = h_rows fs @ [h_row f]"
    using add_slot_live [OF assms(1,2)] by (simp add: h_rows_def)
  have "\<forall>g \<in> set (hf_files (add_slot fs f)). h_shape g"
    using assms(1,3) by (auto simp: add_slot_def hfs_wf_def dest!: set_update_subset_insert [THEN subsetD])
  then show "hfs_wf (add_slot fs f)"
    using assms count_Suc [OF assms(2)] rows add_slot_live [OF assms(1,2), of f]
    unfolding hfs_wf_def [of "add_slot fs f"] by (auto simp: add_slot_def hfs_wf_def)
qed

lemma h_create_ok:
  assumes "h_fs k = Some fs" "hfs_wf fs" "terminated name" "length (cstr name) < MAX_FILENAME"
    and "t \<in> {FILE_TYPE_FILE, FILE_TYPE_DIR}"
  shows "h_refines k (h_create_entry t em cm name k)
     (rows_create (if t = FILE_TYPE_DIR then HDir else HFile []) (cstr name) (h_rows fs))"
proof -
  have len: "length (h_rows fs) = unat (hf_count fs)" using length_h_live [OF assms(2)] by (simp add: h_rows_def)
  note find = h_fs_find_eq [OF assms(2,3)]
  consider (full) "MAX_FILES \<le> unat (hf_count fs)"
    | (exists) "unat (hf_count fs) < MAX_FILES" "cstr name \<in> fst ` set (h_rows fs)"
    | (new) "unat (hf_count fs) < MAX_FILES" "cstr name \<notin> fst ` set (h_rows fs)"
    by linarith
  then show ?thesis
  proof cases
    case full
    then show ?thesis using assms(1) h_refines_same [OF assms(1,2)] len
      by (simp add: h_create_entry_def rows_create_def h_println_eq)
  next
    case exists
    then obtain i where "first_index (\<lambda>f. cstr (fe_name f) = cstr name) (h_live fs) = Some i"
      using first_index_rows [of "cstr name" fs] by auto
    then have "h_create_entry t em cm name k = Some (h_emit (cstr (lit em) @ [0x0A]) k)"
      using exists(1) assms(1) find by (simp add: h_create_entry_def h_fs_file_exists_def h_println_eq)
    then show ?thesis using h_refines_same [OF assms(1,2)] exists by (simp add: rows_create_def)
  next
    case new
    let ?f = "hf_files fs ! unat (hf_count fs)"
    have none: "first_index (\<lambda>f. cstr (fe_name f) = cstr name) (h_live fs) = None"
      using new(2) first_index_rows by simp
    have slot: "unat (hf_count fs) < length (hf_files fs)" "h_shape ?f"
      using assms(2) new(1) by (simp_all add: hfs_wf_def)
    obtain nm where nm: "h_str_copy (fe_name ?f) name = Some nm" "terminated nm" "length nm = MAX_FILENAME"
      "cstr nm = cstr name"
      using put_name [OF assms(3), of "fe_name ?f"] assms(4) slot(2) by (auto simp: h_shape_def)
    define f where "f = ?f\<lparr>fe_name := nm, fe_type := t, fe_size := 0, fe_created := 0\<rparr>"
    have f: "h_shape f" "h_used_ok f" "h_row f = (cstr name, if t = FILE_TYPE_DIR then HDir else HFile [])"
      using nm slot(2) assms(5) by (auto simp: f_def h_shape_def h_used_ok_def h_row_def h_entry_of_def)
    have "h_create_entry t em cm name k =
        Some (h_emit (cstr (lit cm) @ cstr name @ [0x0A]) (k\<lparr>h_fs := Some (add_slot fs f)\<rparr>))"
      using new(1) assms(1,3) find none slot(1) nm(1)
      by (simp add: h_create_entry_def h_fs_file_exists_def h_print_eqs f_def add_slot_def Let_def)
    then show ?thesis
      using add_slot_wf [OF assms(2) new(1) f(1,2)] new f(3) nm(4) len
      by (intro h_refinesI [of _ _ "add_slot fs f"]) (auto simp: rows_create_def f_def)
  qed
qed

text \<open>Deleting: the entries behind the deleted one move down by one slot; the last slot that was in use
  keeps its content.\<close>

lemma h_shift_loop_eq:
  "j + n < length files \<Longrightarrow>
     h_shift_loop files n j = Some (take j files @ take n (drop (Suc j) files) @ drop (j + n) files)"
proof (induction n arbitrary: files j)
  case (Suc n)
  let ?files = "files[j := files ! Suc j]"
  have "h_shift_loop files (Suc n) j = h_shift_loop ?files n (Suc j)" using Suc.prems by simp
  also have "\<dots> = Some (take (Suc j) ?files @ take n (drop (Suc (Suc j)) ?files) @ drop (Suc j + n) ?files)"
    using Suc.prems by (intro Suc.IH) simp
  also have "take (Suc j) ?files = take j files @ [files ! Suc j]"
    using Suc.prems by (simp add: take_Suc_conv_app_nth)
  finally show ?case using Suc.prems by (simp add: Cons_nth_drop_Suc [symmetric])
qed simp

lemma filter_one:
  "distinct (map f xs) \<Longrightarrow> i < length xs \<Longrightarrow> filter (\<lambda>x. f x \<noteq> f (xs ! i)) xs = take i xs @ drop (Suc i) xs"
proof (induction xs arbitrary: i)
  case (Cons x xs)
  show ?case
  proof (cases i)
    case 0
    have "filter (\<lambda>y. f y \<noteq> f x) xs = xs" using Cons.prems(1) by (simp add: filter_id_conv image_iff) metis
    then show ?thesis using 0 by simp
  next
    case (Suc j)
    then have "f (xs ! j) \<in> f ` set xs" using Cons.prems(2) by simp
    then have "f x \<noteq> f (xs ! j)" using Cons.prems(1) by auto
    then show ?thesis using Suc Cons by simp
  qed
qed simp

lemma take_app: "length xs = n \<Longrightarrow> take n (xs @ ys) = xs"
  by simp

lemma found_row:
  assumes "first_index (\<lambda>f. cstr (fe_name f) = nm) (h_live fs) = Some i"
  shows "i < length (h_live fs)" "cstr (fe_name (h_live fs ! i)) = nm"
  using assms by (auto simp: first_index_Some)

definition drop_slot :: "filesystem \<Rightarrow> nat \<Rightarrow> filesystem" where
  "drop_slot fs i = fs\<lparr>hf_files := take i (hf_files fs) @
       take (unat (hf_count fs) - 1 - i) (drop (Suc i) (hf_files fs)) @ drop (unat (hf_count fs) - 1) (hf_files fs),
     hf_count := hf_count fs - 1\<rparr>"

lemma drop_slot_ok:
  assumes "hfs_wf fs" "i < unat (hf_count fs)"
  shows "h_shift_loop (hf_files fs) (unat (hf_count fs) - 1 - i) i = Some (hf_files (drop_slot fs i))"
    and "unat (hf_count (drop_slot fs i)) = unat (hf_count fs) - 1"
    and "h_live (drop_slot fs i) = take i (h_live fs) @ drop (Suc i) (h_live fs)"
    and "hf_files (drop_slot fs i) ! (unat (hf_count fs) - 1) = hf_files fs ! (unat (hf_count fs) - 1)"
    and "hfs_wf (drop_slot fs i)"
    and "h_rows (drop_slot fs i) = rows_delete (cstr (fe_name (h_live fs ! i))) (h_rows fs)"
proof -
  let ?c = "unat (hf_count fs)"
  have c: "?c \<le> length (hf_files fs)" "length (hf_files fs) = MAX_FILES" using assms(1) by (simp_all add: hfs_wf_def)
  show "h_shift_loop (hf_files fs) (?c - 1 - i) i = Some (hf_files (drop_slot fs i))"
    using h_shift_loop_eq [of i "?c - 1 - i" "hf_files fs"] assms(2) c by (simp add: drop_slot_def)
  have "hf_count fs \<noteq> 0" using assms(2) by auto
  then show n: "unat (hf_count (drop_slot fs i)) = ?c - 1" by (simp add: drop_slot_def unat_minus_one)
  have len: "length (take i (hf_files fs) @ take (?c - 1 - i) (drop (Suc i) (hf_files fs))) = ?c - 1"
    using assms(2) c by simp
  have pre: "take (?c - 1) (hf_files (drop_slot fs i)) =
      take i (hf_files fs) @ take (?c - 1 - i) (drop (Suc i) (hf_files fs))"
  proof -
    have "hf_files (drop_slot fs i) = (take i (hf_files fs) @ take (?c - 1 - i) (drop (Suc i) (hf_files fs))) @
        drop (?c - 1) (hf_files fs)" by (simp add: drop_slot_def)
    then show ?thesis using take_app [OF len] by simp
  qed
  have "take i (h_live fs) = take i (hf_files fs)" using assms(2) by (simp add: h_live_def min_def)
  moreover have "drop (Suc i) (h_live fs) = take (?c - 1 - i) (drop (Suc i) (hf_files fs))"
    by (simp add: h_live_def drop_take)
  ultimately show live: "h_live (drop_slot fs i) = take i (h_live fs) @ drop (Suc i) (h_live fs)"
    using n pre by (simp add: h_live_def)
  show "hf_files (drop_slot fs i) ! (?c - 1) = hf_files fs ! (?c - 1)"
    using len assms(2) c by (simp add: drop_slot_def nth_append)
  have i: "i < length (h_rows fs)" "fst (h_rows fs ! i) = cstr (fe_name (h_live fs ! i))"
    using length_h_live [OF assms(1)] assms(2) by (simp_all add: h_rows_def)
  have "distinct (map fst (h_rows fs))" using assms(1) by (simp add: hfs_wf_def)
  from filter_one [OF this i(1)]
  show rows: "h_rows (drop_slot fs i) = rows_delete (cstr (fe_name (h_live fs ! i))) (h_rows fs)"
    using live i(2) by (simp add: rows_delete_def h_rows_def take_map drop_map)
  have "set (hf_files (drop_slot fs i)) \<subseteq> set (hf_files fs)"
    by (auto simp: drop_slot_def dest: in_set_takeD in_set_dropD)
  moreover have "set (h_live (drop_slot fs i)) \<subseteq> set (h_live fs)"
    unfolding live by (auto dest: in_set_takeD in_set_dropD)
  moreover have "length (hf_files (drop_slot fs i)) = MAX_FILES" using assms(2) c by (simp add: drop_slot_def)
  moreover have "distinct (map fst (h_rows (drop_slot fs i)))"
    using assms(1) unfolding rows rows_delete_def hfs_wf_def by (simp add: distinct_map_filter)
  ultimately show "hfs_wf (drop_slot fs i)" using assms(1) n unfolding hfs_wf_def by auto
qed

lemma h_delete_eq:
  assumes "h_fs k = Some fs" "hfs_wf fs" "terminated name"
  shows "h_fs_delete_file name k =
     (case first_index (\<lambda>f. cstr (fe_name f) = cstr name) (h_live fs) of
        None \<Rightarrow> Some (h_emit (cstr (lit ''Error: File not found'') @ [0x0A]) k)
      | Some i \<Rightarrow> Some (h_emit (cstr (lit ''Deleted: '') @ cstr name @ [0x0A]) (k\<lparr>h_fs := Some (drop_slot fs i)\<rparr>)))"
proof (cases "first_index (\<lambda>f. cstr (fe_name f) = cstr name) (h_live fs)")
  case None
  then show ?thesis
    using assms h_fs_find_eq [OF assms(2,3)] by (simp add: h_fs_delete_file_def h_println_eq)
next
  case (Some i)
  then have i: "i < unat (hf_count fs)" using found_row(1) length_h_live [OF assms(2)] by metis
  have "fs\<lparr>hf_files := hf_files (drop_slot fs i), hf_count := hf_count fs - 1\<rparr> = drop_slot fs i"
    by (simp add: drop_slot_def)
  then show ?thesis
    using assms h_fs_find_eq [OF assms(2,3)] Some drop_slot_ok(1) [OF assms(2) i]
    by (simp add: h_fs_delete_file_def h_print_eqs)
qed

lemma h_delete_ok:
  assumes "h_fs k = Some fs" "hfs_wf fs" "terminated name"
  shows "h_refines k (h_fs_delete_file name k) (rows_delete (cstr name) (h_rows fs))"
proof (cases "first_index (\<lambda>f. cstr (fe_name f) = cstr name) (h_live fs)")
  case None
  then have "cstr name \<notin> fst ` set (h_rows fs)" using first_index_rows by simp
  then have "rows_delete (cstr name) (h_rows fs) = h_rows fs"
    unfolding rows_delete_def by (force simp: filter_id_conv)
  then show ?thesis using h_delete_eq [OF assms] None h_refines_same [OF assms(1,2)] by simp
next
  case (Some i)
  have i: "i < unat (hf_count fs)" "cstr (fe_name (h_live fs ! i)) = cstr name"
    using found_row [OF Some] length_h_live [OF assms(2)] by simp_all
  show ?thesis
    using h_delete_eq [OF assms] Some drop_slot_ok(5,6) [OF assms(2) i(1)] i(2)
    by (intro h_refinesI [of _ _ "drop_slot fs i"]) simp_all
qed

text \<open>Writing: the text and its terminator at the start of the array.\<close>

lemma h_write_loop_eq:
  "terminated data \<Longrightarrow> i + length (cstr data) \<le> FILE_SIZE \<Longrightarrow> length dest = FILE_SIZE \<Longrightarrow>
   h_write_loop dest data i =
     Some (take i dest @ cstr data @ drop (i + length (cstr data)) dest, i + length (cstr data))"
proof (induction data arbitrary: dest i)
  case (Cons c data)
  show ?case
  proof (cases "c = 0")
    case False
    then have i: "i < FILE_SIZE" using Cons.prems(2) by simp
    let ?d = "dest[i := c]"
    have "h_write_loop dest (c # data) i = h_write_loop ?d data (Suc i)"
      using False i Cons.prems(3) by simp
    also have "\<dots> = Some (take (Suc i) ?d @ cstr data @ drop (Suc i + length (cstr data)) ?d, Suc i + length (cstr data))"
      using Cons.prems False by (intro Cons.IH) simp_all
    also have "take (Suc i) ?d = take i dest @ [c]" using i Cons.prems(3) by (simp add: take_Suc_conv_app_nth)
    finally show ?thesis using False by simp
  qed simp
qed simp

lemma h_write_data:
  assumes "terminated data" "length (cstr data) \<le> FILE_SIZE" "length dest = FILE_SIZE"
  shows "do { (content, i) \<leftarrow> h_write_loop dest data 0; content' \<leftarrow> wr content i 0; Some (content', i) } =
     map_option (\<lambda>content'. (content', length (cstr data))) (put_str dest (cstr data))"
  using h_write_loop_eq [of data 0 dest] assms
  by (auto simp: put_str_def wr_def upd_conv_take_nth_drop)

definition set_slot :: "filesystem \<Rightarrow> nat \<Rightarrow> file_entry \<Rightarrow> filesystem" where
  "set_slot fs i f = fs\<lparr>hf_files := (hf_files fs)[i := f]\<rparr>"

lemma set_slot_ok:
  assumes "hfs_wf fs" "i < unat (hf_count fs)" "h_shape f" "h_used_ok f" "fe_name f = fe_name (h_live fs ! i)"
  shows "hfs_wf (set_slot fs i f)" "h_rows (set_slot fs i f) = (h_rows fs)[i := h_row f]"
    "h_live (set_slot fs i f) = (h_live fs)[i := f]"
proof -
  show live: "h_live (set_slot fs i f) = (h_live fs)[i := f]"
    using assms(2) by (simp add: h_live_def set_slot_def take_update_swap)
  then show rows: "h_rows (set_slot fs i f) = (h_rows fs)[i := h_row f]" by (simp add: h_rows_def map_update)
  have i: "i < length (h_live fs)" using length_h_live [OF assms(1)] assms(2) by simp
  have "map fst (h_rows (set_slot fs i f)) = map fst (h_rows fs)"
    unfolding rows map_update using assms(5) i by (simp add: h_rows_def list_update_same_conv)
  moreover have "\<forall>g \<in> set (hf_files (set_slot fs i f)). h_shape g"
    using assms(1,3) by (auto simp: set_slot_def hfs_wf_def dest!: set_update_subset_insert [THEN subsetD])
  moreover have "\<forall>g \<in> set (h_live (set_slot fs i f)). h_used_ok g"
    using assms(1,4) unfolding live by (auto simp: hfs_wf_def dest!: set_update_subset_insert [THEN subsetD])
  ultimately show "hfs_wf (set_slot fs i f)" using assms(1) by (simp add: hfs_wf_def set_slot_def)
qed

lemma h_live_slot:
  assumes "hfs_wf fs" "first_index (\<lambda>f. cstr (fe_name f) = nm) (h_live fs) = Some i"
  shows "i < unat (hf_count fs)" "rd (hf_files fs) i = Some (h_live fs ! i)" "h_shape (h_live fs ! i)"
    "h_used_ok (h_live fs ! i)" "cstr (fe_name (h_live fs ! i)) = nm"
proof -
  note f = found_row [OF assms(2)]
  show i: "i < unat (hf_count fs)" using f(1) length_h_live [OF assms(1)] by simp
  show "rd (hf_files fs) i = Some (h_live fs ! i)" using h_live_nth [OF assms(1) i] by simp
  show "h_shape (h_live fs ! i)" using h_live_nth [OF assms(1) i] assms(1) by (simp add: hfs_wf_def)
  show "h_used_ok (h_live fs ! i)" using f(1) assms(1) by (simp add: hfs_wf_def)
  show "cstr (fe_name (h_live fs ! i)) = nm" by (rule f(2))
qed

lemma h_write_eq:
  assumes "h_fs k = Some fs" "hfs_wf fs" "terminated name" "terminated data" "length (cstr data) \<le> FILE_SIZE"
  shows "h_fs_write_file name data k =
     (case first_index (\<lambda>f. cstr (fe_name f) = cstr name) (h_live fs) of
        None \<Rightarrow> Some (h_emit (cstr (lit ''Error: File not found'') @ [0x0A]) k)
      | Some i \<Rightarrow>
          if fe_type (h_live fs ! i) = FILE_TYPE_DIR
          then Some (h_emit (cstr (lit ''Error: Cannot write to directory'') @ [0x0A]) k)
          else map_option (\<lambda>content. h_emit (cstr (lit ''File written successfully'') @ [0x0A])
              (k\<lparr>h_fs := Some (set_slot fs i ((h_live fs ! i)\<lparr>fe_data := content,
                 fe_size := of_nat (length (cstr data))\<rparr>))\<rparr>))
            (put_str (fe_data (h_live fs ! i)) (cstr data)))"
proof (cases "first_index (\<lambda>f. cstr (fe_name f) = cstr name) (h_live fs)")
  case None
  then show ?thesis
    using assms(1,2) h_fs_find_eq [OF assms(2,3)]
    by (simp add: h_fs_write_file_def h_fs_get_file_def h_println_eq)
next
  case (Some i)
  note slot = h_live_slot [OF assms(2) Some]
  let ?f = "h_live fs ! i"
  have len: "h_str_len data = Some (length (cstr data))" using assms(4) by (simp add: h_str_len_eq str_len_Some)
  have "\<not> FILE_SIZE < length (cstr data)" using assms(5) by simp
  moreover have "Option.bind (h_write_loop (fe_data ?f) data 0) (\<lambda>(content, i). Option.bind (wr content i 0) (\<lambda>c. g c i)) =
      Option.bind (put_str (fe_data ?f) (cstr data)) (\<lambda>c. g c (length (cstr data)))" for g :: "cbuf \<Rightarrow> nat \<Rightarrow> hosted option"
    using h_write_data [OF assms(4,5), of "fe_data ?f"] slot(3)
    by (cases "h_write_loop (fe_data ?f) data 0"; cases "put_str (fe_data ?f) (cstr data)")
      (auto simp: h_shape_def bind_eq_None_conv bind_Some_iff split: prod.splits)
  ultimately show ?thesis
    using assms(1) h_fs_find_eq [OF assms(2,3)] Some slot(2) len
    by (cases "put_str (fe_data ?f) (cstr data)")
      (simp_all add: h_fs_write_file_def h_fs_get_file_def h_println_eq set_slot_def Let_def)
qed

lemma distinct_nth_first:
  "distinct (map f xs) \<Longrightarrow> i < length xs \<Longrightarrow>
   map (\<lambda>x. if f x = f (xs ! i) then g x else x) xs = xs[i := g (xs ! i)]"
proof (induction xs arbitrary: i)
  case (Cons x xs)
  show ?case
  proof (cases i)
    case 0
    have "map (\<lambda>y. if f y = f x then g y else y) xs = map (\<lambda>y. y) xs"
      using Cons.prems(1) by (intro map_cong) (auto simp: image_iff)
    then show ?thesis using 0 by simp
  next
    case (Suc j)
    then have "f (xs ! j) \<in> f ` set xs" using Cons.prems(2) by simp
    then have "f x \<noteq> f (xs ! j)" using Cons.prems(1) by auto
    then show ?thesis using Suc Cons by simp
  qed
qed simp

lemma rows_write_slot:
  assumes "hfs_wf fs" "first_index (\<lambda>f. cstr (fe_name f) = nm) (h_live fs) = Some i"
  shows "rows_write nm content (h_rows fs) =
     (if fe_type (h_live fs ! i) = FILE_TYPE_DIR then h_rows fs else (h_rows fs)[i := (nm, HFile content)])"
proof -
  note slot = h_live_slot [OF assms]
  have i: "i < length (h_rows fs)" "h_rows fs ! i = (nm, h_entry_of (h_live fs ! i))"
    using slot(1,5) length_h_live [OF assms(1)] by (simp_all add: h_rows_def h_row_def)
  let ?g = "\<lambda>p. if snd p = HDir then p else (fst p, HFile content)"
  have "rows_write nm content (h_rows fs) =
      map (\<lambda>p. if fst p = fst (h_rows fs ! i) then ?g p else p) (h_rows fs)"
    unfolding rows_write_def i(2) by (intro map_cong) auto
  also have "\<dots> = (h_rows fs)[i := ?g (h_rows fs ! i)]"
    using assms(1) i(1) by (intro distinct_nth_first) (simp add: hfs_wf_def)
  finally show ?thesis
    using i list_update_id [of "h_rows fs" i] by (auto simp: h_entry_of_def)
qed

lemma rows_write_missing: "nm \<notin> fst ` set rows \<Longrightarrow> rows_write nm content rows = rows"
  unfolding rows_write_def by (induction rows) force+

lemma written_slot:
  assumes "hfs_wf fs" "first_index (\<lambda>f. cstr (fe_name f) = nm) (h_live fs) = Some i"
    and "fe_type (h_live fs ! i) \<noteq> FILE_TYPE_DIR" "length bs < FILE_SIZE"
    and "put_str (fe_data (h_live fs ! i)) bs = Some content"
    and "f = (h_live fs ! i)\<lparr>fe_data := content, fe_size := of_nat (length bs)\<rparr>"
  shows "hfs_wf (set_slot fs i f)" "h_rows (set_slot fs i f) = rows_write nm bs (h_rows fs)"
    "h_live (set_slot fs i f) = (h_live fs)[i := f]"
proof -
  note slot = h_live_slot [OF assms(1,2)]
  have n: "unat (of_nat (length bs) :: 32 word) = length bs"
    using assms(4) by (simp add: FILE_SIZE_def unsigned_of_nat take_bit_nat_eq_self_iff)
  have content: "content = bs @ 0 # drop (Suc (length bs)) (fe_data (h_live fs ! i))"
    using assms(5) by (auto simp: put_str_def split: if_splits)
  have f: "h_shape f" "h_used_ok f" "fe_name f = fe_name (h_live fs ! i)"
    using slot(3,4) put_str_length [OF assms(5)] n assms(4) by (simp_all add: assms(6) h_shape_def h_used_ok_def)
  have "h_row f = (nm, HFile bs)"
    using slot(5) assms(3) n content by (simp add: assms(6) h_row_def h_entry_of_def)
  then show "hfs_wf (set_slot fs i f)" "h_rows (set_slot fs i f) = rows_write nm bs (h_rows fs)"
    "h_live (set_slot fs i f) = (h_live fs)[i := f]"
    using set_slot_ok [OF assms(1) slot(1) f] rows_write_slot [OF assms(1,2)] assms(3) by simp_all
qed

lemma h_write_ok:
  assumes "h_fs k = Some fs" "hfs_wf fs" "terminated name" "terminated data" "length (cstr data) < FILE_SIZE"
  shows "h_refines k (h_fs_write_file name data k) (rows_write (cstr name) (cstr data) (h_rows fs))"
proof -
  note eq = h_write_eq [OF assms(1-4)]
  show ?thesis
  proof (cases "first_index (\<lambda>f. cstr (fe_name f) = cstr name) (h_live fs)")
    case None
    then have "cstr name \<notin> fst ` set (h_rows fs)" using first_index_rows by simp
    then show ?thesis using eq None assms(5) h_refines_same [OF assms(1,2)] rows_write_missing by simp
  next
    case (Some i)
    show ?thesis
    proof (cases "fe_type (h_live fs ! i) = FILE_TYPE_DIR")
      case True
      then show ?thesis
        using eq Some assms(5) h_refines_same [OF assms(1,2)] rows_write_slot [OF assms(2) Some] by simp
    next
      case False
      have "length (fe_data (h_live fs ! i)) = FILE_SIZE" using h_live_slot(3) [OF assms(2) Some] by (simp add: h_shape_def)
      then obtain content where c: "put_str (fe_data (h_live fs ! i)) (cstr data) = Some content"
        using assms(5) by (simp add: put_str_def)
      show ?thesis
        using eq Some False assms(5) c written_slot(1,2) [OF assms(2) Some False assms(5) c refl]
        by (intro h_refinesI) simp_all
    qed
  qed
qed

lemma h_read_eq:
  assumes "h_fs k = Some fs" "hfs_wf fs" "terminated name"
  shows "h_fs_read_file name k =
     (case first_index (\<lambda>f. cstr (fe_name f) = cstr name) (h_live fs) of
        None \<Rightarrow> Some (h_emit (cstr (lit ''Error: File not found'') @ [0x0A]) k)
      | Some i \<Rightarrow>
          if fe_type (h_live fs ! i) = FILE_TYPE_DIR
          then Some (h_emit (cstr (lit ''Error: Cannot read directory'') @ [0x0A]) k)
          else if terminated (fe_data (h_live fs ! i))
          then Some (h_emit (cstr (lit (newline @ ''=== File Contents ==='')) @ [0x0A] @
              cstr (fe_data (h_live fs ! i)) @ [0x0A] @ cstr (lit (''===================='' @ newline)) @ [0x0A]) k)
          else None)"
proof (cases "first_index (\<lambda>f. cstr (fe_name f) = cstr name) (h_live fs)")
  case None
  then show ?thesis
    using assms(1,2) h_fs_find_eq [OF assms(2,3)] by (simp add: h_fs_read_file_def h_fs_get_file_def h_println_eq)
next
  case (Some i)
  note slot = h_live_slot [OF assms(2) Some]
  have bind: "Option.bind (h_io_println (Some b) k') g = (if terminated b then g (h_emit (cstr b @ [0x0A]) k') else None)"
    for b k' and g :: "hosted \<Rightarrow> hosted option"
    by (simp add: h_io_println_def)
  show ?thesis
    using assms(1) h_fs_find_eq [OF assms(2,3)] Some slot(2)
    by (simp add: h_fs_read_file_def h_fs_get_file_def h_println_eq bind)
qed

text \<open>Listing, changing the directory, and the table after \<open>fs_init\<close>.\<close>

definition h_int_text :: "int \<Rightarrow> byte list" where
  "h_int_text n = (if n < 0 then 0x2D # digits_of (nat (- n)) else digits_of (nat n))"

definition h_list_line :: "file_entry \<Rightarrow> byte list" where
  "h_list_line f = cstr (lit (if fe_type f = FILE_TYPE_DIR then ''[DIR]  '' else ''[FILE] '')) @ cstr (fe_name f) @
     cstr (lit '' - Size: '') @ h_int_text (sint (fe_size f)) @ cstr (lit '' bytes'') @ [0x0A]"

lemma h_list_loop_eq:
  "i + n \<le> length files \<Longrightarrow> \<forall>f \<in> set (take n (drop i files)). terminated (fe_name f) \<Longrightarrow>
   h_list_loop files n i k = Some (h_emit (concat (map h_list_line (take n (drop i files)))) k)"
proof (induction n arbitrary: i k)
  case 0
  then show ?case by (simp add: h_emit_def)
next
  case (Suc n)
  have i: "i < length files" using Suc.prems(1) by simp
  then have d: "take (Suc n) (drop i files) = files ! i # take n (drop (i + 1) files)"
    by (simp add: Cons_nth_drop_Suc [symmetric])
  then have t: "terminated (fe_name (files ! i))" "\<forall>f \<in> set (take n (drop (i + 1) files)). terminated (fe_name f)"
    using Suc.prems(2) by simp_all
  have "h_list_loop files (Suc n) i k = h_list_loop files n (i + 1) (h_emit (h_list_line (files ! i)) k)"
    using i t(1) by (simp add: h_print_eqs h_io_print_int_def h_list_line_def h_int_text_def)
  then show ?case using Suc.IH [of "i + 1"] Suc.prems(1) t(2) d by simp
qed

lemma h_list_eq:
  assumes "h_fs k = Some fs" "hfs_wf fs"
  shows "h_fs_list_files k = Some (h_emit (cstr (lit (newline @ ''=== File Listing ==='')) @ [0x0A] @
     concat (map h_list_line (h_live fs)) @ cstr (lit (''===================='' @ newline)) @ [0x0A]) k)"
proof -
  have "h_list_loop (hf_files fs) (unat (hf_count fs)) 0 k' = Some (h_emit (concat (map h_list_line (h_live fs))) k')" for k'
    using h_list_loop_eq [of 0 "unat (hf_count fs)" "hf_files fs" k'] assms(2)
    by (auto simp: hfs_wf_def h_live_def h_used_ok_def)
  then show ?thesis using assms(1) by (simp add: h_fs_list_files_def h_println_eq)
qed

lemma dir_row:
  assumes "hfs_wf fs" "first_index (\<lambda>f. cstr (fe_name f) = nm) (h_live fs) = Some i"
  shows "(nm, HDir) \<in> set (h_rows fs) \<longleftrightarrow> fe_type (h_live fs ! i) = FILE_TYPE_DIR"
proof -
  note slot = h_live_slot [OF assms]
  have "i < length (h_rows fs)" "h_rows fs ! i = (nm, h_entry_of (h_live fs ! i))"
    using slot(1,5) length_h_live [OF assms(1)] by (simp_all add: h_rows_def h_row_def)
  then have "(nm, h_entry_of (h_live fs ! i)) \<in> set (h_rows fs)" using nth_mem by metis
  moreover have "distinct (map fst (h_rows fs))" using assms(1) by (simp add: hfs_wf_def)
  ultimately have "(nm, HDir) \<in> set (h_rows fs) \<longleftrightarrow> h_entry_of (h_live fs ! i) = HDir"
    by (metis eq_key_imp_eq_value)
  then show ?thesis by (simp add: h_entry_of_def)
qed

lemma h_change_dir_ok:
  assumes "h_fs k = Some fs" "hfs_wf fs" "terminated name" "length (cstr name) < MAX_PATH" "length (h_dir k) = MAX_PATH"
    and "terminated (h_dir k)"
  obtains d out where "h_fs_change_dir name k = Some (h_emit out (k\<lparr>h_dir := d\<rparr>))" "length d = MAX_PATH" "terminated d"
    "cstr d = (if cstr name = [0x2F] \<or> (cstr name, HDir) \<in> set (h_rows fs) then cstr name else cstr (h_dir k))"
proof -
  have sl: "cstr (lit ''/'') = [0x2F]" by (simp add: lit_def bytes_of_def)
  obtain r where r: "h_str_compare name (lit ''/'') = Some r" "r = 0 \<longleftrightarrow> cstr name = [0x2F]"
    using hstr.compareE [OF assms(3) terminated_lit, of "''/''"] sl by metis
  note find = h_fs_find_eq [OF assms(2,3)]
  show ?thesis
  proof (cases "cstr name = [0x2F]")
    case True
    obtain d where "h_str_copy (h_dir k) (lit ''/'') = Some d" "terminated d" "length d = MAX_PATH" "cstr d = [0x2F]"
      using put_name [OF terminated_lit, of "''/''" "h_dir k"] assms(5) sl by (auto simp: MAX_PATH_def)
    then show ?thesis using that [of _ d] True r by (simp add: h_fs_change_dir_def h_println_eq)
  next
    case False
    show ?thesis
    proof (cases "first_index (\<lambda>f. cstr (fe_name f) = cstr name) (h_live fs)")
      case None
      then have "(cstr name, HDir) \<notin> set (h_rows fs)" using first_index_rows [of "cstr name" fs] by force
      moreover have "h_fs_change_dir name k =
          Some (h_emit (cstr (lit ''Error: Directory not found'') @ [0x0A]) (k\<lparr>h_dir := h_dir k\<rparr>))"
        using None False r assms(1) find by (simp add: h_fs_change_dir_def h_fs_file_exists_def h_println_eq)
      ultimately show ?thesis using that False assms(5,6) by metis
    next
      case (Some i)
      note slot = h_live_slot [OF assms(2) Some]
      note mem = dir_row [OF assms(2) Some]
      show ?thesis
      proof (cases "fe_type (h_live fs ! i) = FILE_TYPE_DIR")
        case True
        obtain d where "h_str_copy (h_dir k) name = Some d" "terminated d" "length d = MAX_PATH" "cstr d = cstr name"
          using put_name [OF assms(3), of "h_dir k"] assms(4,5) by auto
        then show ?thesis using that [of _ d] True mem False r assms(1,3) find Some slot(2)
          by (simp add: h_fs_change_dir_def h_fs_file_exists_def h_fs_get_file_def h_print_eqs)
      next
        case nodir: False
        have "h_fs_change_dir name k = Some (h_emit (cstr (lit ''Error: Not a directory'') @ [0x0A]) (k\<lparr>h_dir := h_dir k\<rparr>))"
          using nodir False r assms(1) find Some slot(2)
          by (simp add: h_fs_change_dir_def h_fs_file_exists_def h_fs_get_file_def h_println_eq)
        then show ?thesis using that mem nodir False assms(5,6) by metis
      qed
    qed
  qed
qed

lemma h_init_ok:
  assumes "h_fs k = None" "length (hf_files mem) = MAX_FILES" "\<forall>f \<in> set (hf_files mem). h_shape f"
  obtains fs where "h_fs_init (Some mem) k = Some (k\<lparr>h_fs := Some fs\<rparr>)" "hfs_wf fs" "h_rows fs = [([0x2F], HDir)]"
    "length (hf_files fs) = length (hf_files mem)" "\<forall>i. 0 < i \<longrightarrow> hf_files fs ! i = hf_files mem ! i"
proof -
  let ?f = "hf_files mem ! 0"
  have z: "0 < length (hf_files mem)" "h_shape ?f" using assms(2,3) by (simp_all add: MAX_FILES_def)
  have sl: "cstr (lit ''/'') = [0x2F]" by (simp add: lit_def bytes_of_def)
  obtain nm where nm: "h_str_copy (fe_name ?f) (lit ''/'') = Some nm" "terminated nm" "length nm = MAX_FILENAME"
    "cstr nm = [0x2F]"
    using put_name [OF terminated_lit, of "''/''" "fe_name ?f"] z(2) sl by (auto simp: h_shape_def MAX_FILENAME_def)
  define f where "f = ?f\<lparr>fe_type := FILE_TYPE_DIR, fe_name := nm, fe_size := 0\<rparr>"
  define fs where "fs = mem\<lparr>hf_files := (hf_files mem)[0 := f], hf_count := 1\<rparr>"
  have live: "h_live fs = [f]" using z(1) by (cases "hf_files mem") (simp_all add: h_live_def fs_def)
  have f: "h_shape f" "h_used_ok f" "h_row f = ([0x2F], HDir)"
    using z(2) nm by (simp_all add: f_def h_shape_def h_used_ok_def h_row_def h_entry_of_def)
  have "\<forall>g \<in> set (hf_files fs). h_shape g"
    using assms(3) f(1) by (auto simp: fs_def dest!: set_update_subset_insert [THEN subsetD])
  then have "hfs_wf fs" "h_rows fs = [([0x2F], HDir)]"
    using live f assms(2) by (simp_all add: hfs_wf_def h_rows_def) (simp_all add: fs_def MAX_FILES_def)
  moreover have "h_fs_init (Some mem) k = Some (k\<lparr>h_fs := Some fs\<rparr>)"
    using assms(1) z(1) nm(1) by (simp add: h_fs_init_def Let_def fs_def f_def)
  ultimately show ?thesis using that by (simp add: fs_def)
qed

subsection \<open>A table to run on\<close>

definition blank_entry :: file_entry where
  "blank_entry = \<lparr>fe_name = replicate 32 0, fe_type = 0, fe_size = 0, fe_data = replicate 4096 0, fe_created = 0\<rparr>"

definition hosted_start :: hosted where
  "hosted_start = \<lparr>h_out = [], h_in = [], h_fs = None, h_dir = lit ''/'' @ replicate 126 0, h_exit = 0\<rparr>"

definition blank_memory :: filesystem where
  "blank_memory = \<lparr>hf_files = replicate 256 blank_entry, hf_count = 0\<rparr>"

lemma blank_memory_shape: "length (hf_files blank_memory) = MAX_FILES" "\<forall>f \<in> set (hf_files blank_memory). h_shape f"
  by (simp_all add: blank_memory_def MAX_FILES_def h_shape_def blank_entry_def MAX_FILENAME_def FILE_SIZE_def)

definition hosted_up :: hosted where
  "hosted_up = the (h_fs_init (Some blank_memory) hosted_start)"

lemma hosted_up:
  obtains fs where "h_fs_init (Some blank_memory) hosted_start = Some hosted_up"
    "hosted_up = hosted_start\<lparr>h_fs := Some fs\<rparr>" "h_fs hosted_up = Some fs" "hfs_wf fs" "h_rows fs = [([0x2F], HDir)]"
proof -
  have "h_fs hosted_start = None" by (simp add: hosted_start_def)
  then obtain fs where fs: "h_fs_init (Some blank_memory) hosted_start = Some (hosted_start\<lparr>h_fs := Some fs\<rparr>)" "hfs_wf fs"
    "h_rows fs = [([0x2F], HDir)]"
    using h_init_ok [OF _ blank_memory_shape] by blast
  then have up: "hosted_up = hosted_start\<lparr>h_fs := Some fs\<rparr>" by (simp add: hosted_up_def)
  show ?thesis
  proof (rule that [of fs])
    show "h_fs_init (Some blank_memory) hosted_start = Some hosted_up" using fs(1) by (simp only: up)
    show "hosted_up = hosted_start\<lparr>h_fs := Some fs\<rparr>" by (rule up)
    show "h_fs hosted_up = Some fs" by (simp add: up)
  qed (rule fs)+
qed

subsection \<open>Properties\<close>

text \<open>
  C30: The flat filesystem is a list of named entries.  On a well-formed table (names unique and
  terminated) and names of less than 32 bytes, creating appends the entry unless the table is full
  or has the name, deleting removes the entry with the name and keeps the order of the others, and
  writing less than 4096 bytes replaces the content of a file; every operation keeps the table
  well-formed and returns without an access outside its arrays.
\<close>

theorem hosted_fs_refines:
  assumes "h_fs k = Some fs" "hfs_wf fs" "terminated name" "length (cstr name) < MAX_FILENAME"
    and "terminated data" "length (cstr data) < FILE_SIZE"
  shows "h_refines k (h_fs_create_file name k) (rows_create (HFile []) (cstr name) (h_rows fs)) \<and>
     h_refines k (h_fs_create_dir name k) (rows_create HDir (cstr name) (h_rows fs)) \<and>
     h_refines k (h_fs_delete_file name k) (rows_delete (cstr name) (h_rows fs)) \<and>
     h_refines k (h_fs_write_file name data k) (rows_write (cstr name) (cstr data) (h_rows fs))"
  using h_create_ok [OF assms(1-4), of FILE_TYPE_FILE] h_create_ok [OF assms(1-4), of FILE_TYPE_DIR]
    h_delete_ok [OF assms(1-3)] h_write_ok [OF assms(1-3,5,6)]
  by (simp add: h_fs_create_file_def h_fs_create_dir_def FILE_TYPE_FILE_def FILE_TYPE_DIR_def)

lemma hosted_fs_refines_witness:
  "h_refines hosted_up (h_fs_create_file (lit ''notes'') hosted_up)
     [([0x2F], HDir), (bytes_of ''notes'', HFile [])]"
proof -
  obtain fs where fs: "h_fs hosted_up = Some fs" "hfs_wf fs" "h_rows fs = [([0x2F], HDir)]"
    using hosted_up by metis
  have n: "cstr (lit ''notes'') = bytes_of ''notes''" "bytes_of ''notes'' \<noteq> [0x2F]"
    "length (cstr (lit ''notes'')) < MAX_FILENAME" "length (cstr (lit [])) < FILE_SIZE"
    by code_simp+
  have "rows_create (HFile []) (bytes_of ''notes'') (h_rows fs) = [([0x2F], HDir), (bytes_of ''notes'', HFile [])]"
    using fs(3) n(2) by (simp add: rows_create_def MAX_FILES_def)
  then show ?thesis
    using hosted_fs_refines [OF fs(1,2) terminated_lit n(3) terminated_lit n(4)] n(1) by simp
qed

text \<open>Deleting the last file leaves its slot as it is, behind the table.\<close>

lemma first_index_snoc:
  "first_index P (xs @ [y]) = (case first_index P xs of Some j \<Rightarrow> Some j | None \<Rightarrow> if P y then Some (length xs) else None)"
  by (induction xs) (auto split: option.split)

lemma h_delete_last:
  assumes "h_fs k = Some fs" "hfs_wf fs" "h_live fs \<noteq> []" "terminated old" "cstr (fe_name (last (h_live fs))) = cstr old"
  obtains out where
    "h_fs_delete_file old k = Some (h_emit out (k\<lparr>h_fs := Some (drop_slot fs (unat (hf_count fs) - 1))\<rparr>))"
    "unat (hf_count fs) - 1 < unat (hf_count fs)" "hf_files fs ! (unat (hf_count fs) - 1) = last (h_live fs)"
    "h_shape (last (h_live fs))"
proof -
  let ?c = "unat (hf_count fs)" and ?i = "unat (hf_count fs) - 1" and ?g = "last (h_live fs)"
  have c: "?i < ?c" "length (h_live fs) = ?c"
    using length_h_live [OF assms(2)] assms(3) by (cases "h_live fs", auto)
  have g: "?g = h_live fs ! ?i" using assms(3) c(2) by (simp add: last_conv_nth)
  have gf: "hf_files fs ! ?i = ?g" "h_shape ?g"
    using h_live_nth [OF assms(2) c(1)] g assms(2) by (simp_all add: hfs_wf_def)
  have d: "distinct (map (\<lambda>f. cstr (fe_name f)) (h_live fs))"
    using assms(2) by (simp add: hfs_wf_def h_rows_names)
  have uniq: "j = ?i" if "j < length (h_live fs)" "cstr (fe_name (h_live fs ! j)) = cstr old" for j
    using nth_eq_iff_index_eq [OF d, of j ?i] that assms(5) c g by simp
  have found: "first_index (\<lambda>f. cstr (fe_name f) = cstr old) (h_live fs) = Some ?i"
  proof (rule first_index_unique)
    show "?i < length (h_live fs)" using c by simp
    show "cstr (fe_name (h_live fs ! ?i)) = cstr old" using assms(5) g by simp
  qed (rule uniq)
  let ?fs1 = "drop_slot fs ?i"
  obtain out1 where del: "h_fs_delete_file old k = Some (h_emit out1 (k\<lparr>h_fs := Some ?fs1\<rparr>))"
    using h_delete_eq [OF assms(1,2,4)] found by auto
  with c(1) gf that show thesis by blast
qed

text \<open>
  C38: A new file shows a deleted one.  The functions that create an entry do not clear its data, and
  the one that deletes leaves the last slot as it is: after the last file has been deleted and a new
  file created, reading the new, empty file prints the content of the deleted one.
\<close>

theorem hosted_new_file_shows_deleted:
  assumes "h_fs k = Some fs" "hfs_wf fs" "h_live fs \<noteq> []"
    and "terminated old" "cstr (fe_name (last (h_live fs))) = cstr old" "terminated (fe_data (last (h_live fs)))"
    and "terminated new" "length (cstr new) < MAX_FILENAME" "cstr new \<notin> fst ` set (h_rows fs)"
  shows "\<exists>k1 k2. h_fs_delete_file old k = Some k1 \<and> h_fs_create_file new k1 = Some k2 \<and>
     h_fs_read_file new k2 = Some (h_emit (cstr (lit (newline @ ''=== File Contents ==='')) @ [0x0A] @
       cstr (fe_data (last (h_live fs))) @ [0x0A] @ cstr (lit (''===================='' @ newline)) @ [0x0A]) k2)"
proof -
  let ?i = "unat (hf_count fs) - 1" and ?g = "last (h_live fs)"
  let ?fs1 = "drop_slot fs ?i"
  obtain out1 where del: "h_fs_delete_file old k = Some (h_emit out1 (k\<lparr>h_fs := Some ?fs1\<rparr>))"
    and c: "?i < unat (hf_count fs)" and gf: "hf_files fs ! ?i = ?g" "h_shape ?g"
    using h_delete_last [OF assms(1-5)] .
  note drop = drop_slot_ok [OF assms(2) c]
  let ?k1 = "h_emit out1 (k\<lparr>h_fs := Some ?fs1\<rparr>)"
  have count1: "unat (hf_count ?fs1) = ?i" by (rule drop(2))
  have room: "unat (hf_count ?fs1) < MAX_FILES" using count1 c assms(2) by (simp add: hfs_wf_def)
  have fresh: "cstr new \<notin> fst ` set (h_rows ?fs1)" using assms(9) drop(6) by (auto simp: rows_delete_def)
  obtain nm where nm: "h_str_copy (fe_name ?g) new = Some nm" "terminated nm" "length nm = MAX_FILENAME" "cstr nm = cstr new"
    using put_name [OF assms(7), of "fe_name ?g"] assms(8) gf(2) by (auto simp: h_shape_def)
  define f where "f = ?g\<lparr>fe_name := nm, fe_type := FILE_TYPE_FILE, fe_size := 0, fe_created := 0\<rparr>"
  have f: "h_shape f" "h_used_ok f" "cstr (fe_name f) = cstr new" "fe_data f = fe_data ?g" "fe_type f \<noteq> FILE_TYPE_DIR"
    using nm gf(2) by (simp_all add: f_def h_shape_def h_used_ok_def FILE_TYPE_FILE_def FILE_TYPE_DIR_def)
  have none: "first_index (\<lambda>f. cstr (fe_name f) = cstr new) (h_live ?fs1) = None"
    using fresh first_index_rows by simp
  have slot: "rd (hf_files ?fs1) (unat (hf_count ?fs1)) = Some ?g"
    using drop(4,5) gf(1) count1 room by (simp add: hfs_wf_def)
  let ?fs2 = "add_slot ?fs1 f"
  obtain out2 where cre: "h_fs_create_file new ?k1 = Some (h_emit out2 (?k1\<lparr>h_fs := Some ?fs2\<rparr>))"
    using room none h_fs_find_eq [OF drop(5) assms(7)] slot nm(1) assms(7)
    by (simp add: h_fs_create_file_def h_create_entry_def h_fs_file_exists_def h_print_eqs f_def add_slot_def Let_def)
  let ?k2 = "h_emit out2 (?k1\<lparr>h_fs := Some ?fs2\<rparr>)"
  have live2: "h_live ?fs2 = h_live ?fs1 @ [f]" by (rule add_slot_live [OF drop(5) room])
  have "first_index (\<lambda>f. cstr (fe_name f) = cstr new) (h_live ?fs2) = Some (length (h_live ?fs1))"
    using none f(3) live2 by (simp add: first_index_snoc)
  moreover have "h_live ?fs2 ! length (h_live ?fs1) = f" using live2 by simp
  moreover have "hfs_wf ?fs2" using add_slot_wf(1) [OF drop(5) room f(1,2)] f(3) fresh by simp
  ultimately have "h_fs_read_file new ?k2 = Some (h_emit (cstr (lit (newline @ ''=== File Contents ==='')) @ [0x0A] @
       cstr (fe_data ?g) @ [0x0A] @ cstr (lit (''===================='' @ newline)) @ [0x0A]) ?k2)"
    using h_read_eq [of ?k2 ?fs2 new] assms(6,7) f(4,5) by simp
  then show ?thesis using del cre by blast
qed

text \<open>A table whose last file holds \<open>secret\<close>.\<close>

definition secret_entry :: file_entry where
  "secret_entry = \<lparr>fe_name = lit ''key'' @ replicate 28 0, fe_type = FILE_TYPE_FILE, fe_size = 6,
     fe_data = lit ''secret'' @ replicate 4089 0, fe_created = 0\<rparr>"

definition secret_table :: filesystem where
  "secret_table = \<lparr>hf_files = blank_entry\<lparr>fe_name := lit ''/'' @ replicate 30 0, fe_type := FILE_TYPE_DIR\<rparr> #
     secret_entry # replicate 254 blank_entry, hf_count = 2\<rparr>"

lemma secret_table: "hfs_wf secret_table" "last (h_live secret_table) = secret_entry" "h_live secret_table \<noteq> []"
    "map fst (h_rows secret_table) = [[0x2F], bytes_of ''key'']"
proof -
  have live: "h_live secret_table =
      [blank_entry\<lparr>fe_name := lit ''/'' @ replicate 30 0, fe_type := FILE_TYPE_DIR\<rparr>, secret_entry]"
  proof -
    have "unat (2 :: 16 word) = Suc (Suc 0)" by simp
    then show ?thesis by (simp add: h_live_def secret_table_def)
  qed
  then show "last (h_live secret_table) = secret_entry" "h_live secret_table \<noteq> []" by simp_all
  have n: "cstr (lit ''/'' @ replicate 30 0) = [0x2F]" "cstr (lit ''key'' @ replicate 28 0) = bytes_of ''key''"
    "bytes_of ''key'' \<noteq> [0x2F]" "length (lit ''key'') = 4" "length (lit ''/'') = 2" "length (lit ''secret'') = 7"
    by (simp_all add: lit_def bytes_of_def)
  then show rows: "map fst (h_rows secret_table) = [[0x2F], bytes_of ''key'']"
    by (simp add: h_rows_def live secret_entry_def)
  have t: "terminated (lit s @ xs)" for s xs by (simp add: lit_def)
  show "hfs_wf secret_table"
    using n rows t unfolding hfs_wf_def live
    by (simp add: secret_table_def secret_entry_def blank_entry_def h_shape_def h_used_ok_def MAX_FILES_def
        MAX_FILENAME_def FILE_SIZE_def)
qed

lemma hosted_new_file_shows_deleted_witness:
  "\<exists>k1 k2 k3. h_fs_delete_file (lit ''key'') (hosted_start\<lparr>h_fs := Some secret_table\<rparr>) = Some k1 \<and>
     h_fs_create_file (lit ''new'') k1 = Some k2 \<and> h_fs_read_file (lit ''new'') k2 = Some k3 \<and>
     (\<exists>xs ys. h_out k3 = xs @ bytes_of ''secret'' @ ys)"
proof -
  let ?k = "hosted_start\<lparr>h_fs := Some secret_table\<rparr>"
  have fs: "h_fs ?k = Some secret_table" by simp
  have n: "cstr (fe_name secret_entry) = cstr (lit ''key'')" "terminated (fe_data secret_entry)"
    "cstr (fe_data secret_entry) = bytes_of ''secret''"
    "length (cstr (lit ''new'')) < MAX_FILENAME" "cstr (lit ''new'') \<noteq> bytes_of ''key''" "cstr (lit ''new'') \<noteq> [0x2F]"
    by (simp_all add: secret_entry_def lit_def bytes_of_def MAX_FILENAME_def)
  have "cstr (lit ''new'') \<notin> set (map fst (h_rows secret_table))" using n(5,6) unfolding secret_table(4) by simp
  then have new: "cstr (lit ''new'') \<notin> fst ` set (h_rows secret_table)" by simp
  obtain k1 k2 where r: "h_fs_delete_file (lit ''key'') ?k = Some k1" "h_fs_create_file (lit ''new'') k1 = Some k2"
    "h_fs_read_file (lit ''new'') k2 = Some (h_emit (cstr (lit (newline @ ''=== File Contents ==='')) @ [0x0A] @
       bytes_of ''secret'' @ [0x0A] @ cstr (lit (''===================='' @ newline)) @ [0x0A]) k2)"
    using hosted_new_file_shows_deleted [OF fs secret_table(1,3) terminated_lit _ _ terminated_lit n(4) new, of "''key''"]
      n(1-3) unfolding secret_table(2) by auto
  have "\<exists>xs ys. h_out (h_emit (a @ [0x0A] @ bytes_of ''secret'' @ b) k2) = xs @ bytes_of ''secret'' @ ys" for a b
    by (intro exI [of _ "h_out k2 @ a @ [0x0A]"] exI [of _ b]) simp
  then show ?thesis using r by blast
qed

text \<open>
  C40: Names and data that do not fit.  Creating an entry with a name of 32 or more bytes writes past
  the name array of the slot, whose bound is not checked; and writing exactly 4096 bytes, which the
  check admits, puts the terminator behind the data array.
\<close>

theorem hosted_fs_overruns:
  assumes "h_fs k = Some fs" "hfs_wf fs" "terminated name"
  shows "(unat (hf_count fs) < MAX_FILES \<and> cstr name \<notin> fst ` set (h_rows fs) \<and> MAX_FILENAME \<le> length (cstr name) \<longrightarrow>
       h_fs_create_file name k = None \<and> h_fs_create_dir name k = None) \<and>
     ((\<exists>content. (cstr name, HFile content) \<in> set (h_rows fs)) \<and> terminated data \<and> length (cstr data) = FILE_SIZE \<longrightarrow>
       h_fs_write_file name data k = None)"
proof (intro conjI impI; elim conjE exE)
  assume c: "unat (hf_count fs) < MAX_FILES" "cstr name \<notin> fst ` set (h_rows fs)" "MAX_FILENAME \<le> length (cstr name)"
  have slot: "rd (hf_files fs) (unat (hf_count fs)) = Some (hf_files fs ! unat (hf_count fs))"
    "h_shape (hf_files fs ! unat (hf_count fs))"
    using c(1) assms(2) by (simp_all add: hfs_wf_def)
  have none: "first_index (\<lambda>f. cstr (fe_name f) = cstr name) (h_live fs) = None" using c(2) first_index_rows by simp
  have "h_str_copy (fe_name (hf_files fs ! unat (hf_count fs))) name = None"
    using slot(2) c(3) assms(3) by (simp add: h_str_copy_eq str_copy_eq put_str_None_iff h_shape_def)
  then show "h_fs_create_file name k = None" "h_fs_create_dir name k = None"
    using c(1) none h_fs_find_eq [OF assms(2,3)] slot(1) assms(1)
    by (simp_all add: h_fs_create_file_def h_fs_create_dir_def h_create_entry_def h_fs_file_exists_def)
next
  fix content assume d: "(cstr name, HFile content) \<in> set (h_rows fs)" "terminated data" "length (cstr data) = FILE_SIZE"
  have "cstr name \<in> fst ` set (h_rows fs)" using d(1) by force
  then obtain i where i: "first_index (\<lambda>f. cstr (fe_name f) = cstr name) (h_live fs) = Some i"
    using first_index_rows [of "cstr name" fs] by auto
  note slot = h_live_slot [OF assms(2) i]
  have row: "(cstr name, h_entry_of (h_live fs ! i)) \<in> set (h_rows fs)"
    using slot(1,5) length_h_live [OF assms(2)] by (force simp: h_rows_def h_row_def)
  have "distinct (map fst (h_rows fs))" using assms(2) by (simp add: hfs_wf_def)
  then have "h_entry_of (h_live fs ! i) = HFile content" using d(1) row by (metis eq_key_imp_eq_value)
  then have "fe_type (h_live fs ! i) \<noteq> FILE_TYPE_DIR" by (auto simp: h_entry_of_def)
  moreover have "put_str (fe_data (h_live fs ! i)) (cstr data) = None"
    using slot(3) d(3) by (simp add: put_str_None_iff h_shape_def)
  ultimately show "h_fs_write_file name data k = None"
    using h_write_eq [OF assms d(2)] d(3) i by simp
qed

lemma hosted_fs_overruns_witness:
  "h_fs_create_file (lit ''a_name_that_is_far_too_long_for_it'') (hosted_start\<lparr>h_fs := Some secret_table\<rparr>) = None"
proof -
  let ?k = "hosted_start\<lparr>h_fs := Some secret_table\<rparr>" and ?n = "lit ''a_name_that_is_far_too_long_for_it''"
  have fs: "h_fs ?k = Some secret_table" by simp
  have n: "cstr ?n \<noteq> bytes_of ''key''" "cstr ?n \<noteq> [0x2F]" "MAX_FILENAME \<le> length (cstr ?n)" by code_simp+
  have "cstr ?n \<notin> set (map fst (h_rows secret_table))" using n(1,2) unfolding secret_table(4) by simp
  moreover have "unat (hf_count secret_table) < MAX_FILES" by (simp add: secret_table_def MAX_FILES_def)
  ultimately show ?thesis
    using hosted_fs_overruns [OF fs secret_table(1) terminated_lit, of "''a_name_that_is_far_too_long_for_it''" "[]"] n(3)
    by simp
qed

end
