(* ===== verification/Hosted_Commands.thy ===== *)
theory Hosted_Commands
  imports Hosted_Fs
begin

section \<open>src/commands.c: the commands of the hosted program\<close>

text \<open>
  Every function of src/commands.c on the arguments \<open>argv\<close>, \<open>argc\<close> being their number.  The editor
  \<open>cmd_wri\<close> reads lines until one of them is \<open>EOF\<close> or the buffer is full; its loop ends on every
  input, because a round consumes input or, at its end, adds a newline.
\<close>

subsection \<open>The functions\<close>

fun h_print_lines :: "string list \<Rightarrow> hosted \<Rightarrow> hosted option" where
  "h_print_lines [] k = Some k"
| "h_print_lines (l # ls) k = do { k1 \<leftarrow> h_io_println (Some (lit l)) k; h_print_lines ls k1 }"

definition h_help_text :: "string list" where
  "h_help_text = [
     newline @ ''========== OpenDOS - Command Help =========='',
     ''help           - Show this help message'',
     ''clear/cls      - Clear the screen'',
     ''echo [text]    - Print text to console'',
     ''mkf [name]     - Create a new file'',
     ''wri [name]     - Write to a file (opens text editor)'',
     ''folist/ls      - List files in current directory'',
     ''del [name]     - Delete a file'',
     ''cat [name]     - Display file contents'',
     ''mkdir [name]   - Create a new directory'',
     ''pwd            - Print working directory'',
     ''cd [dir]       - Change directory'',
     ''about          - About OpenDOS'',
     ''exit/quit      - Exit the operating system'',
     ''============================================'' @ newline]"

definition h_about_text :: "string list" where
  "h_about_text = [
     newline @ ''========== About OpenDOS =========='',
     ''Name: OpenDOS - Open Disk Operating System'',
     ''Version: 1.0.0'',
     ''Platform: Modular C-based OS'',
     ''Type: Command-line Operating System'',
     newline @ ''A simple DOS-style terminal operating'',
     ''system written in C with basic file'',
     ''management and shell capabilities.'',
     ''===================================='' @ newline]"

text \<open>\<open>bootloader_init\<close> of boot/bootloader.c, which prints with the hosted library.\<close>

definition bootloader_init :: "hosted \<Rightarrow> hosted option" where
  "bootloader_init = h_print_lines [
     ''Bootloader: Initializing system...'',
     ''  - Initializing I/O subsystem...'',
     ''  - Initializing memory manager...'',
     ''  - Initializing file system...'',
     ''Bootloader: System ready. Handing control to kernel.'']"

definition h_cmd_help :: "cbuf list \<Rightarrow> hosted \<Rightarrow> hosted option" where
  "h_cmd_help argv k = h_print_lines h_help_text k"

definition h_cmd_clear :: "byte list \<Rightarrow> cbuf list \<Rightarrow> hosted \<Rightarrow> hosted option" where
  "h_cmd_clear clear argv k = Some (h_io_clear_screen clear k)"

text \<open>The loop over \<open>argv[1 ..]\<close>; the list holds the arguments that are left.\<close>

fun h_echo_loop :: "cbuf list \<Rightarrow> hosted \<Rightarrow> hosted option" where
  "h_echo_loop [] k = Some k"
| "h_echo_loop (a # as) k = do {
     k1 \<leftarrow> h_io_print (Some a) k;
     k2 \<leftarrow> (if as \<noteq> [] then h_io_print (Some (lit '' '')) k1 else Some k1);
     h_echo_loop as k2 }"

definition h_cmd_echo :: "cbuf list \<Rightarrow> hosted \<Rightarrow> hosted option" where
  "h_cmd_echo argv k =
     (if length argv < 2 then h_io_println (Some (lit ''Usage: echo [text]'')) k
      else do { k1 \<leftarrow> h_echo_loop (drop 1 argv) k; h_io_println (Some (lit [])) k1 })"

definition h_cmd_mkf :: "cbuf list \<Rightarrow> hosted \<Rightarrow> hosted option" where
  "h_cmd_mkf argv k =
     (if length argv < 2 then h_io_println (Some (lit ''Usage: mkf [filename]'')) k
      else do { a1 \<leftarrow> rd argv 1; h_fs_create_file a1 k })"

text \<open>\<open>while (line[i] != '\0') { buffer[pos++] = line[i]; i++; }\<close>\<close>

fun h_wri_copy :: "cbuf \<Rightarrow> nat \<Rightarrow> cbuf \<Rightarrow> (cbuf \<times> nat) option" where
  "h_wri_copy buffer pos [] = None"
| "h_wri_copy buffer pos (c # line) =
     (if c \<noteq> 0 then do { buffer' \<leftarrow> wr buffer pos c; h_wri_copy buffer' (pos + 1) line }
      else Some (buffer, pos))"

text \<open>One round of the editor: \<open>None\<close> inside the result ends the loop.\<close>

definition h_wri_round :: "cbuf \<Rightarrow> nat \<Rightarrow> hosted \<Rightarrow> (cbuf \<times> nat \<times> bool \<times> hosted) option" where
  "h_wri_round buffer pos k = do {
     k1 \<leftarrow> h_io_print (Some (lit ''> '')) k;
     (line, k2) \<leftarrow> h_io_get_string (replicate 256 0) 255 k1;
     r \<leftarrow> h_str_compare line (lit ''EOF'');
     (if r = 0 then Some (buffer, pos, False, k2)
      else do {
        line_len \<leftarrow> h_str_len line;
        (if pos + line_len + 1 < FILE_SIZE then do {
           (buffer1, pos1) \<leftarrow> h_wri_copy buffer pos line;
           buffer2 \<leftarrow> wr buffer1 pos1 0x0A;
           Some (buffer2, pos1 + 1, True, k2) }
         else Some (buffer, pos, True, k2)) }) }"

lemma h_wri_copy_eq:
  "terminated line \<Longrightarrow> pos + length (cstr line) \<le> length buffer \<Longrightarrow>
   h_wri_copy buffer pos line =
     Some (take pos buffer @ cstr line @ drop (pos + length (cstr line)) buffer, pos + length (cstr line))"
proof (induction line arbitrary: buffer pos)
  case (Cons c line)
  show ?case
  proof (cases "c = 0")
    case False
    then have pos: "pos < length buffer" using Cons.prems(2) by simp
    have "h_wri_copy buffer pos (c # line) = h_wri_copy (buffer[pos := c]) (Suc pos) line"
      using False pos by simp
    also have "\<dots> = Some (take (Suc pos) (buffer[pos := c]) @ cstr line @
        drop (Suc pos + length (cstr line)) (buffer[pos := c]), Suc pos + length (cstr line))"
      using Cons.prems False by (intro Cons.IH) simp_all
    also have "take (Suc pos) (buffer[pos := c]) = take pos buffer @ [c]" using pos by (simp add: take_Suc_conv_app_nth)
    finally show ?thesis using False by simp
  qed simp
qed simp

lemma h_line_buffer: "terminated (replicate 256 (0 :: byte))" "cstr (replicate 256 (0 :: byte)) = []"
    "length (replicate 256 (0 :: byte)) = 256"
proof -
  have "replicate 256 (0 :: byte) = 0 # replicate 255 0" by (simp flip: replicate_Suc)
  then show "terminated (replicate 256 (0 :: byte))" "cstr (replicate 256 (0 :: byte)) = []" by simp_all
qed simp

text \<open>A round consumes input, or the input is at its end and a newline is added.\<close>

lemma fgets_bytes_le: "length (snd (fgets_bytes n xs)) \<le> length xs"
  by (induction n xs rule: fgets_bytes.induct) (auto split: prod.split)

lemma fgets_bytes_shorter: "length (snd (fgets_bytes (Suc n) (c # xs))) < length (c # xs)"
  using fgets_bytes_le [of n xs] by (auto simp: less_Suc_eq_le split: prod.split)

lemma h_get_string_shorter:
  assumes "h_io_get_string buffer max_len k = Some (b, k')" "1 < max_len"
  shows "(if h_in k = [] then b = buffer \<and> k' = k else length (h_in k') < length (h_in k))"
proof (cases "h_in k = []")
  case True
  then show ?thesis using assms(1) by (simp add: h_io_get_string_def fgets_def)
next
  case False
  obtain l r where lr: "fgets_bytes (max_len - 1) (h_in k) = (l, r)" by fastforce
  obtain n c xs where "max_len - 1 = Suc n" "h_in k = c # xs"
    using assms(2) False by (cases "max_len - 1"; cases "h_in k") auto
  then have "length r < length (h_in k)" using fgets_bytes_shorter [of n c xs] lr by simp
  then show ?thesis
    using assms(1) False lr by (auto simp: h_io_get_string_def fgets_def bind_Some_iff)
qed

lemma h_wri_round_progress:
  assumes "h_wri_round buffer pos k = Some (buffer', pos', True, k')" "pos < FILE_SIZE - 1"
  shows "length (h_in k') < length (h_in k) \<or> length (h_in k') = length (h_in k) \<and> pos < pos'"
proof -
  let ?k1 = "h_emit (cstr (lit ''> '')) k"
  have p: "h_io_print (Some (lit ''> '')) k = Some ?k1" by (simp add: h_print_eq)
  obtain line k2 where g: "h_io_get_string (replicate 256 0) 255 ?k1 = Some (line, k2)" "k' = k2"
    using assms(1) p by (auto simp: h_wri_round_def bind_Some_iff split: if_splits)
  show ?thesis
  proof (cases "h_in k = []")
    case False
    then show ?thesis using h_get_string_shorter [OF g(1)] g(2) by simp
  next
    case True
    then have line: "line = replicate 256 0" "k2 = ?k1" using h_get_string_shorter [OF g(1)] by simp_all
    have len: "h_str_len line = Some 0" using h_line_buffer line(1) by (simp add: h_str_len_eq str_len_Some)
    have "h_wri_copy buffer pos line = Some (buffer, pos)"
    proof -
      have "replicate 256 (0 :: byte) = 0 # replicate 255 0" by (simp flip: replicate_Suc)
      then show ?thesis using line(1) by simp
    qed
    then show ?thesis
      using assms p g line len True
      by (auto simp: h_wri_round_def bind_Some_iff split: if_splits)
  qed
qed

text \<open>The loop: rounds until the line is \<open>EOF\<close> or \<open>pos\<close> reaches \<open>FILE_SIZE - 1\<close>.\<close>

function h_wri_loop :: "cbuf \<Rightarrow> nat \<Rightarrow> hosted \<Rightarrow> (cbuf \<times> nat \<times> hosted) option" where
  "h_wri_loop buffer pos k =
     (if pos < FILE_SIZE - 1 then
        (case h_wri_round buffer pos k of
           None \<Rightarrow> None
         | Some (buffer', pos', again, k') \<Rightarrow>
             if again then h_wri_loop buffer' pos' k' else Some (buffer', pos', k'))
      else Some (buffer, pos, k))"
  by pat_completeness auto
termination
proof (relation "measures [\<lambda>(buffer, pos, k). length (h_in k), \<lambda>(buffer, pos, k). FILE_SIZE - pos]", simp)
  fix buffer pos k r buffer' r' pos' r'' and again :: bool and k'
  assume "pos < FILE_SIZE - 1" "h_wri_round buffer pos k = Some r" "(buffer', r') = r" "(pos', r'') = r'"
    "(again, k') = r''" again
  then have "h_wri_round buffer pos k = Some (buffer', pos', True, k')" "pos < FILE_SIZE - 1" by auto
  from h_wri_round_progress [OF this] this(2)
  show "((buffer', pos', k'), buffer, pos, k) \<in>
      measures [\<lambda>(buffer, pos, k). length (h_in k), \<lambda>(buffer, pos, k). FILE_SIZE - pos]"
    by auto
qed

declare h_wri_loop.simps [simp del]

definition h_cmd_wri :: "cbuf list \<Rightarrow> hosted \<Rightarrow> hosted option" where
  "h_cmd_wri argv k =
     (if length argv < 2 then h_io_println (Some (lit ''Usage: wri [filename]'')) k
      else do {
        a1 \<leftarrow> rd argv 1;
        e \<leftarrow> h_fs_file_exists a1 k;
        (if e = 0 then h_io_println (Some (lit (''Error: File does not exist. Create it first with '' @
             [CHR 0x27] @ ''mkf'' @ [CHR 0x27]))) k
         else do {
           k1 \<leftarrow> h_io_println (Some (lit (''Enter file contents (max 4096 characters). Type '' @ [CHR 0x27] @ ''EOF'' @
             [CHR 0x27] @ '' on a new line to finish:''))) k;
           (buffer, pos, k2) \<leftarrow> h_wri_loop (replicate 4096 0) 0 k1;
           buffer' \<leftarrow> wr buffer pos 0;
           h_fs_write_file a1 buffer' k2 }) })"

definition h_cmd_folist :: "cbuf list \<Rightarrow> hosted \<Rightarrow> hosted option" where
  "h_cmd_folist argv k = h_fs_list_files k"

definition h_cmd_del :: "cbuf list \<Rightarrow> hosted \<Rightarrow> hosted option" where
  "h_cmd_del argv k =
     (if length argv < 2 then h_io_println (Some (lit ''Usage: del [filename]'')) k
      else do { a1 \<leftarrow> rd argv 1; h_fs_delete_file a1 k })"

definition h_cmd_cat :: "cbuf list \<Rightarrow> hosted \<Rightarrow> hosted option" where
  "h_cmd_cat argv k =
     (if length argv < 2 then h_io_println (Some (lit ''Usage: cat [filename]'')) k
      else do { a1 \<leftarrow> rd argv 1; h_fs_read_file a1 k })"

definition h_cmd_mkdir :: "cbuf list \<Rightarrow> hosted \<Rightarrow> hosted option" where
  "h_cmd_mkdir argv k =
     (if length argv < 2 then h_io_println (Some (lit ''Usage: mkdir [dirname]'')) k
      else do { a1 \<leftarrow> rd argv 1; h_fs_create_dir a1 k })"

definition h_cmd_pwd :: "cbuf list \<Rightarrow> hosted \<Rightarrow> hosted option" where
  "h_cmd_pwd argv k = h_io_println (Some (lit ''Current directory: /'')) k"

definition h_cmd_cd :: "cbuf list \<Rightarrow> hosted \<Rightarrow> hosted option" where
  "h_cmd_cd argv k =
     (if length argv < 2 then h_io_println (Some (lit ''Usage: cd [dirname]'')) k
      else do { a1 \<leftarrow> rd argv 1; h_fs_change_dir a1 k })"

definition h_cmd_exit :: "cbuf list \<Rightarrow> hosted \<Rightarrow> hosted option" where
  "h_cmd_exit argv k = map_option (\<lambda>k1. k1\<lparr>h_exit := 1\<rparr>) (h_io_println (Some (lit ''Shutting down OpenDOS...'')) k)"

definition h_cmd_about :: "cbuf list \<Rightarrow> hosted \<Rightarrow> hosted option" where
  "h_cmd_about argv k = h_print_lines h_about_text k"

subsection \<open>The editor\<close>

abbreviation prompted :: "hosted \<Rightarrow> hosted" where
  "prompted k \<equiv> h_emit (cstr (lit ''> '')) k"

lemma h_wri_round_eq:
  assumes "length buffer = FILE_SIZE" "pos < FILE_SIZE - 1"
    and "h_io_get_string (replicate 256 0) 255 (prompted k) = Some (line, k')" "terminated line"
  shows "h_wri_round buffer pos k = Some
     (if cstr line = bytes_of ''EOF'' then (buffer, pos, False, k')
      else if pos + length (cstr line) + 1 < FILE_SIZE
      then (take pos buffer @ cstr line @ 0x0A # drop (pos + length (cstr line) + 1) buffer,
            pos + length (cstr line) + 1, True, k')
      else (buffer, pos, True, k'))"
proof -
  have e: "cstr (lit ''EOF'') = bytes_of ''EOF''" by code_simp
  obtain r where r: "h_str_compare line (lit ''EOF'') = Some r" "r = 0 \<longleftrightarrow> cstr line = bytes_of ''EOF''"
    using hstr.compareE [OF assms(4) terminated_lit, of "''EOF''"] e by metis
  have n: "h_str_len line = Some (length (cstr line))" using assms(4) by (simp add: h_str_len_eq str_len_Some)
  let ?b = "take pos buffer @ cstr line @ drop (pos + length (cstr line)) buffer"
  have c: "h_wri_copy buffer pos line = Some (?b, pos + length (cstr line))"
    "wr ?b (pos + length (cstr line)) 0x0A =
       Some (take pos buffer @ cstr line @ 0x0A # drop (pos + length (cstr line) + 1) buffer)"
    if "pos + length (cstr line) + 1 < FILE_SIZE"
    using h_wri_copy_eq [OF assms(4), of pos buffer] assms(1) that
    by (simp_all add: wr_def list_update_append Cons_nth_drop_Suc [symmetric])
  show ?thesis
    using assms(3) r n c by (auto simp: h_wri_round_def h_print_eq)
qed

text \<open>What the loop has done: the buffer begins with \<open>pos\<close> bytes of a string.\<close>

definition wri_ok :: "hosted \<Rightarrow> cbuf \<Rightarrow> nat \<Rightarrow> hosted \<Rightarrow> bool" where
  "wri_ok k0 buffer pos k \<longleftrightarrow> length buffer = FILE_SIZE \<and> pos < FILE_SIZE \<and> 0 \<notin> set (take pos buffer) \<and>
     (\<exists>i out. k = k0\<lparr>h_in := i, h_out := h_out k0 @ out\<rparr>)"

lemma h_wri_round_ok:
  assumes "wri_ok k0 buffer pos k" "pos < FILE_SIZE - 1"
  obtains buffer' pos' again k' where "h_wri_round buffer pos k = Some (buffer', pos', again, k')"
    "wri_ok k0 buffer' pos' k'"
proof -
  obtain line k' where l: "h_io_get_string (replicate 256 0) 255 (prompted k) = Some (line, k')" "terminated line"
    "\<exists>r. k' = (prompted k)\<lparr>h_in := r\<rparr>"
    by (rule h_get_string_ok [of "replicate 256 0" 255 "prompted k", OF h_line_buffer(1)]) (simp, simp, blast)
  obtain i out where "k = k0\<lparr>h_in := i, h_out := h_out k0 @ out\<rparr>" using assms(1) by (auto simp: wri_ok_def)
  moreover obtain r where "k' = (prompted k)\<lparr>h_in := r\<rparr>" using l(3) by blast
  ultimately have "k' = k0\<lparr>h_in := r, h_out := h_out k0 @ (out @ cstr (lit ''> ''))\<rparr>" by (simp add: h_emit_def)
  then have k': "\<exists>i out. k' = k0\<lparr>h_in := i, h_out := h_out k0 @ out\<rparr>" by blast
  have len: "length buffer = FILE_SIZE" using assms(1) by (simp add: wri_ok_def)
  note eq = h_wri_round_eq [OF len assms(2) l(1,2)]
  let ?b = "take pos buffer @ cstr line @ 0x0A # drop (pos + length (cstr line) + 1) buffer"
  show ?thesis
  proof (cases "cstr line \<noteq> bytes_of ''EOF'' \<and> pos + length (cstr line) + 1 < FILE_SIZE")
    case False
    then have "\<exists>again. h_wri_round buffer pos k = Some (buffer, pos, again, k')" using eq by auto
    moreover have "wri_ok k0 buffer pos k'" using assms(1) k' by (simp add: wri_ok_def)
    ultimately show ?thesis using that by blast
  next
    case True
    then have "h_wri_round buffer pos k = Some (?b, pos + length (cstr line) + 1, True, k')" using eq by simp
    moreover have "take (pos + length (cstr line) + 1) ?b = take pos buffer @ cstr line @ [0x0A]"
      using True len by simp
    then have "wri_ok k0 ?b (pos + length (cstr line) + 1) k'"
      using assms(1) k' True len by (simp add: wri_ok_def)
    ultimately show ?thesis using that by blast
  qed
qed

lemma h_wri_loop_ok:
  "wri_ok k0 buffer pos k \<Longrightarrow>
   \<exists>buffer' pos' k'. h_wri_loop buffer pos k = Some (buffer', pos', k') \<and> wri_ok k0 buffer' pos' k'"
proof (induction buffer pos k rule: h_wri_loop.induct)
  case (1 buffer pos k)
  show ?case
  proof (cases "pos < FILE_SIZE - 1")
    case False
    then show ?thesis using 1(2) by (simp add: h_wri_loop.simps)
  next
    case True
    obtain buffer' pos' again k' where r: "h_wri_round buffer pos k = Some (buffer', pos', again, k')"
      "wri_ok k0 buffer' pos' k'"
      using h_wri_round_ok [OF 1(2) True] .
    show ?thesis
    proof (cases again)
      case False
      then show ?thesis using True r by (simp add: h_wri_loop.simps)
    next
      case again: True
      have "h_wri_loop buffer pos k = h_wri_loop buffer' pos' k'"
        using True r(1) again by (subst h_wri_loop.simps) simp
      then show ?thesis using 1(1) [OF True r(1) refl refl refl again r(2)] by simp
    qed
  qed
qed

text \<open>The buffer as the string that is written.\<close>

lemma wri_text:
  assumes "length buffer = FILE_SIZE" "pos < FILE_SIZE" "0 \<notin> set (take pos buffer)"
  obtains b where "wr buffer pos 0 = Some b" "terminated b" "cstr b = take pos buffer" "length (cstr b) = pos"
proof -
  have "buffer[pos := 0] = take pos buffer @ 0 # drop (Suc pos) buffer"
    using assms(1,2) by (simp add: upd_conv_take_nth_drop)
  then show ?thesis using that [of "buffer[pos := 0]"] assms by simp
qed

lemma start_ok: "wri_ok k0 (replicate 4096 0) 0 (h_emit out k0)"
proof -
  have "h_emit out k0 = k0\<lparr>h_in := h_in k0, h_out := h_out k0 @ out\<rparr>" by (simp add: h_emit_def)
  then have "\<exists>i out'. h_emit out k0 = k0\<lparr>h_in := i, h_out := h_out k0 @ out'\<rparr>" by blast
  then show ?thesis by (simp add: wri_ok_def FILE_SIZE_def)
qed

text \<open>The lines of the input as they are typed.\<close>

definition typed_lines :: "byte list list \<Rightarrow> byte list" where
  "typed_lines ls = concat (map (\<lambda>l. l @ [0x0A]) ls)"

definition line_ok :: "byte list \<Rightarrow> bool" where
  "line_ok l \<longleftrightarrow> 0x0A \<notin> set l \<and> 0 \<notin> set l \<and> length l < 254"

lemma get_typed_line:
  assumes "line_ok l" "h_in k = l @ 0x0A # r"
  obtains line where "h_io_get_string (replicate 256 0) 255 k = Some (line, k\<lparr>h_in := r\<rparr>)" "terminated line"
    "cstr line = l"
proof -
  have tw: "takeWhile (\<lambda>c. c \<noteq> 0x0A) (h_in k) = l"
    using assms by (simp add: takeWhile_append line_ok_def)
  have f: "fgets_bytes 254 (h_in k) = (l @ [0x0A], r)"
    using assms tw by (simp add: fgets_bytes_eq line_ok_def Let_def)
  have len: "length (l @ [0x0A]) < 256" using assms(1) by (simp add: line_ok_def)
  then obtain b1 where b1: "put_str (replicate 256 0) (l @ [0x0A]) = Some b1" by (simp add: put_str_def)
  have z: "0 \<notin> set (l @ [0x0A])" using assms(1) by (simp add: line_ok_def)
  obtain b2 where b2: "strip_newline b1 = Some b2" "terminated b2" "cstr b2 = takeWhile (\<lambda>c. c \<noteq> 0x0A) (cstr b1)"
    using strip_newline_eq [OF put_str_terminated [OF b1]] by blast
  have "cstr b2 = l" using b2(3) put_str_cstr [OF b1 z] assms(1) by (simp add: takeWhile_append line_ok_def)
  moreover have "h_io_get_string (replicate 256 0) 255 k = Some (b2, k\<lparr>h_in := r\<rparr>)"
    using assms(2) f b1 b2(1) by (simp add: h_io_get_string_def fgets_def)
  ultimately show ?thesis using that b2(2) by blast
qed

lemma h_wri_loop_lines:
  "\<forall>l \<in> set ls. line_ok l \<and> l \<noteq> bytes_of ''EOF'' \<Longrightarrow> length buffer = FILE_SIZE \<Longrightarrow>
   pos + length (typed_lines ls) < FILE_SIZE - 1 \<Longrightarrow> h_in k = typed_lines ls @ bytes_of ''EOF'' @ 0x0A # r \<Longrightarrow>
   \<exists>buffer' k'. h_wri_loop buffer pos k = Some (buffer', pos + length (typed_lines ls), k') \<and>
     take (pos + length (typed_lines ls)) buffer' = take pos buffer @ typed_lines ls \<and>
     length buffer' = FILE_SIZE \<and> (\<exists>out. k' = k\<lparr>h_in := r, h_out := out\<rparr>)"
proof (induction ls arbitrary: buffer pos k)
  case Nil
  have pos: "pos < FILE_SIZE - 1" using Nil.prems(3) by (simp add: typed_lines_def)
  have "line_ok (bytes_of ''EOF'')" by code_simp
  moreover have "h_in (prompted k) = bytes_of ''EOF'' @ 0x0A # r" using Nil.prems(4) by (simp add: typed_lines_def)
  ultimately obtain line where l: "h_io_get_string (replicate 256 0) 255 (prompted k) = Some (line, (prompted k)\<lparr>h_in := r\<rparr>)"
    "terminated line" "cstr line = bytes_of ''EOF''"
    using get_typed_line by blast
  have "h_wri_loop buffer pos k = Some (buffer, pos, (prompted k)\<lparr>h_in := r\<rparr>)"
    using h_wri_round_eq [OF Nil.prems(2) pos l(1,2)] l(3) pos by (subst h_wri_loop.simps) simp
  moreover have "(prompted k)\<lparr>h_in := r\<rparr> = k\<lparr>h_in := r, h_out := h_out k @ cstr (lit ''> '')\<rparr>" by (simp add: h_emit_def)
  ultimately show ?case using Nil.prems(2) by (auto simp: typed_lines_def)
next
  case (Cons l ls)
  have l: "line_ok l" "l \<noteq> bytes_of ''EOF''" using Cons.prems(1) by simp_all
  have tl: "typed_lines (l # ls) = l @ 0x0A # typed_lines ls" by (simp add: typed_lines_def)
  have pos: "pos < FILE_SIZE - 1" "pos + length l + 1 < FILE_SIZE" using Cons.prems(3) by (simp_all add: tl)
  let ?r = "typed_lines ls @ bytes_of ''EOF'' @ 0x0A # r"
  have "h_in (prompted k) = l @ 0x0A # ?r" using Cons.prems(4) by (simp add: tl)
  then obtain line where g: "h_io_get_string (replicate 256 0) 255 (prompted k) = Some (line, (prompted k)\<lparr>h_in := ?r\<rparr>)"
    "terminated line" "cstr line = l"
    using get_typed_line [OF l(1)] by blast
  let ?k = "(prompted k)\<lparr>h_in := ?r\<rparr>"
  let ?b = "take pos buffer @ l @ 0x0A # drop (pos + length l + 1) buffer"
  have step: "h_wri_loop buffer pos k = h_wri_loop ?b (pos + length l + 1) ?k"
    using h_wri_round_eq [OF Cons.prems(2) pos(1) g(1,2)] g(3) l(2) pos by (subst h_wri_loop.simps) simp
  have len: "length ?b = FILE_SIZE" using Cons.prems(2) pos by simp
  have tk: "take (pos + length l + 1) ?b = take pos buffer @ l @ [0x0A]" using Cons.prems(2) pos by simp
  have fits: "pos + length l + 1 + length (typed_lines ls) < FILE_SIZE - 1" using Cons.prems(3) by (simp add: tl)
  have rest: "\<forall>l \<in> set ls. line_ok l \<and> l \<noteq> bytes_of ''EOF''" "h_in ?k = ?r" using Cons.prems(1) by simp_all
  obtain buffer' k' out where i: "h_wri_loop ?b (pos + length l + 1) ?k =
      Some (buffer', pos + length l + 1 + length (typed_lines ls), k')"
    "take (pos + length l + 1 + length (typed_lines ls)) buffer' = take (pos + length l + 1) ?b @ typed_lines ls"
    "length buffer' = FILE_SIZE" "k' = ?k\<lparr>h_in := r, h_out := out\<rparr>"
    using Cons.IH [OF rest(1) len fits rest(2)] by blast
  have n: "pos + length l + 1 + length (typed_lines ls) = pos + length (typed_lines (l # ls))" by (simp add: tl)
  have t: "take (pos + length l + 1) ?b @ typed_lines ls = take pos buffer @ typed_lines (l # ls)"
    unfolding tk by (simp add: tl)
  have "k' = k\<lparr>h_in := r, h_out := out\<rparr>" using i(4) by (simp add: h_emit_def)
  then show ?case using i(1-3) unfolding step n t by blast
qed

lemma h_cmd_wri_eq:
  assumes "h_fs k = Some fs" "hfs_wf fs" "terminated name" "cstr name \<in> fst ` set (h_rows fs)"
  obtains out where "h_cmd_wri [a0, name] k = do {
     (buffer, pos, k2) \<leftarrow> h_wri_loop (replicate 4096 0) 0 (h_emit out k);
     buffer' \<leftarrow> wr buffer pos 0;
     h_fs_write_file name buffer' k2 }"
proof -
  obtain i where "first_index (\<lambda>f. cstr (fe_name f) = cstr name) (h_live fs) = Some i"
    using assms(4) first_index_rows [of "cstr name" fs] by auto
  then show ?thesis
    using that assms(1) h_fs_find_eq [OF assms(2,3)]
    by (simp add: h_cmd_wri_def h_fs_file_exists_def h_println_eq)
qed

text \<open>Writing a file and reading it back.\<close>

lemma first_index_map: "first_index P (map f xs) = first_index (\<lambda>x. P (f x)) xs"
  by (induction xs) simp_all

lemma editor_write_read:
  assumes "h_fs k = Some fs" "hfs_wf fs" "terminated name" "(cstr name, HFile c) \<in> set (h_rows fs)"
    and "terminated data" "length (cstr data) < FILE_SIZE"
  obtains k' where "h_fs_write_file name data k = Some k'" "h_refines k (Some k') (rows_write (cstr name) (cstr data) (h_rows fs))"
    "h_fs_read_file name k' = Some (h_emit (cstr (lit (newline @ ''=== File Contents ==='')) @ [0x0A] @
       cstr data @ [0x0A] @ cstr (lit (''===================='' @ newline)) @ [0x0A]) k')"
proof -
  have "cstr name \<in> fst ` set (h_rows fs)" using assms(4) by force
  then obtain i where i: "first_index (\<lambda>f. cstr (fe_name f) = cstr name) (h_live fs) = Some i"
    using first_index_rows [of "cstr name" fs] by auto
  note slot = h_live_slot [OF assms(2) i]
  have il: "i < length (h_live fs)" using slot(1) length_h_live [OF assms(2)] by simp
  have row: "(cstr name, h_entry_of (h_live fs ! i)) \<in> set (h_rows fs)"
    using slot(5) il by (force simp: h_rows_def h_row_def)
  have "distinct (map fst (h_rows fs))" using assms(2) by (simp add: hfs_wf_def)
  then have "h_entry_of (h_live fs ! i) = HFile c" using assms(4) row by (metis eq_key_imp_eq_value)
  then have nodir: "fe_type (h_live fs ! i) \<noteq> FILE_TYPE_DIR" by (auto simp: h_entry_of_def)
  obtain content where content: "put_str (fe_data (h_live fs ! i)) (cstr data) = Some content"
    using slot(3) assms(6) by (auto simp: put_str_def h_shape_def)
  define f where "f = (h_live fs ! i)\<lparr>fe_data := content, fe_size := of_nat (length (cstr data))\<rparr>"
  let ?k' = "h_emit (cstr (lit ''File written successfully'') @ [0x0A]) (k\<lparr>h_fs := Some (set_slot fs i f)\<rparr>)"
  have w: "h_fs_write_file name data k = Some ?k'"
    using h_write_eq [OF assms(1-3,5)] assms(6) i nodir content by (simp add: f_def)
  note written = written_slot [OF assms(2) i nodir assms(6) content f_def]
  have "map (\<lambda>f. cstr (fe_name f)) (h_live (set_slot fs i f)) = map (\<lambda>f. cstr (fe_name f)) (h_live fs)"
    unfolding written(3) map_update using il by (simp add: f_def list_update_same_conv)
  then have "first_index (\<lambda>f. cstr (fe_name f) = cstr name) (h_live (set_slot fs i f)) = Some i"
    using i unfolding first_index_map [where P = "\<lambda>n. n = cstr name" and f = "\<lambda>f. cstr (fe_name f)", symmetric] by simp
  moreover have "h_live (set_slot fs i f) ! i = f" unfolding written(3) using il by simp
  moreover have "terminated content" "cstr content = cstr data"
    using put_str_terminated [OF content] put_str_cstr [OF content] by simp_all
  ultimately have "h_fs_read_file name ?k' = Some (h_emit (cstr (lit (newline @ ''=== File Contents ==='')) @ [0x0A] @
       cstr data @ [0x0A] @ cstr (lit (''===================='' @ newline)) @ [0x0A]) ?k')"
    using h_read_eq [of ?k' "set_slot fs i f" name] written(1) assms(3) nodir by (simp add: f_def)
  moreover have "h_refines k (Some ?k') (rows_write (cstr name) (cstr data) (h_rows fs))"
    by (rule h_refinesI [OF refl written(1,2)])
  ultimately show ?thesis using that w by blast
qed

subsection \<open>Properties\<close>

text \<open>
  C33: The editor ends on every input.  On a well-formed table that has the name, \<open>cmd_wri\<close> returns for
  every standard input, also one that ends without \<open>EOF\<close> or whose lines are too long, without an
  access outside its arrays, and stores a text of less than 4096 bytes under that name and nothing
  else.
\<close>

theorem hosted_editor_returns:
  assumes "h_fs k = Some fs" "hfs_wf fs" "terminated name" "cstr name \<in> fst ` set (h_rows fs)"
  shows "\<exists>content i. length content < FILE_SIZE \<and>
     h_refines (k\<lparr>h_in := i\<rparr>) (h_cmd_wri [a0, name] k) (rows_write (cstr name) content (h_rows fs))"
proof -
  obtain out where cmd: "h_cmd_wri [a0, name] k = do {
       (buffer, pos, k2) \<leftarrow> h_wri_loop (replicate 4096 0) 0 (h_emit out k);
       buffer' \<leftarrow> wr buffer pos 0;
       h_fs_write_file name buffer' k2 }"
    using h_cmd_wri_eq [OF assms] .
  obtain buffer pos k2 where l: "h_wri_loop (replicate 4096 0) 0 (h_emit out k) = Some (buffer, pos, k2)"
    "wri_ok k buffer pos k2"
    using h_wri_loop_ok [OF start_ok [of k out]] by blast
  obtain i o2 where k2: "k2 = k\<lparr>h_in := i, h_out := h_out k @ o2\<rparr>" using l(2) by (auto simp: wri_ok_def)
  obtain b where b: "wr buffer pos 0 = Some b" "terminated b" "length (cstr b) = pos"
    using wri_text [of buffer pos] l(2) unfolding wri_ok_def by blast
  have pos: "pos < FILE_SIZE" using l(2) by (simp add: wri_ok_def)
  have fs: "h_fs k2 = Some fs" using assms(1) k2 by simp
  obtain fs' o3 where w: "h_fs_write_file name b k2 = Some (k2\<lparr>h_fs := Some fs', h_out := h_out k2 @ o3\<rparr>)"
    "hfs_wf fs'" "h_rows fs' = rows_write (cstr name) (cstr b) (h_rows fs)"
    using h_write_ok [OF fs assms(2,3) b(2)] b(3) pos by (auto simp: h_refines_def)
  have "h_cmd_wri [a0, name] k = Some (h_emit (o2 @ o3) ((k\<lparr>h_in := i\<rparr>)\<lparr>h_fs := Some fs'\<rparr>))"
    using cmd l(1) b(1) w(1) by (simp add: k2 h_emit_def)
  from h_refinesI [OF this w(2,3)] show ?thesis using b(3) pos by blast
qed

text \<open>The table of \<open>secret_table\<close> with an input that ends without \<open>EOF\<close>.\<close>

lemma secret_rows: "(bytes_of ''key'', HFile (bytes_of ''secret'')) \<in> set (h_rows secret_table)"
proof -
  have "h_row secret_entry = (bytes_of ''key'', HFile (bytes_of ''secret''))"
    by (simp add: h_row_def h_entry_of_def secret_entry_def lit_def bytes_of_def FILE_TYPE_FILE_def FILE_TYPE_DIR_def)
  moreover have "secret_entry \<in> set (h_live secret_table)"
    using secret_table(2,3) last_in_set by metis
  ultimately show ?thesis unfolding h_rows_def by force
qed

lemma hosted_editor_returns_witness:
  "\<exists>k' fs. h_cmd_wri [lit ''wri'', lit ''key''] (hosted_start\<lparr>h_fs := Some secret_table, h_in := bytes_of ''abc''\<rparr>) = Some k' \<and>
     h_fs k' = Some fs \<and> hfs_wf fs"
proof -
  let ?k = "hosted_start\<lparr>h_fs := Some secret_table, h_in := bytes_of ''abc''\<rparr>"
  have fs: "h_fs ?k = Some secret_table" by simp
  have "cstr (lit ''key'') = bytes_of ''key''" by (simp add: lit_def bytes_of_def)
  then have "cstr (lit ''key'') \<in> fst ` set (h_rows secret_table)" using secret_rows by force
  from hosted_editor_returns [OF fs secret_table(1) terminated_lit this, of "lit ''wri''"] show ?thesis
    unfolding h_refines_def by auto
qed

text \<open>
  C32: What is typed is stored and shown.  When the lines before \<open>EOF\<close> are shorter than 254 bytes and fit
  the buffer, the editor stores exactly these lines, reads nothing behind the line \<open>EOF\<close>, and \<open>cmd_cat\<close>
  then prints them between its two rulers.
\<close>

theorem hosted_editor_stores_lines:
  assumes "h_fs k = Some fs" "hfs_wf fs" "terminated name" "(cstr name, HFile c) \<in> set (h_rows fs)"
    and "\<forall>l \<in> set ls. line_ok l \<and> l \<noteq> bytes_of ''EOF''" "length (typed_lines ls) < FILE_SIZE - 1"
    and "h_in k = typed_lines ls @ bytes_of ''EOF'' @ 0x0A # r"
  shows "\<exists>k' fs'. h_cmd_wri [a0, name] k = Some k' \<and> h_in k' = r \<and> h_fs k' = Some fs' \<and> hfs_wf fs' \<and>
     h_rows fs' = rows_write (cstr name) (typed_lines ls) (h_rows fs) \<and>
     h_cmd_cat [b0, name] k' = Some (h_emit (cstr (lit (newline @ ''=== File Contents ==='')) @ [0x0A] @
       typed_lines ls @ [0x0A] @ cstr (lit (''===================='' @ newline)) @ [0x0A]) k')"
proof -
  have "cstr name \<in> fst ` set (h_rows fs)" using assms(4) by force
  then obtain out where cmd: "h_cmd_wri [a0, name] k = do {
       (buffer, pos, k2) \<leftarrow> h_wri_loop (replicate 4096 0) 0 (h_emit out k);
       buffer' \<leftarrow> wr buffer pos 0;
       h_fs_write_file name buffer' k2 }"
    using h_cmd_wri_eq [OF assms(1-3)] by metis
  have len: "length (replicate 4096 (0 :: byte)) = FILE_SIZE" by (simp add: FILE_SIZE_def)
  have "0 + length (typed_lines ls) < FILE_SIZE - 1" "h_in (h_emit out k) = typed_lines ls @ bytes_of ''EOF'' @ 0x0A # r"
    using assms(6,7) by simp_all
  from h_wri_loop_lines [OF assms(5) len this]
  obtain buffer k2 o2 where l: "h_wri_loop (replicate 4096 0) 0 (h_emit out k) = Some (buffer, length (typed_lines ls), k2)"
    "take (length (typed_lines ls)) buffer = typed_lines ls" "length buffer = FILE_SIZE"
    "k2 = (h_emit out k)\<lparr>h_in := r, h_out := o2\<rparr>"
    by auto
  have "0 \<notin> set (typed_lines ls)" using assms(5) by (auto simp: typed_lines_def line_ok_def)
  then have z: "0 \<notin> set (take (length (typed_lines ls)) buffer)" using l(2) by simp
  have "length (typed_lines ls) < FILE_SIZE" using assms(6) by simp
  then obtain b where b: "wr buffer (length (typed_lines ls)) 0 = Some b" "terminated b" "cstr b = typed_lines ls"
    using wri_text [OF l(3) _ z] l(2) by metis
  have fs: "h_fs k2 = Some fs" and blen: "length (cstr b) < FILE_SIZE" using assms(1,6) l(4) b(3) by simp_all
  obtain k' where w: "h_fs_write_file name b k2 = Some k'"
    "h_refines k2 (Some k') (rows_write (cstr name) (cstr b) (h_rows fs))"
    "h_fs_read_file name k' = Some (h_emit (cstr (lit (newline @ ''=== File Contents ==='')) @ [0x0A] @
       cstr b @ [0x0A] @ cstr (lit (''===================='' @ newline)) @ [0x0A]) k')"
    using editor_write_read [OF fs assms(2-4) b(2) blen] .
  obtain fs' where "h_fs k' = Some fs'" "hfs_wf fs'" "h_rows fs' = rows_write (cstr name) (cstr b) (h_rows fs)" "h_in k' = r"
    using w(2) l(4) by (auto simp: h_refines_def)
  then show ?thesis using cmd l(1) b w(1,3) by (simp add: h_cmd_cat_def)
qed

lemma hosted_editor_stores_lines_witness:
  "\<exists>k'. h_cmd_wri [lit ''wri'', lit ''key'']
       (hosted_start\<lparr>h_fs := Some secret_table, h_in := bytes_of ''hello'' @ 0x0A # bytes_of ''EOF'' @ [0x0A]\<rparr>) = Some k' \<and>
     h_cmd_cat [lit ''cat'', lit ''key''] k' = Some (h_emit (cstr (lit (newline @ ''=== File Contents ==='')) @ [0x0A] @
       (bytes_of ''hello'' @ [0x0A]) @ [0x0A] @ cstr (lit (''===================='' @ newline)) @ [0x0A]) k')"
proof -
  let ?k = "hosted_start\<lparr>h_fs := Some secret_table, h_in := bytes_of ''hello'' @ 0x0A # bytes_of ''EOF'' @ [0x0A]\<rparr>"
  have fs: "h_fs ?k = Some secret_table" by simp
  have n: "cstr (lit ''key'') = bytes_of ''key''" by (simp add: lit_def bytes_of_def)
  have t: "typed_lines [bytes_of ''hello''] = bytes_of ''hello'' @ [0x0A]" by (simp add: typed_lines_def)
  have ok: "\<forall>l \<in> set [bytes_of ''hello'']. line_ok l \<and> l \<noteq> bytes_of ''EOF''"
    "length (typed_lines [bytes_of ''hello'']) < FILE_SIZE - 1"
    by code_simp+
  have "h_in ?k = typed_lines [bytes_of ''hello''] @ bytes_of ''EOF'' @ 0x0A # []" by (simp add: t)
  from hosted_editor_stores_lines [OF fs secret_table(1) terminated_lit _ ok this, of "''key''" "bytes_of ''secret''" "lit ''wri''" "lit ''cat''"]
  show ?thesis using secret_rows unfolding n t by auto
qed

end
