(* ===== verification/Hosted_Store.thy ===== *)
theory Hosted_Store
  imports Hosted_Commands File_Store
begin

section \<open>The hosted filesystem as a store of files\<close>

text \<open>
  \<open>fs_write_file\<close> and \<open>fs_read_file\<close> of src/filesystem.c as the operations of the locale \<open>file_store\<close>.  Reading
  prints, so what a file shows is the output of \<open>fs_read_file\<close>: a ruler, the text, a ruler.
\<close>

definition h_has :: "hosted \<Rightarrow> byte list \<Rightarrow> bool" where
  "h_has k nm \<longleftrightarrow> (case h_fs k of
     Some fs \<Rightarrow> nm \<in> fst ` set (h_rows fs) \<and> (nm, HDir) \<notin> set (h_rows fs)
   | None \<Rightarrow> False)"

definition h_fits :: "byte list \<Rightarrow> bool" where
  "h_fits d \<longleftrightarrow> 0 \<notin> set d \<and> length d < FILE_SIZE"

definition h_ok :: "hosted \<Rightarrow> bool" where
  "h_ok k \<longleftrightarrow> (\<exists>fs. h_fs k = Some fs \<and> hfs_wf fs)"

definition h_put :: "byte list \<Rightarrow> byte list \<Rightarrow> hosted \<Rightarrow> hosted option" where
  "h_put nm d k = h_fs_write_file (nm @ [0]) (d @ [0]) k"

definition h_show :: "byte list \<Rightarrow> hosted \<Rightarrow> byte list option" where
  "h_show nm k = map_option (\<lambda>k'. drop (length (h_out k)) (h_out k')) (h_fs_read_file (nm @ [0]) k)"

definition h_page :: "byte list \<Rightarrow> byte list" where
  "h_page d = cstr (lit (newline @ ''=== File Contents ==='')) @ [0x0A] @ d @ [0x0A] @
     cstr (lit (''===================='' @ newline)) @ [0x0A]"

text \<open>The slot of a file, and what reading it shows.\<close>

lemma h_has_slot:
  assumes "h_fs k = Some fs" "hfs_wf fs" "h_has k nm"
  obtains i where "first_index (\<lambda>f. cstr (fe_name f) = nm) (h_live fs) = Some i" "i < length (h_live fs)"
    "fe_type (h_live fs ! i) \<noteq> FILE_TYPE_DIR" "0 \<notin> set nm"
proof -
  have nm: "nm \<in> fst ` set (h_rows fs)" "(nm, HDir) \<notin> set (h_rows fs)" using assms(1,3) by (auto simp: h_has_def)
  obtain i where i: "first_index (\<lambda>f. cstr (fe_name f) = nm) (h_live fs) = Some i"
    using nm(1) first_index_rows [of nm fs] by auto
  note slot = h_live_slot [OF assms(2) i]
  have il: "i < length (h_live fs)" using slot(1) length_h_live [OF assms(2)] by simp
  then have "(nm, h_entry_of (h_live fs ! i)) \<in> set (h_rows fs)"
    using slot(5) by (force simp: h_rows_def h_row_def)
  then have "h_entry_of (h_live fs ! i) \<noteq> HDir" using nm(2) by auto
  then have "fe_type (h_live fs ! i) \<noteq> FILE_TYPE_DIR" by (auto simp: h_entry_of_def)
  moreover have "0 \<notin> set nm" using slot(5) zero_notin_cstr by metis
  ultimately show ?thesis using that i il by blast
qed

lemma h_show_eq:
  assumes "h_fs k = Some fs" "hfs_wf fs" "0 \<notin> set nm"
    and "first_index (\<lambda>f. cstr (fe_name f) = nm) (h_live fs) = Some i" "fe_type (h_live fs ! i) \<noteq> FILE_TYPE_DIR"
  shows "h_show nm k =
     (if terminated (fe_data (h_live fs ! i)) then Some (h_page (cstr (fe_data (h_live fs ! i)))) else None)"
  using h_read_eq [OF assms(1,2), of "nm @ [0]"] assms(3-5) by (simp add: h_show_def h_page_def)

lemma h_put_eq:
  assumes "h_fs k = Some fs" "hfs_wf fs" "h_has k nm" "h_fits d"
  obtains i f fs' k' where "h_put nm d k = Some k'" "h_fs k' = Some fs'" "hfs_wf fs'"
    "first_index (\<lambda>f. cstr (fe_name f) = nm) (h_live fs) = Some i" "h_live fs' = (h_live fs)[i := f]"
    "i < length (h_live fs)" "fe_name f = fe_name (h_live fs ! i)" "fe_type f = fe_type (h_live fs ! i)"
    "terminated (fe_data f)" "cstr (fe_data f) = d" "h_rows fs' = rows_write nm d (h_rows fs)"
proof -
  obtain i where i: "first_index (\<lambda>f. cstr (fe_name f) = nm) (h_live fs) = Some i" "i < length (h_live fs)"
    "fe_type (h_live fs ! i) \<noteq> FILE_TYPE_DIR" "0 \<notin> set nm"
    using h_has_slot [OF assms(1-3)] .
  have d: "cstr (d @ [0]) = d" "length d < FILE_SIZE" "cstr (nm @ [0]) = nm" using assms(4) i(4) by (simp_all add: h_fits_def)
  obtain content where c: "put_str (fe_data (h_live fs ! i)) d = Some content"
    using h_live_slot(3) [OF assms(2) i(1)] d(2) by (auto simp: put_str_def h_shape_def)
  define f where "f = (h_live fs ! i)\<lparr>fe_data := content, fe_size := of_nat (length d)\<rparr>"
  have "h_put nm d k = Some (h_emit (cstr (lit ''File written successfully'') @ [0x0A]) (k\<lparr>h_fs := Some (set_slot fs i f)\<rparr>))"
    using h_write_eq [OF assms(1,2), of "nm @ [0]" "d @ [0]"] d i(1,3) c by (simp add: h_put_def f_def)
  moreover have "0 \<notin> set d" using assms(4) by (simp add: h_fits_def)
  then have "terminated content" "cstr content = d" using put_str_terminated [OF c] put_str_cstr [OF c] by simp_all
  ultimately show ?thesis
    using that [of _ "set_slot fs i f" i f] written_slot [OF assms(2) i(1,3) d(2) c f_def] i(1,2) by (simp add: f_def)
qed

lemma h_put_finds:
  assumes "h_live fs' = (h_live fs)[i := f]" "i < length (h_live fs)" "fe_name f = fe_name (h_live fs ! i)"
  shows "first_index (\<lambda>f. cstr (fe_name f) = nm) (h_live fs') = first_index (\<lambda>f. cstr (fe_name f) = nm) (h_live fs)"
proof -
  have "map (\<lambda>f. cstr (fe_name f)) (h_live fs') = map (\<lambda>f. cstr (fe_name f)) (h_live fs)"
    using assms by (simp add: map_update list_update_same_conv)
  then show ?thesis
    using first_index_map [where P = "\<lambda>n. n = nm" and f = "\<lambda>f. cstr (fe_name f)"] by metis
qed

lemma rows_write_kinds:
  "fst ` set (rows_write nm d rows) = fst ` set rows" "(m, HDir) \<in> set (rows_write nm d rows) \<longleftrightarrow> (m, HDir) \<in> set rows"
  by (force simp: rows_write_def image_image)+

interpretation hosted_store: file_store h_ok h_has h_fits h_put h_show h_page
proof
  fix k nm d assume pre: "h_ok k" "h_has k nm" "h_fits d"
  then obtain fs where fs: "h_fs k = Some fs" "hfs_wf fs" by (auto simp: h_ok_def)
  obtain i f fs' k' where p: "h_put nm d k = Some k'" "h_fs k' = Some fs'" "hfs_wf fs'"
    "first_index (\<lambda>f. cstr (fe_name f) = nm) (h_live fs) = Some i" "h_live fs' = (h_live fs)[i := f]"
    "i < length (h_live fs)" "fe_name f = fe_name (h_live fs ! i)" "fe_type f = fe_type (h_live fs ! i)"
    "terminated (fe_data f)" "cstr (fe_data f) = d" "h_rows fs' = rows_write nm d (h_rows fs)"
    using h_put_eq [OF fs pre(2,3)] .
  have has: "h_has k' = h_has k" using fs(1) p(2,11) by (simp add: h_has_def rows_write_kinds fun_eq_iff)
  show "\<exists>k'. h_put nm d k = Some k' \<and> h_ok k' \<and> h_has k' = h_has k" using p(1-3) has by (auto simp: h_ok_def)
  fix k2 assume "h_put nm d k = Some k2"
  then have [simp]: "k2 = k'" using p(1) by simp
  note finds = h_put_finds [OF p(5-7)]
  obtain j where j: "first_index (\<lambda>f. cstr (fe_name f) = nm) (h_live fs) = Some j"
    "fe_type (h_live fs ! j) \<noteq> FILE_TYPE_DIR" "0 \<notin> set nm"
    using h_has_slot [OF fs pre(2)] by metis
  then show "h_show nm k2 = Some (h_page d)"
    using h_show_eq [OF p(2,3) j(3)] finds p(4-10) by simp
  fix m assume m: "h_has k m" "m \<noteq> nm"
  obtain j where j: "first_index (\<lambda>f. cstr (fe_name f) = m) (h_live fs) = Some j"
    "fe_type (h_live fs ! j) \<noteq> FILE_TYPE_DIR" "0 \<notin> set m"
    using h_has_slot [OF fs m(1)] by metis
  then have "j \<noteq> i" using h_live_slot(5) [OF fs(2)] p(4) m(2) by metis
  then show "h_show m k2 = h_show m k"
    using h_show_eq [OF p(2,3) j(3)] h_show_eq [OF fs j(3,1,2)] finds j p(5) by simp
qed

end
