(* ===== verification/Hosted_Shell.thy ===== *)
theory Hosted_Shell
  imports Fs_Properties Kernel_Machine Hosted_Io
begin

section \<open>src/shell.c: a shell for hosted use of the kernel\<close>

text \<open>
  The shell includes kernel/kernel.h and calls the kernel's terminal, string and filesystem functions,
  so it works on the state of the kernel; lines are read by \<open>io_get_string\<close>, which only src/io.c defines
  (\<open>h_io_get_string\<close>), from the standard input in \<open>od_io\<close>.  \<open>should_exit\<close> is its static variable, and
  \<open>od_blocks\<close> counts the blocks it has from \<open>malloc\<close> and not freed.  The array \<open>command_buffer\<close> of \<open>shell_run\<close> is
  not initialised, so its content at the start is an argument.  The record \<open>od_env\<close> holds what no file of
  the repository defines: \<open>io_printf\<close>, \<open>kernel_shutdown\<close> and a \<open>kernel_init\<close> with a result, and the
  system calls, seen from the parent process: \<open>access\<close> says whether a program exists, \<open>fork\<close> gives a
  process identifier, \<open>waitpid\<close> the exit code of the child, if it exited.  The results of \<open>malloc\<close> are an
  argument of the parser: 16 pointers, \<open>None\<close> for \<open>NULL\<close>, to blocks of any content.
\<close>

definition ARGS_MAX :: nat where "ARGS_MAX = 16"
definition ARG_MAX_LEN :: nat where "ARG_MAX_LEN = 64"

record 'd od_env =
  env_printf :: "string \<Rightarrow> cptr list \<Rightarrow> 'd kernel \<Rightarrow> 'd kernel option"
  env_kernel_init :: "'d kernel \<Rightarrow> (bool \<times> 'd kernel) option"
  env_shutdown :: "'d kernel \<Rightarrow> 'd kernel option"
  env_access :: "cbuf \<Rightarrow> bool"
  env_fork :: "cbuf \<Rightarrow> int"
  env_wait :: "cbuf \<Rightarrow> cptr list \<Rightarrow> int option"

record 'd od_state =
  od_kernel :: "'d kernel"
  od_io :: hosted
  od_should_exit :: int
  od_blocks :: nat

subsection \<open>The built-in commands\<close>

datatype od_builtin =
    Od_Help | Od_Clear | Od_Echo | Od_Pwd | Od_Cd | Od_Mkdir | Od_Ls | Od_About | Od_Exit

definition od_builtins :: "(string \<times> od_builtin \<times> string) list" where
  "od_builtins = [
     (''help'', Od_Help, ''Show available commands''),
     (''clear'', Od_Clear, ''Clear the screen''),
     (''cls'', Od_Clear, ''Clear the screen (alias)''),
     (''echo'', Od_Echo, ''Print text to console''),
     (''pwd'', Od_Pwd, ''Print working directory''),
     (''cd'', Od_Cd, ''Change directory''),
     (''mkdir'', Od_Mkdir, ''Create a directory''),
     (''ls'', Od_Ls, ''List directory contents''),
     (''about'', Od_About, ''About OpenDOS''),
     (''exit'', Od_Exit, ''Exit the system''),
     (''quit'', Od_Exit, ''Exit the system (alias)'')]"

definition od_newline :: string where
  "od_newline = [CHR 0x0A]"

text \<open>The box characters are three bytes of UTF-8 each.\<close>

definition box :: "char \<Rightarrow> string" where
  "box c = [CHR 0xE2, CHR 0x95, c]"

definition box_rule :: string where
  "box_rule = concat (replicate 37 (box (CHR 0x90)))"

definition box_top :: string where
  "box_top = box (CHR 0x94) @ box_rule @ box (CHR 0x97)"

definition box_bottom :: string where
  "box_bottom = box (CHR 0x9A) @ box_rule @ box (CHR 0x9D)"

definition box_line :: "string \<Rightarrow> string" where
  "box_line s = box (CHR 0x91) @ s @ box (CHR 0x91)"

fun od_print_lines :: "string list \<Rightarrow> 'd kernel \<Rightarrow> 'd kernel option" where
  "od_print_lines [] k = Some k"
| "od_print_lines (l # ls) k = do { k1 \<leftarrow> kprintln (Some (lit l)) k; od_print_lines ls k1 }"

fun od_help_loop :: "'d od_env \<Rightarrow> (string \<times> od_builtin \<times> string) list \<Rightarrow> 'd kernel \<Rightarrow> 'd kernel option" where
  "od_help_loop env [] k = Some k"
| "od_help_loop env ((nm, _, description) # bs) k = do {
     k1 \<leftarrow> env_printf env (''  %-15s - %s'' @ od_newline) [Some (lit nm), Some (lit description)] k;
     od_help_loop env bs k1 }"

definition od_cmd_help :: "'d od_env \<Rightarrow> 'd kernel \<Rightarrow> (int \<times> 'd kernel) option" where
  "od_cmd_help env k = do {
     k1 \<leftarrow> kprintln (Some (lit (od_newline @ ''Built-in commands:''))) k;
     k2 \<leftarrow> od_help_loop env od_builtins k1;
     k3 \<leftarrow> kprintln (Some (lit (od_newline @ ''You can also create custom programs in /progs/''))) k2;
     k4 \<leftarrow> kprintln (Some (lit (''and call them like any other command.'' @ od_newline))) k3;
     Some (0, k4) }"

definition od_cmd_clear :: "'d kernel \<Rightarrow> (int \<times> 'd kernel) option" where
  "od_cmd_clear k = Some (0, k\<lparr>k_term := io_clear_screen (k_term k)\<rparr>)"

text \<open>The loop over the arguments from \<open>i\<close> on, \<open>n\<close> of them.\<close>

fun od_echo_loop :: "cptr list \<Rightarrow> nat \<Rightarrow> nat \<Rightarrow> 'd kernel \<Rightarrow> 'd kernel option" where
  "od_echo_loop argv i 0 k = Some k"
| "od_echo_loop argv i (Suc n) k = do {
     a \<leftarrow> rd argv i;
     k1 \<leftarrow> kprint a k;
     k2 \<leftarrow> (if 0 < n then kprint (Some (lit '' '')) k1 else Some k1);
     od_echo_loop argv (i + 1) n k2 }"

definition od_cmd_echo :: "nat \<Rightarrow> cptr list \<Rightarrow> 'd kernel \<Rightarrow> (int \<times> 'd kernel) option" where
  "od_cmd_echo argc argv k = do {
     k1 \<leftarrow> od_echo_loop argv 1 (argc - 1) k;
     k2 \<leftarrow> kprintln (Some (lit [])) k1;
     Some (0, k2) }"

definition od_cmd_pwd :: "'d kernel \<Rightarrow> (int \<times> 'd kernel) option" where
  "od_cmd_pwd k = do { k1 \<leftarrow> kprintln (Some (fs_get_current_dir k)) k; Some (0, k1) }"

definition od_cmd_cd :: "nat \<Rightarrow> cptr list \<Rightarrow> 'd kernel \<Rightarrow> (int \<times> 'd kernel) option" where
  "od_cmd_cd argc argv k =
     (if argc < 2 then say ''Usage: cd <directory>'' 1 k
      else do { a1 \<leftarrow> rd argv 1; fs_change_dir a1 k })"

definition od_cmd_mkdir :: "'d ports \<Rightarrow> nat \<Rightarrow> cptr list \<Rightarrow> 'd kernel \<Rightarrow> (int \<times> 'd kernel) option" where
  "od_cmd_mkdir hw argc argv k =
     (if argc < 2 then say ''Usage: mkdir <directory>'' 1 k
      else do { a1 \<leftarrow> rd argv 1; fs_create_dir hw a1 k })"

definition od_cmd_ls :: "nat \<Rightarrow> cptr list \<Rightarrow> 'd kernel \<Rightarrow> (int \<times> 'd kernel) option" where
  "od_cmd_ls argc argv k = do {
     path \<leftarrow> (if 1 < argc then rd argv 1 else Some (Some (fs_get_current_dir k)));
     fs_list_dir path k }"

definition od_about_text :: "string list" where
  "od_about_text = [
     od_newline @ box_top,
     box_line ''        OpenDOS 2.0 (Microkernel)   '',
     box_line ''   A modular, educational DOS OS    '',
     box_line ''                                     '',
     box_line ''  Kernel-based architecture with    '',
     box_line ''  external programs in /progs       '',
     box_bottom @ od_newline]"

definition od_cmd_about :: "'d kernel \<Rightarrow> (int \<times> 'd kernel) option" where
  "od_cmd_about k = do { k1 \<leftarrow> od_print_lines od_about_text k; Some (0, k1) }"

text \<open>The command behind a function pointer of the table.\<close>

definition od_run_builtin ::
    "'d ports \<Rightarrow> 'd od_env \<Rightarrow> od_builtin \<Rightarrow> nat \<Rightarrow> cptr list \<Rightarrow> 'd od_state \<Rightarrow> 'd od_state option" where
  "od_run_builtin hw env b argc argv s =
     (let on = (\<lambda>r. map_option (\<lambda>(_, k). s\<lparr>od_kernel := k\<rparr>) r) in
      case b of
        Od_Help \<Rightarrow> on (od_cmd_help env (od_kernel s))
      | Od_Clear \<Rightarrow> on (od_cmd_clear (od_kernel s))
      | Od_Echo \<Rightarrow> on (od_cmd_echo argc argv (od_kernel s))
      | Od_Pwd \<Rightarrow> on (od_cmd_pwd (od_kernel s))
      | Od_Cd \<Rightarrow> on (od_cmd_cd argc argv (od_kernel s))
      | Od_Mkdir \<Rightarrow> on (od_cmd_mkdir hw argc argv (od_kernel s))
      | Od_Ls \<Rightarrow> on (od_cmd_ls argc argv (od_kernel s))
      | Od_About \<Rightarrow> on (od_cmd_about (od_kernel s))
      | Od_Exit \<Rightarrow> Some (s\<lparr>od_should_exit := 1\<rparr>))"

text \<open>\<open>prog_path[256]\<close> is not bounded.\<close>

definition od_try_execute_program :: "'d od_env \<Rightarrow> cptr \<Rightarrow> cptr list \<Rightarrow> int option" where
  "od_try_execute_program env cmd argv = do {
     p0 \<leftarrow> str_copy (fresh 256) (Some (lit ''./bin/''));
     prog_path \<leftarrow> str_concat p0 cmd;
     Some (if \<not> env_access env prog_path then - 1
           else if 0 < env_fork env prog_path
           then (case env_wait env prog_path argv of Some code \<Rightarrow> code | None \<Rightarrow> 1)
           else - 1) }"

subsection \<open>Splitting a line\<close>

text \<open>The initialisation of \<open>argv\<close>: a block that was allocated begins with a terminator.\<close>

fun od_init_argv :: "cptr list \<Rightarrow> cptr list option" where
  "od_init_argv [] = Some []"
| "od_init_argv (p # ps) = do {
     p' \<leftarrow> (case p of None \<Rightarrow> Some None | Some b \<Rightarrow> map_option Some (wr b 0 0));
     ps' \<leftarrow> od_init_argv ps;
     Some (p' # ps') }"

text \<open>The end of a word: terminate it and copy it to the next argument, if there is one.\<close>

definition od_store_word :: "cptr list \<Rightarrow> nat \<Rightarrow> cbuf \<Rightarrow> nat \<Rightarrow> (cptr list \<times> nat \<times> cbuf) option" where
  "od_store_word argv arg_idx current_arg current_len = do {
     cur \<leftarrow> wr current_arg current_len 0;
     (if arg_idx < ARGS_MAX then do {
        p \<leftarrow> rd argv arg_idx;
        b \<leftarrow> p;
        b' \<leftarrow> str_copy b (Some cur);
        Some (argv[arg_idx := Some b'], arg_idx + 1, cur) }
      else Some (argv, arg_idx, cur)) }"

fun od_parse_loop :: "cbuf \<Rightarrow> cptr list \<Rightarrow> nat \<Rightarrow> cbuf \<Rightarrow> nat \<Rightarrow> bool \<Rightarrow> (cptr list \<times> nat) option" where
  "od_parse_loop [] argv arg_idx cur len in_word = None"
| "od_parse_loop (c # input) argv arg_idx cur len in_word =
     (if c \<noteq> 0 then
        (if is_blank c then
           (if in_word \<and> 0 < len then do {
              (argv', arg_idx', cur') \<leftarrow> od_store_word argv arg_idx cur len;
              od_parse_loop input argv' arg_idx' cur' 0 False }
            else od_parse_loop input argv arg_idx cur len in_word)
         else
           (let len1 = (if in_word then len else 0) in
            if len1 < ARG_MAX_LEN - 1 then do {
              cur' \<leftarrow> wr cur len1 c;
              od_parse_loop input argv arg_idx cur' (len1 + 1) True }
            else od_parse_loop input argv arg_idx cur len1 True))
      else if in_word \<and> 0 < len then
        map_option (\<lambda>(argv', arg_idx', cur'). (argv', arg_idx')) (od_store_word argv arg_idx cur len)
      else Some (argv, arg_idx))"

definition od_parse_command :: "cptr list \<Rightarrow> cbuf \<Rightarrow> (cptr list \<times> nat) option" where
  "od_parse_command mem input = do {
     argv \<leftarrow> od_init_argv mem;
     od_parse_loop input argv 1 (replicate 64 0) 0 False }"

subsection \<open>The loop\<close>

definition od_blocks_of :: "cptr list \<Rightarrow> nat" where
  "od_blocks_of ps = length (filter (\<lambda>p. p \<noteq> None) ps)"

fun od_find_builtin :: "(string \<times> od_builtin \<times> string) list \<Rightarrow> cbuf \<Rightarrow> od_builtin option option" where
  "od_find_builtin [] cmd = Some None"
| "od_find_builtin ((nm, b, _) # bs) cmd = do {
     r \<leftarrow> str_compare (lit nm) cmd;
     (if r = 0 then Some (Some b) else od_find_builtin bs cmd) }"

text \<open>The part of the loop for a command \<open>argv[0]\<close> that is not empty, up to the freeing of \<open>argv\<close>.\<close>

definition od_execute ::
    "'d ports \<Rightarrow> 'd od_env \<Rightarrow> cbuf \<Rightarrow> nat \<Rightarrow> cptr list \<Rightarrow> 'd od_state \<Rightarrow> 'd od_state option" where
  "od_execute hw env cmd argc argv s = do {
     found \<leftarrow> od_find_builtin od_builtins cmd;
     s1 \<leftarrow> (case found of
        Some b \<Rightarrow> od_run_builtin hw env b argc argv s
      | None \<Rightarrow> do {
          result \<leftarrow> od_try_execute_program env (Some cmd) argv;
          (if result = - 1
           then map_option (\<lambda>k. s\<lparr>od_kernel := k\<rparr>) (env_printf env
             (''Error: Unknown command '' @ [CHR 0x27] @ ''%s'' @ [CHR 0x27] @
              ''. Type '' @ [CHR 0x27] @ ''help'' @ [CHR 0x27] @ '' for available commands.'' @ od_newline)
             [Some cmd] (od_kernel s))
           else Some s) });
     Some (s1\<lparr>od_blocks := od_blocks s1 - od_blocks_of argv\<rparr>) }"

text \<open>One round of \<open>shell_run\<close>; \<open>mem\<close> is what \<open>malloc\<close> returns in it.\<close>

definition od_round ::
    "'d ports \<Rightarrow> 'd od_env \<Rightarrow> cptr list \<Rightarrow> cbuf \<times> 'd od_state \<Rightarrow> (cbuf \<times> 'd od_state) option" where
  "od_round hw env mem = (\<lambda>(buffer, s). do {
     k1 \<leftarrow> kprint (Some (lit ''openDOS> '')) (od_kernel s);
     (buffer1, io1) \<leftarrow> h_io_get_string buffer 255 (od_io s);
     let s1 = s\<lparr>od_kernel := k1, od_io := io1\<rparr>;
     n \<leftarrow> str_len (Some buffer1);
     (if n = 0 then Some (buffer1, s1)
      else do {
        (argv, argc) \<leftarrow> od_parse_command mem buffer1;
        let s2 = s1\<lparr>od_blocks := od_blocks s1 + od_blocks_of mem\<rparr>;
        a0 \<leftarrow> rd argv 0;
        m \<leftarrow> str_len a0;
        (case a0 of
           Some cmd \<Rightarrow>
             if 0 < argc \<and> 0 < m then map_option (\<lambda>s3. (buffer1, s3)) (od_execute hw env cmd argc argv s2)
             else Some (buffer1, s2)
         | None \<Rightarrow> Some (buffer1, s2)) }) })"

text \<open>\<open>while (!should_exit)\<close> for at most as many rounds as \<open>mems\<close> has entries; the flag says whether the
  loop has ended.\<close>

fun od_loop ::
    "'d ports \<Rightarrow> 'd od_env \<Rightarrow> cptr list list \<Rightarrow> cbuf \<times> 'd od_state \<Rightarrow> (bool \<times> cbuf \<times> 'd od_state) option" where
  "od_loop hw env mems (buffer, s) =
     (if od_should_exit s \<noteq> 0 then Some (True, buffer, s)
      else (case mems of
              [] \<Rightarrow> Some (False, buffer, s)
            | mem # mems' \<Rightarrow> do { bs \<leftarrow> od_round hw env mem (buffer, s); od_loop hw env mems' bs }))"

definition od_shell_run ::
    "'d ports \<Rightarrow> 'd od_env \<Rightarrow> cptr list list \<Rightarrow> cbuf \<times> 'd od_state \<Rightarrow> (bool \<times> cbuf \<times> 'd od_state) option" where
  "od_shell_run hw env mems bs = do {
     (ended, buffer, s) \<leftarrow> od_loop hw env mems bs;
     (if ended then map_option (\<lambda>k. (True, buffer, s\<lparr>od_kernel := k\<rparr>)) (env_shutdown env (od_kernel s))
      else Some (False, buffer, s)) }"

definition od_welcome_text :: "string list" where
  "od_welcome_text = [
     od_newline, box_top,
     box_line ''   Welcome to OpenDOS 2.0 (Kernel)  '',
     box_line ''  A modular, DOS-style OS in C      '',
     box_line (''  Type '' @ [CHR 0x27] @ ''help'' @ [CHR 0x27] @ '' for available cmds    ''),
     box_bottom, []]"

text \<open>\<open>Inl\<close> stands for \<open>exit(1)\<close>.\<close>

definition od_shell_init :: "'d od_env \<Rightarrow> 'd kernel \<Rightarrow> ('d kernel + 'd kernel) option" where
  "od_shell_init env k = do {
     (ok, k1) \<leftarrow> env_kernel_init env k;
     (if \<not> ok then map_option Inl (kprintln (Some (lit ''Error: Failed to initialize kernel'')) k1)
      else map_option Inr (od_print_lines od_welcome_text (k1\<lparr>k_term := io_clear_screen (k_term k1)\<rparr>))) }"

text \<open>\<open>main\<close> of src/shell.c, and of src/main.c, which prints a last line.  \<open>Inl\<close> is the exit status and the
  kernel at the end, \<open>Inr\<close> the state when \<open>mems\<close> has run out.\<close>

definition od_main ::
    "'d ports \<Rightarrow> 'd od_env \<Rightarrow> cptr list list \<Rightarrow> cbuf \<Rightarrow> 'd od_state \<Rightarrow> (int \<times> 'd kernel + 'd od_state) option" where
  "od_main hw env mems command_buffer s = do {
     r \<leftarrow> od_shell_init env (od_kernel s);
     (case r of
        Inl k \<Rightarrow> Some (Inl (1, k))
      | Inr k \<Rightarrow> do {
          (ended, buffer, s1) \<leftarrow> od_shell_run hw env mems (command_buffer, s\<lparr>od_kernel := k\<rparr>);
          Some (if ended then Inl (0, od_kernel s1) else Inr s1) }) }"

definition opendos_main ::
    "'d ports \<Rightarrow> 'd od_env \<Rightarrow> cptr list list \<Rightarrow> cbuf \<Rightarrow> 'd od_state \<Rightarrow> (int \<times> 'd kernel + 'd od_state) option" where
  "opendos_main hw env mems command_buffer s = do {
     r \<leftarrow> od_shell_init env (od_kernel s);
     (case r of
        Inl k \<Rightarrow> Some (Inl (1, k))
      | Inr k \<Rightarrow> do {
          (ended, buffer, s1) \<leftarrow> od_shell_run hw env mems (command_buffer, s\<lparr>od_kernel := k\<rparr>);
          (if ended
           then map_option (\<lambda>k1. Inl (0, k1))
             (kprintln (Some (lit (od_newline @ ''OpenDOS terminated successfully.''))) (od_kernel s1))
           else Some (Inr s1)) }) }"

subsection \<open>The words of a line\<close>

text \<open>The words are the longest pieces without a blank; \<open>w\<close> is the word read so far.\<close>

fun blank_words :: "byte list \<Rightarrow> byte list \<Rightarrow> byte list list" where
  "blank_words w [] = (if w = [] then [] else [w])"
| "blank_words w (c # cs) =
     (if is_blank c then (if w = [] then [] else [w]) @ blank_words [] cs else blank_words (w @ [c]) cs)"

definition od_memory :: "cptr list \<Rightarrow> bool" where
  "od_memory mem \<longleftrightarrow> length mem = ARGS_MAX \<and> (\<forall>p \<in> set mem. \<exists>b. p = Some b \<and> length b = ARG_MAX_LEN)"

definition arg_texts :: "cptr list \<Rightarrow> byte list list" where
  "arg_texts argv = map (\<lambda>p. case p of Some b \<Rightarrow> cstr b | None \<Rightarrow> []) argv"

lemma od_memory_nth:
  assumes "od_memory mem" "i < ARGS_MAX"
  obtains b where "mem ! i = Some b" "length b = ARG_MAX_LEN"
  using assms nth_mem [of i mem] unfolding od_memory_def by metis

lemma od_memory_upd: "od_memory mem \<Longrightarrow> length b = ARG_MAX_LEN \<Longrightarrow> od_memory (mem[i := Some b])"
  using set_update_subset_insert [of mem i "Some b"] by (simp add: od_memory_def subset_iff) blast

lemma od_memory_blocks: "od_memory mem \<Longrightarrow> od_blocks_of mem = ARGS_MAX"
  unfolding od_memory_def od_blocks_of_def by (subst filter_True) auto

lemma od_init_argv_ok:
  "(\<forall>p \<in> set mem. \<exists>b. p = Some b \<and> length b = ARG_MAX_LEN) \<Longrightarrow>
   \<exists>argv. od_init_argv mem = Some argv \<and> length argv = length mem \<and>
     (\<forall>p \<in> set argv. \<exists>b. p = Some b \<and> length b = ARG_MAX_LEN \<and> terminated b) \<and>
     arg_texts argv = replicate (length mem) []"
proof (induction mem)
  case (Cons p mem)
  from Cons.prems obtain b where b: "p = Some b" "length b = ARG_MAX_LEN" by auto
  then have "b \<noteq> []" by (auto simp: ARG_MAX_LEN_def)
  then obtain c r where c: "b = c # r" by (cases b) auto
  from Cons obtain argv where "od_init_argv mem = Some argv" "length argv = length mem"
    "\<forall>p \<in> set argv. \<exists>b. p = Some b \<and> length b = ARG_MAX_LEN \<and> terminated b"
    "arg_texts argv = replicate (length mem) []" by auto
  then show ?case using b c by (simp add: arg_texts_def)
qed (simp add: arg_texts_def)

text \<open>Storing a word in the first \<open>len\<close> bytes of the array.\<close>

lemma od_store_word_ok:
  assumes "od_memory argv" "length cur = ARG_MAX_LEN" "len < ARG_MAX_LEN" "take len cur = w" "0 \<notin> set w"
  shows "\<exists>argv' cur'. od_store_word argv i cur len = Some (argv', if i < ARGS_MAX then i + 1 else i, cur') \<and>
    od_memory argv' \<and> length cur' = ARG_MAX_LEN \<and> arg_texts argv' = (arg_texts argv)[i := w]"
proof -
  have l: "len < length cur" using assms by simp
  have cur: "cur[len := 0] = w @ 0 # drop (Suc len) cur" using upd_conv_take_nth_drop [OF l] assms(4) by simp
  have lw: "length w < ARG_MAX_LEN" using assms(2-4) by auto
  show ?thesis
  proof (cases "i < ARGS_MAX")
    case True
    obtain b where b: "argv ! i = Some b" "length b = ARG_MAX_LEN" using od_memory_nth [OF assms(1) True] .
    have li: "i < length argv" using True assms(1) by (simp add: od_memory_def)
    let ?b = "w @ 0 # drop (Suc (length w)) b"
    have "str_copy b (Some (cur[len := 0])) = Some ?b"
      using cur assms(5) b(2) lw by (simp add: str_copy_eq put_str_fits)
    then have "od_store_word argv i cur len = Some (argv[i := Some ?b], i + 1, cur[len := 0])"
      using l b(1) True li by (simp add: od_store_word_def)
    moreover have "length ?b = ARG_MAX_LEN" using b(2) lw by simp
    moreover have "arg_texts (argv[i := Some ?b]) = (arg_texts argv)[i := w]"
      using assms(5) by (simp add: arg_texts_def map_update)
    ultimately show ?thesis using True assms(1,2) by (auto intro: od_memory_upd)
  next
    case False
    then have "od_store_word argv i cur len = Some (argv, i, cur[len := 0])" using l by (simp add: od_store_word_def)
    moreover have "(arg_texts argv)[i := w] = arg_texts argv" using False assms(1) by (simp add: od_memory_def arg_texts_def list_update_beyond)
    ultimately show ?thesis using False assms(1,2) by auto
  qed
qed

text \<open>The list \<open>xs\<close> written over \<open>ys\<close> from position \<open>i\<close> on.\<close>

definition overlay :: "nat \<Rightarrow> 'a list \<Rightarrow> 'a list \<Rightarrow> 'a list" where
  "overlay i xs ys = take i ys @ take (length ys - i) xs @ drop (i + length xs) ys"

lemma overlay_Nil [simp]: "overlay i [] ys = ys"
  by (simp add: overlay_def)

lemma overlay_Cons:
  "i \<le> length ys \<Longrightarrow> overlay (if i < length ys then i + 1 else i) xs (ys[i := x]) = overlay i (x # xs) ys"
proof (cases "i < length ys")
  case True
  then have "take (i + 1) (ys[i := x]) = take i ys @ [x]" by (simp add: take_Suc_conv_app_nth)
  moreover have "length ys - i = Suc (length ys - (i + 1))" using True by simp
  ultimately show ?thesis using True by (simp add: overlay_def)
qed (simp add: overlay_def list_update_beyond)

text \<open>The invariant of the loop: \<open>w\<close> is the word read so far, of which the array holds 63 bytes.\<close>

definition word_args :: "byte list list \<Rightarrow> byte list list" where
  "word_args ws = map (take (ARG_MAX_LEN - 1)) ws"

text \<open>The end of a word: it is stored, and the words after it follow.\<close>

lemma od_store_overlay:
  assumes "od_memory argv" "i \<le> ARGS_MAX" "length cur = ARG_MAX_LEN"
    "len = min (ARG_MAX_LEN - 1) (length w)" "take len cur = take (ARG_MAX_LEN - 1) w" "0 \<notin> set w"
  obtains argv1 cur1 i1 where "od_store_word argv i cur len = Some (argv1, i1, cur1)" "od_memory argv1"
    "length cur1 = ARG_MAX_LEN" "i1 \<le> ARGS_MAX" "\<And>n. min ARGS_MAX (i1 + n) = min ARGS_MAX (i + (n + 1))"
    "\<And>xs. overlay i1 xs (arg_texts argv1) = overlay i (take (ARG_MAX_LEN - 1) w # xs) (arg_texts argv)"
proof -
  let ?i = "if i < ARGS_MAX then i + 1 else i"
  have len: "len < ARG_MAX_LEN" using assms(4) by (simp add: ARG_MAX_LEN_def)
  have "0 \<notin> set (take (ARG_MAX_LEN - 1) w)" using assms(6) by (meson in_set_takeD)
  from od_store_word_ok [OF assms(1,3) len assms(5) this]
  obtain argv1 cur1 where st: "od_store_word argv i cur len = Some (argv1, ?i, cur1)"
    "od_memory argv1" "length cur1 = ARG_MAX_LEN" "arg_texts argv1 = (arg_texts argv)[i := take (ARG_MAX_LEN - 1) w]"
    by blast
  have la: "length (arg_texts argv) = ARGS_MAX" using assms(1) by (simp add: od_memory_def arg_texts_def)
  have "overlay ?i xs (arg_texts argv1) = overlay i (take (ARG_MAX_LEN - 1) w # xs) (arg_texts argv)" for xs
    using overlay_Cons [of i "arg_texts argv" xs "take (ARG_MAX_LEN - 1) w"] la st(4) assms(2) by simp
  moreover have "?i \<le> ARGS_MAX" "min ARGS_MAX (?i + n) = min ARGS_MAX (i + (n + 1))" for n using assms(2) by auto
  ultimately show ?thesis using that st(1-3) by blast
qed

text \<open>A byte of a word: the first 63 are kept.\<close>

lemma od_parse_char:
  assumes "c \<noteq> 0" "\<not> is_blank c" "length cur = ARG_MAX_LEN" "len = min (ARG_MAX_LEN - 1) (length w)"
    "take len cur = take (ARG_MAX_LEN - 1) w"
  defines "len' \<equiv> if len < ARG_MAX_LEN - 1 then len + 1 else len"
  defines "cur' \<equiv> if len < ARG_MAX_LEN - 1 then cur[len := c] else cur"
  shows "od_parse_loop (c # input) argv i cur len (w \<noteq> []) = od_parse_loop input argv i cur' len' (w @ [c] \<noteq> [])"
    "length cur' = ARG_MAX_LEN" "len' = min (ARG_MAX_LEN - 1) (length (w @ [c]))"
    "take len' cur' = take (ARG_MAX_LEN - 1) (w @ [c])"
proof -
  have "(if w \<noteq> [] then len else 0) = len" using assms(4) by simp
  moreover have "len < ARG_MAX_LEN" using assms(4) by (simp add: ARG_MAX_LEN_def)
  ultimately show "od_parse_loop (c # input) argv i cur len (w \<noteq> []) = od_parse_loop input argv i cur' len' (w @ [c] \<noteq> [])"
    using assms(1-3) by (auto simp: Let_def len'_def cur'_def)
  show "length cur' = ARG_MAX_LEN" "len' = min (ARG_MAX_LEN - 1) (length (w @ [c]))"
    "take len' cur' = take (ARG_MAX_LEN - 1) (w @ [c])"
    using assms(3-5) by (auto simp: take_Suc_conv_app_nth len'_def cur'_def)
qed

lemma od_parse_loop_ok:
  assumes "terminated input" "od_memory argv" "i \<le> ARGS_MAX" "length cur = ARG_MAX_LEN"
    "len = min (ARG_MAX_LEN - 1) (length w)" "take len cur = take (ARG_MAX_LEN - 1) w" "0 \<notin> set w"
  shows "\<exists>argv'. od_parse_loop input argv i cur len (w \<noteq> []) =
      Some (argv', min ARGS_MAX (i + length (blank_words w (cstr input)))) \<and> od_memory argv' \<and>
    arg_texts argv' = overlay i (word_args (blank_words w (cstr input))) (arg_texts argv)"
  using assms
proof (induction input arbitrary: argv i cur len w)
  case (Cons c input)
  obtain argv1 i1 cur1 where st: "od_store_word argv i cur len = Some (argv1, i1, cur1)" "od_memory argv1"
    "length cur1 = ARG_MAX_LEN" "i1 \<le> ARGS_MAX" "\<And>n. min ARGS_MAX (i1 + n) = min ARGS_MAX (i + (n + 1))"
    "\<And>xs. overlay i1 xs (arg_texts argv1) = overlay i (take (ARG_MAX_LEN - 1) w # xs) (arg_texts argv)"
    using od_store_overlay [OF Cons.prems(2-7)] by metis
  have pos: "w \<noteq> [] \<Longrightarrow> 0 < len" using Cons.prems(5) by (simp add: ARG_MAX_LEN_def)
  have t: "c \<noteq> 0 \<Longrightarrow> terminated input" using Cons.prems(1) by simp
  consider (none) "c = 0" "w = []" | (last) "c = 0" "w \<noteq> []" | (gap) "c \<noteq> 0" "is_blank c" "w = []"
    | (sep) "c \<noteq> 0" "is_blank c" "w \<noteq> []" | (char) "c \<noteq> 0" "\<not> is_blank c" by blast
  then show ?case
  proof cases
    case none
    then show ?thesis using Cons.prems(2,3) by (simp add: word_args_def)
  next
    case last
    then show ?thesis using pos st(1,2,4) st(5) [of 0] st(6) [of "[]"] by (simp add: word_args_def)
  next
    case gap
    then show ?thesis using Cons.IH [OF t Cons.prems(2-7)] by simp
  next
    case sep
    have "od_parse_loop (c # input) argv i cur len (w \<noteq> []) = od_parse_loop input argv1 i1 cur1 0 False"
      using sep pos st(1) by simp
    then show ?thesis
      using Cons.IH [OF t st(2,4,3), of 0 "[]"] sep st(6) st(5) [of "length (blank_words [] (cstr input))"]
      by (simp add: word_args_def)
  next
    case char
    note step = od_parse_char [OF char Cons.prems(4-6)]
    show ?thesis
      unfolding step(1) using Cons.IH [OF t Cons.prems(2,3) step(2-4)] char Cons.prems(7) by simp
  qed
qed simp

lemma overlay_replicate:
  assumes "0 < m"
  shows "overlay 1 xs (replicate m x) = take m (x # xs @ replicate m x)"
proof -
  obtain n where m: "m = Suc n" using assms by (cases m) auto
  have "take (n - length xs) (x # replicate n x) = replicate (n - length xs) x"
    using take_replicate [of "n - length xs" "Suc n" x] by simp
  then show ?thesis by (simp add: m overlay_def)
qed

lemma od_parse_command_ok:
  assumes "length mem = 16" "\<forall>p \<in> set mem. \<exists>b. p = Some b \<and> length b = 64" "terminated input"
  shows "\<exists>argv. od_parse_command mem input = Some (argv, min 16 (1 + length (blank_words [] (cstr input)))) \<and>
     od_memory argv \<and>
     arg_texts argv = take 16 ([] # map (take 63) (blank_words [] (cstr input)) @ replicate 16 [])"
proof -
  obtain argv where a: "od_init_argv mem = Some argv" "length argv = length mem"
    "\<forall>p \<in> set argv. \<exists>b. p = Some b \<and> length b = ARG_MAX_LEN \<and> terminated b"
    "arg_texts argv = replicate (length mem) []"
    using od_init_argv_ok [of mem] assms(2) by (auto simp: ARG_MAX_LEN_def)
  have m: "od_memory argv" using a(2,3) assms(1) by (auto simp: od_memory_def ARGS_MAX_def)
  obtain argv' where p: "od_parse_loop input argv 1 (replicate 64 0) 0 ([] \<noteq> ([] :: byte list)) =
      Some (argv', min ARGS_MAX (1 + length (blank_words [] (cstr input))))" "od_memory argv'"
    "arg_texts argv' = overlay 1 (word_args (blank_words [] (cstr input))) (arg_texts argv)"
    using od_parse_loop_ok [OF assms(3) m, of 1 "replicate 64 0" 0 "[]"]
    by (auto simp: ARGS_MAX_def ARG_MAX_LEN_def)
  have "arg_texts argv = replicate 16 []" using a(4) assms(1) by simp
  with p(3) have "arg_texts argv' = take 16 ([] # word_args (blank_words [] (cstr input)) @ replicate 16 [])"
    using overlay_replicate [of 16 "word_args (blank_words [] (cstr input))" "[]"] by simp
  moreover have "od_parse_command mem input = Some (argv', min 16 (1 + length (blank_words [] (cstr input))))"
    using a(1) p(1) by (simp add: od_parse_command_def ARGS_MAX_def)
  ultimately show ?thesis using p(2) by (simp add: word_args_def ARG_MAX_LEN_def)
qed

subsection \<open>What the loop does\<close>

text \<open>Rounds that only prompt and read a line, with the number of lines that were not empty.\<close>

fun od_reads :: "nat \<Rightarrow> cbuf \<times> hosted \<times> 'd kernel \<Rightarrow> (nat \<times> cbuf \<times> hosted \<times> 'd kernel) option" where
  "od_reads 0 (buffer, io, k) = Some (0, buffer, io, k)"
| "od_reads (Suc n) (buffer, io, k) = do {
     (buffer1, io1) \<leftarrow> h_io_get_string buffer 255 io;
     len \<leftarrow> str_len (Some buffer1);
     (lines, r) \<leftarrow> od_reads n (buffer1, io1, printed (bytes_of ''openDOS> '') k);
     Some ((if len = 0 then 0 else 1) + lines, r) }"

lemma od_prompt: "kprint (Some (lit ''openDOS> '')) k = Some (printed (bytes_of ''openDOS> '') k)"
proof -
  have "cstr (lit ''openDOS> '') = bytes_of ''openDOS> ''" by code_simp
  then show ?thesis by (simp add: kprint_printed)
qed

lemma str_len_terminated: "str_len (Some b) = Some n \<Longrightarrow> terminated b \<and> n = length (cstr b)"
  by (auto simp: str_len_def str_len_loop_eq split: if_splits)

lemma od_round_eq:
  assumes "length mem = 16" "\<forall>p \<in> set mem. \<exists>b. p = Some b \<and> length b = 64"
  shows "od_round hw env mem (buffer, s) = do {
     (buffer1, io1) \<leftarrow> h_io_get_string buffer 255 (od_io s);
     len \<leftarrow> str_len (Some buffer1);
     Some (buffer1, s\<lparr>od_kernel := printed (bytes_of ''openDOS> '') (od_kernel s), od_io := io1,
       od_blocks := od_blocks s + (if len = 0 then 0 else 16)\<rparr>) }"
proof (cases "do { (buffer1, io1) \<leftarrow> h_io_get_string buffer 255 (od_io s); len \<leftarrow> str_len (Some buffer1); Some (buffer1, io1, len) }")
  case None
  then show ?thesis by (auto simp: od_round_def od_prompt split: bind_splits)
next
  case (Some r)
  then obtain b1 io1 n where r: "h_io_get_string buffer 255 (od_io s) = Some (b1, io1)" "str_len (Some b1) = Some n"
    by (cases r) (auto split: bind_splits)
  then have t: "terminated b1" "n = length (cstr b1)" using str_len_terminated by auto
  obtain argv where p: "od_parse_command mem b1 = Some (argv, min 16 (1 + length (blank_words [] (cstr b1))))"
    "od_memory argv" "arg_texts argv = take 16 ([] # map (take 63) (blank_words [] (cstr b1)) @ replicate 16 [])"
    using od_parse_command_ok [OF assms t(1)] by blast
  obtain b where b: "argv ! 0 = Some b" "length b = ARG_MAX_LEN"
    using od_memory_nth [OF p(2), of 0] by (auto simp: ARGS_MAX_def)
  have l: "0 < length argv" using p(2) by (simp add: od_memory_def ARGS_MAX_def)
  have "cstr b = arg_texts argv ! 0" using b(1) l by (simp add: arg_texts_def)
  then have c: "cstr b = []" using p(3) by simp
  then have tb: "terminated b" using b(2) by (simp add: terminated_iff_length ARG_MAX_LEN_def)
  have m: "od_blocks_of mem = 16"
    using od_memory_blocks [of mem] assms by (simp add: od_memory_def ARGS_MAX_def ARG_MAX_LEN_def)
  show ?thesis using r t p(1) b(1) l c tb m by (simp add: od_round_def od_prompt str_len_Some)
qed

lemma od_loop_eq:
  assumes "\<forall>mem \<in> set mems. length mem = 16 \<and> (\<forall>p \<in> set mem. \<exists>b. p = Some b \<and> length b = 64)"
    and "od_should_exit s = 0"
  shows "od_loop hw env mems (buffer, s) = do {
     (lines, buffer', io, k) \<leftarrow> od_reads (length mems) (buffer, od_io s, od_kernel s);
     Some (False, buffer', s\<lparr>od_kernel := k, od_io := io, od_blocks := od_blocks s + 16 * lines\<rparr>) }"
  using assms
proof (induction mems arbitrary: buffer s)
  case (Cons mem mems)
  have mem: "length mem = 16" "\<forall>p \<in> set mem. \<exists>b. p = Some b \<and> length b = 64" using Cons.prems(1) by auto
  show ?case
    using Cons od_round_eq [where hw = hw and env = env and buffer = buffer and s = s, OF mem]
    by (auto simp: add_mult_distrib2 split: bind_splits)
qed simp

text \<open>When the input has ended, \<open>io_get_string\<close> leaves the array as it is, and so does every later round.\<close>

lemma od_reads_ended:
  assumes "h_in io = []"
  shows "od_reads n (buffer, io, k) =
     (if n = 0 \<or> terminated buffer
      then Some (if cstr buffer = [] then 0 else n, buffer, io, ((printed (bytes_of ''openDOS> '')) ^^ n) k) else None)"
proof (induction n arbitrary: k)
  case (Suc n)
  have get: "h_io_get_string buffer 255 io = Some (buffer, io)" using assms by (simp add: h_io_get_string_def fgets_def)
  show ?case
  proof (cases "terminated buffer")
    case True
    then show ?thesis using Suc.IH get by (simp add: str_len_Some funpow_swap1)
  next
    case False
    then have "str_len (Some buffer) = None" using str_len_terminated [of buffer] by fastforce
    then show ?thesis using False get by simp
  qed
qed simp

text \<open>The lookup of a built-in command finds the first entry with the name.\<close>

lemma od_find_builtin_eq:
  "terminated cmd \<Longrightarrow> od_find_builtin bs cmd =
     Some (map_option fst (map_of (map (\<lambda>(nm, r). (cstr (lit nm), r)) bs) (cstr cmd)))"
proof (induction bs)
  case (Cons x bs)
  obtain nm b d where x: "x = (nm, b, d)" by (cases x) auto
  obtain r where r: "str_compare (lit nm) cmd = Some r" "r = 0 \<longleftrightarrow> cstr (lit nm) = cstr cmd"
    using str_compareE [OF terminated_lit Cons.prems] .
  then show ?case using Cons x by auto
qed simp

text \<open>
  C31: The hosted shell runs nothing.  Whatever the input, and as long as the allocations succeed,
  \<open>shell_run\<close> does exactly this: prompt, read a line, and again.  No built-in command runs, \<open>exit\<close>
  included, no program is started, \<open>should_exit\<close> stays 0, the loop does not end, and every line that is
  not empty leaves 16 more blocks that are never freed.  When the input has ended, \<open>io_get_string\<close> leaves
  the array as it was: every further round takes the last line for a new one (16 more blocks each if it
  was not empty), and if no line was ever read the shell measures the uninitialised array, which runs
  past its end unless a zero byte happens to be in it.
\<close>

theorem hosted_shell_runs_nothing:
  assumes "\<forall>mem \<in> set mems. length mem = 16 \<and> (\<forall>p \<in> set mem. \<exists>b. p = Some b \<and> length b = 64)"
    and "od_should_exit s = 0"
  shows "od_shell_run hw env mems (buffer, s) = do {
       (lines, buffer', io, k) \<leftarrow> od_reads (length mems) (buffer, od_io s, od_kernel s);
       Some (False, buffer', s\<lparr>od_kernel := k, od_io := io, od_blocks := od_blocks s + 16 * lines\<rparr>) } \<and>
    (h_in (od_io s) = [] \<longrightarrow> od_shell_run hw env mems (buffer, s) =
       (if mems = [] \<or> terminated buffer
        then Some (False, buffer, s\<lparr>od_kernel := ((printed (bytes_of ''openDOS> '')) ^^ length mems) (od_kernel s),
          od_blocks := od_blocks s + (if cstr buffer = [] then 0 else 16 * length mems)\<rparr>)
        else None))"
proof -
  have run: "od_shell_run hw env mems (buffer, s) = do {
       (lines, buffer', io, k) \<leftarrow> od_reads (length mems) (buffer, od_io s, od_kernel s);
       Some (False, buffer', s\<lparr>od_kernel := k, od_io := io, od_blocks := od_blocks s + 16 * lines\<rparr>) }"
    using od_loop_eq [where env = env and hw = hw and buffer = buffer, OF assms]
    by (simp only: od_shell_run_def) (auto split: bind_splits)
  moreover have "s\<lparr>od_kernel := k, od_io := od_io s, od_blocks := n\<rparr> = s\<lparr>od_kernel := k, od_blocks := n\<rparr>" for k n by (cases s) simp
  ultimately show ?thesis using od_reads_ended [of "od_io s" "length mems" buffer "od_kernel s"] by auto
qed

text \<open>A user who types \<open>exit\<close> and closes the input.\<close>

definition exit_env :: "ata_view od_env" where
  "exit_env = \<lparr>env_printf = (\<lambda>f a k. Some k), env_kernel_init = (\<lambda>k. Some (True, k)), env_shutdown = Some,
     env_access = (\<lambda>p. False), env_fork = (\<lambda>p. 0), env_wait = (\<lambda>p a. None)\<rparr>"

definition exit_typed :: hosted where
  "exit_typed = \<lparr>h_out = [], h_in = bytes_of ''exit'' @ [0x0A], h_fs = None, h_dir = [], h_exit = 0\<rparr>"

lemma hosted_shell_runs_nothing_witness:
  "\<exists>b s. od_shell_run sim_ports exit_env (replicate 3 (replicate 16 (Some (replicate 64 0))))
       (replicate 256 0xAA, \<lparr>od_kernel = kernel_off, od_io = exit_typed, od_should_exit = 0, od_blocks = 0\<rparr>) =
       Some (False, b, s) \<and> od_should_exit s = 0 \<and> od_blocks s = 48"
proof -
  let ?s = "\<lparr>od_kernel = kernel_off, od_io = exit_typed, od_should_exit = 0, od_blocks = 0\<rparr>"
  have "case h_io_get_string (replicate 256 0xAA) 255 exit_typed of
      Some (b, io) \<Rightarrow> h_in io = [] \<and> terminated b \<and> cstr b = bytes_of ''exit'' | None \<Rightarrow> False" by code_simp
  then obtain b io where b: "h_io_get_string (replicate 256 0xAA) 255 exit_typed = Some (b, io)"
    "h_in io = []" "terminated b" "cstr b = bytes_of ''exit''" by (auto split: option.splits)
  have ne: "bytes_of ''exit'' \<noteq> []" by (simp add: bytes_of_def)
  have "od_reads (Suc 2) (replicate 256 0xAA, exit_typed, kernel_off) = Some (3, b, io,
      ((printed (bytes_of ''openDOS> '')) ^^ 2) (printed (bytes_of ''openDOS> '') kernel_off))"
    using b ne od_reads_ended [OF b(2), of 2 b "printed (bytes_of ''openDOS> '') kernel_off"] by (simp only: od_reads.simps) (simp add: str_len_Some)
  then obtain k where "od_reads 3 (replicate 256 0xAA, exit_typed, kernel_off) = Some (3, b, io, k)" by simp
  then show ?thesis
    using conjunct1 [OF hosted_shell_runs_nothing [of "replicate 3 (replicate 16 (Some (replicate 64 0)))" ?s
          sim_ports exit_env "replicate 256 0xAA"]]
    by simp
qed

end
