(* ===== verification/Spec2Isabelle.thy ===== *)
theory Spec2Isabelle
  imports Disk_Images Kernel_Properties Connector_Types Kernel_Store Hosted_Store Hosted_Shell
begin

text \<open>
  plDOS: a small multiboot kernel for 32-bit x86 and its hosted ancestor.

  \<^bold>\<open>The program.\<close>  \<open>boot/kernel_entry.asm\<close> calls \<open>kmain\<close> of kernel/kernel.c.  It initialises the terminal
  (kernel/io.c), the heap (kernel/memory.c), the user table (kernel/users.c), the ATA driver
  (kernel/disk.c), the filesystem (kernel/filesystem.c) and the command table (progs/programs.c), and then
  runs \<open>shell_run\<close> for ever: print a prompt, read a line from the keyboard, cut it into words, look the
  first one up among the commands and call it.  The commands (progs/*.c) reach the kernel only through
  \<open>kernel_connector_request\<close> (kernel/kernel_connector.c), a dispatcher on a request number and an untyped
  pointer.  The filesystem is an array of 128 nodes in memory; every change is written through to the
  drive once it has been saved there.  The directories src/, include/ and boot/bootloader.c hold the older
  variant: a program that runs on a hosted C library (src/io.c, src/string.c, src/filesystem.c,
  src/commands.c), and a shell (src/shell.c, src/main.c) that includes the headers of the kernel.

  \<^bold>\<open>The model.\<close>  Every function is a definition with the name of the function; a definition \<open>f_loop\<close> is a loop
  of \<open>f\<close>, and the names of the hosted variant carry the prefix \<open>h_\<close> (\<open>od_\<close> in src/shell.c), because both
  variants use the same names.  A C array of characters is the list of its bytes, a pointer into it the
  suffix of that list, a pointer that may be \<open>NULL\<close> an \<open>option\<close>; \<open>char\<close>, \<open>uint32_t\<close>, \<open>size_t\<close> and the port
  values are words of their width, so they wrap around.  An \<open>int\<close> is \<open>int\<close>, or \<open>32 word\<close> where the code
  stores it in memory that is copied as bytes or prints it.  A computation is \<open>None\<close> when the code
  does not come back within the language: it reads or writes outside an array, follows \<open>NULL\<close>, waits for a key
  that is not pressed, or recurses for ever.  So \<open>f x = Some y\<close> states that the code returns and touches no
  memory it does not own, and \<open>f x = None\<close> that it does not.  All state of the kernel is in the record
  \<open>'d kernel\<close> (\<open>Kernel_State\<close>); its fields are the static variables of the modules, the scan codes the
  keyboard will still deliver and the state \<open>'d\<close> of the device behind the ports.

  \<^bold>\<open>Theories and sources.\<close>
  \<^item> \<open>Kernel_Prelude\<close>: bytes, strings in buffers, checked accesses, searches.  \<open>Slot_Table\<close>: tables of named
    slots, with the locale \<open>slot_table\<close> (the contract of a search by name), interpreted for the user table
    and the node table.  \<open>File_Store\<close>: the locale \<open>file_store\<close> (writing and reading existing files), which
    \<open>Kernel_Store\<close> and \<open>Hosted_Store\<close> interpret on the two filesystems.  \<open>C_Strings\<close>: the locale \<open>c_strings\<close> (measure, copy, append, compare), which both string
    libraries interpret.
  \<^item> \<open>Kernel_String\<close>, \<open>Kernel_Memory\<close>, \<open>Kernel_IO\<close> with \<open>Terminal_Proofs\<close>, \<open>Kernel_Users\<close>, \<open>Kernel_Disk\<close>: the
    modules of the same names under kernel/.  \<open>Kernel_Disk\<close> states the PIO protocol of an
    ATA drive as the locale \<open>ata_device\<close>, what the driver needs beyond it as \<open>clean_drive\<close> (no ERR bit while
    busy) and \<open>tolerant_drive\<close> (a flush command that comes while the drive is busy has no effect), and a
    disk of sectors as \<open>sector_disk\<close>; the driver is proved to give a \<open>sector_disk\<close> on every
    \<open>tolerant_drive\<close> (a \<open>sublocale\<close>), and a simulated drive is an interpretation.
  \<^item> \<open>Kernel_State\<close>, \<open>Kernel_Fs\<close>: all functions of kernel/filesystem.c.  \<open>Fs_Path\<close>: \<open>fs_resolve_path\<close> and its
    specification.  \<open>Fs_Tree\<close>: well-formed node tables and the tree they stand for (\<open>fs_view\<close>).  \<open>Fs_Disk\<close>:
    the codec and the image.  \<open>Fs_Ops\<close> and \<open>Fs_Move\<close>: every operation as a refinement of an operation on the
    tree; \<open>Fs_Move_Limits\<close>: the moves that overrun an array.  \<open>Fs_Boot\<close>: \<open>fs_init\<close>.  \<open>Disk_Images\<close>: images nobody saved.  \<open>Fs_Properties\<close>: the results.
  \<^item> \<open>Kernel_Connector\<close> (kernel/kernel_connector.c), \<open>Kernel_Programs\<close> (progs/*.c), \<open>Kernel_Shell\<close>
    (kernel/kernel.c): definitions.  \<open>Kernel_Machine\<close>: the invariant \<open>machine_ok\<close>.  \<open>Kernel_Commands\<close>,
    \<open>Shell_Parse\<close>, \<open>Shell_Session\<close>, \<open>Kernel_Boot\<close>: commands, lines, rounds and start-up on such machines.
    \<open>Kernel_Properties\<close>: the session of a machine as a step relation, and the results about the whole system.
    \<open>Connector_Types\<close>: the dispatcher as an abstract machine on the tree and the table of accounts.
  \<^item> \<open>Hosted_String\<close>, \<open>Hosted_Io\<close>, \<open>Hosted_Fs\<close>, \<open>Hosted_Commands\<close> (src/string.c, io.c, filesystem.c, commands.c),
    \<open>Hosted_Shell\<close> (src/shell.c, src/main.c).

  \<^bold>\<open>What is shown.\<close>  Strings and paths: closed forms of all loops; \<open>fs_resolve_path\<close> normalises a path and
  overflows exactly when the specification says so.  Tree: create, delete, move, copy, write, append, read,
  list and the queries implement operations on a map from component lists to files and directories, with
  every return code; the node table stays well-formed.  Disk: the driver returns on every device; on tolerant
  drives sectors are read back (the PIO protocol alone is not enough for that), a saved table survives a restart, a blank drive is formatted, any image with a valid header
  is adopted unchecked.  Terminal: the ring and the viewport stay consistent, a printed character is visible,
  line input is a line editor.  Users: the table is a map with a current user and only an administrator
  changes it.  Connector: transparent, and the requests on files and accounts serve the abstract machine.  Commands and shell: within the limits of the arrays a
  round returns to a well-formed machine, beyond them it overruns an array (an equivalence); over every
  session the tree in memory and the image on the drive agree, so a reboot brings the tree back.  Hosted
  variant: the filesystem refines a list of named entries, the editor stores the lines typed, the string
  functions agree with the kernel's up to the sign of a comparison, the shell runs no command.  Theorems about defects state them as they
  are: the driver does not wait where the protocol asks for it, the bound of \<open>fs_append_file\<close> wraps, logging out can log an
  administrator in, a new hosted file shows the content of a deleted one, and names and data of the hosted
  filesystem overrun their arrays.

  \<^bold>\<open>Bounds.\<close>  \<open>POLL_LIMIT\<close> is the 100000 rounds of the driver's own polling loops, so these loops need no fuel;
  all other loops are structural or have a measure, with three exceptions.  The recursion of
  \<open>rebuild_child_paths\<close> is a partial function, \<open>None\<close> where it does not return; on a well-formed table it is
  proved to return exactly when the destination lies outside the moved entry and all new paths fit.
  \<open>shell_run\<close> and \<open>od_loop\<close> are endless in the code; the model runs any number of rounds of the first, and of
  the second one round for each answer of \<open>malloc\<close>, so the statements hold for every number of rounds.

  \<^bold>\<open>Assumptions.\<close>  Where a theorem says so, the drive is a \<open>tolerant_drive\<close>: it follows the PIO protocol,
  shows no ERR bit while it is busy, and ignores a flush command that comes while it is busy.  The last two
  are not part of the protocol (\<open>protocol_not_enough\<close> shows drives that keep the protocol and on which the
  driver fails), so these theorems speak of the drives that behave so, emulated ones among them.  A drive that is switched
  off and on keeps every sector it has accepted; the loss of a volatile write cache is not modelled.  Automatic
  arrays start as zeros (\<open>fresh\<close>); the code writes them before it reads them, except \<open>command_buffer\<close> of
  src/shell.c, which is an argument of the model because the shell may read it unwritten.  \<open>desktop_run\<close>,
  which progs/desktop.c calls, is in no file of the repository: an argument of the shell of which nothing is
  assumed, so the theorems about rounds and sessions leave out the command \<open>desktop\<close>.  What \<open>malloc\<close>
  returns, what the command \<open>clear\<close> prints, and the functions src/shell.c uses and no file defines are
  arguments too (the record \<open>od_env\<close>).

  \<^bold>\<open>Not modelled.\<close>  The assembly of boot/kernel_entry.asm (the multiboot header, the stack, the call of
  \<open>kmain\<close>), prototypes, and the code a forked child of src/shell.c runs.
\<close>

section \<open>Both variants\<close>

text \<open>
  C36: Either filesystem remembers the last text.  On a well-formed machine any sequence of writes to
  existing files, of texts that fit, succeeds, and afterwards every file shows the last text written to
  it, or what it showed before when none was: the bytes \<open>fs_read_file\<close> puts in the buffer in the kernel,
  the page \<open>fs_read_file\<close> prints in the hosted variant.
\<close>

theorem stores_remember:
  assumes "fs_ok k" "\<forall>(cs, d) \<in> set ws. store_has k cs \<and> store_fits d"
    and "h_ok h" "\<forall>(nm, d) \<in> set vs. h_has h nm \<and> h_fits d"
  shows "(\<exists>k'. run_writes (store_write hw) ws k = Some k' \<and> fs_ok k' \<and>
       (\<forall>cs. store_has k cs \<longrightarrow> store_read cs k' =
          (case map_of (rev ws) cs of Some d \<Rightarrow> Some d | None \<Rightarrow> store_read cs k))) \<and>
     (\<exists>h'. run_writes h_put vs h = Some h' \<and> h_ok h' \<and>
       (\<forall>nm. h_has h nm \<longrightarrow> h_show nm h' =
          (case map_of (rev vs) nm of Some d \<Rightarrow> Some (h_page d) | None \<Rightarrow> h_show nm h)))"
  using kernel_store.remembers [OF assms(1,2)] hosted_store.remembers [OF assms(3,4)] by blast

lemma stores_remember_witness:
  "(\<exists>k'. run_writes (store_write sim_ports)
       [([bytes_of ''home'', bytes_of ''readme.txt''], bytes_of ''one''), ([bytes_of ''home'', bytes_of ''readme.txt''], bytes_of ''two'')]
       kernel_up = Some k' \<and>
     store_read [bytes_of ''home'', bytes_of ''readme.txt''] k' = Some (bytes_of ''two'')) \<and>
   (\<exists>h'. run_writes h_put [(bytes_of ''key'', bytes_of ''one''), (bytes_of ''key'', bytes_of ''two'')]
       (hosted_start\<lparr>h_fs := Some secret_table\<rparr>) = Some h' \<and>
     h_show (bytes_of ''key'') h' = Some (h_page (bytes_of ''two'')))"
proof -
  let ?cs = "[bytes_of ''home'', bytes_of ''readme.txt'']" and ?h = "hosted_start\<lparr>h_fs := Some secret_table\<rparr>"
  have cs: "comps_ok ?cs" "length (path_of ?cs) < 128" by code_simp+
  have k: "store_has kernel_up ?cs" using cs sample_views(3) by (simp add: store_has_def kernel_up(3))
  have f: "store_fits (bytes_of ''one'')" "store_fits (bytes_of ''two'')" "h_fits (bytes_of ''one'')" "h_fits (bytes_of ''two'')"
    by code_simp+
  have "distinct (map fst (h_rows secret_table))" using secret_table(1) by (simp add: hfs_wf_def)
  then have "(bytes_of ''key'', HDir) \<notin> set (h_rows secret_table)" using secret_rows eq_key_imp_eq_value by fastforce
  then have h: "h_ok ?h" "h_has ?h (bytes_of ''key'')"
    using secret_table(1) secret_rows by (force simp: h_ok_def h_has_def)+
  show ?thesis
    using stores_remember [OF kernel_up(2) _ h(1), of "[(?cs, bytes_of ''one''), (?cs, bytes_of ''two'')]"
        "[(bytes_of ''key'', bytes_of ''one''), (bytes_of ''key'', bytes_of ''two'')]" sim_ports] k f h(2) by auto
qed

end
